(* ===== verification/Prelude.thy ===== *)
theory Prelude
  imports Main "HOL-Library.AList" "HOL-Library.List_Lexorder" "HOL-Library.Char_ord"
begin

text \<open>
  Shared vocabulary of the development: the exceptions the Python modules raise, results that
  are either an exception or a value, Python dictionaries as association lists that keep
  insertion order, and the theorem collections the component proofs share.
  Exception messages are dropped: no caller in the repository branches on them.
\<close>

named_theorems dict_simps \<open>lookups after dictionary updates\<close>
named_theorems py_eval \<open>definitions the simplifier may unfold on concrete values\<close>
named_theorems res_simps \<open>sequencing of computations that may raise\<close>

section \<open>Exceptions and results\<close>

datatype exc =
    StateUnavailable
  | InvalidJsonState
  | LockTimeout
  | DurabilityUncertain
  | CapacityError
  | StateStoreError
  | PermissionError
  | ValueError
  | TypeError
  | OverflowError
  | AttributeError
  | OSError
  | InvalidOnlineSnapshot
  | RecoveryError

type_synonym 'a res = "exc + 'a"

definition rbind :: "'a res \<Rightarrow> ('a \<Rightarrow> 'b res) \<Rightarrow> 'b res" where
  "rbind r f = (case r of Inl e \<Rightarrow> Inl e | Inr x \<Rightarrow> f x)"

lemma rbind_Inl [simp, res_simps]: "rbind (Inl e) f = Inl e"
  by (simp add: rbind_def)

lemma rbind_Inr [simp, res_simps]: "rbind (Inr x) f = f x"
  by (simp add: rbind_def)

lemma rbind_eq_Inr [res_simps]: "rbind r f = Inr y \<longleftrightarrow> (\<exists>x. r = Inr x \<and> f x = Inr y)"
  by (cases r) auto

lemma rbind_assoc: "rbind (rbind r f) g = rbind r (\<lambda>x. rbind (f x) g)"
  by (cases r) auto

text \<open>\<open>raise_if c e\<close> is the statement \<^verbatim>\<open>if c: raise e\<close>.\<close>

definition raise_if :: "bool \<Rightarrow> exc \<Rightarrow> unit res" where
  "raise_if c e = (if c then Inl e else Inr ())"

lemma raise_if_Inr [simp, res_simps]: "raise_if c e = Inr u \<longleftrightarrow> \<not> c"
  by (simp add: raise_if_def)

lemma raise_if_False [simp]: "raise_if False e = Inr ()"
  by (simp add: raise_if_def)

lemma raise_if_True [simp]: "raise_if True e = Inl e"
  by (simp add: raise_if_def)

text \<open>A \<^verbatim>\<open>for\<close> loop that collects a value per element and stops at the first exception.\<close>

fun collect :: "('a \<Rightarrow> 'b res) \<Rightarrow> 'a list \<Rightarrow> 'b list res" where
  "collect f [] = Inr []"
| "collect f (x # xs) = rbind (f x) (\<lambda>y. rbind (collect f xs) (\<lambda>ys. Inr (y # ys)))"

text \<open>A \<^verbatim>\<open>for\<close> loop that threads an accumulator and stops at the first exception.\<close>

fun fold_res :: "('a \<Rightarrow> 'b \<Rightarrow> 'b res) \<Rightarrow> 'a list \<Rightarrow> 'b \<Rightarrow> 'b res" where
  "fold_res f [] s = Inr s"
| "fold_res f (x # xs) s = rbind (f x s) (fold_res f xs)"

text \<open>A \<^verbatim>\<open>for\<close> loop that only checks.\<close>

fun check_all :: "('a \<Rightarrow> unit res) \<Rightarrow> 'a list \<Rightarrow> unit res" where
  "check_all f [] = Inr ()"
| "check_all f (x # xs) = rbind (f x) (\<lambda>_. check_all f xs)"

lemma check_all_Inr: "check_all f xs = Inr u \<longleftrightarrow> (\<forall>x \<in> set xs. f x = Inr ())"
  by (induction xs) (auto simp: rbind_eq_Inr)

lemma collect_Inr_length: "collect f xs = Inr ys \<Longrightarrow> length ys = length xs"
  by (induction xs arbitrary: ys) (auto simp: rbind_eq_Inr)

lemma collect_Inr_nth:
  "collect f xs = Inr ys \<Longrightarrow> list_all2 (\<lambda>x y. f x = Inr y) xs ys"
  by (induction xs arbitrary: ys) (auto simp: rbind_eq_Inr)

section \<open>Dictionaries\<close>

text \<open>
  A Python dictionary with string keys is an association list in insertion order.
  \<^verbatim>\<open>d.get(k)\<close> is \<^term>\<open>map_of d k\<close>, \<^verbatim>\<open>d[k] = v\<close> is \<^const>\<open>AList.update\<close> (in place, or
  appended when the key is new) and \<^verbatim>\<open>d.pop(k, None)\<close> is \<^const>\<open>AList.delete\<close>.
  Every dictionary the model builds has distinct keys.
\<close>

type_synonym 'v dict = "(string \<times> 'v) list"

definition wf_dict :: "'v dict \<Rightarrow> bool" where
  "wf_dict d \<longleftrightarrow> distinct (map fst d)"

definition dkeys :: "'v dict \<Rightarrow> string list" where
  "dkeys d = map fst d"

lemma map_of_update [simp, dict_simps]:
  "map_of (AList.update k v d) x = (if x = k then Some v else map_of d x)"
  by (simp add: update_conv')

lemma map_of_delete [simp, dict_simps]:
  "map_of (AList.delete k d) x = (if x = k then None else map_of d x)"
  by (simp add: delete_conv')

lemma wf_dict_update [intro, simp]: "wf_dict d \<Longrightarrow> wf_dict (AList.update k v d)"
  unfolding wf_dict_def by (rule distinct_update)

lemma wf_dict_delete [intro, simp]: "wf_dict d \<Longrightarrow> wf_dict (AList.delete k d)"
  unfolding wf_dict_def by (rule distinct_delete)

lemma wf_dict_filter [intro, simp]: "wf_dict d \<Longrightarrow> wf_dict (filter P d)"
  by (simp add: wf_dict_def distinct_map_filter)

lemma wf_dict_Nil [simp]: "wf_dict []"
  by (simp add: wf_dict_def)

lemma map_of_wf: "wf_dict d \<Longrightarrow> map_of d k = Some v \<longleftrightarrow> (k, v) \<in> set d"
  unfolding wf_dict_def by (rule map_of_eq_Some_iff)

lemma length_update:
  "length (AList.update k v d) = (if k \<in> fst ` set d then length d else Suc (length d))"
  by (induction d) auto

lemma length_delete_le: "length (AList.delete k d) \<le> length d"
  by (simp add: AList.delete_eq)

lemma set_update_subset: "set (AList.update k v d) \<subseteq> insert (k, v) (set d)"
  by (induction d) auto

lemma update_in_set: "(k, v) \<in> set (AList.update k v d)"
  by (induction d) auto

lemma set_delete_subset: "set (AList.delete k d) \<subseteq> set d"
  by (auto simp: AList.delete_eq)

lemma map_of_filter_wf:
  "wf_dict d \<Longrightarrow> map_of (filter P d) k = (case map_of d k of None \<Rightarrow> None
     | Some v \<Rightarrow> if P (k, v) then Some v else None)"
  by (induction d) (auto simp: wf_dict_def split: option.splits dest: map_of_SomeD
      intro!: map_of_eq_None_iff [THEN iffD2] image_eqI)

section \<open>Lists\<close>

lemma last_k_length: "length (drop (length xs - k) xs) \<le> k"
  by simp

section \<open>Evaluation\<close>

lemma funpow_numeral_eval: "(f ^^ numeral k) x = (f ^^ pred_numeral k) (f x)"
  by (simp add: numeral_eq_Suc funpow_swap1)

declare funpow_numeral_eval [py_eval] Let_def [py_eval] min_def [py_eval] max_def [py_eval]

section \<open>The least element of a sorted list\<close>

lemma sort_key_hd:
  assumes "sort_key f xs = y # ys"
  shows "y \<in> set xs \<and> (\<forall>x \<in> set xs. f y \<le> f x)"
proof -
  have s: "set (y # ys) = set xs" using assms by (metis set_sort)
  have "sorted (map f (y # ys))" using assms by (metis sorted_sort_key)
  then have "\<forall>x \<in> set (y # ys). f y \<le> f x" by auto
  with s show ?thesis by auto
qed

end
