(* ===== verification/PyText.thy ===== *)
theory PyText
  imports Prelude
begin

text \<open>
  The string operations the Python code uses. A Python \<^verbatim>\<open>str\<close> is a list of characters with
  code points below 256; the state files are written with \<^verbatim>\<open>ensure_ascii=True\<close> and every key and
  credential the code accepts is ASCII.
\<close>

section \<open>Whitespace and stripping\<close>

definition py_space :: "char \<Rightarrow> bool" where
  "py_space c \<longleftrightarrow> c \<in> set [CHR 0x20, CHR 0x09, CHR 0x0A, CHR 0x0B, CHR 0x0C, CHR 0x0D,
     CHR 0x1C, CHR 0x1D, CHR 0x1E, CHR 0x1F, CHR 0x85, CHR 0xA0]"

definition strip_with :: "(char \<Rightarrow> bool) \<Rightarrow> string \<Rightarrow> string" where
  "strip_with P s = rev (dropWhile P (rev (dropWhile P s)))"

definition py_strip :: "string \<Rightarrow> string" where
  "py_strip s = strip_with py_space s"

definition ends_with :: "string \<Rightarrow> string \<Rightarrow> bool" where
  "ends_with suf s \<longleftrightarrow> length suf \<le> length s \<and> drop (length s - length suf) s = suf"

definition starts_with :: "string \<Rightarrow> string \<Rightarrow> bool" where
  "starts_with pre s \<longleftrightarrow> take (length pre) s = pre"

section \<open>Character classes\<close>

definition is_digit :: "char \<Rightarrow> bool" where
  "is_digit c \<longleftrightarrow> c \<in> set ''0123456789''"

definition is_alpha :: "char \<Rightarrow> bool" where
  "is_alpha c \<longleftrightarrow> c \<in> set ''abcdefghijklmnopqrstuvwxyz'' \<or> c \<in> set ''ABCDEFGHIJKLMNOPQRSTUVWXYZ''"

text \<open>The value of a digit in any base up to 16; 16 for every other character.\<close>

definition digit_table :: "(char \<times> nat) list" where
  "digit_table = zip ''0123456789abcdefABCDEF'' ([0..<16] @ [10..<16])"

definition digit_val :: "char \<Rightarrow> nat" where
  "digit_val c = (case map_of digit_table c of None \<Rightarrow> 16 | Some n \<Rightarrow> n)"

definition digit_char :: "nat \<Rightarrow> char" where
  "digit_char n = (if n < 10 then ''0123456789'' ! n else CHR ''?'')"

lemma digit_table_eq [code]: "digit_table =
   [(CHR ''0'', 0), (CHR ''1'', 1), (CHR ''2'', 2), (CHR ''3'', 3), (CHR ''4'', 4), (CHR ''5'', 5),
    (CHR ''6'', 6), (CHR ''7'', 7), (CHR ''8'', 8), (CHR ''9'', 9), (CHR ''a'', 10), (CHR ''b'', 11),
    (CHR ''c'', 12), (CHR ''d'', 13), (CHR ''e'', 14), (CHR ''f'', 15), (CHR ''A'', 10), (CHR ''B'', 11),
    (CHR ''C'', 12), (CHR ''D'', 13), (CHR ''E'', 14), (CHR ''F'', 15)]"
  by (simp add: digit_table_def upt_rec)

lemma less_10_cases:
  "(n::nat) < 10 \<Longrightarrow> n = 0 \<or> n = 1 \<or> n = 2 \<or> n = 3 \<or> n = 4 \<or> n = 5 \<or> n = 6 \<or> n = 7 \<or> n = 8 \<or> n = 9"
  by arith

lemma is_digit_digit_char [simp]: "n < 10 \<Longrightarrow> is_digit (digit_char n)"
  unfolding is_digit_def digit_char_def by (simp only: if_True) (rule nth_mem, simp)

lemma digit_val_digit_char [simp]: "n < 10 \<Longrightarrow> digit_val (digit_char n) = n"
  by (drule less_10_cases, elim disjE) (simp_all add: digit_val_def digit_char_def digit_table_eq)

lemma digit_char_less_iff: "m < 10 \<Longrightarrow> n < 10 \<Longrightarrow> digit_char m < digit_char n \<longleftrightarrow> m < n"
proof -
  have "\<forall>m \<in> set [0..<10]. \<forall>n \<in> set [0..<10].
      (of_char (''0123456789'' ! m) < (of_char (''0123456789'' ! n) :: nat)) = (m < n)"
    by (simp add: upt_rec)
  then show "m < 10 \<Longrightarrow> n < 10 \<Longrightarrow> digit_char m < digit_char n \<longleftrightarrow> m < n"
    by (simp add: digit_char_def less_char_def)
qed

lemma digit_char_inj: "m < 10 \<Longrightarrow> n < 10 \<Longrightarrow> digit_char m = digit_char n \<longleftrightarrow> m = n"
  by (metis digit_val_digit_char)

lemma digit_not_space: "is_digit c \<Longrightarrow> \<not> py_space c"
  by (auto simp: is_digit_def py_space_def)

section \<open>Decimal rendering\<close>

fun str_nat :: "nat \<Rightarrow> string" where
  "str_nat n = (if n < 10 then [digit_char n] else str_nat (n div 10) @ [digit_char (n mod 10)])"

declare str_nat.simps [simp del]

definition str_int :: "int \<Rightarrow> string" where
  "str_int i = (if i < 0 then CHR ''-'' # str_nat (nat (- i)) else str_nat (nat i))"

text \<open>Zero padding on the left, as \<^verbatim>\<open>%02d\<close> does.\<close>

definition pad_zero :: "nat \<Rightarrow> string \<Rightarrow> string" where
  "pad_zero w s = replicate (w - length s) (CHR ''0'') @ s"

text \<open>The value of a digit string in a base.\<close>

definition digits_val :: "nat \<Rightarrow> string \<Rightarrow> nat" where
  "digits_val b s = foldl (\<lambda>acc c. b * acc + digit_val c) 0 s"

lemma digits_val_snoc [simp]: "digits_val b (s @ [c]) = b * digits_val b s + digit_val c"
  by (simp add: digits_val_def)

lemma digits_val_Nil [simp]: "digits_val b [] = 0"
  by (simp add: digits_val_def)

lemma digits_val_str_nat [simp]: "digits_val 10 (str_nat n) = n"
proof (induction n rule: str_nat.induct)
  case (1 n)
  show ?case
  proof (cases "n < 10")
    case True
    then show ?thesis by (simp add: str_nat.simps [of n] digits_val_def)
  next
    case False
    with 1 show ?thesis by (simp add: str_nat.simps [of n])
  qed
qed

lemma str_nat_digits: "\<forall>c \<in> set (str_nat n). is_digit c"
proof (induction n rule: str_nat.induct)
  case (1 n)
  then show ?case by (cases "n < 10") (auto simp: str_nat.simps [of n])
qed

lemma str_nat_not_Nil [simp]: "str_nat n \<noteq> []"
  by (subst str_nat.simps) simp

lemma str_nat_inj [simp]: "str_nat m = str_nat n \<longleftrightarrow> m = n"
  by (metis digits_val_str_nat)

section \<open>Integer literals\<close>

text \<open>
  \<^verbatim>\<open>int(s, base)\<close>: surrounding whitespace, an optional sign, for base 16 an optional
  \<^verbatim>\<open>0x\<close> prefix (which may be followed by an underscore), then digits with single underscores
  between them. More than 4300 decimal digits raise ValueError as a malformed literal does.
\<close>

fun scan_digits :: "nat \<Rightarrow> bool \<Rightarrow> string \<Rightarrow> string option" where
  "scan_digits b prev [] = (if prev then Some [] else None)"
| "scan_digits b prev (c # cs) =
     (if digit_val c < b then map_option ((#) c) (scan_digits b True cs)
      else if c = CHR ''_'' \<and> prev then scan_digits b False cs
      else None)"

definition split_sign :: "string \<Rightarrow> bool \<times> string" where
  "split_sign s = (case s of
      [] \<Rightarrow> (False, [])
    | c # cs \<Rightarrow> if c = CHR ''-'' then (True, cs) else if c = CHR ''+'' then (False, cs) else (False, s))"

definition drop_hex_prefix :: "string \<Rightarrow> string" where
  "drop_hex_prefix s = (case s of
      z # x # rest \<Rightarrow>
        if z = CHR ''0'' \<and> (x = CHR ''x'' \<or> x = CHR ''X'')
        then (case rest of
                u # rest' \<Rightarrow> if u = CHR ''_'' then rest' else rest
              | [] \<Rightarrow> rest)
        else s
    | _ \<Rightarrow> s)"

definition int_literal :: "nat \<Rightarrow> string \<Rightarrow> int option" where
  "int_literal b s =
     (let (neg, body) = split_sign (py_strip s);
          body' = (if b = 16 then drop_hex_prefix body else body)
      in case scan_digits b False body' of
           None \<Rightarrow> None
         | Some ds \<Rightarrow>
             if b = 10 \<and> 4300 < length ds then None
             else Some (if neg then - int (digits_val b ds) else int (digits_val b ds)))"

lemma strip_digits: "\<forall>c \<in> set s. \<not> P c \<Longrightarrow> strip_with P s = s"
proof -
  assume a: "\<forall>c \<in> set s. \<not> P c"
  then have "dropWhile P s = s" by (cases s) auto
  moreover from a have "dropWhile P (rev s) = rev s" by (cases "rev s") (auto dest: arg_cong [where f = set])
  ultimately show ?thesis by (simp add: strip_with_def)
qed

lemma py_strip_digits: "\<forall>c \<in> set s. is_digit c \<Longrightarrow> py_strip s = s"
  unfolding py_strip_def by (rule strip_digits) (auto dest: digit_not_space)

lemma digit_val_is_digit: "is_digit c \<Longrightarrow> digit_val c < 10"
proof -
  assume "is_digit c"
  then have "c = CHR ''0'' \<or> c = CHR ''1'' \<or> c = CHR ''2'' \<or> c = CHR ''3'' \<or> c = CHR ''4'' \<or> c = CHR ''5''
      \<or> c = CHR ''6'' \<or> c = CHR ''7'' \<or> c = CHR ''8'' \<or> c = CHR ''9''"
    by (simp add: is_digit_def)
  then show ?thesis by (elim disjE) (simp_all add: digit_val_def digit_table_eq)
qed

lemma scan_digits_all: "\<forall>c \<in> set s. is_digit c \<Longrightarrow> prev \<or> s \<noteq> [] \<Longrightarrow> scan_digits 10 prev s = Some s"
  by (induction s arbitrary: prev) (auto simp: digit_val_is_digit)

lemma digit_not_sign: "is_digit c \<Longrightarrow> c \<noteq> CHR ''-'' \<and> c \<noteq> CHR ''+''"
  by (auto simp: is_digit_def)

lemma split_sign_digit: "s \<noteq> [] \<Longrightarrow> \<forall>c \<in> set s. is_digit c \<Longrightarrow> split_sign s = (False, s)"
  by (cases s) (simp_all add: split_sign_def digit_not_sign)

lemma int_literal_digits:
  assumes "\<forall>c \<in> set s. is_digit c" and "s \<noteq> []" and "length s \<le> 4300"
  shows "int_literal 10 s = Some (int (digits_val 10 s))"
  using assms
  by (simp add: int_literal_def py_strip_digits split_sign_digit scan_digits_all)

lemma int_literal_str_nat:
  "length (str_nat n) \<le> 4300 \<Longrightarrow> int_literal 10 (str_nat n) = Some (int n)"
  using int_literal_digits [OF str_nat_digits, of n] by simp

section \<open>UUID literals\<close>

text \<open>
  \<^verbatim>\<open>uuid.UUID(s)\<close> drops every \<^verbatim>\<open>urn:\<close> and then every \<^verbatim>\<open>uuid:\<close>, strips braces, drops dashes,
  wants 32 characters and reads them with \<^verbatim>\<open>int(_, 16)\<close>; the value must fit 128 bits.
  The value stands for the object's \<^verbatim>\<open>.hex\<close>, its 32-digit rendering.
\<close>

fun remove_all :: "string \<Rightarrow> nat \<Rightarrow> string \<Rightarrow> string" where
  "remove_all pat n [] = []"
| "remove_all pat 0 (c # cs) =
     (if starts_with pat (c # cs) then remove_all pat (length pat - 1) cs
      else c # remove_all pat 0 cs)"
| "remove_all pat (Suc n) (c # cs) = remove_all pat n cs"

definition uuid_value :: "string \<Rightarrow> int option" where
  "uuid_value s =
     (let h = remove_all ''uuid:'' 0 (remove_all ''urn:'' 0 s);
          h' = filter (\<lambda>c. c \<noteq> CHR ''-'') (strip_with (\<lambda>c. c = CHR ''{'' \<or> c = CHR ''}'') h)
      in if length h' \<noteq> 32 then None
         else case int_literal 16 h' of
                None \<Rightarrow> None
              | Some i \<Rightarrow> if 0 \<le> i \<and> i < 2 ^ 128 then Some i else None)"

section \<open>Fixed-width decimals and their order\<close>

lemma length_str_nat_lt: "n < 10 ^ Suc w \<Longrightarrow> length (str_nat n) \<le> Suc w"
proof (induction w arbitrary: n)
  case 0
  then show ?case by (simp add: str_nat.simps [of n])
next
  case (Suc w)
  show ?case
  proof (cases "n < 10")
    case True
    then show ?thesis by (simp add: str_nat.simps [of n])
  next
    case False
    from Suc.prems have "n div 10 < 10 ^ Suc w" by (simp add: less_mult_imp_div_less mult.commute)
    from Suc.IH [OF this] False show ?thesis by (simp add: str_nat.simps [of n])
  qed
qed

lemma pad_zero_snoc:
  "10 \<le> n \<Longrightarrow> pad_zero (Suc w) (str_nat n) = pad_zero w (str_nat (n div 10)) @ [digit_char (n mod 10)]"
  by (simp add: str_nat.simps [of n] pad_zero_def)

lemma digit_char_0: "digit_char 0 = CHR ''0''"
  by (simp add: digit_char_def)

text \<open>A padded number is the padded leading digits followed by the last digit, for every number.\<close>

lemma pad_zero_step:
  assumes "0 < w"
  shows "pad_zero (Suc w) (str_nat n) = pad_zero w (str_nat (n div 10)) @ [digit_char (n mod 10)]"
proof (cases "10 \<le> n")
  case True
  then show ?thesis by (rule pad_zero_snoc)
next
  case False
  then have "str_nat n = [digit_char n]" and "str_nat (n div 10) = [digit_char 0]"
    by (simp_all add: str_nat.simps [of n] str_nat.simps [of 0])
  with assms False show ?thesis
    by (cases w) (simp_all add: pad_zero_def digit_char_0 replicate_append_same)
qed

lemma length_pad_zero: "n < 10 ^ w \<Longrightarrow> 0 < w \<Longrightarrow> length (pad_zero w (str_nat n)) = w"
  using length_str_nat_lt [of n "w - 1"] by (cases w) (auto simp: pad_zero_def)

lemma snoc_less_snoc:
  fixes xs ys :: "'a::linorder list"
  assumes "length xs = length ys"
  shows "xs @ [a] < ys @ [b] \<longleftrightarrow> xs < ys \<or> xs = ys \<and> a < b"
  using assms by (induction xs ys rule: list_induct2) auto

lemma append_less_append:
  fixes xs ys :: "'a::linorder list"
  assumes "length xs = length ys"
  shows "xs @ us < ys @ vs \<longleftrightarrow> xs < ys \<or> xs = ys \<and> us < vs"
  using assms by (induction xs ys rule: list_induct2) auto

lemma less_iff_div_mod_10:
  "(m::nat) < n \<longleftrightarrow> m div 10 < n div 10 \<or> m div 10 = n div 10 \<and> m mod 10 < n mod 10"
proof -
  have m: "m = 10 * (m div 10) + m mod 10" and n: "n = 10 * (n div 10) + n mod 10"
    by simp_all
  have "m mod 10 < 10" and "n mod 10 < 10" by simp_all
  with m n show ?thesis by linarith
qed

lemma pad_zero_less:
  "m < 10 ^ w \<Longrightarrow> n < 10 ^ w \<Longrightarrow> 0 < w \<Longrightarrow>
     pad_zero w (str_nat m) < pad_zero w (str_nat n) \<longleftrightarrow> m < n"
proof (induction w arbitrary: m n)
  case 0
  then show ?case by simp
next
  case (Suc w)
  show ?case
  proof (cases w)
    case 0
    with Suc.prems show ?thesis
      by (simp add: str_nat.simps [of m] str_nat.simps [of n] pad_zero_def digit_char_less_iff)
  next
    case (Suc v)
    then have w: "0 < w" by simp
    from Suc.prems have b: "m div 10 < 10 ^ w" "n div 10 < 10 ^ w"
      by (simp_all add: less_mult_imp_div_less mult.commute)
    have len: "length (pad_zero w (str_nat (m div 10))) = length (pad_zero w (str_nat (n div 10)))"
      using b w by (simp add: length_pad_zero)
    have eq: "pad_zero w (str_nat (m div 10)) = pad_zero w (str_nat (n div 10)) \<longleftrightarrow> m div 10 = n div 10"
      using Suc.IH [OF b w] Suc.IH [OF b(2) b(1) w] by (metis less_irrefl linorder_neqE_nat)
    have dig: "digit_char (m mod 10) < digit_char (n mod 10) \<longleftrightarrow> m mod 10 < n mod 10"
      by (simp add: digit_char_less_iff)
    show ?thesis
      unfolding pad_zero_step [OF w] snoc_less_snoc [OF len] Suc.IH [OF b w] eq dig
      using less_iff_div_mod_10 [of m n] by simp
  qed
qed

lemma pad_zero_inj:
  "m < 10 ^ w \<Longrightarrow> n < 10 ^ w \<Longrightarrow> 0 < w \<Longrightarrow>
     pad_zero w (str_nat m) = pad_zero w (str_nat n) \<longleftrightarrow> m = n"
  using pad_zero_less [of m w n] pad_zero_less [of n w m] by (metis less_irrefl linorder_neqE_nat)

section \<open>Evaluation\<close>

declare str_nat.simps [py_eval] str_int_def [py_eval] pad_zero_def [py_eval] digit_char_def [py_eval]
  digit_table_eq [py_eval] digit_val_def [py_eval] is_digit_def [py_eval] is_alpha_def [py_eval]
  py_space_def [py_eval] strip_with_def [py_eval] py_strip_def [py_eval] ends_with_def [py_eval]
  starts_with_def [py_eval] digits_val_def [py_eval] split_sign_def [py_eval]
  drop_hex_prefix_def [py_eval] int_literal_def [py_eval] uuid_value_def [py_eval]
  less_char_def [py_eval]

end
