(* ===== verification/PyFloat.thy ===== *)
theory PyFloat
  imports Prelude Complex_Main
begin

text \<open>
  The numbers the code computes with besides unbounded integers: IEEE doubles and the
  \<^verbatim>\<open>decimal\<close> module. A finite double is the rational it denotes. \<open>round_sig b k\<close> rounds a
  rational to \<open>k\<close> significant base-\<open>b\<close> digits, ties to even: with base 2 and 53 digits
  it is the rounding of every double operation, with base 10 and 28 digits that of the default
  decimal context. The exponent is unbounded: the quantities of this program (byte counts,
  multipliers between 0.1 and 20, Unix times) lie well inside the normal range of a double.
  The sign of zero is not kept.
\<close>

datatype pyfloat = Fin rat | PInf | NInf | NaN

definition is_finite :: "pyfloat \<Rightarrow> bool" where
  "is_finite x = (case x of Fin _ \<Rightarrow> True | _ \<Rightarrow> False)"

section \<open>Digits and exponents\<close>

fun ndig :: "nat \<Rightarrow> nat \<Rightarrow> nat" where
  "ndig b n = (if n = 0 \<or> b < 2 then 0 else Suc (ndig b (n div b)))"

declare ndig.simps [simp del]

lemma ndig_bounds:
  assumes "2 \<le> b" and "0 < n"
  shows "b ^ (ndig b n - 1) \<le> n \<and> n < b ^ ndig b n \<and> 0 < ndig b n"
  using assms
proof (induction b n rule: ndig.induct)
  case (1 b n)
  then have nd: "ndig b n = Suc (ndig b (n div b))" by (subst ndig.simps) simp
  show ?case
  proof (cases "n div b = 0")
    case True
    with "1.prems" nd show ?thesis
      by (auto simp: ndig.simps [of b 0] div_eq_0_iff)
  next
    case False
    then have IH: "b ^ (ndig b (n div b) - 1) \<le> n div b" "n div b < b ^ ndig b (n div b)"
      "0 < ndig b (n div b)"
      using 1 by auto
    have "b ^ ndig b (n div b) = b * b ^ (ndig b (n div b) - 1)"
      using IH(3) by (cases "ndig b (n div b)") auto
    also have "\<dots> \<le> b * (n div b)" using IH(1) by simp
    also have "\<dots> \<le> n" by simp
    finally have lo: "b ^ ndig b (n div b) \<le> n" .
    have "n < b * Suc (n div b)" using "1.prems"(1) by (simp add: dividend_less_times_div)
    also have "\<dots> \<le> b * b ^ ndig b (n div b)" using IH(2) by (intro mult_le_mono2) simp
    finally show ?thesis using lo nd by simp
  qed
qed

text \<open>\<open>expo b x\<close> is the exponent of the leading base-\<open>b\<close> digit of a positive \<open>x\<close>.\<close>

definition expo :: "nat \<Rightarrow> rat \<Rightarrow> int" where
  "expo b x = (let (p, q) = quotient_of x;
                   e = int (ndig b (nat p)) - int (ndig b (nat q))
               in if x < of_nat b powi e then e - 1 else e)"

lemma expo_bounds:
  assumes b: "2 \<le> b" and x: "0 < x"
  shows "of_nat b powi expo b x \<le> x \<and> x < of_nat b powi (expo b x + 1)"
proof -
  obtain p q where pq: "quotient_of x = (p, q)" by fastforce
  from pq have q: "0 < q" by (rule quotient_of_denom_pos)
  have xe: "x = of_int p / of_int q" using pq by (rule quotient_of_div)
  with x q have p: "0 < p" by (simp add: zero_less_divide_iff)
  let ?B = "of_nat b :: rat"
  define m where "m = ndig b (nat p)"
  define n where "n = ndig b (nat q)"
  have P: "b ^ (m - 1) \<le> nat p" "nat p < b ^ m" "0 < m"
    using ndig_bounds [OF b, of "nat p"] p unfolding m_def by simp_all
  have Q: "b ^ (n - 1) \<le> nat q" "nat q < b ^ n" "0 < n"
    using ndig_bounds [OF b, of "nat q"] q unfolding n_def by simp_all
  have B: "0 < ?B" "1 < ?B" using b by simp_all
  have tr: "of_nat (b ^ k) = ?B powi int k" for k
    by (simp add: power_int_of_nat)
  have p1: "?B powi (int m - 1) \<le> of_int p"
    using P(1,3) p by (metis of_nat_le_iff of_nat_nat less_imp_le of_int_of_nat_eq tr of_nat_diff
        Suc_leI of_nat_1 One_nat_def)
  have p2: "of_int p < ?B powi int m"
    using P(2) p by (metis of_nat_less_iff of_nat_nat less_imp_le of_int_of_nat_eq tr)
  have q1: "?B powi (int n - 1) \<le> of_int q"
    using Q(1,3) q by (metis of_nat_le_iff of_nat_nat less_imp_le of_int_of_nat_eq tr of_nat_diff
        Suc_leI of_nat_1 One_nat_def)
  have q2: "of_int q < ?B powi int n"
    using Q(2) q by (metis of_nat_less_iff of_nat_nat less_imp_le of_int_of_nat_eq tr)
  define e where "e = int m - int n"
  have ex: "expo b x = (if x < ?B powi e then e - 1 else e)"
    by (simp add: expo_def pq m_def n_def e_def)
  have qpos: "(0::rat) < of_int q" using q by simp
  have "?B powi (e - 1) * of_int q \<le> ?B powi (e - 1) * ?B powi int n"
    using q2 B by (intro mult_left_mono) (auto simp: less_imp_le)
  also have "\<dots> = ?B powi (int m - 1)"
    by (subst power_int_add [symmetric]) (use B in \<open>simp_all add: e_def\<close>)
  also note p1
  finally have lo: "?B powi (e - 1) \<le> x"
    using qpos by (simp add: xe pos_le_divide_eq)
  have "of_int p < ?B powi int m" by (rule p2)
  also have "?B powi int m = ?B powi (e + 1) * ?B powi (int n - 1)"
    by (subst power_int_add [symmetric]) (use B in \<open>simp_all add: e_def\<close>)
  also have "\<dots> \<le> ?B powi (e + 1) * of_int q"
    using q1 B by (intro mult_left_mono) auto
  finally have hi: "x < ?B powi (e + 1)"
    using qpos by (simp add: xe pos_divide_less_eq)
  show ?thesis using lo hi by (auto simp: ex)
qed

lemma expo_unique:
  assumes b: "2 \<le> b" and "of_nat b powi k \<le> x" and "x < of_nat b powi (k + 1)"
  shows "expo b x = k"
proof -
  have B: "(1::rat) < of_nat b" using b by simp
  have x: "0 < x" using assms(2) B by (meson less_le_trans zero_less_power_int order_less_trans zero_less_one)
  note E = expo_bounds [OF b x]
  have "of_nat b powi k < (of_nat b :: rat) powi (expo b x + 1)"
    using assms(2) E by linarith
  then have "k < expo b x + 1" using B by (meson power_int_strict_increasing linorder_not_le power_int_increasing less_imp_le not_less)
  moreover have "of_nat b powi expo b x < (of_nat b :: rat) powi (k + 1)"
    using assms(3) E by linarith
  then have "expo b x < k + 1" using B by (meson power_int_strict_increasing linorder_not_le power_int_increasing less_imp_le not_less)
  ultimately show ?thesis by simp
qed

lemma expo_mono: "2 \<le> b \<Longrightarrow> 0 < x \<Longrightarrow> x \<le> y \<Longrightarrow> expo b x \<le> expo b y"
proof -
  assume b: "2 \<le> b" and x: "0 < x" and xy: "x \<le> y"
  have B: "(1::rat) < of_nat b" using b by simp
  from x xy have y: "0 < y" by simp
  have "of_nat b powi expo b x < (of_nat b :: rat) powi (expo b y + 1)"
    using expo_bounds [OF b x] expo_bounds [OF b y] xy by linarith
  then have "expo b x < expo b y + 1"
    using B by (meson power_int_increasing less_imp_le not_less)
  then show ?thesis by simp
qed

section \<open>Rounding\<close>

definition round_half_even :: "rat \<Rightarrow> int" where
  "round_half_even x = (let f = \<lfloor>x\<rfloor>; d = x - of_int f in
     if d < 1/2 then f else if 1/2 < d then f + 1 else if even f then f else f + 1)"

lemma round_half_even_error: "\<bar>of_int (round_half_even x) - x\<bar> \<le> 1/2"
proof -
  have "of_int \<lfloor>x\<rfloor> \<le> x" "x < of_int \<lfloor>x\<rfloor> + 1" by linarith+
  then show ?thesis by (auto simp: round_half_even_def Let_def abs_le_iff)
qed

lemma round_half_even_of_int [simp]: "round_half_even (of_int i) = i"
  by (simp add: round_half_even_def)

lemma round_half_even_mono:
  assumes "x \<le> y"
  shows "round_half_even x \<le> round_half_even y"
proof (cases "\<lfloor>x\<rfloor> = \<lfloor>y\<rfloor>")
  case True
  with assms show ?thesis by (auto simp: round_half_even_def Let_def)
next
  case False
  with assms have "\<lfloor>x\<rfloor> + 1 \<le> \<lfloor>y\<rfloor>" by (meson floor_mono le_neq_trans zless_imp_add1_zle)
  then show ?thesis by (auto simp: round_half_even_def Let_def)
qed

definition round_pos :: "nat \<Rightarrow> nat \<Rightarrow> rat \<Rightarrow> rat" where
  "round_pos b k x = (let u = of_nat b powi (expo b x - int k + 1) in
     of_int (round_half_even (x / u)) * u)"

definition round_sig :: "nat \<Rightarrow> nat \<Rightarrow> rat \<Rightarrow> rat" where
  "round_sig b k x = (if x = 0 then 0 else if 0 < x then round_pos b k x else - round_pos b k (- x))"

abbreviation fl :: "rat \<Rightarrow> rat" where "fl \<equiv> round_sig 2 53"

lemma round_pos_error_ulp:
  assumes "2 \<le> b"
  shows "\<bar>round_pos b k x - x\<bar> \<le> of_nat b powi (expo b x - int k + 1) / 2"
proof -
  define u where "u = (of_nat b powi (expo b x - int k + 1) :: rat)"
  have u: "0 < u" using assms by (simp add: u_def)
  have "round_pos b k x = of_int (round_half_even (x / u)) * u"
    by (simp add: round_pos_def u_def Let_def)
  then have "round_pos b k x - x = (of_int (round_half_even (x / u)) - x / u) * u"
    using u by (simp add: left_diff_distrib)
  also have "\<bar>\<dots>\<bar> = \<bar>of_int (round_half_even (x / u)) - x / u\<bar> * u"
    using u by (simp add: abs_mult)
  also have "\<dots> \<le> 1/2 * u"
    using round_half_even_error u by (intro mult_right_mono) auto
  finally show ?thesis by (simp add: u_def)
qed

lemma round_pos_error:
  assumes b: "2 \<le> b" and x: "0 < x"
  shows "\<bar>round_pos b k x - x\<bar> \<le> x * of_nat b powi (1 - int k) / 2"
proof -
  have B: "(of_nat b :: rat) \<noteq> 0" using b by simp
  have "of_nat b powi (expo b x - int k + 1) = of_nat b powi expo b x * (of_nat b :: rat) powi (1 - int k)"
    using B by (simp add: power_int_add [symmetric] algebra_simps)
  also have "\<dots> \<le> x * of_nat b powi (1 - int k)"
    using expo_bounds [OF b x] b by (intro mult_right_mono) auto
  finally show ?thesis using round_pos_error_ulp [OF b, of k x] by simp
qed

lemma scaled_power:
  assumes "2 \<le> b" and "0 \<le> j"
  shows "of_int (int b ^ nat j) * of_nat b powi m = (of_nat b :: rat) powi (j + m)"
proof -
  have "(of_nat b :: rat) powi (j + m) = of_nat b powi j * of_nat b powi m"
    using assms by (intro power_int_add) auto
  also have "(of_nat b :: rat) powi j = of_int (int b ^ nat j)"
    using assms by (simp add: power_int_def)
  finally show ?thesis by simp
qed

lemma round_pos_bounds:
  assumes b: "2 \<le> b" and x: "0 < x" and k: "0 < k"
  shows "of_nat b powi expo b x \<le> round_pos b k x
    \<and> round_pos b k x \<le> of_nat b powi (expo b x + 1)"
proof -
  let ?e = "expo b x"
  let ?u = "of_nat b powi (?e - int k + 1) :: rat"
  have u: "0 < ?u" using b by simp
  have lo: "of_int (int b ^ nat (int k - 1)) * ?u = of_nat b powi ?e"
    using scaled_power [OF b, of "int k - 1" "?e - int k + 1"] k by simp
  have hi: "of_int (int b ^ nat (int k)) * ?u = of_nat b powi (?e + 1)"
    using scaled_power [OF b, of "int k" "?e - int k + 1"] by (simp add: algebra_simps)
  have r: "round_pos b k x = of_int (round_half_even (x / ?u)) * ?u"
    by (simp only: round_pos_def Let_def)
  note E = expo_bounds [OF b x]
  have "of_int (int b ^ nat (int k - 1)) \<le> x / ?u"
    using E lo u by (simp only: pos_le_divide_eq)
  from round_half_even_mono [OF this]
  have 1: "int b ^ nat (int k - 1) \<le> round_half_even (x / ?u)"
    by (simp only: round_half_even_of_int)
  have "x / ?u \<le> of_int (int b ^ nat (int k))"
    using E hi u by (simp only: pos_divide_le_eq) simp
  from round_half_even_mono [OF this]
  have 2: "round_half_even (x / ?u) \<le> int b ^ nat (int k)"
    by (simp only: round_half_even_of_int)
  have "of_int (int b ^ nat (int k - 1)) * ?u \<le> of_int (round_half_even (x / ?u)) * ?u"
    using 1 u by (intro mult_right_mono) (simp_all only: of_int_le_iff less_imp_le)
  moreover have "of_int (round_half_even (x / ?u)) * ?u \<le> of_int (int b ^ nat (int k)) * ?u"
    using 2 u by (intro mult_right_mono) (simp_all only: of_int_le_iff less_imp_le)
  ultimately show ?thesis by (simp only: r lo hi)
qed

lemma round_pos_mono:
  assumes b: "2 \<le> b" and k: "0 < k" and x: "0 < x" and xy: "x \<le> y"
  shows "round_pos b k x \<le> round_pos b k y"
proof (cases "expo b x = expo b y")
  case True
  let ?u = "of_nat b powi (expo b y - int k + 1) :: rat"
  have u: "0 < ?u" using b by simp
  have "x / ?u \<le> y / ?u" using xy u by (simp only: divide_right_mono less_imp_le)
  from round_half_even_mono [OF this] u
  have "of_int (round_half_even (x / ?u)) * ?u \<le> of_int (round_half_even (y / ?u)) * ?u"
    by (intro mult_right_mono) (simp_all only: of_int_le_iff less_imp_le)
  with True show ?thesis by (simp only: round_pos_def Let_def)
next
  case False
  with expo_mono [OF b x xy] have lt: "expo b x + 1 \<le> expo b y" by simp
  have y: "0 < y" using x xy by simp
  have "round_pos b k x \<le> of_nat b powi (expo b x + 1)" using round_pos_bounds [OF b x k] ..
  also have "\<dots> \<le> of_nat b powi expo b y"
    using lt b by (intro power_int_increasing) auto
  also have "\<dots> \<le> round_pos b k y" using round_pos_bounds [OF b y k] ..
  finally show ?thesis .
qed

lemma round_pos_pos: "2 \<le> b \<Longrightarrow> 0 < k \<Longrightarrow> 0 < x \<Longrightarrow> 0 < round_pos b k x"
  by (rule less_le_trans [OF _ conjunct1 [OF round_pos_bounds]]) auto

lemma round_sig_mono:
  assumes "2 \<le> b" and "0 < k" and "x \<le> y"
  shows "round_sig b k x \<le> round_sig b k y"
proof -
  consider "0 < x" | "x \<le> 0" "0 \<le> y" | "y < 0" by linarith
  then show ?thesis
  proof cases
    case 1
    with assms show ?thesis by (simp add: round_sig_def round_pos_mono)
  next
    case 2
    have "round_sig b k x \<le> 0"
      using 2 round_pos_pos [OF assms(1,2), of "- x"] by (auto simp: round_sig_def)
    moreover have "0 \<le> round_sig b k y"
      using 2 round_pos_pos [OF assms(1,2), of y] by (auto simp: round_sig_def)
    ultimately show ?thesis by simp
  next
    case 3
    with assms round_pos_mono [OF assms(1,2), of "- y" "- x"] show ?thesis
      by (simp add: round_sig_def)
  qed
qed

lemma round_sig_error:
  assumes "2 \<le> b" and "0 \<le> x"
  shows "\<bar>round_sig b k x - x\<bar> \<le> x * of_nat b powi (1 - int k) / 2"
proof (cases "x = 0")
  case True
  then show ?thesis by (simp add: round_sig_def)
next
  case False
  with assms(2) have x: "0 < x" by simp
  then have "round_sig b k x = round_pos b k x" by (simp add: round_sig_def)
  with round_pos_error [OF assms(1) x] show ?thesis by (simp only:)
qed

lemma round_sig_nonneg: "2 \<le> b \<Longrightarrow> 0 < k \<Longrightarrow> 0 \<le> x \<Longrightarrow> 0 \<le> round_sig b k x"
  using round_pos_pos [of b k x] by (auto simp: round_sig_def)

lemma fl_mono: "x \<le> y \<Longrightarrow> fl x \<le> fl y"
  by (rule round_sig_mono) simp_all

lemma fl_nonneg: "0 \<le> x \<Longrightarrow> 0 \<le> fl x"
  by (rule round_sig_nonneg) simp_all

lemma fl_error: "0 \<le> x \<Longrightarrow> \<bar>fl x - x\<bar> \<le> x / 2 ^ 53"
proof -
  assume x: "0 \<le> x"
  have p: "of_nat 2 powi (1 - int 53) = (1 / 2 ^ 52 :: rat)"
    by (simp add: power_int_def power_one_over)
  have q: "x * (1 / 2 ^ 52) / 2 = x / 2 ^ 53" by simp
  from round_sig_error [OF order_refl x, of 53] show ?thesis
    unfolding p q .
qed

section \<open>Integers as doubles, shortest decimal representation, decimal products\<close>

text \<open>
  \<open>py_repr m\<close> is the value of \<^verbatim>\<open>str(m)\<close> for a positive double: the shortest decimal that
  rounds back to \<open>m\<close>. \<open>float_times_int\<close> is \<^verbatim>\<open>n * m\<close> for an int and a double: the int is
  converted first. \<open>decimal_times\<close> is \<^verbatim>\<open>Decimal(n) * Decimal(str(m))\<close>, rounded to the 28 digits
  of the default context.
\<close>

definition py_repr :: "rat \<Rightarrow> rat" where
  "py_repr m = (case find (\<lambda>n. fl (round_sig 10 n m) = m) [1..<18] of
      None \<Rightarrow> m | Some n \<Rightarrow> round_sig 10 n m)"

definition float_times_int :: "int \<Rightarrow> rat \<Rightarrow> rat" where
  "float_times_int n m = fl (fl (of_int n) * m)"

definition decimal_times :: "int \<Rightarrow> rat \<Rightarrow> rat" where
  "decimal_times n m = round_sig 10 28 (of_int n * py_repr m)"

lemma fl_py_repr: "fl m = m \<Longrightarrow> fl (py_repr m) = m"
  by (auto simp: py_repr_def find_Some_iff split: option.splits)

lemma py_repr_nonneg: "0 \<le> m \<Longrightarrow> 0 \<le> py_repr m"
  unfolding py_repr_def
  by (auto split: option.splits simp: find_Some_iff intro!: round_sig_nonneg)

lemma float_times_int_mono:
  "0 \<le> m \<Longrightarrow> n \<le> n' \<Longrightarrow> float_times_int n m \<le> float_times_int n' m"
  unfolding float_times_int_def by (intro fl_mono mult_right_mono) auto

lemma decimal_times_mono:
  "0 \<le> m \<Longrightarrow> n \<le> n' \<Longrightarrow> decimal_times n m \<le> decimal_times n' m"
  unfolding decimal_times_def
  by (intro round_sig_mono mult_right_mono py_repr_nonneg) auto

text \<open>Composing two relative errors, over opaque quantities so that linear arithmetic suffices.\<close>

lemma rel_error_compose:
  fixes f a p :: rat
  assumes "\<bar>f - a\<bar> \<le> a / 2 ^ 53" and "\<bar>a - p\<bar> \<le> p / 2 ^ 52" and "0 \<le> p"
  shows "\<bar>f - p\<bar> \<le> p / 2 ^ 51"
proof -
  have "a \<le> p * (1 + 1 / 2 ^ 52)" using assms(2) unfolding abs_le_iff by (simp add: field_simps)
  then have "\<bar>f - a\<bar> \<le> p * (1 + 1 / 2 ^ 52) / 2 ^ 53"
    using assms(1) by (simp add: field_simps)
  with assms(2,3) show ?thesis unfolding abs_le_iff by (simp add: field_simps)
qed

lemma float_times_int_error:
  assumes "0 \<le> n" and "0 \<le> m"
  shows "\<bar>float_times_int n m - of_int n * m\<bar> \<le> of_int n * m / 2 ^ 51"
proof -
  let ?n = "of_int n :: rat"
  define a where "a = fl ?n"
  have n: "0 \<le> ?n" using assms by simp
  have a: "\<bar>a - ?n\<bar> \<le> ?n / 2 ^ 53" unfolding a_def by (rule fl_error [OF n])
  have a0: "0 \<le> a" unfolding a_def by (rule fl_nonneg [OF n])
  have p0: "0 \<le> ?n * m" using n assms by simp
  have "\<bar>a * m - ?n * m\<bar> \<le> ?n * m / 2 ^ 53"
    using mult_right_mono [OF a, of m] assms by (simp add: abs_mult flip: left_diff_distrib)
  also have "\<dots> \<le> ?n * m / 2 ^ 52" using p0 by (intro divide_left_mono) auto
  finally have am: "\<bar>a * m - ?n * m\<bar> \<le> ?n * m / 2 ^ 52" .
  have "\<bar>fl (a * m) - a * m\<bar> \<le> a * m / 2 ^ 53"
    by (rule fl_error) (use a0 assms in simp)
  from rel_error_compose [OF this am p0] show ?thesis
    by (simp add: float_times_int_def a_def)
qed

lemma py_repr_error:
  assumes "fl m = m" and "0 \<le> m"
  shows "\<bar>py_repr m - m\<bar> \<le> m / 2 ^ 52"
proof -
  define r where "r = py_repr m"
  have "\<bar>m - r\<bar> \<le> r / 2 ^ 53"
    using fl_error [OF py_repr_nonneg [OF assms(2)]] fl_py_repr [OF assms(1)] by (simp add: r_def)
  moreover have "0 \<le> m" by (rule assms(2))
  ultimately have "\<bar>r - m\<bar> \<le> m / 2 ^ 52" unfolding abs_le_iff by (simp add: field_simps)
  then show ?thesis by (simp add: r_def)
qed

lemma decimal_times_error:
  assumes n: "0 \<le> n" and m: "fl m = m" "0 \<le> m"
  shows "\<bar>decimal_times n m - of_int n * m\<bar> \<le> of_int n * m / 2 ^ 51"
proof -
  let ?n = "of_int n :: rat"
  define a where "a = ?n * py_repr m"
  have n0: "0 \<le> ?n" using n by simp
  have a0: "0 \<le> a" unfolding a_def using n0 py_repr_nonneg [OF m(2)] by simp
  have am: "\<bar>a - ?n * m\<bar> \<le> ?n * m / 2 ^ 52"
    using mult_left_mono [OF py_repr_error [OF m] n0] n0
    by (simp add: a_def abs_mult flip: right_diff_distrib)
  have "\<bar>decimal_times n m - a\<bar> \<le> a * 10 powi (1 - 28) / 2"
    unfolding decimal_times_def a_def [symmetric] using round_sig_error [of 10 a 28] a0 by simp
  also have "\<dots> = a * (10 powi (- 27) / 2)" by simp
  also have "\<dots> \<le> a * (1 / 2 ^ 53)"
    using a0 by (intro mult_left_mono) (simp_all add: power_int_def power_one_over)
  finally have "\<bar>decimal_times n m - a\<bar> \<le> a / 2 ^ 53" by simp
  from rel_error_compose [OF this am] n0 m show ?thesis by simp
qed

text \<open>An exact value as a double: beyond the largest finite one it overflows to an infinity.\<close>

definition float_max_bound :: rat where "float_max_bound = 2 ^ 1024"

definition double_of :: "rat \<Rightarrow> pyfloat" where
  "double_of x = (if float_max_bound \<le> \<bar>fl x\<bar> then (if 0 < x then PInf else NInf) else Fin (fl x))"

section \<open>Exact values\<close>

lemma fl_dyadic_pos:
  assumes m: "0 < m" "of_int m < (2 powi 53 :: rat)"
  shows "fl (of_int m * 2 powi e) = of_int m * 2 powi e"
proof -
  define x :: rat where "x = of_int m * 2 powi e"
  define k where "k = expo 2 x - 52"
  have pe: "(0::rat) < 2 powi e" by simp
  have x: "0 < x" using m(1) by (simp add: x_def)
  have "x < 2 powi 53 * 2 powi e" unfolding x_def using m(2) pe by (rule mult_strict_right_mono)
  also have "\<dots> = 2 powi (53 + e)" by (subst power_int_add) simp_all
  finally have "(2::rat) powi expo 2 x < 2 powi (53 + e)"
    using expo_bounds [of 2 x] x by simp
  then have "expo 2 x < 53 + e" by (meson linorder_not_le power_int_increasing one_le_numeral)
  then have "k \<le> e" by (simp add: k_def)
  define u :: rat where "u = 2 powi k"
  have u: "u \<noteq> 0" by (simp add: u_def)
  have "(2::rat) powi e = 2 powi (e - k) * u" by (simp add: u_def flip: power_int_add)
  also have "(2::rat) powi (e - k) = of_int (2 ^ nat (e - k))" using \<open>k \<le> e\<close> by (simp add: power_int_def)
  finally have xu: "x = of_int (m * 2 ^ nat (e - k)) * u" by (simp add: x_def)
  have "round_pos 2 53 x = of_int (round_half_even (x / u)) * u"
    by (simp add: round_pos_def u_def k_def Let_def)
  also have "x / u = of_int (m * 2 ^ nat (e - k))" using u xu by simp
  finally have "round_pos 2 53 x = x" by (simp only: round_half_even_of_int flip: xu)
  then show ?thesis using x by (simp add: round_sig_def flip: x_def)
qed

lemma fl_zero [simp]: "fl 0 = 0"
  by (simp add: round_sig_def)

lemma fl_uminus: "fl (- x) = - fl x"
  by (auto simp: round_sig_def)

lemma fl_dyadic:
  assumes "\<bar>of_int m\<bar> < (2 powi 53 :: rat)"
  shows "fl (of_int m * 2 powi e) = of_int m * 2 powi e"
proof (cases "m = 0 \<or> 0 < m")
  case True
  with assms fl_dyadic_pos show ?thesis by auto
next
  case False
  then have "fl (of_int (- m) * 2 powi e) = of_int (- m) * 2 powi e"
    using assms by (intro fl_dyadic_pos) simp_all
  then show ?thesis by (simp add: fl_uminus)
qed

lemma fl_of_int: "\<bar>n\<bar> < 2 ^ 53 \<Longrightarrow> fl (of_int n) = of_int n"
proof -
  assume "\<bar>n\<bar> < 2 ^ 53"
  then have "of_int \<bar>n\<bar> < (of_int (2 ^ 53) :: rat)" by (simp only: of_int_less_iff)
  then have "\<bar>of_int n\<bar> < (2 powi 53 :: rat)" by (simp add: power_int_def)
  from fl_dyadic [OF this, of 0] show ?thesis by simp
qed

lemma fl_numeral: "numeral k < (2 ^ 53 :: int) \<Longrightarrow> fl (numeral k) = numeral k"
  using fl_of_int [of "numeral k"] by simp

lemma fl_pos_form:
  assumes x: "0 < x"
  shows "\<exists>k e. fl x = of_int k * 2 powi e \<and> 0 \<le> k \<and> of_int k \<le> (2 powi 53 :: rat)"
proof -
  define u :: rat where "u = 2 powi (expo 2 x - 52)"
  have u: "0 < u" by (simp add: u_def)
  have e: "fl x = of_int (round_half_even (x / u)) * u"
    using x by (simp add: round_sig_def round_pos_def u_def Let_def)
  have "x < 2 powi (expo 2 x + 1)" using expo_bounds [of 2 x] x by simp
  also have "\<dots> = 2 powi 53 * u" unfolding u_def by (subst power_int_add [symmetric]) (simp_all add: add.commute)
  finally have "x / u \<le> of_int (2 ^ 53)" using u by (simp add: pos_divide_le_eq power_int_def)
  then have "round_half_even (x / u) \<le> 2 ^ 53" using round_half_even_mono round_half_even_of_int by metis
  then have hi: "of_int (round_half_even (x / u)) \<le> (2 powi 53 :: rat)"
    by (metis of_int_le_iff of_int_numeral of_int_power power_int_numeral)
  have "0 \<le> x / u" using x u by simp
  then have "0 \<le> round_half_even (x / u)" using round_half_even_mono round_half_even_of_int [of 0] by fastforce
  with e hi show ?thesis unfolding u_def by blast
qed

lemma fl_idem: "fl (fl x) = fl x"
proof -
  have pos: "fl (fl x) = fl x" if p: "0 < x" for x
  proof -
    obtain k e where k: "fl x = of_int k * 2 powi e" "0 \<le> k" "of_int k \<le> (2 powi 53 :: rat)"
      using fl_pos_form [OF p] by blast
    show ?thesis
    proof (cases "of_int k = (2 powi 53 :: rat)")
      case True
      then have "fl x = of_int 1 * 2 powi (53 + e)" by (subst power_int_add) (simp_all add: k(1))
      moreover have "fl (of_int 1 * 2 powi (53 + e)) = of_int 1 * 2 powi (53 + e)"
        by (rule fl_dyadic) (simp add: power_int_def)
      ultimately show ?thesis by simp
    next
      case False
      with k have "\<bar>of_int k\<bar> < (2 powi 53 :: rat)" by simp
      from fl_dyadic [OF this, of e] show ?thesis by (simp add: k(1))
    qed
  qed
  show ?thesis
  proof (cases "x = 0 \<or> 0 < x")
    case True
    with pos show ?thesis by auto
  next
    case False
    then have "fl (fl (- x)) = fl (- x)" using pos by simp
    then show ?thesis by (simp add: fl_uminus)
  qed
qed

end
