(* ===== verification/Json.thy ===== *)
theory Json
  imports PyText PyFloat
begin

text \<open>
  JSON documents as the Python code sees them. A file is what reading and tokenising it gives:
  missing, unreadable (OSError or a decoding error), not JSON, or a parse tree. The tree keeps
  repeated object keys and the literal constants \<^verbatim>\<open>NaN\<close>, \<^verbatim>\<open>Infinity\<close> apart, because the strict
  loader of \<^verbatim>\<open>auth_backend.py\<close> rejects both; \<open>json_of_raw\<close> is what plain \<^verbatim>\<open>json.loads\<close> returns.
\<close>

datatype json =
    JNull
  | JBool bool
  | JInt int
  | JFloat pyfloat
  | JStr string
  | JList "json list"
  | JObj "(string \<times> json) list"

datatype rawjson =
    RNull
  | RBool bool
  | RInt int
  | RFloat pyfloat
  | RConst pyfloat
  | RStr string
  | RList "rawjson list"
  | RObj "(string \<times> rawjson) list"

text \<open>Building a dictionary from pairs: a repeated key keeps its place and takes the last value.\<close>

definition dict_of_pairs :: "'v dict \<Rightarrow> 'v dict" where
  "dict_of_pairs ps = foldl (\<lambda>d (k, v). AList.update k v d) [] ps"

fun json_of_raw :: "rawjson \<Rightarrow> json" where
  "json_of_raw RNull = JNull"
| "json_of_raw (RBool b) = JBool b"
| "json_of_raw (RInt i) = JInt i"
| "json_of_raw (RFloat x) = JFloat x"
| "json_of_raw (RConst x) = JFloat x"
| "json_of_raw (RStr s) = JStr s"
| "json_of_raw (RList xs) = JList (map json_of_raw xs)"
| "json_of_raw (RObj ps) = JObj (dict_of_pairs (map (\<lambda>(k, v). (k, json_of_raw v)) ps))"

text \<open>No repeated key and no non-finite constant anywhere: what the strict hooks accept.\<close>

fun raw_strict :: "rawjson \<Rightarrow> bool" where
  "raw_strict (RConst x) = False"
| "raw_strict (RList xs) = (\<forall>x \<in> set xs. raw_strict x)"
| "raw_strict (RObj ps) = (distinct (map fst ps) \<and> (\<forall>kv \<in> set ps. raw_strict (snd kv)))"
| "raw_strict _ = True"

text \<open>Every dictionary inside a value has distinct keys.\<close>

fun wf_json :: "json \<Rightarrow> bool" where
  "wf_json (JList xs) = (\<forall>x \<in> set xs. wf_json x)"
| "wf_json (JObj d) = (wf_dict d \<and> (\<forall>kv \<in> set d. wf_json (snd kv)))"
| "wf_json _ = True"

lemma wf_dict_foldl: "wf_dict d \<Longrightarrow> wf_dict (foldl (\<lambda>d (k, v). AList.update k v d) d ps)"
  by (induction ps arbitrary: d) auto

lemma wf_dict_of_pairs [simp]: "wf_dict (dict_of_pairs ps)"
  by (simp add: dict_of_pairs_def wf_dict_foldl)

lemma foldl_update_subset:
  "set (foldl (\<lambda>d (k, v). AList.update k v d) d ps) \<subseteq> set d \<union> set ps"
proof (induction ps arbitrary: d)
  case (Cons p ps)
  obtain k v where p: "p = (k, v)" by fastforce
  show ?case using Cons [of "AList.update k v d"] set_update_subset [of k v d] p by auto
qed simp

lemma set_dict_of_pairs: "set (dict_of_pairs ps) \<subseteq> set ps"
  using foldl_update_subset [of "[]" ps] by (simp add: dict_of_pairs_def)

lemma wf_json_of_raw: "wf_json (json_of_raw r)"
proof (induction r)
  case (RObj ps)
  show ?case
  proof (simp, intro ballI)
    fix kv assume "kv \<in> set (dict_of_pairs (map (\<lambda>(k, v). (k, json_of_raw v)) ps))"
    then have "kv \<in> (\<lambda>(k, v). (k, json_of_raw v)) ` set ps"
      using set_dict_of_pairs by fastforce
    then obtain k v where "(k, v) \<in> set ps" "kv = (k, json_of_raw v)" by auto
    with RObj [of "(k, v)" v] show "wf_json (snd kv)" by auto
  qed
qed auto

section \<open>Files\<close>

datatype jfile = Missing | Unreadable | NotJson | Doc rawjson

text \<open>A file that holds what \<^verbatim>\<open>json.dumps\<close> wrote for a value.\<close>

fun raw_of_json :: "json \<Rightarrow> rawjson" where
  "raw_of_json JNull = RNull"
| "raw_of_json (JBool b) = RBool b"
| "raw_of_json (JInt i) = RInt i"
| "raw_of_json (JFloat x) = (case x of Fin r \<Rightarrow> RFloat (Fin r) | _ \<Rightarrow> RConst x)"
| "raw_of_json (JStr s) = RStr s"
| "raw_of_json (JList xs) = RList (map raw_of_json xs)"
| "raw_of_json (JObj d) = RObj (map (\<lambda>(k, v). (k, raw_of_json v)) d)"

lemma foldl_update_fresh:
  "distinct (map fst ps) \<Longrightarrow> fst ` set ps \<inter> fst ` set d = {} \<Longrightarrow>
     foldl (\<lambda>d (k, v). AList.update k v d) d ps = d @ ps"
proof (induction ps arbitrary: d)
  case (Cons p ps)
  obtain k v where p: "p = (k, v)" by fastforce
  have "k \<notin> fst ` set d" using Cons.prems(2) p by auto
  then have "AList.update k v d = d @ [(k, v)]" by (induction d) auto
  with Cons p show ?case by auto
qed simp

lemma dict_of_pairs_id: "wf_dict ps \<Longrightarrow> dict_of_pairs ps = ps"
  using foldl_update_fresh [of ps "[]"] by (simp add: dict_of_pairs_def wf_dict_def)

text \<open>Writing a value and loading it back gives the value.\<close>

lemma json_of_raw_of_json: "wf_json j \<Longrightarrow> json_of_raw (raw_of_json j) = j"
proof (induction j)
  case (JFloat x)
  then show ?case by (cases x) auto
next
  case (JList xs)
  then show ?case by (simp add: map_idI)
next
  case (JObj d)
  have "map ((\<lambda>(k, v). (k, json_of_raw v)) \<circ> (\<lambda>(k, v). (k, raw_of_json v))) d = d"
  proof (rule map_idI)
    fix kv assume kv: "kv \<in> set d"
    obtain k v where [simp]: "kv = (k, v)" by fastforce
    from JObj.prems kv have "wf_json v" by auto
    with JObj.IH [OF kv, of v] show "((\<lambda>(k, v). (k, json_of_raw v)) \<circ> (\<lambda>(k, v). (k, raw_of_json v))) kv = kv"
      by simp
  qed
  with JObj.prems show ?case by (simp add: dict_of_pairs_id)
qed auto

section \<open>Python's view of a value\<close>

definition is_obj :: "json \<Rightarrow> bool" where
  "is_obj j = (case j of JObj _ \<Rightarrow> True | _ \<Rightarrow> False)"

definition is_str :: "json \<Rightarrow> bool" where
  "is_str j = (case j of JStr _ \<Rightarrow> True | _ \<Rightarrow> False)"

definition is_bool :: "json \<Rightarrow> bool" where
  "is_bool j = (case j of JBool _ \<Rightarrow> True | _ \<Rightarrow> False)"

definition obj_of :: "json \<Rightarrow> json dict" where
  "obj_of j = (case j of JObj d \<Rightarrow> d | _ \<Rightarrow> [])"

lemma is_str_conv: "is_str j \<longleftrightarrow> (\<exists>s. j = JStr s)"
  by (cases j) (auto simp: is_str_def)

lemma is_bool_conv: "is_bool j \<longleftrightarrow> (\<exists>b. j = JBool b)"
  by (cases j) (auto simp: is_bool_def)

lemma is_obj_conv: "is_obj j \<longleftrightarrow> (\<exists>d. j = JObj d)"
  by (cases j) (auto simp: is_obj_def)

text \<open>\<^verbatim>\<open>bool(v)\<close>.\<close>

fun truthy :: "json \<Rightarrow> bool" where
  "truthy JNull = False"
| "truthy (JBool b) = b"
| "truthy (JInt i) = (i \<noteq> 0)"
| "truthy (JFloat x) = (x \<noteq> Fin 0)"
| "truthy (JStr s) = (s \<noteq> [])"
| "truthy (JList xs) = (xs \<noteq> [])"
| "truthy (JObj d) = (d \<noteq> [])"

text \<open>\<^verbatim>\<open>d.get(k, default)\<close>.\<close>

definition dget :: "json dict \<Rightarrow> string \<Rightarrow> json \<Rightarrow> json" where
  "dget d k dflt = (case map_of d k of None \<Rightarrow> dflt | Some v \<Rightarrow> v)"

lemma dget_update [simp, dict_simps]:
  "dget (AList.update k v d) x dflt = (if x = k then v else dget d x dflt)"
  by (simp add: dget_def)

text \<open>\<^verbatim>\<open>v in (None, '')\<close> and \<^verbatim>\<open>v == n\<close> for an int \<open>n\<close>: booleans and floats compare by value.\<close>

definition none_or_empty :: "json \<Rightarrow> bool" where
  "none_or_empty j \<longleftrightarrow> j = JNull \<or> j = JStr []"

fun eq_int :: "json \<Rightarrow> int \<Rightarrow> bool" where
  "eq_int (JBool b) n = ((if b then 1 else 0) = n)"
| "eq_int (JInt i) n = (i = n)"
| "eq_int (JFloat (Fin r)) n = (r = of_int n)"
| "eq_int _ n = False"

text \<open>\<^verbatim>\<open>int(v)\<close>.\<close>

definition trunc_rat :: "rat \<Rightarrow> int" where
  "trunc_rat r = (if 0 \<le> r then \<lfloor>r\<rfloor> else - \<lfloor>- r\<rfloor>)"

fun py_int :: "json \<Rightarrow> int res" where
  "py_int (JBool b) = Inr (if b then 1 else 0)"
| "py_int (JInt i) = Inr i"
| "py_int (JFloat (Fin r)) = Inr (trunc_rat r)"
| "py_int (JFloat NaN) = Inl ValueError"
| "py_int (JFloat _) = Inl OverflowError"
| "py_int (JStr s) = (case int_literal 10 s of None \<Rightarrow> Inl ValueError | Some i \<Rightarrow> Inr i)"
| "py_int _ = Inl TypeError"

text \<open>\<^verbatim>\<open>try: int(v) except (TypeError, ValueError): default\<close>: an OverflowError escapes.\<close>

definition int_or :: "json \<Rightarrow> int \<Rightarrow> int res" where
  "int_or v dflt = (case py_int v of
      Inl TypeError \<Rightarrow> Inr dflt
    | Inl ValueError \<Rightarrow> Inr dflt
    | r \<Rightarrow> r)"

text \<open>A number as a double: \<^verbatim>\<open>isinstance(v, (int, float))\<close>, not a bool, finite.\<close>

definition finite_number :: "json \<Rightarrow> rat option" where
  "finite_number j = (case j of JInt i \<Rightarrow> Some (of_int i)
     | JFloat (Fin r) \<Rightarrow> Some r | _ \<Rightarrow> None)"

text \<open>
  \<^verbatim>\<open>_non_negative_integer(value, ...)\<close>, the validator that \<^verbatim>\<open>auth_backend.py\<close> and
  \<^verbatim>\<open>traffic_limiter.py\<close> each define: an int, or a string of ASCII digits around which
  whitespace is stripped; never a bool or a float. They differ in the exception only. A digit
  string longer than 4300 characters is a ValueError of \<^verbatim>\<open>int\<close>, which only the first one
  turns into its own exception.
\<close>

definition non_negative_integer :: "exc \<Rightarrow> exc \<Rightarrow> json \<Rightarrow> int res" where
  "non_negative_integer err too_long v = (case v of
      JInt i \<Rightarrow> if i < 0 then Inl err else Inr i
    | JStr s \<Rightarrow>
        (let t = py_strip s in
         if t \<noteq> [] \<and> (\<forall>c \<in> set t. is_digit c)
         then (case int_literal 10 t of None \<Rightarrow> Inl too_long | Some i \<Rightarrow> Inr i)
         else Inl err)
    | _ \<Rightarrow> Inl err)"

lemma int_literal_digits_nonneg:
  "\<forall>c \<in> set t. is_digit c \<Longrightarrow> t \<noteq> [] \<Longrightarrow> int_literal 10 t = Some i \<Longrightarrow> 0 \<le> i"
  by (auto simp: int_literal_def py_strip_digits split_sign_digit scan_digits_all split: if_splits)

lemma non_negative_integer_nonneg:
  "non_negative_integer e1 e2 v = Inr i \<Longrightarrow> 0 \<le> i"
  by (auto simp: non_negative_integer_def Let_def split: json.splits if_splits option.splits
      dest: int_literal_digits_nonneg)

text \<open>What the validator accepts, \<^verbatim>\<open>int\<close> reads as the same number.\<close>

lemma strip_with_idem: "strip_with P (strip_with P s) = strip_with P s"
proof -
  let ?t = "dropWhile P s"
  have "dropWhile P (rev (dropWhile P (rev ?t))) = rev (dropWhile P (rev ?t))"
  proof (cases "rev (dropWhile P (rev ?t))")
    case (Cons c cs)
    have pre: "\<exists>zs. ?t = rev (dropWhile P (rev ?t)) @ zs"
      by (metis rev_append rev_rev_ident takeWhile_dropWhile_id)
    then have "hd ?t = c" using Cons by fastforce
    moreover have "?t \<noteq> []"
    proof
      assume e: "?t = []"
      have "rev (dropWhile P (rev ?t)) = []" unfolding e by simp
      with Cons show False by simp
    qed
    ultimately have "\<not> P c" using hd_dropWhile by metis
    with Cons show ?thesis by simp
  next
    case Nil
    show ?thesis unfolding Nil by simp
  qed
  moreover have "dropWhile P (rev (rev (dropWhile P (rev ?t)))) = dropWhile P (rev ?t)"
    by (simp add: dropWhile_idem)
  ultimately show ?thesis by (simp add: strip_with_def dropWhile_idem)
qed

lemma int_literal_strip: "int_literal b (py_strip s) = int_literal b s"
  by (simp add: int_literal_def py_strip_def strip_with_idem)

lemma non_negative_integer_py_int:
  "non_negative_integer e1 e2 v = Inr i \<Longrightarrow> py_int v = Inr i"
  by (auto simp: non_negative_integer_def Let_def int_literal_strip
      split: json.splits if_splits option.splits)

declare dict_of_pairs_def [py_eval] is_obj_def [py_eval] is_str_def [py_eval] is_bool_def [py_eval]
  obj_of_def [py_eval] dget_def [py_eval] none_or_empty_def [py_eval] trunc_rat_def [py_eval]
  int_or_def [py_eval] finite_number_def [py_eval] non_negative_integer_def [py_eval]

declare raw_of_json.simps [simp del, py_eval]

section \<open>Updates keep values well formed\<close>

lemma wf_json_update: "wf_json (JObj d) \<Longrightarrow> wf_json v \<Longrightarrow> wf_json (JObj (AList.update k v d))"
  using set_update_subset [of k v d] by auto

lemma wf_json_delete: "wf_json (JObj d) \<Longrightarrow> wf_json (JObj (AList.delete k d))"
  using set_delete_subset [of k d] by auto

lemma wf_json_strings [simp]: "wf_json (JList (map JStr xs))"
  by auto

lemma wf_json_lookup: "wf_json (JObj d) \<Longrightarrow> map_of d k = Some v \<Longrightarrow> wf_json v"
  using map_of_SomeD [of d k v] by force

section \<open>Equality\<close>

text \<open>
  \<^verbatim>\<open>a == b\<close>: numbers and booleans compare by value, dictionaries whatever their order. Two NaN of one
  document are the same object and so equal inside a container.
\<close>

definition num_value :: "json \<Rightarrow> pyfloat option" where
  "num_value j = (case j of JBool b \<Rightarrow> Some (Fin (if b then 1 else 0)) | JInt i \<Rightarrow> Some (Fin (of_int i))
     | JFloat x \<Rightarrow> Some x | _ \<Rightarrow> None)"

lemma size_in_list: "x \<in> set xs \<Longrightarrow> size x < Suc (size_list size xs)"
  using size_list_estimation' [of x xs "size x" size] by simp

lemma size_in_dict: "kv \<in> set d \<Longrightarrow> size (snd kv) < Suc (size_list (size_prod (\<lambda>_. 0) size) d)"
  using size_list_estimation' [of kv d "size (snd kv)" "size_prod (\<lambda>_. 0) size"] by (cases kv) simp

function py_eq :: "json \<Rightarrow> json \<Rightarrow> bool" where
  "py_eq a b = (case (a, b) of
      (JList xs, JList ys) \<Rightarrow> length xs = length ys \<and> (\<forall>p \<in> set (zip xs ys). py_eq (fst p) (snd p))
    | (JObj d, JObj d') \<Rightarrow> length d = length d' \<and>
        (\<forall>kv \<in> set d. case map_of d' (fst kv) of None \<Rightarrow> False | Some v \<Rightarrow> py_eq (snd kv) v)
    | (JStr s, JStr t) \<Rightarrow> s = t
    | (JNull, JNull) \<Rightarrow> True
    | _ \<Rightarrow> num_value a \<noteq> None \<and> num_value a = num_value b)"
  by pat_completeness auto
termination
  by (relation "measure (\<lambda>(a, b). size a)") (auto dest: size_in_dict set_zip_leftD [THEN size_in_list])

declare py_eq.simps [simp del]

lemma py_eq_list: "py_eq (JList xs) (JList ys) \<longleftrightarrow>
    length xs = length ys \<and> (\<forall>p \<in> set (zip xs ys). py_eq (fst p) (snd p))"
  by (subst py_eq.simps) simp

lemma py_eq_obj: "py_eq (JObj d) (JObj d') \<longleftrightarrow> length d = length d' \<and>
    (\<forall>kv \<in> set d. case map_of d' (fst kv) of None \<Rightarrow> False | Some v \<Rightarrow> py_eq (snd kv) v)"
  by (subst py_eq.simps) simp

lemma py_eq_str [simp]: "py_eq v (JStr s) \<longleftrightarrow> v = JStr s"
  by (subst py_eq.simps) (cases v; simp add: num_value_def)

lemma py_eq_obj_cases: "py_eq c (JObj d) \<Longrightarrow> \<exists>d'. c = JObj d'"
  by (subst (asm) py_eq.simps) (cases c; simp add: num_value_def)

lemma py_eq_list_cases: "py_eq c (JList d) \<Longrightarrow> \<exists>d'. c = JList d'"
  by (subst (asm) py_eq.simps) (cases c; simp add: num_value_def)

end
