(* ===== verification/Calendar.thy ===== *)
theory Calendar
  imports PyText "HOL-Library.Product_Lexorder"
begin

text \<open>
  The parts of Python's \<^verbatim>\<open>datetime\<close> the program uses: proleptic Gregorian dates with their
  ordinals, \<^verbatim>\<open>timedelta(days=n)\<close> arithmetic, \<^verbatim>\<open>strftime\<close> keys and \<^verbatim>\<open>strptime\<close> parsing. Arithmetic
  past the year 9999, where Python raises OverflowError, is not cut off.
\<close>

section \<open>Dates\<close>

datatype date = YMD (yr: int) (mo: int) (dy: int)

instantiation date :: linorder
begin

definition less_eq_date :: "date \<Rightarrow> date \<Rightarrow> bool" where
  "less_eq_date a b \<longleftrightarrow> (yr a, mo a, dy a) \<le> (yr b, mo b, dy b)"

definition less_date :: "date \<Rightarrow> date \<Rightarrow> bool" where
  "less_date a b \<longleftrightarrow> (yr a, mo a, dy a) < (yr b, mo b, dy b)"

instance
  by standard (auto simp: less_eq_date_def less_date_def intro: date.expand)

end

definition is_leap :: "int \<Rightarrow> bool" where
  "is_leap y \<longleftrightarrow> y mod 4 = 0 \<and> (y mod 100 \<noteq> 0 \<or> y mod 400 = 0)"

definition days_in_month :: "int \<Rightarrow> int \<Rightarrow> int" where
  "days_in_month y m = (if m = 2 then (if is_leap y then 29 else 28)
     else if m = 4 \<or> m = 6 \<or> m = 9 \<or> m = 11 then 30 else 31)"

definition days_before_year :: "int \<Rightarrow> int" where
  "days_before_year y = (let p = y - 1 in 365 * p + p div 4 - p div 100 + p div 400)"

definition days_before_month :: "int \<Rightarrow> int \<Rightarrow> int" where
  "days_before_month y m =
     (if m \<le> 1 then 0 else if m = 2 then 31 else
      (if is_leap y then 1 else 0) +
      (if m = 3 then 59 else if m = 4 then 90 else if m = 5 then 120 else if m = 6 then 151
       else if m = 7 then 181 else if m = 8 then 212 else if m = 9 then 243
       else if m = 10 then 273 else if m = 11 then 304 else 334))"

fun toordinal :: "date \<Rightarrow> int" where
  "toordinal (YMD y m d) = days_before_year y + days_before_month y m + d"

fun wf_date :: "date \<Rightarrow> bool" where
  "wf_date (YMD y m d) \<longleftrightarrow> 1 \<le> y \<and> 1 \<le> m \<and> m \<le> 12 \<and> 1 \<le> d \<and> d \<le> days_in_month y m"

fun next_day :: "date \<Rightarrow> date" where
  "next_day (YMD y m d) =
     (if d < days_in_month y m then YMD y m (d + 1)
      else if m < 12 then YMD y (m + 1) 1 else YMD (y + 1) 1 1)"

fun prev_day :: "date \<Rightarrow> date" where
  "prev_day (YMD y m d) =
     (if 1 < d then YMD y m (d - 1)
      else if 1 < m then YMD y (m - 1) (days_in_month y (m - 1)) else YMD (y - 1) 12 31)"

text \<open>\<^verbatim>\<open>d + timedelta(days=n)\<close> and \<^verbatim>\<open>(a - b).days\<close>.\<close>

definition add_days :: "date \<Rightarrow> int \<Rightarrow> date" where
  "add_days d n = (if 0 \<le> n then (next_day ^^ nat n) d else (prev_day ^^ nat (- n)) d)"

definition diff_days :: "date \<Rightarrow> date \<Rightarrow> int" where
  "diff_days a b = toordinal a - toordinal b"

text \<open>\<^verbatim>\<open>d.replace(day=n)\<close>; the callers keep \<open>n\<close> between 1 and 28, which every month has.\<close>

definition replace_day :: "date \<Rightarrow> int \<Rightarrow> date" where
  "replace_day d n = YMD (yr d) (mo d) n"

lemma month_cases:
  "(1::int) \<le> m \<Longrightarrow> m \<le> 12 \<Longrightarrow> m = 1 \<or> m = 2 \<or> m = 3 \<or> m = 4 \<or> m = 5 \<or> m = 6 \<or> m = 7
     \<or> m = 8 \<or> m = 9 \<or> m = 10 \<or> m = 11 \<or> m = 12"
  by arith

lemma days_in_month_pos: "28 \<le> days_in_month y m \<and> days_in_month y m \<le> 31"
  by (simp add: days_in_month_def)

lemma div_pred:
  fixes y c :: int
  assumes "1 < c"
  shows "y div c = (y - 1) div c + (if y mod c = 0 then 1 else 0)"
proof (cases "y mod c = 0")
  case True
  then have "y - 1 = c * (y div c - 1) + (c - 1)" 
    using mult_div_mod_eq [of c y] by (simp add: right_diff_distrib)
  from int_div_pos_eq [OF this] assms have "(y - 1) div c = y div c - 1" by simp
  with True show ?thesis by simp
next
  case False
  have "0 \<le> y mod c" "y mod c < c" using assms by simp_all
  with False have r: "0 \<le> y mod c - 1" "y mod c - 1 < c" by simp_all
  have "y - 1 = c * (y div c) + (y mod c - 1)" by simp
  from int_div_pos_eq [OF this r] False show ?thesis by simp
qed

lemma leap_sum:
  "(r \<Longrightarrow> q) \<Longrightarrow> (q \<Longrightarrow> p) \<Longrightarrow>
    (if p then 1 else 0) - (if q then 1 else 0) + (if r then 1 else 0) = (if p \<and> (\<not> q \<or> r) then 1 else (0::int))"
  by (cases p; cases q; cases r) simp_all

lemma days_before_year_Suc:
  "days_before_year (y + 1) = days_before_year y + 365 + (if is_leap y then 1 else 0)"
proof -
  define i4 i100 i400 :: int where "i4 = (if y mod 4 = 0 then 1 else 0)"
    and "i100 = (if y mod 100 = 0 then 1 else 0)" and "i400 = (if y mod 400 = 0 then 1 else 0)"
  have mm: "y mod 400 mod 100 = y mod 100" "y mod 100 mod 4 = y mod 4"
    by (simp_all add: mod_mod_cancel)
  have "y mod 400 = 0 \<Longrightarrow> y mod 100 = 0" "y mod 100 = 0 \<Longrightarrow> y mod 4 = 0"
    unfolding mm [symmetric] by simp_all
  note leap_sum [of "y mod 400 = 0" "y mod 100 = 0" "y mod 4 = 0", OF this]
  then have leap: "i4 - i100 + i400 = (if is_leap y then 1 else 0)"
    unfolding i4_def i100_def i400_def is_leap_def by (simp only: de_Morgan_conj not_not)
  obtain a b c where p: "(y - 1) div 4 = a" "(y - 1) div 100 = b" "(y - 1) div 400 = c" by simp
  have gt: "1 < (4::int)" "1 < (100::int)" "1 < (400::int)" by simp_all
  have d: "y div 4 = a + i4" "y div 100 = b + i100" "y div 400 = c + i400"
    unfolding p [symmetric] i4_def i100_def i400_def by (rule div_pred [OF gt(1)] div_pred [OF gt(2)] div_pred [OF gt(3)])+
  have "days_before_year (y + 1) = 365 * y + (a + i4) - (b + i100) + (c + i400)"
    by (simp only: days_before_year_def Let_def add_diff_cancel_right' d)
  moreover have "days_before_year y = 365 * (y - 1) + a - b + c"
    by (simp only: days_before_year_def Let_def p)
  ultimately show ?thesis unfolding leap [symmetric] by (simp only:) simp
qed

lemma days_before_month_Suc:
  assumes "1 \<le> m" and "m < 12"
  shows "days_before_month y (m + 1) = days_before_month y m + days_in_month y m"
  using month_cases [of m] assms by (auto simp: days_before_month_def days_in_month_def)

lemma year_end: "days_before_month y 12 + 31 = 365 + (if is_leap y then 1 else 0)"
  by (simp add: days_before_month_def)

lemma days_before_month_nonneg: "0 \<le> days_before_month y m"
  by (simp add: days_before_month_def)

lemma days_before_month_mono:
  assumes "1 \<le> m" and "m < m'" and "m' \<le> 12"
  shows "days_before_month y m + days_in_month y m \<le> days_before_month y m'"
proof -
  from assms(2) have "m + 1 \<le> m'" by simp
  then have "m' \<le> 12 \<Longrightarrow> days_before_month y (m + 1) \<le> days_before_month y m'"
  proof (induction m' rule: int_ge_induct)
    case (step i)
    with assms(1) show ?case
      using days_before_month_Suc [of i y] days_in_month_pos [of y i] by simp
  qed simp
  with assms show ?thesis by (simp add: days_before_month_Suc)
qed

lemma toordinal_next_day:
  assumes "wf_date d"
  shows "toordinal (next_day d) = toordinal d + 1"
proof (cases d)
  case (YMD y m x)
  consider "x < days_in_month y m" | "x = days_in_month y m" "m < 12" | "x = days_in_month y m" "m = 12"
    using assms YMD by fastforce
  then show ?thesis
  proof cases
    case 1
    with YMD show ?thesis by simp
  next
    case 2
    with assms YMD show ?thesis by (simp add: days_before_month_Suc)
  next
    case 3
    then have "x = 31" by (simp add: days_in_month_def)
    with 3 YMD show ?thesis
      using year_end [of y] by (simp add: days_before_year_Suc) (simp add: days_before_month_def)
  qed
qed

lemma wf_next_day [simp]: "wf_date d \<Longrightarrow> wf_date (next_day d)"
proof (cases d)
  case (YMD y m x)
  assume "wf_date d"
  with YMD days_in_month_pos [of y "m + 1"] days_in_month_pos [of "y + 1" 1] show ?thesis by auto
qed

lemma days_before_year_mono:
  assumes "y < y'"
  shows "days_before_year (y + 1) \<le> days_before_year y'"
proof -
  from assms have "y + 1 \<le> y'" by simp
  then show ?thesis
    by (induction y' rule: int_ge_induct) (auto simp: days_before_year_Suc)
qed

lemma day_of_year_bound:
  assumes "wf_date (YMD y m d)"
  shows "days_before_month y m + d \<le> 365 + (if is_leap y then 1 else 0)"
proof (cases "m = 12")
  case True
  with assms year_end [of y] show ?thesis by (simp add: days_in_month_def)
next
  case False
  with assms days_before_month_mono [of m 12 y] year_end [of y] show ?thesis by simp
qed

lemma toordinal_strict_mono:
  assumes "wf_date a" and "wf_date b" and "a < b"
  shows "toordinal a < toordinal b"
proof -
  obtain y m d y' m' d' where [simp]: "a = YMD y m d" "b = YMD y' m' d'"
    by (metis date.exhaust)
  from assms(3) consider "y < y'" | "y = y'" "m < m'" | "y = y'" "m = m'" "d < d'"
    by (auto simp: less_date_def le_less)
  then show ?thesis
  proof cases
    case 1
    have "days_before_month y m + d \<le> 365 + (if is_leap y then 1 else 0)"
      using day_of_year_bound [of y m d] assms(1) by simp
    moreover have "0 \<le> days_before_month y' m'"
      by (rule days_before_month_nonneg)
    ultimately show ?thesis
      using days_before_year_mono [OF 1] assms(2) by (simp add: days_before_year_Suc)
  next
    case 2
    then show ?thesis
      using days_before_month_mono [of m m' y] assms(1,2) by simp
  next
    case 3
    then show ?thesis by simp
  qed
qed

lemma toordinal_less_iff: "wf_date a \<Longrightarrow> wf_date b \<Longrightarrow> toordinal a < toordinal b \<longleftrightarrow> a < b"
  by (metis less_irrefl not_less_iff_gr_or_eq order_less_trans toordinal_strict_mono)

lemma toordinal_le_iff: "wf_date a \<Longrightarrow> wf_date b \<Longrightarrow> toordinal a \<le> toordinal b \<longleftrightarrow> a \<le> b"
  by (metis linorder_not_less toordinal_less_iff)

lemma toordinal_inj: "wf_date a \<Longrightarrow> wf_date b \<Longrightarrow> toordinal a = toordinal b \<longleftrightarrow> a = b"
  by (metis less_irrefl linorder_neqE toordinal_less_iff)

lemma next_prev_day:
  "wf_date d \<Longrightarrow> d \<noteq> YMD 1 1 1 \<Longrightarrow> wf_date (prev_day d) \<and> next_day (prev_day d) = d"
  by (cases d) (auto simp: days_in_month_def)

lemma toordinal_first: "toordinal (YMD 1 1 1) = 1"
  by (simp add: days_before_year_def days_before_month_def)

lemma toordinal_pos: "wf_date d \<Longrightarrow> 1 \<le> toordinal d"
proof -
  assume d: "wf_date d"
  obtain y m x where [simp]: "d = YMD y m x" by (cases d)
  have "YMD 1 1 1 \<le> d" using d by (auto simp: less_eq_date_def)
  moreover have "wf_date (YMD 1 1 1)" by (simp add: days_in_month_def)
  ultimately have "toordinal (YMD 1 1 1) \<le> toordinal d" using d toordinal_le_iff by blast
  then show ?thesis using toordinal_first by simp
qed

lemma toordinal_prev_day:
  assumes "wf_date d" and "1 < toordinal d"
  shows "wf_date (prev_day d) \<and> toordinal (prev_day d) = toordinal d - 1"
proof -
  have "d \<noteq> YMD 1 1 1" using assms(2) toordinal_first by auto
  with next_prev_day [OF assms(1)] have p: "wf_date (prev_day d)" "next_day (prev_day d) = d" by simp_all
  from toordinal_next_day [OF p(1)] p show ?thesis by simp
qed

lemma iterate_next_day:
  "wf_date d \<Longrightarrow> wf_date ((next_day ^^ n) d) \<and> toordinal ((next_day ^^ n) d) = toordinal d + int n"
  by (induction n) (auto simp: toordinal_next_day)

lemma iterate_prev_day:
  "wf_date d \<Longrightarrow> int n < toordinal d \<Longrightarrow>
     wf_date ((prev_day ^^ n) d) \<and> toordinal ((prev_day ^^ n) d) = toordinal d - int n"
  by (induction n) (auto simp: toordinal_prev_day)

text \<open>
  Adding days moves the ordinal by that many, so the result is the one date with that ordinal:
  the \<^verbatim>\<open>fromordinal\<close> Python computes.
\<close>

lemma add_days_spec:
  assumes "wf_date d" and "0 < toordinal d + n"
  shows "wf_date (add_days d n) \<and> toordinal (add_days d n) = toordinal d + n"
  using assms iterate_next_day [OF assms(1), of "nat n"] iterate_prev_day [OF assms(1), of "nat (- n)"]
  by (auto simp: add_days_def)

lemma add_days_nonneg:
  "wf_date d \<Longrightarrow> 0 \<le> n \<Longrightarrow> wf_date (add_days d n) \<and> toordinal (add_days d n) = toordinal d + n"
  using add_days_spec [of d n] toordinal_pos [of d] by simp

lemma add_days_add:
  assumes "wf_date d" and "0 \<le> m" and "0 \<le> n"
  shows "add_days (add_days d m) n = add_days d (m + n)"
proof -
  have "wf_date (add_days (add_days d m) n)" "wf_date (add_days d (m + n))"
    "toordinal (add_days (add_days d m) n) = toordinal (add_days d (m + n))"
    using add_days_nonneg [of d m] add_days_nonneg [of "add_days d m" n]
      add_days_nonneg [of d "m + n"] assms by simp_all
  then show ?thesis using toordinal_inj by blast
qed

lemma add_days_0 [simp]: "add_days d 0 = d"
  by (simp add: add_days_def)

section \<open>Keys\<close>

text \<open>
  \<^verbatim>\<open>strftime("%Y-%m-%d")\<close> and \<^verbatim>\<open>strftime("%Y-%m")\<close>: the C library pads months and days to two
  digits and does not pad the year.
\<close>

definition two_digits :: "int \<Rightarrow> string" where
  "two_digits n = pad_zero 2 (str_nat (nat n))"

definition date_key :: "date \<Rightarrow> string" where
  "date_key d = str_int (yr d) @ ''-'' @ two_digits (mo d) @ ''-'' @ two_digits (dy d)"

definition month_key_of :: "date \<Rightarrow> string" where
  "month_key_of d = str_int (yr d) @ ''-'' @ two_digits (mo d)"

text \<open>Dates whose year has four digits: the ones every key of the program comes from.\<close>

definition key_date :: "date \<Rightarrow> bool" where
  "key_date d \<longleftrightarrow> wf_date d \<and> 1000 \<le> yr d \<and> yr d \<le> 9999"

lemma four_digits:
  assumes "1000 \<le> y" and "y \<le> 9999"
  shows "str_int y = pad_zero 4 (str_nat (nat y))"
proof -
  have "nat y < 10 ^ Suc 3" using assms by simp
  from length_str_nat_lt [OF this] have le: "length (str_nat (nat y)) \<le> 4" by simp
  have "\<not> length (str_nat (nat y)) \<le> 3"
  proof -
    let ?n = "nat y"
    have "1000 \<le> ?n" using assms by simp
    then have "\<not> ?n < 10" "\<not> ?n div 10 < 10" "\<not> ?n div 10 div 10 < 10"
      by (simp_all add: div_le_mono less_eq_div_iff_mult_less_eq not_less)
    then show ?thesis
      by (simp add: str_nat.simps [of ?n] str_nat.simps [of "?n div 10"] str_nat.simps [of "?n div 10 div 10"]
          div_mult2_eq not_less)
  qed
  with le have "length (str_nat (nat y)) = 4" by simp
  with assms show ?thesis by (simp add: str_int_def pad_zero_def)
qed

lemma key_date_ranges:
  assumes "key_date d"
  shows "nat (yr d) < 10 ^ 4" and "nat (mo d) < 10 ^ 2" and "nat (dy d) < 10 ^ 2"
    and "0 \<le> yr d" and "0 \<le> mo d" and "0 \<le> dy d"
  using assms days_in_month_pos [of "yr d" "mo d"] by (cases d; auto simp: key_date_def)+

lemma length_two_digits: "nat n < 10 ^ 2 \<Longrightarrow> length (two_digits n) = 2"
  unfolding two_digits_def by (rule length_pad_zero) simp_all

lemma date_key_less:
  assumes a: "key_date a" and b: "key_date b"
  shows "date_key a < date_key b \<longleftrightarrow> a < b"
proof -
  note ra = key_date_ranges [OF a] and rb = key_date_ranges [OF b]
  have y: "str_int (yr a) = pad_zero 4 (str_nat (nat (yr a)))"
    "str_int (yr b) = pad_zero 4 (str_nat (nat (yr b)))"
    using a b by (simp_all add: key_date_def four_digits)
  have pos: "0 < yr a" "0 < yr b" using a b by (simp_all add: key_date_def)
  have pos2: "0 < mo a" "0 < mo b" "0 < dy a" "0 < dy b"
    using a b by (cases a; cases b; simp add: key_date_def)+
  have len: "length (str_int (yr a)) = length (str_int (yr b))"
    unfolding y using ra(1) rb(1) by (simp add: length_pad_zero)
  have lenm: "length (two_digits (mo a)) = length (two_digits (mo b))"
    using ra(2) rb(2) by (simp add: length_two_digits)
  have yl: "str_int (yr a) < str_int (yr b) \<longleftrightarrow> yr a < yr b"
    unfolding y using pad_zero_less [OF ra(1) rb(1)] pos by simp
  have ye: "str_int (yr a) = str_int (yr b) \<longleftrightarrow> yr a = yr b"
    unfolding y using pad_zero_inj [OF ra(1) rb(1)] pos by (simp add: eq_nat_nat_iff)
  have ml: "two_digits (mo a) < two_digits (mo b) \<longleftrightarrow> mo a < mo b"
    unfolding two_digits_def using pad_zero_less [OF ra(2) rb(2)] pos2 by simp
  have me: "two_digits (mo a) = two_digits (mo b) \<longleftrightarrow> mo a = mo b"
    unfolding two_digits_def using pad_zero_inj [OF ra(2) rb(2)] pos2 by (simp add: eq_nat_nat_iff)
  have dl: "two_digits (dy a) < two_digits (dy b) \<longleftrightarrow> dy a < dy b"
    unfolding two_digits_def using pad_zero_less [OF ra(3) rb(3)] pos2 by simp
  show ?thesis
    by (auto simp: date_key_def append_less_append [OF len] append_less_append [OF lenm]
        yl ye ml me dl less_date_def)
qed

lemma date_key_inj: "key_date a \<Longrightarrow> key_date b \<Longrightarrow> date_key a = date_key b \<longleftrightarrow> a = b"
  by (metis date_key_less less_irrefl linorder_neqE)

text \<open>
  \<^verbatim>\<open>datetime.strptime(s, "%Y-%m-%d")\<close>: four digits, then month and day with or without a leading
  zero (the day also with a leading blank), and a date that exists.
\<close>

definition month_field :: "string \<Rightarrow> int option" where
  "month_field s = (case s of
      [a] \<Rightarrow> if is_digit a \<and> a \<noteq> CHR ''0'' then Some (int (digit_val a)) else None
    | [a, b] \<Rightarrow>
        if a = CHR ''0'' \<and> is_digit b \<and> b \<noteq> CHR ''0'' then Some (int (digit_val b))
        else if a = CHR ''1'' \<and> is_digit b \<and> digit_val b \<le> 2 then Some (10 + int (digit_val b))
        else None
    | _ \<Rightarrow> None)"

definition day_field :: "string \<Rightarrow> int option" where
  "day_field s = (case s of
      [a] \<Rightarrow> if is_digit a \<and> a \<noteq> CHR ''0'' then Some (int (digit_val a)) else None
    | [a, b] \<Rightarrow>
        if (a = CHR ''0'' \<or> a = CHR '' '') \<and> is_digit b \<and> b \<noteq> CHR ''0'' then Some (int (digit_val b))
        else if (a = CHR ''1'' \<or> a = CHR ''2'') \<and> is_digit b
             then Some (10 * int (digit_val a) + int (digit_val b))
        else if a = CHR ''3'' \<and> is_digit b \<and> digit_val b \<le> 1 then Some (30 + int (digit_val b))
        else None
    | _ \<Rightarrow> None)"

definition strptime_ymd :: "string \<Rightarrow> date option" where
  "strptime_ymd s =
     (let y = take 4 s; rest = drop 4 s;
          ms = takeWhile (\<lambda>c. c \<noteq> CHR ''-'') (drop 1 rest);
          tail = dropWhile (\<lambda>c. c \<noteq> CHR ''-'') (drop 1 rest)
      in if length y = 4 \<and> (\<forall>c \<in> set y. is_digit c) \<and> take 1 rest = ''-'' \<and> tail \<noteq> []
         then (case (month_field ms, day_field (drop 1 tail)) of
                 (Some m, Some d) \<Rightarrow>
                   (let dt = YMD (int (digits_val 10 y)) m d in if wf_date dt then Some dt else None)
               | _ \<Rightarrow> None)
         else None)"

lemma strptime_ymd_wf: "strptime_ymd s = Some d \<Longrightarrow> wf_date d \<and> yr d \<le> 9999"
proof -
  assume a: "strptime_ymd s = Some d"
  have b: "digits_val 10 t < 10 ^ length t" if "\<forall>c \<in> set t. is_digit c" for t
    using that
  proof (induction t rule: rev_induct)
    case (snoc c t)
    then have "digit_val c < 10" by (simp add: digit_val_is_digit)
    with snoc show ?case by simp
  qed simp
  from a have "length (take 4 s) = 4" "\<forall>c \<in> set (take 4 s). is_digit c" "wf_date d"
    "yr d = int (digits_val 10 (take 4 s))"
    by (auto simp: strptime_ymd_def Let_def split: if_splits option.splits)
  with b [of "take 4 s"] show ?thesis by simp
qed

lemma two_digits_read:
  assumes "1 \<le> n" and "n \<le> 31"
  shows "\<exists>a b. two_digits n = [a, b] \<and> is_digit a \<and> is_digit b \<and> a \<noteq> CHR ''-'' \<and> b \<noteq> CHR ''-''
    \<and> day_field [a, b] = Some n \<and> (n \<le> 12 \<longrightarrow> month_field [a, b] = Some n)"
proof -
  have "\<forall>n \<in> set [1..31]. (case two_digits n of [a, b] \<Rightarrow> is_digit a \<and> is_digit b
      \<and> a \<noteq> CHR ''-'' \<and> b \<noteq> CHR ''-'' \<and> day_field [a, b] = Some n \<and> (n \<le> 12 \<longrightarrow> month_field [a, b] = Some n)
    | _ \<Rightarrow> False)" by code_simp
  from bspec [OF this, of n] assms have "case two_digits n of [a, b] \<Rightarrow> is_digit a \<and> is_digit b
      \<and> a \<noteq> CHR ''-'' \<and> b \<noteq> CHR ''-'' \<and> day_field [a, b] = Some n \<and> (n \<le> 12 \<longrightarrow> month_field [a, b] = Some n)
    | _ \<Rightarrow> False" by simp
  then show ?thesis by (auto split: list.splits)
qed

lemma year_text:
  assumes "1000 \<le> y" and "y \<le> 9999"
  shows "\<exists>a b c d. str_int y = [a, b, c, d] \<and> is_digit a \<and> is_digit b \<and> is_digit c \<and> is_digit d
    \<and> int (digits_val 10 [a, b, c, d]) = y"
proof -
  have l: "length (str_int y) = 4"
    using assms unfolding four_digits [OF assms] by (intro length_pad_zero) simp_all
  have s: "str_int y = str_nat (nat y)" using assms by (simp add: str_int_def)
  from l obtain a b c d where e: "str_nat (nat y) = [a, b, c, d]"
    unfolding s by (auto simp: numeral_eq_Suc length_Suc_conv)
  with str_nat_digits [of "nat y"] digits_val_str_nat [of "nat y"] assms show ?thesis
    by (simp add: s)
qed

text \<open>What \<^verbatim>\<open>strftime\<close> writes \<^verbatim>\<open>strptime\<close> reads back.\<close>

lemma date_key_text:
  assumes "key_date d"
  shows "strptime_ymd (date_key d) = Some d \<and> length (date_key d) = 10 \<and> date_key d ! 4 = CHR ''-''
    \<and> date_key d ! 7 = CHR ''-'' \<and> (\<forall>i \<in> {0, 1, 2, 3, 5, 6, 8, 9}. is_digit (date_key d ! i))"
proof (cases d)
  case (YMD y m n)
  with assms have y: "1000 \<le> y" "y \<le> 9999" and w: "wf_date (YMD y m n)" by (simp_all add: key_date_def)
  have m: "1 \<le> m" "m \<le> 12" and n: "1 \<le> n" "n \<le> 31" using w by (auto simp: days_in_month_def split: if_splits)
  from year_text [OF y] obtain a b c e where
    ys: "str_int y = [a, b, c, e]" "is_digit a" "is_digit b" "is_digit c" "is_digit e"
      "int (digits_val 10 [a, b, c, e]) = y" by blast
  from two_digits_read [OF m(1)] m(2) obtain p q where
    ms: "two_digits m = [p, q]" "is_digit p" "is_digit q" "p \<noteq> CHR ''-''" "q \<noteq> CHR ''-''" "month_field [p, q] = Some m"
    by auto
  from two_digits_read [OF n] obtain r s where
    ns: "two_digits n = [r, s]" "is_digit r" "is_digit s" "day_field [r, s] = Some n" by blast
  have k: "date_key d = [a, b, c, e, CHR ''-'', p, q, CHR ''-'', r, s]" by (simp add: date_key_def YMD ys ms ns)
  have "strptime_ymd (date_key d) = Some d"
    using ys ms ns w unfolding k strptime_ymd_def
    by (simp add: YMD numeral_eq_Suc)
  then show ?thesis using ys ms ns by (simp add: k)
qed
section \<open>Points in time\<close>

text \<open>
  A \<^verbatim>\<open>datetime\<close>: the date, the microseconds since midnight and the UTC offset in microseconds,
  absent for a naive one.
\<close>

datatype datetime = DT (dt_date: date) (dt_us: int) (dt_off: "int option")

definition us_per_hour :: int where "us_per_hour = 3600000000"
definition us_per_day :: int where "us_per_day = 24 * us_per_hour"

fun wf_datetime :: "datetime \<Rightarrow> bool" where
  "wf_datetime (DT d u z) \<longleftrightarrow> wf_date d \<and> 0 \<le> u \<and> u < us_per_day"

definition dt_hour :: "datetime \<Rightarrow> int" where
  "dt_hour t = dt_us t div us_per_hour"

text \<open>Wall-clock microseconds since the first day, and the instant of an aware datetime.\<close>

definition wall_us :: "datetime \<Rightarrow> int" where
  "wall_us t = toordinal (dt_date t) * us_per_day + dt_us t"

text \<open>
  \<^verbatim>\<open>a <= b\<close> for two datetimes that are both naive or both aware: by wall clock, or by instant.
\<close>

definition dt_le :: "datetime \<Rightarrow> datetime \<Rightarrow> bool" where
  "dt_le a b = (case (dt_off a, dt_off b) of
      (Some x, Some y) \<Rightarrow> wall_us a - x \<le> wall_us b - y
    | _ \<Rightarrow> wall_us a \<le> wall_us b)"

text \<open>\<^verbatim>\<open>now - timedelta(hours=n)\<close>: wall-clock arithmetic that keeps the time zone.\<close>

definition minus_hours :: "datetime \<Rightarrow> int \<Rightarrow> datetime" where
  "minus_hours t n = (let u = dt_us t - n * us_per_hour
     in DT (add_days (dt_date t) (u div us_per_day)) (u mod us_per_day) (dt_off t))"

text \<open>\<^verbatim>\<open>strftime("%Y-%m-%dT%H")\<close>.\<close>

definition hour_key :: "datetime \<Rightarrow> string" where
  "hour_key t = date_key (dt_date t) @ ''T'' @ two_digits (dt_hour t)"

declare days_in_month_def [py_eval] is_leap_def [py_eval] days_before_year_def [py_eval]
  days_before_month_def [py_eval] less_date_def [py_eval] less_eq_date_def [py_eval]
  add_days_def [py_eval] diff_days_def [py_eval] replace_day_def [py_eval] two_digits_def [py_eval]
  date_key_def [py_eval] month_key_of_def [py_eval] month_field_def [py_eval] day_field_def [py_eval]
  strptime_ymd_def [py_eval] us_per_hour_def [py_eval] us_per_day_def [py_eval] dt_hour_def [py_eval]
  wall_us_def [py_eval] dt_le_def [py_eval] minus_hours_def [py_eval] hour_key_def [py_eval]

end
