(* ===== verification/Cycle.thy ===== *)
theory Cycle
  imports Json Calendar
begin

text \<open>
  Billing cycles: \<^verbatim>\<open>hysteria/cycle.py\<close> and \<^verbatim>\<open>hysteria/timeutil.py\<close>. The admin panel, the traffic
  limiter and the authentication backend all take the days of the current cycle from here, so
  the theorems say what those days are: consecutive dates that start on a cycle boundary, end
  today, and are at most one cycle long.
\<close>

section \<open>Settings\<close>

definition SETTLEMENT_DAY_DEFAULT :: int where "SETTLEMENT_DAY_DEFAULT = 12"
definition CYCLE_LENGTH_DAYS_DEFAULT :: int where "CYCLE_LENGTH_DAYS_DEFAULT = 30"
definition CYCLE_LENGTH_MIN :: int where "CYCLE_LENGTH_MIN = 1"
definition CYCLE_LENGTH_MAX :: int where "CYCLE_LENGTH_MAX = 90"

text \<open>\<^verbatim>\<open>max(lo, min(hi, int(value)))\<close>, or the default where \<^verbatim>\<open>int\<close> raises TypeError or ValueError.\<close>

definition clamp_int :: "int \<Rightarrow> int \<Rightarrow> json \<Rightarrow> int \<Rightarrow> int res" where
  "clamp_int lo hi v dflt = (case py_int v of
      Inl e \<Rightarrow> if e = TypeError \<or> e = ValueError then Inr dflt else Inl e
    | Inr n \<Rightarrow> Inr (max lo (min hi n)))"

definition clamp_settlement_day :: "json \<Rightarrow> int \<Rightarrow> int res" where
  "clamp_settlement_day v dflt = clamp_int 1 28 v dflt"

definition clamp_cycle_length :: "json \<Rightarrow> int \<Rightarrow> int res" where
  "clamp_cycle_length v dflt = clamp_int CYCLE_LENGTH_MIN CYCLE_LENGTH_MAX v dflt"

definition settlement_day_from_meta :: "json dict \<Rightarrow> int res" where
  "settlement_day_from_meta meta =
     clamp_settlement_day (dget meta ''settlement_day'' (JInt SETTLEMENT_DAY_DEFAULT)) SETTLEMENT_DAY_DEFAULT"

definition cycle_length_from_meta :: "json dict \<Rightarrow> int res" where
  "cycle_length_from_meta meta =
     clamp_cycle_length (dget meta ''cycle_length_days'' (JInt CYCLE_LENGTH_DAYS_DEFAULT))
       CYCLE_LENGTH_DAYS_DEFAULT"

section \<open>The start of the current cycle\<close>

definition settlement_anchor_date :: "datetime \<Rightarrow> int \<Rightarrow> date" where
  "settlement_anchor_date now settlement_day =
     (let day = max 1 (min 28 settlement_day); today = dt_date now
      in if day \<le> dy today then replace_day today day
         else replace_day (prev_day (replace_day today 1)) day)"

text \<open>
  The persisted anchor, when it is a date; otherwise the last settlement day. Only a string can
  parse: the text of every other JSON value lacks the leading four digits and dash.
\<close>

definition parse_anchor :: "json \<Rightarrow> date option" where
  "parse_anchor raw = (if truthy raw then (case raw of JStr s \<Rightarrow> strptime_ymd s | _ \<Rightarrow> None) else None)"

definition cycle_anchor_date :: "datetime \<Rightarrow> json dict \<Rightarrow> int option \<Rightarrow> date res" where
  "cycle_anchor_date now meta settlement_day =
     (case parse_anchor (dget meta ''cycle_anchor_date'' JNull) of
        Some d \<Rightarrow> Inr d
      | None \<Rightarrow>
          rbind (case settlement_day of
                   None \<Rightarrow> settlement_day_from_meta meta
                 | Some sd \<Rightarrow> clamp_settlement_day (JInt sd) SETTLEMENT_DAY_DEFAULT)
            (\<lambda>day. Inr (settlement_anchor_date now day)))"

definition cycle_start_for ::
  "datetime \<Rightarrow> int option \<Rightarrow> json \<Rightarrow> date option \<Rightarrow> json dict \<Rightarrow> datetime res" where
  "cycle_start_for now day len anchor meta =
     rbind (case anchor of
              Some a \<Rightarrow> Inr a
            | None \<Rightarrow> (case day of
                None \<Rightarrow> cycle_anchor_date now meta None
              | Some sd \<Rightarrow> Inr (settlement_anchor_date now sd)))
       (\<lambda>anchor.
     rbind (cycle_length_from_meta meta) (\<lambda>dflt.
     rbind (clamp_cycle_length len dflt) (\<lambda>cycle_len.
       let today = dt_date now;
           start = (if today < anchor then anchor
                    else add_days anchor (diff_days today anchor div cycle_len * cycle_len))
       in Inr (DT start 0 (dt_off now)))))"

section \<open>The days of the current cycle\<close>

text \<open>
  The loop \<^verbatim>\<open>while cur <= end\<close>. A Python date always exists; the test of \<^const>\<open>wf_date\<close> only makes
  the recursion total.
\<close>

function days_through :: "date \<Rightarrow> date \<Rightarrow> date list" where
  "days_through cur fin =
     (if wf_date cur \<and> wf_date fin \<and> cur \<le> fin then cur # days_through (next_day cur) fin else [])"
  by pat_completeness auto
termination
  by (relation "measure (\<lambda>(cur, fin). nat (toordinal fin + 1 - toordinal cur))")
    (auto simp: toordinal_next_day toordinal_le_iff [symmetric])

declare days_through.simps [simp del]

definition cycle_days ::
  "datetime \<Rightarrow> int option \<Rightarrow> json \<Rightarrow> date option \<Rightarrow> json dict \<Rightarrow> string list res" where
  "cycle_days now day len anchor meta =
     rbind (cycle_length_from_meta meta) (\<lambda>dflt.
     rbind (clamp_cycle_length len dflt) (\<lambda>cycle_len.
     rbind (cycle_start_for now day (JInt cycle_len) anchor meta) (\<lambda>start.
       let fin = min (add_days (dt_date start) (cycle_len - 1)) (dt_date now)
       in Inr (map date_key (days_through (dt_date start) fin)))))"

text \<open>\<^verbatim>\<open>timeutil.billing_cycle_key\<close>: before the settlement day, the previous month.\<close>

definition billing_cycle_key :: "datetime \<Rightarrow> int \<Rightarrow> string" where
  "billing_cycle_key now settlement_day =
     (if settlement_day \<le> dy (dt_date now) then month_key_of (dt_date now)
      else month_key_of (prev_day (replace_day (dt_date now) 1)))"

declare SETTLEMENT_DAY_DEFAULT_def [py_eval] CYCLE_LENGTH_DAYS_DEFAULT_def [py_eval]
  CYCLE_LENGTH_MIN_def [py_eval] CYCLE_LENGTH_MAX_def [py_eval] clamp_int_def [py_eval]
  clamp_settlement_day_def [py_eval] clamp_cycle_length_def [py_eval]
  settlement_day_from_meta_def [py_eval] cycle_length_from_meta_def [py_eval]
  settlement_anchor_date_def [py_eval] parse_anchor_def [py_eval] cycle_anchor_date_def [py_eval]
  cycle_start_for_def [py_eval] days_through.simps [py_eval] cycle_days_def [py_eval]
  billing_cycle_key_def [py_eval]

section \<open>Clamping\<close>

lemma clamp_int_range: "lo \<le> hi \<Longrightarrow> lo \<le> dflt \<Longrightarrow> dflt \<le> hi \<Longrightarrow>
    clamp_int lo hi v dflt = Inr n \<Longrightarrow> lo \<le> n \<and> n \<le> hi"
  by (auto simp: clamp_int_def split: sum.splits if_splits)

lemma clamp_int_JInt [simp]: "clamp_int lo hi (JInt n) dflt = Inr (max lo (min hi n))"
  by (simp add: clamp_int_def)

lemma settlement_day_range: "settlement_day_from_meta meta = Inr n \<Longrightarrow> 1 \<le> n \<and> n \<le> 28"
  using clamp_int_range [of 1 28 12]
  by (simp add: settlement_day_from_meta_def clamp_settlement_day_def SETTLEMENT_DAY_DEFAULT_def)

lemma cycle_length_range: "cycle_length_from_meta meta = Inr n \<Longrightarrow> 1 \<le> n \<and> n \<le> 90"
  using clamp_int_range [of 1 90 30]
  by (simp add: cycle_length_from_meta_def clamp_cycle_length_def CYCLE_LENGTH_MIN_def
      CYCLE_LENGTH_MAX_def CYCLE_LENGTH_DAYS_DEFAULT_def)

lemma clamp_cycle_length_range:
  "clamp_cycle_length len dflt = Inr n \<Longrightarrow> 1 \<le> dflt \<Longrightarrow> dflt \<le> 90 \<Longrightarrow> 1 \<le> n \<and> n \<le> 90"
  using clamp_int_range [of 1 90 dflt]
  by (simp add: clamp_cycle_length_def CYCLE_LENGTH_MIN_def CYCLE_LENGTH_MAX_def)

lemma clamp_cycle_length_id: "1 \<le> n \<Longrightarrow> n \<le> 90 \<Longrightarrow> clamp_cycle_length (JInt n) dflt = Inr n"
  by (simp add: clamp_cycle_length_def CYCLE_LENGTH_MIN_def CYCLE_LENGTH_MAX_def)

section \<open>The settlement anchor\<close>

lemma wf_replace_day: "wf_date d \<Longrightarrow> 1 \<le> n \<Longrightarrow> n \<le> 28 \<Longrightarrow> wf_date (replace_day d n)"
  using days_in_month_pos by (cases d) (auto simp: replace_day_def intro: order_trans)

lemma prev_month: "prev_day (replace_day d 1) =
    (if 1 < mo d then YMD (yr d) (mo d - 1) (days_in_month (yr d) (mo d - 1)) else YMD (yr d - 1) 12 31)"
  by (cases d) (simp add: replace_day_def)

lemma settlement_anchor_cases:
  "settlement_anchor_date now sd = (let day = max 1 (min 28 sd); d = dt_date now in
     if day \<le> dy d then YMD (yr d) (mo d) day
     else if 1 < mo d then YMD (yr d) (mo d - 1) day else YMD (yr d - 1) 12 day)"
  by (simp add: settlement_anchor_date_def prev_month replace_day_def Let_def)

text \<open>
  The anchor is the latest date on or before today whose day of the month is the settlement day.
\<close>

lemma settlement_anchor_latest:
  fixes sd :: int
  assumes "wf_date (dt_date now)" and "2 \<le> yr (dt_date now)"
  defines "a \<equiv> settlement_anchor_date now sd"
  shows "wf_date a" and "a \<le> dt_date now" and "dy a = max 1 (min 28 sd)"
    and "\<And>b. wf_date b \<Longrightarrow> b \<le> dt_date now \<Longrightarrow> dy b = dy a \<Longrightarrow> b \<le> a"
proof -
  obtain y m d where [simp]: "dt_date now = YMD y m d" by (cases "dt_date now")
  define day where "day = max 1 (min 28 sd)"
  have day: "1 \<le> day" "day \<le> 28" by (simp_all add: day_def)
  have a: "a = (if day \<le> d then YMD y m day
      else if 1 < m then YMD y (m - 1) day else YMD (y - 1) 12 day)"
    by (simp add: a_def settlement_anchor_cases day_def Let_def)
  have big: "day \<le> days_in_month y' m'" for y' m'
    using day days_in_month_pos [of y' m'] by simp
  show "wf_date a" using assms(1,2) day big by (auto simp: a)
  show "a \<le> dt_date now" using assms(1) by (auto simp: a less_eq_date_def)
  show "dy a = max 1 (min 28 sd)" by (auto simp: a day_def [symmetric])
  fix b assume b: "wf_date b" "b \<le> dt_date now" "dy b = dy a"
  obtain y' m' d' where [simp]: "b = YMD y' m' d'" by (cases b)
  have "d' = day" using b(3) by (auto simp: a split: if_splits)
  with b(1,2) show "b \<le> a" by (auto simp: a less_eq_date_def)
qed

section \<open>The cycle start\<close>

lemma cycle_start_facts:
  assumes now: "wf_date (dt_date now)" and start: "cycle_start_for now day len (Some anchor) meta = Inr s"
    and a: "wf_date anchor" and len: "len = JInt n" "1 \<le> n" "n \<le> 90"
  shows "wf_date (dt_date s)" and "dt_us s = 0" and "dt_off s = dt_off now"
    and "anchor \<le> dt_date now \<Longrightarrow> dt_date s \<le> dt_date now"
    and "anchor \<le> dt_date now \<Longrightarrow> diff_days (dt_date now) (dt_date s) < n"
    and "anchor \<le> dt_date now \<Longrightarrow> n dvd diff_days (dt_date s) anchor"
    and "dt_date now < anchor \<Longrightarrow> dt_date s = anchor"
proof -
  define today where "today = dt_date now"
  define off where "off = diff_days today anchor div n * n"
  from start len have s: "s = DT (if today < anchor then anchor else add_days anchor off) 0 (dt_off now)"
    by (auto simp: cycle_start_for_def rbind_eq_Inr clamp_cycle_length_id Let_def today_def off_def)
  have 0: "0 \<le> off" if "anchor \<le> today"
    unfolding off_def using that now a len
    by (intro mult_nonneg_nonneg pos_imp_zdiv_nonneg_iff [THEN iffD2])
      (auto simp: diff_days_def today_def toordinal_le_iff)
  have A: "wf_date (add_days anchor off)" "toordinal (add_days anchor off) = toordinal anchor + off"
    if "anchor \<le> today"
    using add_days_nonneg [OF a 0 [OF that]] by simp_all
  have M: "diff_days today anchor = off + diff_days today anchor mod n" "0 \<le> diff_days today anchor mod n"
    "diff_days today anchor mod n < n"
    using len(2) by (simp_all add: off_def)
  show "wf_date (dt_date s)" using A a by (auto simp: s not_less)
  show "dt_us s = 0" "dt_off s = dt_off now" by (simp_all add: s)
  show "dt_date now < anchor \<Longrightarrow> dt_date s = anchor" by (simp add: s today_def)
  assume le: "anchor \<le> dt_date now"
  then have ds: "dt_date s = add_days anchor off" by (auto simp: s today_def)
  note B = A [unfolded today_def, OF le]
  show "dt_date s \<le> dt_date now"
    using B M now by (simp add: ds diff_days_def today_def toordinal_le_iff [symmetric])
  show "diff_days (dt_date now) (dt_date s) < n"
    using B M by (simp add: ds diff_days_def today_def)
  show "n dvd diff_days (dt_date s) anchor"
    using B by (simp add: ds diff_days_def off_def)
qed

section \<open>The days\<close>

lemma days_through_eq:
  assumes "wf_date a" and "wf_date b"
  shows "days_through a b = map (\<lambda>i. add_days a (int i)) [0..<nat (toordinal b + 1 - toordinal a)]"
  using assms
proof (induction a b rule: days_through.induct)
  case (1 a b)
  show ?case
  proof (cases "a \<le> b")
    case False
    with 1 have "toordinal b + 1 - toordinal a \<le> 0"
      by (simp add: toordinal_le_iff [symmetric])
    with False show ?thesis by (simp add: days_through.simps [of a b])
  next
    case True
    with 1 have le: "toordinal a \<le> toordinal b" by (simp add: toordinal_le_iff)
    define k where "k = nat (toordinal b - toordinal a)"
    have n: "nat (toordinal b + 1 - toordinal a) = Suc k" using le by (simp add: k_def)
    have k: "nat (toordinal b + 1 - toordinal (next_day a)) = k"
      using "1.prems" le by (simp add: toordinal_next_day k_def)
    have step: "add_days (next_day a) (int i) = add_days a (int (Suc i))" for i
      by (simp add: add_days_def nat_add_distrib funpow_swap1 del: funpow.simps)
        (simp add: funpow_Suc_right del: funpow.simps)
    have "days_through (next_day a) b = map (\<lambda>i. add_days (next_day a) (int i)) [0..<k]"
      using 1 True k by simp
    then show ?thesis
      using True "1.prems" unfolding n
      by (simp add: days_through.simps [of a b] step upt_conv_Cons map_Suc_upt [symmetric] del: upt_Suc)
  qed
qed

lemma set_days_through:
  assumes "wf_date a" and "wf_date b"
  shows "set (days_through a b) = {d. wf_date d \<and> a \<le> d \<and> d \<le> b}"
  using assms
proof (induction a b rule: days_through.induct)
  case (1 a b)
  show ?case
  proof (cases "a \<le> b")
    case False
    then show ?thesis by (auto simp: days_through.simps [of a b])
  next
    case True
    have "d = a \<or> next_day a \<le> d" if "wf_date d" "a \<le> d" for d
      using that "1.prems" toordinal_next_day [of a]
      by (auto simp: toordinal_le_iff [symmetric] toordinal_inj [symmetric])
    moreover have "a \<le> next_day a"
      using "1.prems" toordinal_next_day [of a] by (simp add: toordinal_le_iff [symmetric])
    ultimately show ?thesis
      using 1 True by (auto simp: days_through.simps [of a b] intro: order_trans)
  qed
qed

lemma length_days_through:
  "wf_date a \<Longrightarrow> wf_date b \<Longrightarrow> length (days_through a b) = nat (toordinal b + 1 - toordinal a)"
  by (simp add: days_through_eq)

lemma distinct_days_through: "wf_date a \<Longrightarrow> wf_date b \<Longrightarrow> distinct (days_through a b)"
  by (auto simp: days_through_eq distinct_map inj_on_def add_days_nonneg
      dest!: arg_cong [where f = toordinal])

lemma cycle_days_Inr:
  assumes "cycle_days now day len anchor meta = Inr ks"
  shows "\<exists>n s. 1 \<le> n \<and> n \<le> 90 \<and> cycle_start_for now day (JInt n) anchor meta = Inr s \<and>
    ks = map date_key (days_through (dt_date s) (min (add_days (dt_date s) (n - 1)) (dt_date now)))"
proof -
  from assms obtain dflt n s where d: "cycle_length_from_meta meta = Inr dflt"
    and n: "clamp_cycle_length len dflt = Inr n"
    and s: "cycle_start_for now day (JInt n) anchor meta = Inr s"
    and ks: "ks = map date_key (days_through (dt_date s) (min (add_days (dt_date s) (n - 1)) (dt_date now)))"
    by (auto simp: cycle_days_def rbind_eq_Inr Let_def)
  from clamp_cycle_length_range [OF n] cycle_length_range [OF d] s ks show ?thesis by blast
qed

section \<open>Properties\<close>

text \<open>
  The days of the current cycle. When the anchor lies on or before today, \<^verbatim>\<open>cycle_days\<close> lists
  exactly the dates from the cycle start to today, each once and in order; the start is a whole
  number of cycle lengths after the anchor and today is less than one cycle length after it. So
  every day after the anchor is counted in exactly one cycle.
\<close>

theorem cycle_days_current:
  assumes now: "wf_date (dt_date now)" and anchor: "wf_date a" "a \<le> dt_date now"
    and days: "cycle_days now day (JInt n) (Some a) meta = Inr ks" and n: "1 \<le> n" "n \<le> 90"
  shows "\<exists>ds start. ks = map date_key ds \<and> distinct ds \<and> dt_date now \<in> set ds
    \<and> set ds = {d. wf_date d \<and> start \<le> d \<and> d \<le> dt_date now}
    \<and> n dvd diff_days start a \<and> diff_days (dt_date now) start < n"
proof -
  from days obtain s where s: "cycle_start_for now day (JInt n) (Some a) meta = Inr s"
    and ks: "ks = map date_key (days_through (dt_date s) (min (add_days (dt_date s) (n - 1)) (dt_date now)))"
    by (auto simp: cycle_days_def rbind_eq_Inr Let_def clamp_cycle_length_id n)
  note S = cycle_start_facts [OF now s anchor(1) refl n]
  have e: "wf_date (add_days (dt_date s) (n - 1))"
    "toordinal (add_days (dt_date s) (n - 1)) = toordinal (dt_date s) + (n - 1)"
    using add_days_nonneg [OF S(1), of "n - 1"] n by simp_all
  have "dt_date now \<le> add_days (dt_date s) (n - 1)"
    using S(5) [OF anchor(2)] e now by (simp add: toordinal_le_iff [symmetric] diff_days_def)
  then have m: "min (add_days (dt_date s) (n - 1)) (dt_date now) = dt_date now" by simp
  show ?thesis
    using set_days_through [OF S(1) now] distinct_days_through [OF S(1) now] S(4,5,6) anchor(2) now
    by (intro exI [of _ "days_through (dt_date s) (dt_date now)"] exI [of _ "dt_date s"])
      (simp add: ks m)
qed

theorem cycle_days_current_witness:
  "\<exists>ks. cycle_days (DT (YMD 2026 3 2) 0 None) None (JInt 3) (Some (YMD 2026 2 25)) [] = Inr ks
     \<and> length ks = 3 \<and> ''2026-03-02'' \<in> set ks"
proof -
  have d: "cycle_days (DT (YMD 2026 3 2) 0 None) None (JInt 3) (Some (YMD 2026 2 25)) [] =
      Inr [''2026-02-28'', ''2026-03-01'', ''2026-03-02'']"
    by (simp add: py_eval)
  have k: "date_key (YMD 2026 3 2) = ''2026-03-02''" by (simp add: py_eval)
  from cycle_days_current [OF _ _ _ d] k show ?thesis
    using d by (auto simp: days_in_month_def less_eq_date_def)
qed

text \<open>Every day of the current cycle is a date of the last 90 days.\<close>

lemma cycle_days_dates:
  assumes now: "wf_date (dt_date now)"
    and days: "cycle_days now day len anchor meta = Inr ks"
    and anchor: "\<And>a. anchor = Some a \<Longrightarrow> wf_date a" and y: "2 \<le> yr (dt_date now)"
  shows "\<exists>ds. ks = map date_key ds \<and> distinct ds
    \<and> (\<forall>d \<in> set ds. wf_date d \<and> d \<le> dt_date now \<and> diff_days (dt_date now) d < 90)"
proof -
  from cycle_days_Inr [OF days] obtain n s where n: "1 \<le> n" "n \<le> 90"
    and s: "cycle_start_for now day (JInt n) anchor meta = Inr s"
    and ks: "ks = map date_key (days_through (dt_date s) (min (add_days (dt_date s) (n - 1)) (dt_date now)))"
    by blast
  have "\<exists>a. wf_date a \<and> cycle_start_for now day (JInt n) (Some a) meta = Inr s"
    using s anchor settlement_anchor_latest(1) [OF now y] strptime_ymd_wf
    by (force simp: cycle_start_for_def rbind_eq_Inr cycle_anchor_date_def parse_anchor_def
        split: option.splits if_splits json.splits)
  then obtain a where a: "wf_date a" "cycle_start_for now day (JInt n) (Some a) meta = Inr s" by blast
  note S = cycle_start_facts [OF now a(2) a(1) refl n]
  let ?fin = "min (add_days (dt_date s) (n - 1)) (dt_date now)"
  have fin: "wf_date ?fin" using add_days_nonneg [OF S(1), of "n - 1"] n now by (simp add: min_def)
  have "wf_date d \<and> d \<le> dt_date now \<and> diff_days (dt_date now) d < 90"
    if "d \<in> set (days_through (dt_date s) ?fin)" for d
  proof -
    have d: "wf_date d" "dt_date s \<le> d" "d \<le> ?fin"
      using that set_days_through [OF S(1) fin] by auto
    have "a \<le> dt_date now"
    proof (rule ccontr)
      assume n: "\<not> a \<le> dt_date now"
      then have "dt_date s = a" using S(7) by simp
      then have "a \<le> dt_date now" using d(2,3) by (auto intro: order_trans)
      with n show False ..
    qed
    with S(5) have "diff_days (dt_date now) (dt_date s) < n" .
    moreover have "toordinal (dt_date s) \<le> toordinal d" using d(1,2) S(1) by (simp add: toordinal_le_iff)
    ultimately show ?thesis using d n by (auto simp: diff_days_def)
  qed
  then show ?thesis using ks distinct_days_through [OF S(1) fin] by blast
qed

lemma cycle_days_recent:
  assumes now: "wf_date (dt_date now)"
    and days: "cycle_days now day len anchor meta = Inr ks"
    and anchor: "\<And>a. anchor = Some a \<Longrightarrow> wf_date a" and y: "2 \<le> yr (dt_date now)"
    and k: "k \<in> set ks"
  shows "\<exists>d. k = date_key d \<and> wf_date d \<and> d \<le> dt_date now \<and> diff_days (dt_date now) d < 90"
proof -
  from cycle_days_dates [OF now days anchor y] obtain ds where "ks = map date_key ds"
    "\<forall>d \<in> set ds. wf_date d \<and> d \<le> dt_date now \<and> diff_days (dt_date now) d < 90" by blast
  with k show ?thesis by (metis (no_types, lifting) imageE list.set_map)
qed

text \<open>
  The cycle key names the month of the settlement anchor, that is the month in which the
  current settlement period begins: on and after the settlement day the current month, before it
  the previous one. (The docstring of \<^verbatim>\<open>billing_cycle_key\<close> says the month of the cycle's end day.)
\<close>

theorem billing_cycle_key_start_month:
  assumes "1 \<le> sd" and "sd \<le> 28"
  shows "billing_cycle_key now sd = month_key_of (settlement_anchor_date now sd)"
  using assms
  by (simp add: billing_cycle_key_def settlement_anchor_date_def Let_def month_key_of_def replace_day_def
      min_def max_def)

theorem billing_cycle_key_start_month_witness:
  "billing_cycle_key (DT (YMD 2026 5 20) 0 None) 12 = ''2026-05'' \<and>
   add_days (settlement_anchor_date (DT (YMD 2026 5 20) 0 None) 12) 29 = YMD 2026 6 10"
proof
  have "billing_cycle_key (DT (YMD 2026 5 20) 0 None) 12 =
      month_key_of (settlement_anchor_date (DT (YMD 2026 5 20) 0 None) 12)"
    by (rule billing_cycle_key_start_month) simp_all
  also have "\<dots> = ''2026-05''" by (simp add: py_eval)
  finally show "billing_cycle_key (DT (YMD 2026 5 20) 0 None) 12 = ''2026-05''" .
  show "add_days (settlement_anchor_date (DT (YMD 2026 5 20) 0 None) 12) 29 = YMD 2026 6 10"
    by (simp add: py_eval)
qed

text \<open>
  A persisted anchor in the future empties the cycle: no day is counted until that date, so
  the cycle usage of every user reads as zero. Nothing in the validators forbids such an anchor.
\<close>

theorem cycle_days_future_anchor:
  assumes now: "wf_date (dt_date now)" and a: "parse_anchor (dget meta ''cycle_anchor_date'' JNull) = Some a"
    and later: "dt_date now < a" and len: "cycle_length_from_meta meta = Inr n"
  shows "cycle_days now None JNull None meta = Inr []"
proof -
  have "wf_date a" using a strptime_ymd_wf by (auto simp: parse_anchor_def split: if_splits json.splits)
  have L: "clamp_cycle_length JNull n = Inr n" by (simp add: clamp_cycle_length_def clamp_int_def)
  have N: "1 \<le> n" "n \<le> 90" using cycle_length_range [OF len] by simp_all
  have s: "cycle_start_for now None (JInt n) None meta = Inr (DT a 0 (dt_off now))"
    by (simp add: cycle_start_for_def cycle_anchor_date_def a len clamp_cycle_length_id N later)
  have e: "days_through a fin = []" if "fin < a" for fin
    using that by (subst days_through.simps) auto
  have "min (add_days a (n - 1)) (dt_date now) < a" using later by (simp add: min_less_iff_disj)
  with e show ?thesis by (simp add: cycle_days_def len L s Let_def)
qed

theorem cycle_days_future_anchor_witness:
  "cycle_days (DT (YMD 2026 5 20) 0 None) None JNull None
     [(''cycle_anchor_date'', JStr ''2026-12-12'')] = Inr []"
  by (rule cycle_days_future_anchor [of _ _ "YMD 2026 12 12" 30]) (simp_all add: py_eval)

end
