(* ===== verification/UserCompat.thy ===== *)
theory UserCompat
  imports Json Calendar
begin

text \<open>
  Field accessors and validation of a user's configuration: \<^verbatim>\<open>hysteria/user_compat.py\<close>. A user is
  the JSON object stored under the name in \<^verbatim>\<open>users.json\<close>. The parser of ISO datetimes,
  \<^verbatim>\<open>datetime.fromisoformat\<close>, is native code whose grammar depends on the Python release; it is a
  parameter \<open>isodt\<close> of the definitions that read \<^verbatim>\<open>disabled_until\<close> (given the stripped text of the
  value).
\<close>

section \<open>User names\<close>

definition username_char :: "char \<Rightarrow> bool" where
  "username_char c \<longleftrightarrow> is_alpha c \<or> is_digit c \<or> c = CHR ''_'' \<or> c = CHR ''.'' \<or> c = CHR ''-''"

definition valid_username :: "string \<Rightarrow> bool" where
  "valid_username s \<longleftrightarrow> 1 \<le> length s \<and> length s \<le> 64 \<and> (\<forall>c \<in> set s. username_char c)
     \<and> \<not> ends_with ''.json'' s"

definition is_valid_username :: "json \<Rightarrow> bool" where
  "is_valid_username v = (case v of JStr s \<Rightarrow> valid_username s | _ \<Rightarrow> False)"

section \<open>Dates in a configuration\<close>

definition parse_expiry_date :: "json \<Rightarrow> date option" where
  "parse_expiry_date raw = (if none_or_empty raw then None
     else (case raw of JStr s \<Rightarrow> strptime_ymd (py_strip s) | _ \<Rightarrow> None))"

definition expiry_date :: "json \<Rightarrow> date option" where
  "expiry_date cfg = (case cfg of JObj d \<Rightarrow> parse_expiry_date (dget d ''expires_at'' JNull) | _ \<Rightarrow> None)"

text \<open>\<open>isodt v\<close> is \<^verbatim>\<open>datetime.fromisoformat(str(v).strip())\<close>, \<open>None\<close> where that raises.\<close>

type_synonym iso_parser = "json \<Rightarrow> datetime option"

definition parse_disabled_until :: "iso_parser \<Rightarrow> json \<Rightarrow> datetime option" where
  "parse_disabled_until isodt raw = (if none_or_empty raw then None else isodt raw)"

definition disabled_until :: "iso_parser \<Rightarrow> json \<Rightarrow> datetime option" where
  "disabled_until isodt cfg = (case cfg of
      JObj d \<Rightarrow> parse_disabled_until isodt (dget d ''disabled_until'' JNull) | _ \<Rightarrow> None)"

definition temporary_disable_expired :: "iso_parser \<Rightarrow> json \<Rightarrow> datetime \<Rightarrow> bool" where
  "temporary_disable_expired isodt cfg now = (case disabled_until isodt cfg of
      None \<Rightarrow> False
    | Some until \<Rightarrow>
        (let current = (if dt_off until \<noteq> None \<and> dt_off now = None
                        then DT (dt_date now) (dt_us now) (dt_off until) else now);
             until' = (if dt_off until = None \<and> dt_off current \<noteq> None
                       then DT (dt_date until) (dt_us until) (dt_off current) else until)
         in dt_le until' current))"

definition is_expired :: "json \<Rightarrow> date \<Rightarrow> bool" where
  "is_expired cfg today = (case expiry_date cfg of None \<Rightarrow> False | Some e \<Rightarrow> e < today)"

definition is_inactive :: "json \<Rightarrow> date \<Rightarrow> bool" where
  "is_inactive cfg today = (case cfg of
      JObj d \<Rightarrow> truthy (dget d ''disabled'' JNull) \<or> is_expired cfg today
    | _ \<Rightarrow> False)"

section \<open>User classes\<close>

definition is_metered :: "json \<Rightarrow> bool" where
  "is_metered cfg = (case cfg of
      JObj d \<Rightarrow> (case map_of d ''metered'' of
          Some v \<Rightarrow> truthy v
        | None \<Rightarrow> truthy (dget d ''guest'' (JBool False)))
    | _ \<Rightarrow> False)"

definition tuic_enabled :: "json \<Rightarrow> bool" where
  "tuic_enabled cfg = (case cfg of
      JObj d \<Rightarrow> (case map_of d ''tuic_enabled'' of
          Some v \<Rightarrow> truthy v
        | None \<Rightarrow> \<not> is_metered cfg)
    | _ \<Rightarrow> False)"

section \<open>Quotas\<close>

definition quota_extra_bytes :: "json \<Rightarrow> int res" where
  "quota_extra_bytes cfg = (case cfg of
      JObj d \<Rightarrow> rbind (int_or (dget d ''quota_extra_bytes'' JNull) 0) (\<lambda>n. Inr (max 0 n))
    | _ \<Rightarrow> Inr 0)"

definition total_quota_bytes :: "json \<Rightarrow> int res" where
  "total_quota_bytes cfg = (case cfg of
      JObj d \<Rightarrow>
        rbind (int_or (dget d ''monthly_quota_bytes'' JNull) 0) (\<lambda>n.
        rbind (quota_extra_bytes cfg) (\<lambda>extra. Inr (max 0 n + extra)))
    | _ \<Rightarrow> Inr 0)"

section \<open>Structural validation\<close>

text \<open>
  The reason is the field and what it must be. \<^verbatim>\<open>int\<close> raising OverflowError is not caught by the
  code, so the result is one of: an exception that escapes, a reason, or no reason.
\<close>

datatype config_error =
    NotAnObject
  | MustBeBoolean string
  | MustBeNonNegativeInteger string
  | MustBeString string
  | BadUuid
  | BadExpiry
  | BadDisabledUntil

definition bool_fields :: "string list" where
  "bool_fields = [''disabled'', ''metered'', ''guest'', ''tuic_enabled'', ''panel_password_must_change'']"

definition int_fields :: "string list" where
  "int_fields = [''monthly_quota_bytes'', ''quota_extra_bytes'', ''max_devices'']"

definition str_fields :: "string list" where
  "str_fields = [''sub_token'', ''vless_uuid'', ''password_hash'', ''panel_pass_hash'']"

definition bool_field_error :: "json dict \<Rightarrow> string \<Rightarrow> config_error option" where
  "bool_field_error d f = (case map_of d f of
      Some v \<Rightarrow> if is_bool v then None else Some (MustBeBoolean f)
    | None \<Rightarrow> None)"

definition int_field_error :: "json dict \<Rightarrow> string \<Rightarrow> config_error option res" where
  "int_field_error d f = (case map_of d f of
      None \<Rightarrow> Inr None
    | Some v \<Rightarrow>
        if is_bool v then Inr (Some (MustBeNonNegativeInteger f))
        else (case py_int v of
            Inl e \<Rightarrow> if e = TypeError \<or> e = ValueError
                     then Inr (Some (MustBeNonNegativeInteger f)) else Inl e
          | Inr n \<Rightarrow>
              if n < 0 \<or> (case v of JStr s \<Rightarrow> str_int n \<noteq> py_strip s | _ \<Rightarrow> False)
              then Inr (Some (MustBeNonNegativeInteger f)) else Inr None))"

definition str_field_error :: "json dict \<Rightarrow> string \<Rightarrow> config_error option" where
  "str_field_error d f = (case map_of d f of
      Some v \<Rightarrow> if v = JNull \<or> is_str v then None else Some (MustBeString f)
    | None \<Rightarrow> None)"

definition uuid_error :: "json dict \<Rightarrow> config_error option" where
  "uuid_error d = (let raw = dget d ''vless_uuid'' JNull in
     if none_or_empty raw then None
     else (case raw of JStr s \<Rightarrow> if uuid_value s = None then Some BadUuid else None
                     | _ \<Rightarrow> Some BadUuid))"

text \<open>The first reason found, in the order the code looks.\<close>

fun first_error :: "config_error option res list \<Rightarrow> config_error option res" where
  "first_error [] = Inr None"
| "first_error (r # rs) = rbind r (\<lambda>e. case e of None \<Rightarrow> first_error rs | Some x \<Rightarrow> Inr (Some x))"

definition authorization_config_error :: "iso_parser \<Rightarrow> json \<Rightarrow> config_error option res" where
  "authorization_config_error isodt cfg = (case cfg of
      JObj d \<Rightarrow> first_error (
          map (\<lambda>f. Inr (bool_field_error d f)) bool_fields
        @ map (int_field_error d) int_fields
        @ map (\<lambda>f. Inr (str_field_error d f)) str_fields
        @ [Inr (uuid_error d),
           Inr (if \<not> none_or_empty (dget d ''expires_at'' JNull)
                   \<and> parse_expiry_date (dget d ''expires_at'' JNull) = None
                then Some BadExpiry else None),
           Inr (if \<not> none_or_empty (dget d ''disabled_until'' JNull)
                   \<and> parse_disabled_until isodt (dget d ''disabled_until'' JNull) = None
                then Some BadDisabledUntil else None)])
    | _ \<Rightarrow> Inr (Some NotAnObject))"

declare username_char_def [py_eval] valid_username_def [py_eval] is_valid_username_def [py_eval]
  parse_expiry_date_def [py_eval] expiry_date_def [py_eval] parse_disabled_until_def [py_eval]
  disabled_until_def [py_eval] temporary_disable_expired_def [py_eval] is_expired_def [py_eval]
  is_inactive_def [py_eval] is_metered_def [py_eval] tuic_enabled_def [py_eval]
  quota_extra_bytes_def [py_eval] total_quota_bytes_def [py_eval] bool_fields_def [py_eval]
  int_fields_def [py_eval] str_fields_def [py_eval] bool_field_error_def [py_eval]
  int_field_error_def [py_eval] str_field_error_def [py_eval] uuid_error_def [py_eval]
  authorization_config_error_def [py_eval]

lemma first_error_None:
  "first_error rs = Inr None \<longleftrightarrow> (\<forall>r \<in> set rs. r = Inr None)"
  by (induction rs) (auto simp: rbind_def split: sum.splits option.splits)

text \<open>What a user that passes validation looks like.\<close>

lemma config_ok_D:
  assumes "authorization_config_error isodt (JObj d) = Inr None"
  shows "\<And>f v. f \<in> set bool_fields \<Longrightarrow> map_of d f = Some v \<Longrightarrow> is_bool v"
    and "\<And>f v. f \<in> set int_fields \<Longrightarrow> map_of d f = Some v \<Longrightarrow> \<exists>n. py_int v = Inr n \<and> 0 \<le> n"
    and "\<And>f v. f \<in> set str_fields \<Longrightarrow> map_of d f = Some v \<Longrightarrow> v = JNull \<or> is_str v"
    and "uuid_error d = None"
    and "none_or_empty (dget d ''expires_at'' JNull) \<or> parse_expiry_date (dget d ''expires_at'' JNull) \<noteq> None"
proof -
  from assms have all: "bool_field_error d f = None" if "f \<in> set bool_fields" for f
    using that by (auto simp: authorization_config_error_def first_error_None)
  from assms have ints: "int_field_error d f = Inr None" if "f \<in> set int_fields" for f
    using that by (auto simp: authorization_config_error_def first_error_None)
  from assms have strs: "str_field_error d f = None" if "f \<in> set str_fields" for f
    using that by (auto simp: authorization_config_error_def first_error_None)
  show "is_bool v" if "f \<in> set bool_fields" "map_of d f = Some v" for f v
    using all [OF that(1)] that(2) by (auto simp: bool_field_error_def split: if_splits)
  show "\<exists>n. py_int v = Inr n \<and> 0 \<le> n" if "f \<in> set int_fields" "map_of d f = Some v" for f v
    using ints [OF that(1)] that(2) by (auto simp: int_field_error_def split: if_splits sum.splits)
  show "v = JNull \<or> is_str v" if "f \<in> set str_fields" "map_of d f = Some v" for f v
    using strs [OF that(1)] that(2) by (auto simp: str_field_error_def split: if_splits)
  show "uuid_error d = None"
    using assms by (auto simp: authorization_config_error_def first_error_None)
  show "none_or_empty (dget d ''expires_at'' JNull) \<or> parse_expiry_date (dget d ''expires_at'' JNull) \<noteq> None"
    using assms by (auto simp: authorization_config_error_def first_error_None split: if_splits)
qed

lemma total_quota_nonneg: "total_quota_bytes cfg = Inr q \<Longrightarrow> 0 \<le> q"
  by (auto simp: total_quota_bytes_def quota_extra_bytes_def rbind_eq_Inr split: json.splits)

section \<open>Properties\<close>

text \<open>
  A configuration that passes validation can never degrade into unlimited access through a
  malformed field: both quota fields read as the integers that are stored, so the enforced quota
  is their sum, and an expiry that is present and not empty is a real date, so the user is
  inactive exactly when disabled or past that date.
\<close>

theorem validated_config_enforced:
  assumes ok: "authorization_config_error isodt (JObj d) = Inr None"
  shows "(\<exists>base extra. total_quota_bytes (JObj d) = Inr (base + extra) \<and> 0 \<le> base \<and> 0 \<le> extra
        \<and> (\<forall>v. map_of d ''monthly_quota_bytes'' = Some v \<longrightarrow> py_int v = Inr base)
        \<and> (\<forall>v. map_of d ''quota_extra_bytes'' = Some v \<longrightarrow> py_int v = Inr extra))
    \<and> (\<not> none_or_empty (dget d ''expires_at'' JNull) \<longrightarrow>
        (\<exists>e. parse_expiry_date (dget d ''expires_at'' JNull) = Some e \<and> wf_date e
          \<and> (is_inactive (JObj d) today \<longleftrightarrow> map_of d ''disabled'' = Some (JBool True) \<or> e < today)))"
proof (intro conjI impI)
  have f: "\<exists>n. int_or (dget d k JNull) 0 = Inr n \<and> 0 \<le> n \<and> (\<forall>v. map_of d k = Some v \<longrightarrow> py_int v = Inr n)"
    if "k \<in> set int_fields" for k
  proof (cases "map_of d k")
    case None
    then show ?thesis by (simp add: dget_def int_or_def)
  next
    case (Some v)
    with config_ok_D(2) [OF ok that] show ?thesis by (auto simp: dget_def int_or_def)
  qed
  from f [of "''monthly_quota_bytes''"] obtain b where b:
    "int_or (dget d ''monthly_quota_bytes'' JNull) 0 = Inr b" "0 \<le> b"
    "\<forall>v. map_of d ''monthly_quota_bytes'' = Some v \<longrightarrow> py_int v = Inr b"
    by (auto simp: int_fields_def)
  from f [of "''quota_extra_bytes''"] obtain e where e:
    "int_or (dget d ''quota_extra_bytes'' JNull) 0 = Inr e" "0 \<le> e"
    "\<forall>v. map_of d ''quota_extra_bytes'' = Some v \<longrightarrow> py_int v = Inr e"
    by (auto simp: int_fields_def)
  from b(1,2) e(1,2) have "total_quota_bytes (JObj d) = Inr (b + e)"
    by (simp add: total_quota_bytes_def quota_extra_bytes_def)
  with b(2,3) e(2,3) show "\<exists>base extra. total_quota_bytes (JObj d) = Inr (base + extra)
      \<and> 0 \<le> base \<and> 0 \<le> extra
      \<and> (\<forall>v. map_of d ''monthly_quota_bytes'' = Some v \<longrightarrow> py_int v = Inr base)
      \<and> (\<forall>v. map_of d ''quota_extra_bytes'' = Some v \<longrightarrow> py_int v = Inr extra)"
    by blast
next
  assume ne: "\<not> none_or_empty (dget d ''expires_at'' JNull)"
  with config_ok_D(5) [OF ok] obtain e where
    e: "parse_expiry_date (dget d ''expires_at'' JNull) = Some e" by auto
  then have "wf_date e"
    using strptime_ymd_wf by (auto simp: parse_expiry_date_def split: if_splits json.splits)
  moreover have "truthy (dget d ''disabled'' JNull) \<longleftrightarrow> map_of d ''disabled'' = Some (JBool True)"
    using config_ok_D(1) [OF ok, of "''disabled''"]
    by (auto simp: dget_def bool_fields_def is_bool_conv split: option.splits)
  ultimately show "\<exists>e. parse_expiry_date (dget d ''expires_at'' JNull) = Some e \<and> wf_date e
        \<and> (is_inactive (JObj d) today \<longleftrightarrow> map_of d ''disabled'' = Some (JBool True) \<or> e < today)"
    using e by (simp add: is_inactive_def is_expired_def expiry_date_def)
qed

theorem validated_config_enforced_witness:
  "\<exists>base extra. total_quota_bytes (JObj [(''monthly_quota_bytes'', JStr ''500''), (''quota_extra_bytes'', JInt 7)])
     = Inr (base + extra) \<and> base = 500 \<and> extra = 7"
proof -
  let ?d = "[(''monthly_quota_bytes'', JStr ''500''), (''quota_extra_bytes'', JInt 7)]"
  have ok: "authorization_config_error (\<lambda>_. None) (JObj ?d) = Inr None" by (simp add: py_eval)
  have m: "map_of ?d ''monthly_quota_bytes'' = Some (JStr ''500'')"
    "map_of ?d ''quota_extra_bytes'' = Some (JInt 7)" by simp_all
  have "py_int (JStr ''500'') = Inr 500" "py_int (JInt 7) = Inr 7" by (simp_all add: py_eval)
  with conjunct1 [OF validated_config_enforced [OF ok]] m show ?thesis by (metis sum.inject(2))
qed

end
