(* ===== verification/StateStore.thy ===== *)
theory StateStore
  imports Json
begin

text \<open>
  File-backed state: \<^verbatim>\<open>hysteria/state_store.py\<close>. A cell is one state file: what a reader sees now,
  what may be there after a crash, and how many temporary siblings are left over. Every system
  call of a write can fail; which ones do is the parameter \<open>fails\<close> of the operations.
  The section on transactions states once, as a locale, what the queue and receipt stores rely
  on: a read-modify-write under the lock either takes effect as a whole or not at all.
\<close>

section \<open>Loading\<close>

text \<open>\<^verbatim>\<open>isinstance(data, type(default))\<close>.\<close>

definition same_type :: "json \<Rightarrow> json \<Rightarrow> bool" where
  "same_type data dflt = (case dflt of
      JNull \<Rightarrow> data = JNull
    | JBool _ \<Rightarrow> is_bool data
    | JInt _ \<Rightarrow> (case data of JInt _ \<Rightarrow> True | JBool _ \<Rightarrow> True | _ \<Rightarrow> False)
    | JFloat _ \<Rightarrow> (case data of JFloat _ \<Rightarrow> True | _ \<Rightarrow> False)
    | JStr _ \<Rightarrow> is_str data
    | JList _ \<Rightarrow> (case data of JList _ \<Rightarrow> True | _ \<Rightarrow> False)
    | JObj _ \<Rightarrow> is_obj data)"

definition load_json_strict :: "jfile \<Rightarrow> json \<Rightarrow> bool \<Rightarrow> json res" where
  "load_json_strict f dflt required = (case f of
      Missing \<Rightarrow> if required then Inl InvalidJsonState else Inr dflt
    | Unreadable \<Rightarrow> Inl InvalidJsonState
    | NotJson \<Rightarrow> Inl InvalidJsonState
    | Doc r \<Rightarrow>
        (let data = json_of_raw r
         in if dflt \<noteq> JNull \<and> \<not> same_type data dflt then Inl InvalidJsonState else Inr data))"

text \<open>The lenient loader of dashboards and caches: any failure gives the default.\<close>

definition load_json :: "jfile \<Rightarrow> json \<Rightarrow> json" where
  "load_json f dflt = (case f of Doc r \<Rightarrow> json_of_raw r | _ \<Rightarrow> dflt)"

text \<open>Loading an object, the shape of every core state file.\<close>

definition load_dict :: "jfile \<Rightarrow> bool \<Rightarrow> json dict res" where
  "load_dict f required = rbind (load_json_strict f (JObj []) required) (\<lambda>j. Inr (obj_of j))"

lemma load_dict_wf: "load_dict f required = Inr d \<Longrightarrow> wf_json (JObj d)"
proof -
  assume a: "load_dict f required = Inr d"
  then obtain j where j: "load_json_strict f (JObj []) required = Inr j" "d = obj_of j"
    by (auto simp: load_dict_def rbind_eq_Inr)
  from j(1) have "wf_json j \<and> is_obj j"
    using wf_json_of_raw
    by (auto simp: load_json_strict_def same_type_def is_obj_def Let_def split: jfile.splits if_splits)
  then show ?thesis using j(2) by (cases j) (auto simp: is_obj_def obj_of_def)
qed

lemma load_dict_doc: "wf_json (JObj d) \<Longrightarrow> load_dict (Doc (raw_of_json (JObj d))) required = Inr d"
  using json_of_raw_of_json [of "JObj d"]
  by (simp add: load_dict_def load_json_strict_def same_type_def is_obj_def obj_of_def
      del: json_of_raw.simps wf_json.simps)

section \<open>Atomic replacement\<close>

datatype io_step = MkParent | MkTemp | WriteTemp | ReplaceFile | SyncDir | UnlinkTemp | Chmod | UnlinkFile | Unlock

type_synonym faults = "io_step \<Rightarrow> bool"

record cell =
  seen :: jfile
  after_crash :: "jfile set"
  temps :: nat

definition quiet :: "jfile \<Rightarrow> cell" where
  "quiet f = \<lparr>seen = f, after_crash = {f}, temps = 0\<rparr>"

text \<open>
  \<^verbatim>\<open>_write_atomic\<close>: a temporary sibling is written and synced, then renamed over the target, then
  the directory is synced. The \<^verbatim>\<open>finally\<close> clause removes the temporary file unless the rename has
  consumed it; a failing removal leaves it behind and is itself an OSError.
\<close>

definition drop_temp :: "faults \<Rightarrow> cell \<Rightarrow> cell" where
  "drop_temp fails c = (if fails UnlinkTemp then c else c\<lparr>temps := temps c - 1\<rparr>)"

definition write_atomic :: "faults \<Rightarrow> jfile \<Rightarrow> cell \<Rightarrow> exc option \<times> cell" where
  "write_atomic fails new c =
     (if fails MkTemp then (Some OSError, c)
      else let c1 = c\<lparr>temps := Suc (temps c)\<rparr> in
      if fails WriteTemp then (Some OSError, drop_temp fails c1)
      else if fails ReplaceFile then (Some OSError, drop_temp fails c1)
      else let c2 = c1\<lparr>seen := new, after_crash := insert new (after_crash c), temps := temps c\<rparr> in
      if fails SyncDir then (Some DurabilityUncertain, c2)
      else (None, c2\<lparr>after_crash := {new}\<rparr>))"

definition save_json :: "faults \<Rightarrow> json \<Rightarrow> cell \<Rightarrow> exc option \<times> cell" where
  "save_json fails data c =
     (if fails MkParent then (Some OSError, c)
      else write_atomic fails (Doc (raw_of_json data)) c)"

definition save_text_atomic :: "faults \<Rightarrow> jfile \<Rightarrow> cell \<Rightarrow> exc option \<times> cell" where
  "save_text_atomic fails text c =
     (if fails MkParent then (Some OSError, c) else write_atomic fails text c)"

text \<open>\<^verbatim>\<open>_save\<close> of the credential stores: write, then make the file private.\<close>

definition save_private :: "faults \<Rightarrow> json \<Rightarrow> cell \<Rightarrow> exc option \<times> cell" where
  "save_private fails data c = (case save_json fails data c of
      (Some e, c') \<Rightarrow> (Some e, c')
    | (None, c') \<Rightarrow> if fails Chmod then (Some OSError, c') else (None, c'))"

text \<open>
  C35. Atomic replacement is all or nothing. Success means the new content is visible and the only
  thing a crash can leave. The uncertain outcome means it is visible while a crash may still bring
  the old content back. Any other failure leaves the visible content and the crash behaviour as
  they were. In no case is a third content ever visible or recoverable, and a temporary file is
  left over only when removing it failed.
\<close>

theorem write_atomic_all_or_nothing:
  "case write_atomic fails new c of
     (None, c') \<Rightarrow> seen c' = new \<and> after_crash c' = {new} \<and> temps c' = temps c
   | (Some e, c') \<Rightarrow>
       (if e = DurabilityUncertain
        then seen c' = new \<and> after_crash c' = insert new (after_crash c) \<and> temps c' = temps c
        else e = OSError \<and> seen c' = seen c \<and> after_crash c' = after_crash c
          \<and> (temps c' = temps c \<or> fails UnlinkTemp \<and> temps c' = Suc (temps c)))"
  by (auto simp: write_atomic_def drop_temp_def Let_def)

lemma save_json_cases:
  assumes "save_json fails data c = (r, c')"
  obtains "r = None" "seen c' = Doc (raw_of_json data)" "after_crash c' = {Doc (raw_of_json data)}"
  | "r = Some DurabilityUncertain" "seen c' = Doc (raw_of_json data)"
      "after_crash c' = insert (Doc (raw_of_json data)) (after_crash c)"
  | "r = Some OSError" "seen c' = seen c" "after_crash c' = after_crash c"
  using assms
  by (auto simp: save_json_def write_atomic_def drop_temp_def Let_def split: if_splits)

lemma save_private_cases:
  assumes "save_private fails data c = (r, c')"
  obtains "r = None" "seen c' = Doc (raw_of_json data)" "after_crash c' = {Doc (raw_of_json data)}"
  | e where "r = Some e" "e = DurabilityUncertain \<or> e = OSError" "seen c' = Doc (raw_of_json data)"
      "after_crash c' \<subseteq> insert (Doc (raw_of_json data)) (after_crash c)"
  | "r = Some OSError" "seen c' = seen c" "after_crash c' = after_crash c"
proof -
  obtain r1 c1 where s: "save_json fails data c = (r1, c1)" by fastforce
  from s show ?thesis
  proof (cases rule: save_json_cases)
    case 1
    with assms s that show ?thesis by (auto simp: save_private_def split: if_splits)
  next
    case 2
    with assms s that show ?thesis by (auto simp: save_private_def)
  next
    case 3
    with assms s that show ?thesis by (auto simp: save_private_def)
  qed
qed

section \<open>Bounded lock acquisition\<close>

text \<open>
  The polling loop of \<^verbatim>\<open>file_lock\<close>. The lock is free at the \<open>i\<close>-th attempt when \<open>free i\<close>;
  \<^verbatim>\<open>time.sleep(d)\<close> lets at least \<open>d\<close> seconds pass, \<open>late i\<close> more than that. The result is the time at
  which the lock was taken, or LockTimeout; without fuel there is none.
\<close>

fun poll_lock ::
  "nat \<Rightarrow> (nat \<Rightarrow> bool) \<Rightarrow> (nat \<Rightarrow> rat) \<Rightarrow> rat \<Rightarrow> rat \<Rightarrow> rat \<Rightarrow> nat \<Rightarrow> rat res option" where
  "poll_lock 0 free late poll deadline now i = None"
| "poll_lock (Suc fuel) free late poll deadline now i =
     (if free i then Some (Inr now)
      else let remaining = deadline - now in
        if remaining \<le> 0 then Some (Inl LockTimeout)
        else poll_lock fuel free late poll deadline (now + min poll remaining + late i) (Suc i))"

text \<open>
  \<^verbatim>\<open>file_lock(path, timeout=t, poll_interval=p)\<close> up to the \<^verbatim>\<open>yield\<close>: the argument checks, the
  directory and the lock file, then the loop. Without a timeout it blocks until the lock is free.
\<close>

definition bad_interval :: "json \<Rightarrow> bool \<Rightarrow> bool" where
  "bad_interval v zero_ok = (case finite_number v of
      None \<Rightarrow> True | Some r \<Rightarrow> if zero_ok then r < 0 else r \<le> 0)"

definition file_lock ::
  "nat \<Rightarrow> bool \<Rightarrow> (nat \<Rightarrow> bool) \<Rightarrow> (nat \<Rightarrow> rat) \<Rightarrow> json \<Rightarrow> json \<Rightarrow> rat \<Rightarrow> rat res option" where
  "file_lock fuel open_fails free late timeout poll now =
     (if timeout \<noteq> JNull \<and> (bad_interval timeout True \<or> bad_interval poll False)
      then Some (Inl ValueError)
      else if open_fails then Some (Inl OSError)
      else (case (finite_number timeout, finite_number poll) of
          (Some t, Some p) \<Rightarrow> poll_lock fuel free late p (now + t) now 0
        | _ \<Rightarrow> (case find free [0..<fuel] of None \<Rightarrow> None | Some i \<Rightarrow> Some (Inr now))))"

lemma poll_lock_returns:
  assumes poll: "0 < poll" and late: "\<And>j. 0 \<le> late j"
    and fuel: "deadline - now \<le> of_nat n * poll" and enough: "Suc n < fuel"
  shows "\<exists>r. poll_lock fuel free late poll deadline now i = Some r \<and>
    (case r of Inl e \<Rightarrow> e = LockTimeout | Inr t \<Rightarrow> now \<le> t \<and> (\<exists>j\<ge>i. free j))"
  using fuel enough
proof (induction n arbitrary: fuel now i)
  case 0
  then show ?case by (cases fuel) auto
next
  case (Suc n)
  then obtain fuel' where f: "fuel = Suc fuel'" by (cases fuel) auto
  show ?case
  proof (cases "free i \<or> deadline - now \<le> 0")
    case True
    then show ?thesis by (auto simp: f)
  next
    case False
    let ?now = "now + min poll (deadline - now) + late i"
    have le: "now \<le> ?now" using False poll late [of i] by (simp add: min_def)
    have "deadline - ?now \<le> of_nat n * poll"
    proof (cases "poll \<le> deadline - now")
      case True
      with Suc.prems(1) late [of i] show ?thesis by (simp add: algebra_simps)
    next
      case False
      have "0 \<le> of_nat n * poll" using poll by simp
      with False late [of i] show ?thesis by (simp add: min_def)
    qed
    from Suc.IH [OF this, where fuel = fuel' and i = "Suc i"] Suc.prems(2) f obtain r where
      r: "poll_lock fuel' free late poll deadline ?now (Suc i) = Some r"
      "case r of Inl e \<Rightarrow> e = LockTimeout | Inr t \<Rightarrow> ?now \<le> t \<and> (\<exists>j\<ge>Suc i. free j)"
      by auto
    have "case r of Inl e \<Rightarrow> e = LockTimeout | Inr t \<Rightarrow> now \<le> t \<and> (\<exists>j\<ge>i. free j)"
      using r(2) le by (auto split: sum.splits intro: order_trans Suc_leD)
    with r(1) False show ?thesis by (auto simp: f Let_def)
  qed
qed

text \<open>
  C38. A lock with a timeout is never waited for without bound: with a positive poll interval the
  loop returns after at most \<open>timeout / poll + 2\<close> attempts, either holding the lock or with
  LockTimeout, whoever else holds it and however late the scheduler wakes the caller.
\<close>

theorem file_lock_bounded:
  assumes "finite_number timeout = Some t" "0 \<le> t" "finite_number poll = Some p" "0 < p"
    and "\<And>j. 0 \<le> late j" and "t \<le> of_nat n * p"
  shows "\<exists>r. file_lock (n + 2) False free late timeout poll now = Some r
     \<and> (r = Inl LockTimeout \<or> (\<exists>t'. r = Inr t' \<and> now \<le> t' \<and> (\<exists>j. free j)))"
proof -
  have nn: "timeout \<noteq> JNull" using assms(1) by (auto simp: finite_number_def)
  have "file_lock (n + 2) False free late timeout poll now = poll_lock (n + 2) free late p (now + t) now 0"
    using assms nn by (simp add: file_lock_def bad_interval_def)
  moreover have "now + t - now \<le> of_nat n * p" using assms(6) by simp
  then obtain r where r: "poll_lock (n + 2) free late p (now + t) now 0 = Some r"
    "case r of Inl e \<Rightarrow> e = LockTimeout | Inr t \<Rightarrow> now \<le> t \<and> (\<exists>j\<ge>0. free j)"
    using poll_lock_returns [where late = late and fuel = "n + 2" and free = free and i = 0,
        OF assms(4) assms(5)] by (metis Suc_eq_plus1 add_2_eq_Suc' lessI)
  moreover from r(2) have "r = Inl LockTimeout \<or> (\<exists>t'. r = Inr t' \<and> now \<le> t' \<and> (\<exists>j. free j))"
    by (cases r) auto
  ultimately show ?thesis by simp
qed

theorem file_lock_bounded_witness:
  "\<exists>r. file_lock 5 False (\<lambda>_. False) (\<lambda>_. 1/100) (JFloat (Fin (3/20))) (JFloat (Fin (1/20))) 0 = Some r"
  using file_lock_bounded [of "JFloat (Fin (3/20))" "3/20" "JFloat (Fin (1/20))" "1/20" "\<lambda>_. 1/100" 3 "\<lambda>_. False" 0]
  by (auto simp: finite_number_def)

section \<open>Transactions\<close>

text \<open>
  What a credential store does under its lock: load and validate, compute the outcome and possibly
  a new state, save it. \<open>txn\<close> is that shape over any pair of load and save.
\<close>

definition txn ::
  "('c \<Rightarrow> 'd res) \<Rightarrow> ('f \<Rightarrow> 'd \<Rightarrow> 'c \<Rightarrow> exc option \<times> 'c) \<Rightarrow> ('d \<Rightarrow> 'r res \<times> 'd option)
   \<Rightarrow> 'f \<Rightarrow> 'c \<Rightarrow> 'r res \<times> 'c" where
  "txn load put body fails c = (case load c of
      Inl e \<Rightarrow> (Inl e, c)
    | Inr d \<Rightarrow> (case body d of
        (r, None) \<Rightarrow> (r, c)
      | (r, Some d') \<Rightarrow> (case put fails d' c of
          (Some e, c') \<Rightarrow> (Inl e, c')
        | (None, c') \<Rightarrow> (r, c'))))"

text \<open>
  The contract between the file layer and the stores: a successful put is what the next load
  returns, a failed one leaves either the old or the new state, never a third.
\<close>

locale durable_store =
  fixes load :: "'c \<Rightarrow> 'd res"
    and put :: "'f \<Rightarrow> 'd \<Rightarrow> 'c \<Rightarrow> exc option \<times> 'c"
    and ok :: "'d \<Rightarrow> bool"
  assumes load_ok: "load c = Inr d \<Longrightarrow> ok d"
    and put_ok: "ok d \<Longrightarrow> put f d c = (None, c') \<Longrightarrow> load c' = Inr d"
    and put_fail: "ok d \<Longrightarrow> put f d c = (Some e, c') \<Longrightarrow> load c' = Inr d \<or> load c' = load c"
begin

text \<open>A transaction takes effect as a whole or not at all.\<close>

lemma txn_atomic:
  assumes "load c = Inr d" and "body d = (r, Some d')" and "ok d'"
    and "txn load put body f c = (r', c')"
  shows "load c' = Inr d' \<or> load c' = Inr d" and "r' = r \<Longrightarrow> \<not> isl r \<Longrightarrow> load c' = Inr d'"
    and "\<not> isl r' \<Longrightarrow> r' = r \<and> load c' = Inr d'"
  using assms put_ok [of d' f c] put_fail [of d' f c]
  by (auto simp: txn_def split: prod.splits option.splits)

lemma txn_no_write:
  assumes "load c = Inr d" and "body d = (r, None)" and "txn load put body f c = (r', c')"
  shows "r' = r \<and> c' = c"
  using assms by (simp add: txn_def)

lemma txn_load_error: "load c = Inl e \<Longrightarrow> txn load put body f c = (Inl e, c)"
  by (simp add: txn_def)

text \<open>What every body keeps, every transaction keeps, whatever system call fails.\<close>

lemma txn_invariant:
  assumes "\<And>d r d'. load c = Inr d \<Longrightarrow> body d = (r, Some d') \<Longrightarrow> ok d' \<and> I d'"
    and "\<And>d. load c = Inr d \<Longrightarrow> I d"
    and "txn load put body f c = (r', c')" and "load c' = Inr d''"
  shows "I d''"
proof (cases "load c")
  case (Inl e)
  with assms(3,4) txn_load_error [OF Inl, of body f] show ?thesis by simp
next
  case (Inr d)
  show ?thesis
  proof (cases "body d")
    case (Pair r w)
    show ?thesis
    proof (cases w)
      case None
      with txn_no_write [OF Inr _ assms(3)] Pair have "c' = c" by simp
      with assms(2) [OF Inr] assms(4) Inr show ?thesis by simp
    next
      case (Some d')
      with assms(1) [OF Inr] Pair have "ok d' \<and> I d'" by simp
      with txn_atomic(1) [OF Inr, of body r d' f r' c'] Pair Some assms(2) [OF Inr] assms(3,4)
      show ?thesis by auto
    qed
  qed
qed

end

text \<open>The JSON file of a store: load and validate, write and make private.\<close>

definition cell_load :: "(json dict \<Rightarrow> unit res) \<Rightarrow> jfile \<Rightarrow> json dict res" where
  "cell_load valid f = rbind (load_dict f False) (\<lambda>d. rbind (valid d) (\<lambda>_. Inr d))"

definition cell_ok :: "(json dict \<Rightarrow> unit res) \<Rightarrow> json dict \<Rightarrow> bool" where
  "cell_ok valid d \<longleftrightarrow> wf_json (JObj d) \<and> valid d = Inr ()"

definition put_private :: "faults \<Rightarrow> json dict \<Rightarrow> cell \<Rightarrow> exc option \<times> cell" where
  "put_private fails d c = save_private fails (JObj d) c"

lemma cell_load_ok: "cell_load valid f = Inr d \<Longrightarrow> cell_ok valid d"
  using load_dict_wf by (auto simp: cell_load_def cell_ok_def rbind_eq_Inr simp del: wf_json.simps)

lemma cell_load_doc: "cell_ok valid d \<Longrightarrow> cell_load valid (Doc (raw_of_json (JObj d))) = Inr d"
  by (simp add: cell_load_def cell_ok_def load_dict_doc del: wf_json.simps)

text \<open>
  What a way of writing a store has to promise: it reports success and only the new content is
  visible or recoverable; or it reports a failure and either the new content is visible, with the
  old one perhaps coming back, or nothing has changed.
\<close>

definition atomic_put :: "(faults \<Rightarrow> json dict \<Rightarrow> cell \<Rightarrow> exc option \<times> cell) \<Rightarrow> bool" where
  "atomic_put put \<longleftrightarrow> (\<forall>fails d c. let (r, c') = put fails d c; new = Doc (raw_of_json (JObj d)) in
     (r = None \<and> seen c' = new \<and> after_crash c' = {new})
     \<or> (r \<noteq> None \<and> seen c' = new \<and> after_crash c' \<subseteq> insert new (after_crash c))
     \<or> (r \<noteq> None \<and> seen c' = seen c \<and> after_crash c' = after_crash c))"

lemma atomic_put_cases:
  assumes "atomic_put put" and "put fails d c = (r, c')"
  obtains "r = None" "seen c' = Doc (raw_of_json (JObj d))" "after_crash c' = {Doc (raw_of_json (JObj d))}"
  | "r \<noteq> None" "seen c' = Doc (raw_of_json (JObj d))"
      "after_crash c' \<subseteq> insert (Doc (raw_of_json (JObj d))) (after_crash c)"
  | "r \<noteq> None" "seen c' = seen c" "after_crash c' = after_crash c"
proof -
  from assms(1) have "let (r, c') = put fails d c; new = Doc (raw_of_json (JObj d)) in
     (r = None \<and> seen c' = new \<and> after_crash c' = {new})
     \<or> (r \<noteq> None \<and> seen c' = new \<and> after_crash c' \<subseteq> insert new (after_crash c))
     \<or> (r \<noteq> None \<and> seen c' = seen c \<and> after_crash c' = after_crash c)"
    unfolding atomic_put_def by blast
  with assms(2) that show ?thesis by (simp add: Let_def) blast
qed

lemma put_private_atomic: "atomic_put put_private"
  unfolding atomic_put_def
proof (intro allI)
  fix fails d c
  obtain r c' where p: "put_private fails d c = (r, c')" by fastforce
  show "let (r, c') = put_private fails d c; new = Doc (raw_of_json (JObj d)) in
     (r = None \<and> seen c' = new \<and> after_crash c' = {new})
     \<or> (r \<noteq> None \<and> seen c' = new \<and> after_crash c' \<subseteq> insert new (after_crash c))
     \<or> (r \<noteq> None \<and> seen c' = seen c \<and> after_crash c' = after_crash c)"
    using p [unfolded put_private_def]
    by (rule save_private_cases) (simp_all add: p)
qed

lemma atomic_put_store:
  assumes "atomic_put put"
  shows "durable_store (\<lambda>c. cell_load valid (seen c)) put (cell_ok valid)"
proof
  show "cell_load valid (seen c) = Inr d \<Longrightarrow> cell_ok valid d" for c d
    by (rule cell_load_ok)
  show "cell_load valid (seen c') = Inr d"
    if "cell_ok valid d" "put f d c = (None, c')" for d f c c'
    using assms that(2) by (rule atomic_put_cases) (use cell_load_doc [OF that(1)] in simp_all)
  show "cell_load valid (seen c') = Inr d \<or> cell_load valid (seen c') = cell_load valid (seen c)"
    if "cell_ok valid d" "put f d c = (Some e, c')" for d f c e c'
    using assms that(2) by (rule atomic_put_cases) (use cell_load_doc [OF that(1)] in simp_all)
qed

interpretation private_cell: durable_store "\<lambda>c. cell_load valid (seen c)" put_private "cell_ok valid"
  for valid
  by (rule atomic_put_store [OF put_private_atomic])

text \<open>
  A transaction of a store: \<open>lock\<close> is the exception raised while taking the lock, if any.
\<close>

definition transact ::
  "(faults \<Rightarrow> json dict \<Rightarrow> cell \<Rightarrow> exc option \<times> cell) \<Rightarrow> exc option \<Rightarrow> (json dict \<Rightarrow> unit res)
   \<Rightarrow> (json dict \<Rightarrow> 'r res \<times> json dict option) \<Rightarrow> faults \<Rightarrow> cell \<Rightarrow> 'r res \<times> cell" where
  "transact put lock valid body fails c = (case lock of
      Some e \<Rightarrow> (Inl e, c)
    | None \<Rightarrow> txn (\<lambda>c. cell_load valid (seen c)) put body fails c)"

text \<open>
  The stronger form: every content that is visible or may come back is valid and has the property.
\<close>

definition cell_safe :: "(json dict \<Rightarrow> unit res) \<Rightarrow> (json dict \<Rightarrow> bool) \<Rightarrow> cell \<Rightarrow> bool" where
  "cell_safe valid I c \<longleftrightarrow>
     (\<forall>f \<in> insert (seen c) (after_crash c). \<exists>d. cell_load valid f = Inr d \<and> I d)"

lemma cell_safe_seen: "cell_safe valid I c \<Longrightarrow> \<exists>d. cell_load valid (seen c) = Inr d \<and> I d"
  by (simp add: cell_safe_def)

lemma cell_safe_mono: "cell_safe valid I c \<Longrightarrow> (\<And>d. I d \<Longrightarrow> J d) \<Longrightarrow> cell_safe valid J c"
  unfolding cell_safe_def by blast

text \<open>A transaction none of whose system calls fails answers what its body answers.\<close>

lemma transact_quiet:
  assumes "cell_load valid (seen c) = Inr d" and "body d = (r, w)"
  shows "fst (transact put_private None valid body (\<lambda>_. False) c) = r"
  using assms
  by (auto simp: transact_def txn_def put_private_def save_private_def save_json_def write_atomic_def Let_def
      split: option.splits)

text \<open>A way of writing may refuse a state before touching the file.\<close>

definition refused :: "(faults \<Rightarrow> json dict \<Rightarrow> cell \<Rightarrow> exc option \<times> cell) \<Rightarrow> json dict \<Rightarrow> bool" where
  "refused put d \<longleftrightarrow> (\<forall>fails c. \<exists>e. put fails d c = (Some e, c))"

lemma transact_reads:
  assumes "transact put lock valid body fails c = (Inr x, c')"
  shows "\<exists>d. cell_load valid (seen c) = Inr d \<and> fst (body d) = Inr x"
  using assms by (auto simp: transact_def txn_def split: option.splits sum.splits prod.splits)

lemma transact_changes:
  assumes put: "atomic_put put" and t: "transact put lock valid body fails c = (r', c')"
    and body: "\<And>d r d'. cell_load valid (seen c) = Inr d \<Longrightarrow> body d = (r, Some d') \<Longrightarrow>
      refused put d' \<or> cell_ok valid d'"
  obtains "seen c' = seen c" "after_crash c' = after_crash c"
    "isl r' \<or> (\<exists>d. cell_load valid (seen c) = Inr d \<and> body d = (r', None))"
  | d d' r where "cell_load valid (seen c) = Inr d" "body d = (r, Some d')" "\<not> refused put d'"
    "cell_load valid (seen c') = Inr d'"
    "\<And>f. f \<in> after_crash c' \<Longrightarrow> f \<in> after_crash c \<or> cell_load valid f = Inr d'"
    "r' = r \<and> after_crash c' = {seen c'} \<or> isl r'"
proof -
  consider (same) "c' = c" "isl r' \<or> (\<exists>d. cell_load valid (seen c) = Inr d \<and> body d = (r', None))"
    | (put) d r d' e where "cell_load valid (seen c) = Inr d" "body d = (r, Some d')"
      "put fails d' c = (e, c')" "r' = (case e of None \<Rightarrow> r | Some x \<Rightarrow> Inl x)"
    using t by (auto simp: transact_def txn_def split: option.splits sum.splits prod.splits)
  then show ?thesis
  proof cases
    case same
    then show ?thesis using that(1) by simp
  next
    case put: put
    show ?thesis
    proof (cases "refused put d'")
      case True
      with put(3) have "c' = c" "e \<noteq> None"
        unfolding refused_def by (metis prod.inject option.distinct(1))+
      with put(4) show ?thesis by (intro that(1)) auto
    next
      case False
      with body [OF put(1,2)] have new: "cell_load valid (Doc (raw_of_json (JObj d'))) = Inr d'"
        by (simp add: cell_load_doc)
      from \<open>atomic_put put\<close> put(3) show ?thesis
      proof (cases rule: atomic_put_cases)
        case 1
        show ?thesis by (rule that(2) [OF put(1,2) False]) (use 1 new put(4) in auto)
      next
        case 2
        show ?thesis by (rule that(2) [OF put(1,2) False]) (use 2 new put(4) in auto)
      next
        case 3
        show ?thesis by (rule that(1)) (use 3 put(4) in auto)
      qed
    qed
  qed
qed

lemma transact_cell_safe:
  assumes put: "atomic_put put" and c: "cell_safe valid I c"
    and t: "transact put lock valid body fails c = (r', c')"
    and body: "\<And>d r d'. cell_ok valid d \<Longrightarrow> I d \<Longrightarrow> body d = (r, Some d') \<Longrightarrow>
      refused put d' \<or> cell_ok valid d' \<and> J d'"
    and weaker: "\<And>d. cell_ok valid d \<Longrightarrow> I d \<Longrightarrow> J d"
  shows "cell_safe valid J c'"
proof -
  have I: "cell_ok valid d \<and> I d" if "cell_load valid (seen c) = Inr d" for d
    using cell_safe_seen [OF c] that cell_load_ok by auto
  have old: "\<exists>d. cell_load valid f = Inr d \<and> J d" if "f \<in> insert (seen c) (after_crash c)" for f
    using c that weaker cell_load_ok unfolding cell_safe_def by blast
  from put t show ?thesis
  proof (rule transact_changes)
    show "refused put d' \<or> cell_ok valid d'" if "cell_load valid (seen c) = Inr d" "body d = (r, Some d')" for d r d'
      using body I that by blast
    show ?thesis if "seen c' = seen c" "after_crash c' = after_crash c"
      using old that by (simp add: cell_safe_def)
    show ?thesis if "cell_load valid (seen c) = Inr d" "body d = (r, Some d')" "\<not> refused put d'"
      "cell_load valid (seen c') = Inr d'"
      "\<And>f. f \<in> after_crash c' \<Longrightarrow> f \<in> after_crash c \<or> cell_load valid f = Inr d'" for d d' r
    proof -
      have "J d'" using body I that(1-3) by blast
      with that(4,5) old show ?thesis unfolding cell_safe_def by blast
    qed
  qed
qed

text \<open>A crash leaves one of the possible contents.\<close>

definition crashed :: "cell \<Rightarrow> jfile \<Rightarrow> cell" where
  "crashed c f = \<lparr>seen = f, after_crash = {f}, temps = temps c\<rparr>"

lemma crash_cell_safe: "cell_safe valid I c \<Longrightarrow> f \<in> after_crash c \<Longrightarrow> cell_safe valid I (crashed c f)"
  by (auto simp: cell_safe_def crashed_def)

section \<open>Histories of a store\<close>

text \<open>
  A history is a sequence of operations, each with the outcome of taking the lock and its own
  system-call failures, and of power losses that bring back one of the contents the file may have.
\<close>

datatype 'op event = Op "exc option" faults 'op | Crash jfile

inductive history ::
  "(exc option \<Rightarrow> faults \<Rightarrow> 'op \<Rightarrow> cell \<Rightarrow> 'r res \<times> cell) \<Rightarrow> 'op event list \<Rightarrow> cell \<Rightarrow> cell \<Rightarrow> bool"
  for run where
  nothing: "history run [] c c"
| operation: "run lock fails op c = (r, c1) \<Longrightarrow> history run es c1 c2 \<Longrightarrow>
    history run (Op lock fails op # es) c c2"
| power_loss: "f \<in> after_crash c \<Longrightarrow> history run es (crashed c f) c2 \<Longrightarrow>
    history run (Crash f # es) c c2"

inductive_cases history_Nil: "history run [] c c'"
inductive_cases history_Op: "history run (Op lock fails op # es) c c'"
inductive_cases history_Crash: "history run (Crash f # es) c c'"

text \<open>A history together with what each operation answered.\<close>

inductive answered ::
  "(exc option \<Rightarrow> faults \<Rightarrow> 'op \<Rightarrow> cell \<Rightarrow> 'r res \<times> cell) \<Rightarrow> 'op event list \<Rightarrow> 'r res option list
   \<Rightarrow> cell \<Rightarrow> cell \<Rightarrow> bool" for run where
  answered_nothing: "answered run [] [] c c"
| answered_operation: "run lock fails op c = (r, c1) \<Longrightarrow> answered run es rs c1 c2 \<Longrightarrow>
    answered run (Op lock fails op # es) (Some r # rs) c c2"
| answered_power_loss: "f \<in> after_crash c \<Longrightarrow> answered run es rs (crashed c f) c2 \<Longrightarrow>
    answered run (Crash f # es) (None # rs) c c2"

definition event_ok :: "('op \<Rightarrow> bool) \<Rightarrow> 'op event \<Rightarrow> bool" where
  "event_ok op_ok e = (case e of Op lock fails op \<Rightarrow> op_ok op | Crash f \<Rightarrow> True)"

text \<open>
  The contract of a store of this kind: an operation answers at once, or runs its body as a
  transaction, perhaps failing after it, and the bodies keep the state valid and its invariant. What
  follows from it: whatever each body keeps is kept by every history, whichever system calls fail and
  wherever the power goes. The predicate may depend on the events still to come.
\<close>

locale stored_ops =
  fixes run :: "exc option \<Rightarrow> faults \<Rightarrow> 'op \<Rightarrow> cell \<Rightarrow> 'r res \<times> cell"
    and guard :: "'op \<Rightarrow> cell \<Rightarrow> 'r res option"
    and valid :: "json dict \<Rightarrow> unit res"
    and body :: "'op \<Rightarrow> json dict \<Rightarrow> 'r res \<times> json dict option"
    and op_ok :: "'op \<Rightarrow> bool"
    and put :: "faults \<Rightarrow> json dict \<Rightarrow> cell \<Rightarrow> exc option \<times> cell"
    and inv :: "json dict \<Rightarrow> bool"
  assumes run_guard: "guard op c = Some a \<Longrightarrow> run lock fails op c = (a, c)"
    and run_transact: "guard op c = None \<Longrightarrow> run lock fails op c = (r, c') \<Longrightarrow>
      \<exists>q. transact put lock valid (body op) fails c = (q, c') \<and> (r = q \<or> isl r)"
    and put_atomic: "atomic_put put"
    and body_ok: "cell_ok valid d \<Longrightarrow> inv d \<Longrightarrow> guard op c = None \<Longrightarrow> op_ok op \<Longrightarrow>
      body op d = (r, Some d') \<Longrightarrow> refused put d' \<or> cell_ok valid d' \<and> inv d'"
begin

lemma op_safe:
  assumes c: "cell_safe valid I c" and op: "run lock fails op c = (r, c')" and ok: "op_ok op"
    and I: "\<And>d. I d \<Longrightarrow> inv d"
    and step: "\<And>d r d'. cell_ok valid d \<Longrightarrow> I d \<Longrightarrow> guard op c = None \<Longrightarrow> body op d = (r, Some d') \<Longrightarrow> J d'"
    and weaker: "\<And>d. cell_ok valid d \<Longrightarrow> I d \<Longrightarrow> J d"
  shows "cell_safe valid J c'"
proof (cases "guard op c")
  case (Some a)
  with op have c': "c' = c" by (simp add: run_guard)
  show ?thesis unfolding c' using c weaker cell_load_ok unfolding cell_safe_def by meson
next
  case None
  from run_transact [OF None op] obtain r0 where "transact put lock valid (body op) fails c = (r0, c')" by blast
  from put_atomic c this show ?thesis
    by (rule transact_cell_safe) (use None ok I body_ok step weaker in blast)+
qed

lemma history_safe:
  assumes "history run es c c'" and "\<forall>e \<in> set es. event_ok op_ok e" and "cell_safe valid (P es) c"
    and I: "\<And>es d. P es d \<Longrightarrow> inv d"
    and step: "\<And>lock fails op es' c d r d'. cell_ok valid d \<Longrightarrow> P (Op lock fails op # es') d \<Longrightarrow>
      guard op c = None \<Longrightarrow> op_ok op \<Longrightarrow> body op d = (r, Some d') \<Longrightarrow> P es' d'"
    and weaker: "\<And>e es' d. P (e # es') d \<Longrightarrow> P es' d"
  shows "cell_safe valid (P []) c'"
  using assms(1-3)
proof (induction rule: history.induct)
  case (nothing c)
  then show ?case by simp
next
  case (operation lock fails op c r c1 es c2)
  have ok: "op_ok op" using operation.prems(1) by (simp add: event_ok_def)
  have safe: "cell_safe valid (P es) c1"
    using operation.prems(2) operation.hyps(1) ok
  proof (rule op_safe)
    show "P es d'" if "cell_ok valid d" "P (Op lock fails op # es) d" "guard op c = None"
      "body op d = (r, Some d')" for d r d'
      by (rule step [OF that(1,2,3) ok that(4)])
  qed (rule I weaker, assumption)+
  have ev: "\<forall>e \<in> set es. event_ok op_ok e" using operation.prems(1) by simp
  show ?case by (rule operation.IH [OF ev safe])
next
  case (power_loss f c es c2)
  from power_loss.prems(2) have "cell_safe valid (P es) c"
    by (rule cell_safe_mono) (rule weaker)
  then have safe: "cell_safe valid (P es) (crashed c f)"
    using power_loss.hyps(1) by (rule crash_cell_safe)
  have ev: "\<forall>e \<in> set es. event_ok op_ok e" using power_loss.prems(1) by simp
  show ?case by (rule power_loss.IH [OF ev safe])
qed

text \<open>After a successful operation that wrote, only the new state is visible or recoverable.\<close>

lemma op_success:
  assumes "cell_load valid (seen c) = Inr d" and "run lock fails op c = (Inr x, c')" and "op_ok op"
    and "guard op c = None" and "inv d"
  shows "body op d = (Inr x, None) \<and> seen c' = seen c
    \<or> (\<exists>d'. body op d = (Inr x, Some d') \<and> cell_load valid (seen c') = Inr d' \<and> after_crash c' = {seen c'})"
proof -
  from run_transact [OF assms(4,2)] have "transact put lock valid (body op) fails c = (Inr x, c')" by auto
  from put_atomic this show ?thesis
  proof (rule transact_changes)
    show "refused put d1' \<or> cell_ok valid d1'" if "cell_load valid (seen c) = Inr d1" "body op d1 = (r, Some d1')" for d1 r d1'
      using body_ok [OF cell_load_ok [OF that(1)] _ assms(4,3) that(2)] that(1) assms(1,5) by auto
    show ?thesis if "seen c' = seen c" "isl (Inr x :: 'r res) \<or> (\<exists>d. cell_load valid (seen c) = Inr d \<and> body op d = (Inr x, None))"
      using that assms(1) by auto
    show ?thesis if "cell_load valid (seen c) = Inr d1" "body op d1 = (r, Some d')" "cell_load valid (seen c') = Inr d'"
      "Inr x = r \<and> after_crash c' = {seen c'} \<or> isl (Inr x :: 'r res)" for d1 d' r
      using that assms(1) by auto
  qed
qed

text \<open>In every case the visible state is the old one or the one the body made.\<close>

lemma op_outcome:
  assumes "cell_load valid (seen c) = Inr d" and "run lock fails op c = (r, c')" and "op_ok op"
    and "guard op c = None" and "inv d"
  shows "(isl r \<or> body op d = (r, None)) \<and> seen c' = seen c
    \<or> (\<exists>r0 d'. body op d = (r0, Some d') \<and> cell_load valid (seen c') = Inr d' \<and> (isl r \<or> r = r0))"
proof -
  from run_transact [OF assms(4,2)] obtain q where
    q: "transact put lock valid (body op) fails c = (q, c')" "r = q \<or> isl r" by blast
  from put_atomic q(1) show ?thesis
  proof (rule transact_changes)
    show "refused put d1' \<or> cell_ok valid d1'" if "cell_load valid (seen c) = Inr d1" "body op d1 = (r, Some d1')" for d1 r d1'
      using body_ok [OF cell_load_ok [OF that(1)] _ assms(4,3) that(2)] that(1) assms(1,5) by auto
    show ?thesis if "seen c' = seen c" "isl q \<or> (\<exists>d. cell_load valid (seen c) = Inr d \<and> body op d = (q, None))"
      using that assms(1) q(2) by (cases q) auto
    show ?thesis if "cell_load valid (seen c) = Inr d1" "body op d1 = (r1, Some d')" "cell_load valid (seen c') = Inr d'"
      "q = r1 \<and> after_crash c' = {seen c'} \<or> isl q" for d1 d' r1
      using that assms(1) q(2) by (cases q) auto
  qed
qed

end

declare same_type_def [py_eval] load_json_strict_def [py_eval] load_dict_def [py_eval]
  cell_load_def [py_eval] put_private_def [py_eval] transact_def [py_eval] txn_def [py_eval]
  save_private_def [py_eval] save_json_def [py_eval] write_atomic_def [py_eval]
  drop_temp_def [py_eval] quiet_def [py_eval]

end
