(* ===== verification/RevocationQueue.thy ===== *)
theory RevocationQueue
  imports StateStore "HOL-Library.Product_Lexorder"
begin

text \<open>
  The durable retry queue of credential revocations: \<^verbatim>\<open>hysteria/revocation_queue.py\<close>. A task is the
  JSON object stored under its 64-character id. Each operation is the body that runs under the
  lock, as a function of the loaded dictionary: its outcome and the dictionary it saves, if any.
  \<open>queue_op\<close> runs a body as a transaction on the state file. The abstract queue is a map from ids to
  task records; every body is shown to implement the step of that machine.
\<close>

section \<open>Constants and fields\<close>

definition TASK_TTL_SECONDS :: int where "TASK_TTL_SECONDS = 600"
definition TASK_MAX_ENTRIES :: nat where "TASK_MAX_ENTRIES = 512"
definition CLAIM_LEASE_SECONDS :: int where "CLAIM_LEASE_SECONDS = 15"
definition SECOND_KICK_DELAY_SECONDS :: int where "SECOND_KICK_DELAY_SECONDS = 2"
definition RETRY_DELAY_SECONDS :: int where "RETRY_DELAY_SECONDS = 5"
definition ALLOWED_STATIC_SERVICES :: "string list" where
  "ALLOWED_STATIC_SERVICES = [''xray.service'', ''tuic-server.service'']"

text \<open>
  \<^verbatim>\<open>int(item.get(k, default))\<close> on a loaded task, where \<open>_load\<close> has already made sure that the
  conversion succeeds.
\<close>

definition int_field :: "json dict \<Rightarrow> string \<Rightarrow> int \<Rightarrow> int" where
  "int_field it k dflt = (case py_int (dget it k (JInt dflt)) of Inr n \<Rightarrow> n | Inl _ \<Rightarrow> dflt)"

definition str_of :: "json \<Rightarrow> string" where
  "str_of j = (case j of JStr s \<Rightarrow> s | _ \<Rightarrow> [])"

definition str_list :: "json \<Rightarrow> string list" where
  "str_list j = (case j of JList xs \<Rightarrow> map str_of xs | _ \<Rightarrow> [])"

definition services_of :: "json dict \<Rightarrow> string list" where
  "services_of it = str_list (dget it ''static_services'' (JList []))"

lemma int_field_update [simp, dict_simps]:
  "int_field (AList.update k v it) x dflt =
     (if x = k then (case py_int v of Inr n \<Rightarrow> n | Inl _ \<Rightarrow> dflt) else int_field it x dflt)"
  by (simp add: int_field_def)

lemma services_of_update [simp, dict_simps]:
  "services_of (AList.update k v it) = (if k = ''static_services'' then str_list v else services_of it)"
  by (auto simp: services_of_def)

lemma str_list_strings [simp]: "str_list (JList (map JStr xs)) = xs"
  by (simp add: str_list_def str_of_def comp_def)

section \<open>Loading\<close>

definition counter_value :: "json \<Rightarrow> int res" where
  "counter_value v = (case py_int v of
      Inl e \<Rightarrow> if e = TypeError \<or> e = ValueError then Inl InvalidJsonState else Inl e
    | Inr n \<Rightarrow> Inr n)"

definition services_ok :: "json \<Rightarrow> bool" where
  "services_ok v = (case v of
      JList xs \<Rightarrow> (\<forall>x \<in> set xs. case x of JStr s \<Rightarrow> s \<in> set ALLOWED_STATIC_SERVICES | _ \<Rightarrow> False)
    | _ \<Rightarrow> False)"

definition check_task :: "string \<times> json \<Rightarrow> unit res" where
  "check_task kv = (let key = fst kv; it = obj_of (snd kv) in
     rbind (raise_if
         (length key \<noteq> 64 \<or> \<not> is_obj (snd kv)
          \<or> \<not> is_str (dget it ''user'' JNull)
          \<or> \<not> is_str (dget it ''previous_generation'' JNull)
          \<or> \<not> is_str (dget it ''target_generation'' JNull)
          \<or> \<not> services_ok (dget it ''static_services'' JNull))
         InvalidJsonState) (\<lambda>_.
     rbind (counter_value (dget it ''created_at'' JNull)) (\<lambda>created.
     rbind (counter_value (dget it ''expires_at'' JNull)) (\<lambda>expires.
     rbind (counter_value (dget it ''next_attempt_at'' (JInt 0))) (\<lambda>_.
     rbind (counter_value (dget it ''lease_until'' (JInt 0))) (\<lambda>_.
     rbind (counter_value (dget it ''kick_successes'' (JInt 0))) (\<lambda>kicks.
     rbind (counter_value (dget it ''attempts'' (JInt 0))) (\<lambda>attempts.
       raise_if (created \<le> 0 \<or> expires \<le> created \<or> \<not> (0 \<le> kicks \<and> kicks \<le> 2) \<or> attempts < 0)
         InvalidJsonState))))))))"

definition check_queue :: "json dict \<Rightarrow> unit res" where
  "check_queue data = check_all check_task data"

text \<open>The invariant of a stored task that \<^const>\<open>check_task\<close> enforces.\<close>

definition has_int :: "json dict \<Rightarrow> string \<Rightarrow> json \<Rightarrow> bool" where
  "has_int it k dflt \<longleftrightarrow> (\<exists>n. py_int (dget it k dflt) = Inr n)"

definition task_valid :: "string \<Rightarrow> json dict \<Rightarrow> bool" where
  "task_valid key it \<longleftrightarrow> length key = 64
     \<and> is_str (dget it ''user'' JNull)
     \<and> is_str (dget it ''previous_generation'' JNull)
     \<and> is_str (dget it ''target_generation'' JNull)
     \<and> services_ok (dget it ''static_services'' JNull)
     \<and> has_int it ''created_at'' JNull \<and> has_int it ''expires_at'' JNull
     \<and> has_int it ''next_attempt_at'' (JInt 0) \<and> has_int it ''lease_until'' (JInt 0)
     \<and> has_int it ''kick_successes'' (JInt 0) \<and> has_int it ''attempts'' (JInt 0)
     \<and> 0 < int_field it ''created_at'' 0 \<and> int_field it ''created_at'' 0 < int_field it ''expires_at'' 0
     \<and> 0 \<le> int_field it ''kick_successes'' 0 \<and> int_field it ''kick_successes'' 0 \<le> 2
     \<and> 0 \<le> int_field it ''attempts'' 0"

lemma counter_value_Inr: "counter_value v = Inr n \<longleftrightarrow> py_int v = Inr n"
  by (auto simp: counter_value_def split: sum.splits)

lemma dget_present: "py_int (dget it k JNull) = Inr n \<Longrightarrow> dget it k v = dget it k JNull"
  by (auto simp: dget_def split: option.splits)

lemma check_task_Inr:
  "check_task (key, item) = Inr u \<longleftrightarrow> (\<exists>it. item = JObj it \<and> task_valid key it)"
proof (cases "is_obj item")
  case False
  then show ?thesis by (auto simp: check_task_def is_obj_def raise_if_def)
next
  case True
  then obtain it where it: "item = JObj it" by (auto simp: is_obj_conv)
  let ?S = "length key = 64 \<and> is_str (dget it ''user'' JNull)
     \<and> is_str (dget it ''previous_generation'' JNull) \<and> is_str (dget it ''target_generation'' JNull)
     \<and> services_ok (dget it ''static_services'' JNull)"
  let ?B = "\<lambda>c e k a. 0 < c \<and> c < e \<and> 0 \<le> k \<and> k \<le> (2::int) \<and> 0 \<le> (a::int)"
  have "check_task (key, item) = Inr u \<longleftrightarrow> ?S \<and> (\<exists>c. py_int (dget it ''created_at'' JNull) = Inr c
     \<and> (\<exists>e. py_int (dget it ''expires_at'' JNull) = Inr e
     \<and> (\<exists>n. py_int (dget it ''next_attempt_at'' (JInt 0)) = Inr n)
     \<and> (\<exists>l. py_int (dget it ''lease_until'' (JInt 0)) = Inr l)
     \<and> (\<exists>k. py_int (dget it ''kick_successes'' (JInt 0)) = Inr k
     \<and> (\<exists>a. py_int (dget it ''attempts'' (JInt 0)) = Inr a \<and> ?B c e k a))))"
    by (simp add: it check_task_def Let_def rbind_eq_Inr counter_value_Inr is_obj_def obj_of_def
        not_less not_le conj_ac)
  also have "\<dots> \<longleftrightarrow> task_valid key it"
    unfolding task_valid_def has_int_def int_field_def
    by (rule iffI; elim conjE exE; simp add: dget_present [where v = "JInt 0"])
  finally show ?thesis by (simp add: it)
qed

lemma check_queue_Inr:
  "check_queue d = Inr u \<longleftrightarrow> (\<forall>k item. (k, item) \<in> set d \<longrightarrow> (\<exists>it. item = JObj it \<and> task_valid k it))"
  by (auto simp: check_queue_def check_all_Inr check_task_Inr)

lemma has_int_update [simp, dict_simps]:
  "has_int (AList.update k v it) x dflt \<longleftrightarrow> (if x = k then \<exists>n. py_int v = Inr n else has_int it x dflt)"
  by (simp add: has_int_def)

section \<open>Operations\<close>

text \<open>The task id: \<open>hex\<close> is the SHA-256 digest of a text, in hexadecimal.\<close>

definition task_id_for :: "(string \<Rightarrow> string) \<Rightarrow> string \<Rightarrow> string \<Rightarrow> string" where
  "task_id_for hex user nonce =
     hex (''credential-revocation'' @ [CHR 0x00] @ user @ [CHR 0x00] @ nonce)"

definition retain_pending :: "json dict \<Rightarrow> int \<Rightarrow> json dict" where
  "retain_pending data now = data"

text \<open>\<^verbatim>\<open>hmac.compare_digest\<close> of two strings: a TypeError unless both are ASCII.\<close>

definition ascii_only :: "string \<Rightarrow> bool" where
  "ascii_only s \<longleftrightarrow> (\<forall>c \<in> set s. (of_char c :: nat) < 128)"

definition compare_digest :: "string \<Rightarrow> string \<Rightarrow> bool res" where
  "compare_digest a b = (if ascii_only a \<and> ascii_only b then Inr (a = b) else Inl TypeError)"

text \<open>What the stores rely on: SHA-256 digests in hexadecimal have 64 ASCII characters.\<close>

definition hex_digest :: "(string \<Rightarrow> string) \<Rightarrow> bool" where
  "hex_digest hex \<longleftrightarrow> (\<forall>s. length (hex s) = 64 \<and> ascii_only (hex s))"

definition service_set :: "string list \<Rightarrow> string list" where
  "service_set xs = remdups (filter (\<lambda>s. s \<noteq> []) xs)"

definition new_task :: "string \<Rightarrow> string \<Rightarrow> string \<Rightarrow> string list \<Rightarrow> int \<Rightarrow> json dict" where
  "new_task user prev target services timestamp =
     [(''user'', JStr user), (''previous_generation'', JStr prev), (''target_generation'', JStr target),
      (''created_at'', JInt timestamp), (''expires_at'', JInt (timestamp + TASK_TTL_SECONDS)),
      (''next_attempt_at'', JInt timestamp), (''lease_until'', JInt 0), (''kick_successes'', JInt 0),
      (''attempts'', JInt 0), (''static_services'', JList (map JStr (sort services)))]"

definition binding_matches :: "json dict \<Rightarrow> string \<Rightarrow> string \<Rightarrow> string \<Rightarrow> bool res" where
  "binding_matches existing user prev target =
     (if dget existing ''user'' JNull \<noteq> JStr user then Inr False
      else rbind (compare_digest (str_of (dget existing ''previous_generation'' JNull)) prev) (\<lambda>p.
        if \<not> p then Inr False
        else compare_digest (str_of (dget existing ''target_generation'' JNull)) target))"

definition prepare_body ::
  "string \<Rightarrow> string \<Rightarrow> string \<Rightarrow> string \<Rightarrow> string list \<Rightarrow> int \<Rightarrow> json dict \<Rightarrow> json dict res \<times> json dict option" where
  "prepare_body task_id user prev target services timestamp loaded =
     (let data = retain_pending loaded timestamp in
      case map_of data task_id of
        Some existing \<Rightarrow> (case binding_matches (obj_of existing) user prev target of
            Inl e \<Rightarrow> (Inl e, None)
          | Inr False \<Rightarrow> (Inl PermissionError, None)
          | Inr True \<Rightarrow> (Inr (obj_of existing), Some data))
      | None \<Rightarrow>
          if TASK_MAX_ENTRIES \<le> length data then (Inl CapacityError, None)
          else let item = new_task user prev target services timestamp
               in (Inr item, Some (AList.update task_id (JObj item) data)))"

definition add_static_services_body ::
  "string \<Rightarrow> string list \<Rightarrow> int \<Rightarrow> json dict \<Rightarrow> bool res \<times> json dict option" where
  "add_static_services_body task_id wanted timestamp loaded =
     (let data = retain_pending loaded timestamp in
      case map_of data task_id of
        Some (JObj it) \<Rightarrow>
          (let it1 = AList.update ''static_services''
                 (JList (map JStr (sort (remdups (services_of it @ wanted))))) it;
               it2 = AList.update ''next_attempt_at''
                 (JInt (min (int_field it ''next_attempt_at'' timestamp) timestamp)) it1
           in (Inr True, Some (AList.update task_id (JObj it2) data)))
      | _ \<Rightarrow> (Inr False, None))"

definition due :: "int \<Rightarrow> string \<times> json \<Rightarrow> bool" where
  "due timestamp kv \<longleftrightarrow> int_field (obj_of (snd kv)) ''next_attempt_at'' 0 \<le> timestamp
     \<and> int_field (obj_of (snd kv)) ''lease_until'' 0 \<le> timestamp"

definition claim_order :: "string \<times> json \<Rightarrow> int \<times> int \<times> string" where
  "claim_order kv = (int_field (obj_of (snd kv)) ''next_attempt_at'' 0,
     int_field (obj_of (snd kv)) ''created_at'' 0, fst kv)"

definition claim_due_body ::
  "int \<Rightarrow> json dict \<Rightarrow> (string \<times> json dict) option res \<times> json dict option" where
  "claim_due_body timestamp original =
     (let data = retain_pending original timestamp;
          candidates = sort_key claim_order (filter (due timestamp) data)
      in case candidates of
           [] \<Rightarrow> (Inr None, if data \<noteq> original then Some data else None)
         | (key, item) # _ \<Rightarrow>
             (let it1 = AList.update ''lease_until'' (JInt (timestamp + CLAIM_LEASE_SECONDS)) (obj_of item);
                  it2 = AList.update ''attempts'' (JInt (int_field it1 ''attempts'' 0 + 1)) it1
              in (Inr (Some (key, it2)), Some (AList.update key (JObj it2) data))))"

definition release_claim_body ::
  "string \<Rightarrow> int \<Rightarrow> int \<Rightarrow> json dict \<Rightarrow> bool res \<times> json dict option" where
  "release_claim_body task_id delay timestamp loaded =
     (let data = retain_pending loaded timestamp in
      case map_of data task_id of
        Some (JObj it) \<Rightarrow>
          (let it1 = AList.update ''lease_until'' (JInt 0) it;
               it2 = AList.update ''next_attempt_at'' (JInt (timestamp + max 1 delay)) it1
           in (Inr True, Some (AList.update task_id (JObj it2) data)))
      | _ \<Rightarrow> (Inr False, None))"

datatype completion =
    MissingTask
  | Attempted (complete: bool) (kick_successes: int) (static_pending: "string list")

definition complete_attempt_body ::
  "string \<Rightarrow> bool \<Rightarrow> string list \<Rightarrow> int \<Rightarrow> json dict \<Rightarrow> completion res \<times> json dict option" where
  "complete_attempt_body task_id kick_ok stopped timestamp loaded =
     (let data = retain_pending loaded timestamp in
      case map_of data task_id of
        Some (JObj it) \<Rightarrow>
          (let successes = (if kick_ok then min 2 (int_field it ''kick_successes'' 0 + 1) else 0);
               it1 = AList.update ''kick_successes'' (JInt successes) it;
               pending = filter (\<lambda>s. s \<notin> set stopped) (services_of it1);
               it2 = AList.update ''static_services'' (JList (map JStr pending)) it1;
               done = (2 \<le> successes \<and> pending = []);
               it3 = AList.update ''next_attempt_at''
                 (JInt (timestamp + (if kick_ok then SECOND_KICK_DELAY_SECONDS else RETRY_DELAY_SECONDS)))
                 (AList.update ''lease_until'' (JInt 0) it2);
               data' = (if done then AList.delete task_id data
                        else AList.update task_id (JObj it3) data)
           in (Inr (Attempted done successes pending), Some data'))
      | _ \<Rightarrow> (Inr MissingTask, None))"

definition discard_body :: "string \<Rightarrow> json dict \<Rightarrow> unit res \<times> json dict option" where
  "discard_body task_id data =
     (if map_of data task_id \<noteq> None then (Inr (), Some (AList.delete task_id data)) else (Inr (), None))"

section \<open>The operations on the state file\<close>

text \<open>
  Each operation checks its arguments, then runs its body under the lock. Services are given as
  their names; empty names are dropped.
\<close>

datatype qop =
    Prepare string string string string "string list" int
  | AddStaticServices string "string list" int
  | ClaimDue int
  | ReleaseClaim string int int
  | CompleteAttempt string bool "string list" int
  | Discard string

datatype qresult =
    Task "json dict"
  | Flag bool
  | Claimed "(string \<times> json dict) option"
  | Completed completion
  | Done

definition map_res :: "('a \<Rightarrow> 'b) \<Rightarrow> 'a res \<times> 'd \<Rightarrow> 'b res \<times> 'd" where
  "map_res f p = ((case fst p of Inl e \<Rightarrow> Inl e | Inr x \<Rightarrow> Inr (f x)), snd p)"

fun qbody :: "qop \<Rightarrow> json dict \<Rightarrow> qresult res \<times> json dict option" where
  "qbody (Prepare i u p t ss now) d = map_res Task (prepare_body i u p t (service_set ss) now d)"
| "qbody (AddStaticServices i ss now) d = map_res Flag (add_static_services_body i (service_set ss) now d)"
| "qbody (ClaimDue now) d = map_res Claimed (claim_due_body now d)"
| "qbody (ReleaseClaim i delay now) d = map_res Flag (release_claim_body i delay now d)"
| "qbody (CompleteAttempt i ok ss now) d = map_res Completed (complete_attempt_body i ok ss now d)"
| "qbody (Discard i) d = map_res (\<lambda>_. Done) (discard_body i d)"

definition services_allowed :: "string list \<Rightarrow> bool" where
  "services_allowed ss \<longleftrightarrow> set (service_set ss) \<subseteq> set ALLOWED_STATIC_SERVICES"

text \<open>What an operation answers before it touches the file, if it does.\<close>

fun qguard :: "qop \<Rightarrow> qresult res option" where
  "qguard (Prepare i u p t ss now) =
     (if length i \<noteq> 64 \<or> \<not> services_allowed ss then Some (Inl ValueError) else None)"
| "qguard (AddStaticServices i ss now) =
     (if service_set ss = [] then Some (Inr (Flag False))
      else if \<not> services_allowed ss then Some (Inl ValueError) else None)"
| "qguard _ = None"

definition queue_op :: "exc option \<Rightarrow> faults \<Rightarrow> qop \<Rightarrow> cell \<Rightarrow> qresult res \<times> cell" where
  "queue_op lock fails q c = (case qguard q of
      Some r \<Rightarrow> (r, c)
    | None \<Rightarrow> transact put_private lock check_queue (qbody q) fails c)"

section \<open>The abstract queue\<close>

record task =
  t_user :: string
  t_previous :: string
  t_target :: string
  t_created :: int
  t_next :: int
  t_lease :: int
  t_kicks :: int
  t_attempts :: int
  t_services :: "string list"

type_synonym queue = "string \<rightharpoonup> task"

definition abs_task :: "json dict \<Rightarrow> task" where
  "abs_task it = \<lparr>
     t_user = str_of (dget it ''user'' JNull),
     t_previous = str_of (dget it ''previous_generation'' JNull),
     t_target = str_of (dget it ''target_generation'' JNull),
     t_created = int_field it ''created_at'' 0,
     t_next = int_field it ''next_attempt_at'' 0,
     t_lease = int_field it ''lease_until'' 0,
     t_kicks = int_field it ''kick_successes'' 0,
     t_attempts = int_field it ''attempts'' 0,
     t_services = services_of it\<rparr>"

definition abs_queue :: "json dict \<Rightarrow> queue" where
  "abs_queue d = (\<lambda>k. map_option (\<lambda>j. abs_task (obj_of j)) (map_of d k))"

definition fresh_task :: "string \<Rightarrow> string \<Rightarrow> string \<Rightarrow> string list \<Rightarrow> int \<Rightarrow> task" where
  "fresh_task u p t ss now = \<lparr>t_user = u, t_previous = p, t_target = t, t_created = now,
     t_next = now, t_lease = 0, t_kicks = 0, t_attempts = 0, t_services = sort ss\<rparr>"

text \<open>
  One step of the queue, labelled with the operation. The first rules are the cases in which an
  operation leaves the queue as it is: a repeated or refused preparation, a missing task, nothing due.
\<close>

inductive queue_step :: "qop \<Rightarrow> queue \<Rightarrow> queue \<Rightarrow> bool" where
  prepare_again: "q i = Some x \<Longrightarrow> queue_step (Prepare i u p t ss now) q q"
| prepare_full: "q i = None \<Longrightarrow> TASK_MAX_ENTRIES \<le> card (dom q) \<Longrightarrow>
    queue_step (Prepare i u p t ss now) q q"
| add_missing: "q i = None \<Longrightarrow> queue_step (AddStaticServices i ss now) q q"
| release_missing: "q i = None \<Longrightarrow> queue_step (ReleaseClaim i delay now) q q"
| complete_missing: "q i = None \<Longrightarrow> queue_step (CompleteAttempt i ok ss now) q q"
| nothing_due: "(\<And>j y. q j = Some y \<Longrightarrow> now < t_next y \<or> now < t_lease y) \<Longrightarrow>
    queue_step (ClaimDue now) q q"
| prepare: "q i = None \<Longrightarrow> card (dom q) < TASK_MAX_ENTRIES \<Longrightarrow>
    queue_step (Prepare i u p t ss now) q (q(i \<mapsto> fresh_task u p t (service_set ss) now))"
| add_services: "q i = Some x \<Longrightarrow> n \<le> now \<Longrightarrow>
    queue_step (AddStaticServices i ss now) q
      (q(i \<mapsto> x\<lparr>t_services := sort (remdups (t_services x @ service_set ss)), t_next := n\<rparr>))"
| claim: "q i = Some x \<Longrightarrow> t_next x \<le> now \<Longrightarrow> t_lease x \<le> now \<Longrightarrow>
    (\<And>j y. q j = Some y \<Longrightarrow> t_next y \<le> now \<Longrightarrow> t_lease y \<le> now \<Longrightarrow>
       (t_next x, t_created x, i) \<le> (t_next y, t_created y, j)) \<Longrightarrow>
    queue_step (ClaimDue now) q
      (q(i \<mapsto> x\<lparr>t_lease := now + CLAIM_LEASE_SECONDS, t_attempts := t_attempts x + 1\<rparr>))"
| release: "q i = Some x \<Longrightarrow>
    queue_step (ReleaseClaim i delay now) q (q(i \<mapsto> x\<lparr>t_lease := 0, t_next := now + max 1 delay\<rparr>))"
| retry: "q i = Some x \<Longrightarrow> k = (if ok then min 2 (t_kicks x + 1) else 0) \<Longrightarrow>
    ss' = filter (\<lambda>s. s \<notin> set ss) (t_services x) \<Longrightarrow> \<not> (2 \<le> k \<and> ss' = []) \<Longrightarrow>
    queue_step (CompleteAttempt i ok ss now) q
      (q(i \<mapsto> x\<lparr>t_kicks := k, t_services := ss', t_lease := 0,
         t_next := now + (if ok then SECOND_KICK_DELAY_SECONDS else RETRY_DELAY_SECONDS)\<rparr>))"
| finish: "q i = Some x \<Longrightarrow> 2 \<le> t_kicks x + 1 \<Longrightarrow> set (t_services x) \<subseteq> set ss \<Longrightarrow>
    queue_step (CompleteAttempt i True ss now) q (q(i := None))"
| discard: "queue_step (Discard i) q (q(i := None))"

inductive_cases claim_cases: "queue_step (ClaimDue now) q q'"
inductive_cases complete_cases: "queue_step (CompleteAttempt i ok ss now) q q'"

section \<open>The operations implement the abstract steps\<close>

lemma abs_queue_update:
  "abs_queue (AList.update k (JObj it) d) = (abs_queue d)(k \<mapsto> abs_task it)"
  by (auto simp: abs_queue_def obj_of_def)

lemma abs_queue_delete: "abs_queue (AList.delete k d) = (abs_queue d)(k := None)"
  by (auto simp: abs_queue_def)

lemma abs_queue_Some:
  "check_queue d = Inr () \<Longrightarrow> map_of d k = Some j \<Longrightarrow> \<exists>it. j = JObj it \<and> task_valid k it"
  by (auto simp: check_queue_Inr dest: map_of_SomeD)

lemma dom_abs_queue: "dom (abs_queue d) = fst ` set d"
  by (auto simp: abs_queue_def dom_map_of_conv_image_fst [symmetric])

lemma card_dom_abs_queue: "wf_dict d \<Longrightarrow> card (dom (abs_queue d)) = length d"
  by (simp add: dom_abs_queue wf_dict_def flip: set_map) (metis distinct_card length_map)

lemma abs_new_task: "abs_task (new_task u p t ss now) = fresh_task u p t ss now"
  by (simp add: abs_task_def fresh_task_def new_task_def dget_def int_field_def services_of_def
      str_list_def str_of_def comp_def)

lemma check_queue_update:
  "check_queue d = Inr () \<Longrightarrow> task_valid k it \<Longrightarrow> check_queue (AList.update k (JObj it) d) = Inr ()"
  using set_update_subset [of k "JObj it" d] by (auto simp: check_queue_Inr)

lemma check_queue_delete: "check_queue d = Inr () \<Longrightarrow> check_queue (AList.delete k d) = Inr ()"
  using set_delete_subset [of k d] by (auto simp: check_queue_Inr)

lemma cell_ok_update:
  "cell_ok check_queue d \<Longrightarrow> task_valid k it \<Longrightarrow> wf_json (JObj it) \<Longrightarrow>
     cell_ok check_queue (AList.update k (JObj it) d)"
  unfolding cell_ok_def using check_queue_update wf_json_update by blast

lemma cell_ok_delete: "cell_ok check_queue d \<Longrightarrow> cell_ok check_queue (AList.delete k d)"
  unfolding cell_ok_def using check_queue_delete wf_json_delete by blast

lemma cell_ok_lookup:
  assumes "cell_ok check_queue d" and "map_of d k = Some j"
  obtains it where "j = JObj it" "task_valid k it" "wf_json (JObj it)"
  using assms abs_queue_Some wf_json_lookup unfolding cell_ok_def by blast

lemma services_ok_strings: "services_ok (JList (map JStr xs)) \<longleftrightarrow> set xs \<subseteq> set ALLOWED_STATIC_SERVICES"
  by (auto simp: services_ok_def)

lemma services_ok_dest:
  assumes "services_ok v"
  shows "set (str_list v) \<subseteq> set ALLOWED_STATIC_SERVICES"
  using assms by (auto simp: services_ok_def str_list_def str_of_def split: json.splits)

lemma task_valid_services: "task_valid k it \<Longrightarrow> set (services_of it) \<subseteq> set ALLOWED_STATIC_SERVICES"
  using services_ok_dest [of "dget it ''static_services'' JNull"]
  by (auto simp: task_valid_def services_of_def dget_def services_ok_def split: option.splits json.splits)

text \<open>Which fields an operation may write without breaking a task.\<close>

lemma task_valid_updates:
  assumes "task_valid k it"
  shows "task_valid k (AList.update ''lease_until'' (JInt n) it)"
    and "task_valid k (AList.update ''next_attempt_at'' (JInt n) it)"
    and "0 \<le> n \<Longrightarrow> task_valid k (AList.update ''attempts'' (JInt n) it)"
    and "0 \<le> n \<Longrightarrow> n \<le> 2 \<Longrightarrow> task_valid k (AList.update ''kick_successes'' (JInt n) it)"
    and "set ss \<subseteq> set ALLOWED_STATIC_SERVICES \<Longrightarrow>
      task_valid k (AList.update ''static_services'' (JList (map JStr ss)) it)"
  using assms unfolding task_valid_def by (simp_all add: services_ok_strings)

lemmas abs_task_simps = abs_task_def task.simps dget_update int_field_update services_of_update

text \<open>A body implements its step: the new dictionary is valid and its abstraction is a successor.\<close>

definition implements :: "qop \<Rightarrow> json dict \<Rightarrow> json dict option \<Rightarrow> bool" where
  "implements op d w = (let d' = (case w of None \<Rightarrow> d | Some x \<Rightarrow> x) in
     cell_ok check_queue d' \<and> queue_step op (abs_queue d) (abs_queue d'))"

lemma implements_same:
  "cell_ok check_queue d \<Longrightarrow> queue_step op (abs_queue d) (abs_queue d) \<Longrightarrow> implements op d None"
  by (simp add: implements_def)

lemma implements_update:
  assumes "cell_ok check_queue d" "task_valid k it" "wf_json (JObj it)"
    and "queue_step op (abs_queue d) ((abs_queue d)(k \<mapsto> abs_task it))"
  shows "implements op d (Some (AList.update k (JObj it) d))"
  using assms by (simp add: implements_def cell_ok_update abs_queue_update del: wf_json.simps)

lemma implements_delete:
  assumes "cell_ok check_queue d" "queue_step op (abs_queue d) ((abs_queue d)(k := None))"
  shows "implements op d (Some (AList.delete k d))"
  using assms by (simp add: implements_def cell_ok_delete abs_queue_delete)

lemma missing_task: "map_of d i = None \<Longrightarrow> abs_queue d i = None"
  by (simp add: abs_queue_def)

lemma present_task: "map_of d i = Some (JObj it) \<Longrightarrow> abs_queue d i = Some (abs_task it)"
  by (simp add: abs_queue_def obj_of_def)

text \<open>What a claim answers.\<close>

lemma claim_body_cases:
  assumes d: "cell_ok check_queue d"
  obtains "\<And>j y. abs_queue d j = Some y \<Longrightarrow> now < t_next y \<or> now < t_lease y"
    "claim_due_body now d = (Inr None, None)"
  | i it x where "abs_queue d i = Some x" "t_next x \<le> now" "t_lease x \<le> now"
    "\<And>j y. abs_queue d j = Some y \<Longrightarrow> t_next y \<le> now \<Longrightarrow> t_lease y \<le> now \<Longrightarrow>
       (t_next x, t_created x, i) \<le> (t_next y, t_created y, j)"
    "abs_task it = x\<lparr>t_lease := now + CLAIM_LEASE_SECONDS, t_attempts := t_attempts x + 1\<rparr>"
    "task_valid i it" "wf_json (JObj it)"
    "claim_due_body now d = (Inr (Some (i, it)), Some (AList.update i (JObj it) d))"
proof (cases "sort_key claim_order (filter (due now) d)")
  case Nil
  then have none: "filter (due now) d = []" by (metis set_empty set_sort)
  have "now < t_next y \<or> now < t_lease y" if y: "abs_queue d j = Some y" for j y
  proof -
    from y obtain jt where j: "map_of d j = Some jt" "y = abs_task (obj_of jt)" by (auto simp: abs_queue_def)
    with none map_of_SomeD [OF j(1)] have "\<not> due now (j, jt)" by (auto simp: filter_empty_conv)
    then show ?thesis by (auto simp: due_def j(2) abs_task_def)
  qed
  with Nil that(1) show ?thesis by (simp add: claim_due_body_def retain_pending_def)
next
  case (Cons kv rest)
  obtain key item where kv: "kv = (key, item)" by fastforce
  from sort_key_hd [OF Cons] have m: "(key, item) \<in> set d" "due now (key, item)"
    and least: "\<And>kv. kv \<in> set d \<Longrightarrow> due now kv \<Longrightarrow> claim_order (key, item) \<le> claim_order kv"
    by (auto simp: kv)
  from m(1) d have look: "map_of d key = Some item" by (simp add: map_of_wf cell_ok_def)
  from cell_ok_lookup [OF d look] obtain it where it: "item = JObj it" "task_valid key it" "wf_json (JObj it)" .
  let ?it1 = "AList.update ''lease_until'' (JInt (now + CLAIM_LEASE_SECONDS)) it"
  let ?it2 = "AList.update ''attempts'' (JInt (int_field ?it1 ''attempts'' 0 + 1)) ?it1"
  show ?thesis
  proof (rule that(2))
    show "abs_queue d key = Some (abs_task it)" using look it present_task by simp
    show "t_next (abs_task it) \<le> now" "t_lease (abs_task it) \<le> now"
      using m(2) it by (simp_all add: due_def obj_of_def abs_task_def)
    show "abs_task ?it2 = (abs_task it)\<lparr>t_lease := now + CLAIM_LEASE_SECONDS, t_attempts := t_attempts (abs_task it) + 1\<rparr>"
      by (simp add: abs_task_simps)
    have "0 \<le> int_field it ''attempts'' 0" using it(2) by (simp add: task_valid_def)
    then show "task_valid key ?it2" using task_valid_updates(1,3) it(2) by simp
    show "wf_json (JObj ?it2)" using it(3) by (intro wf_json_update) simp_all
    show "claim_due_body now d = (Inr (Some (key, ?it2)), Some (AList.update key (JObj ?it2) d))"
      using Cons kv it by (simp add: claim_due_body_def retain_pending_def Let_def obj_of_def)
    fix j y assume y: "abs_queue d j = Some y" "t_next y \<le> now" "t_lease y \<le> now"
    then obtain jt where j: "map_of d j = Some jt" "y = abs_task (obj_of jt)" by (auto simp: abs_queue_def)
    from least [OF map_of_SomeD [OF j(1)]] y j show
      "(t_next (abs_task it), t_created (abs_task it), key) \<le> (t_next y, t_created y, j)"
      by (simp add: due_def abs_task_def claim_order_def it obj_of_def)
  qed
qed

lemma claim_due_implements:
  assumes d: "cell_ok check_queue d"
  shows "implements (ClaimDue now) d (snd (claim_due_body now d))"
  using d
proof (cases rule: claim_body_cases [where now = now])
  case 1
  have "queue_step (ClaimDue now) (abs_queue d) (abs_queue d)"
    by (rule queue_step.nothing_due) (rule 1(1))
  with d 1(2) show ?thesis by (simp add: implements_same)
next
  case (2 i it x)
  have "queue_step (ClaimDue now) (abs_queue d) ((abs_queue d)(i \<mapsto> abs_task it))"
    unfolding 2(5) by (rule queue_step.claim, rule 2(1), rule 2(2), rule 2(3), rule 2(4))
  from implements_update [OF d 2(6,7) this] show ?thesis by (simp add: 2(8))
qed

lemma prepare_implements:
  assumes d: "cell_ok check_queue d"
    and i: "length i = 64" and ss: "services_allowed ss" and now: "0 < now"
  shows "implements (Prepare i u p t ss now) d (snd (prepare_body i u p t (service_set ss) now d))"
proof (cases "map_of d i")
  case (Some j)
  then have "queue_step (Prepare i u p t ss now) (abs_queue d) (abs_queue d)"
    by (auto simp: abs_queue_def intro!: queue_step.prepare_again)
  with Some d show ?thesis
    by (auto simp: prepare_body_def retain_pending_def Let_def implements_def split: sum.splits bool.splits)
next
  case None
  let ?it = "new_task u p t (service_set ss) now"
  have card: "card (dom (abs_queue d)) = length d" using d by (simp add: card_dom_abs_queue cell_ok_def)
  note q = missing_task [OF None]
  show ?thesis
  proof (cases "TASK_MAX_ENTRIES \<le> length d")
    case True
    with queue_step.prepare_full [where q = "abs_queue d", OF q] card d None show ?thesis
      by (simp add: prepare_body_def retain_pending_def implements_same)
  next
    case False
    have v: "task_valid i ?it"
      using i now ss by (simp add: task_valid_def new_task_def dget_def has_int_def int_field_def is_str_def
          services_ok_strings services_allowed_def TASK_TTL_SECONDS_def)
    have w: "wf_json (JObj ?it)" by (simp add: new_task_def wf_dict_def)
    have "queue_step (Prepare i u p t ss now) (abs_queue d) ((abs_queue d)(i \<mapsto> abs_task ?it))"
      using queue_step.prepare [where q = "abs_queue d", OF q] card False by (simp add: abs_new_task)
    from implements_update [OF d v w this] None False show ?thesis
      by (simp add: prepare_body_def retain_pending_def Let_def)
  qed
qed

lemma add_services_implements:
  assumes d: "cell_ok check_queue d" and ss: "services_allowed ss"
  shows "implements (AddStaticServices i ss now) d (snd (add_static_services_body i (service_set ss) now d))"
proof (cases "map_of d i")
  case None
  with queue_step.add_missing [where q = "abs_queue d", OF missing_task] d show ?thesis
    by (simp add: add_static_services_body_def retain_pending_def implements_same)
next
  case (Some j)
  from cell_ok_lookup [OF d Some] obtain it where it: "j = JObj it" "task_valid i it" "wf_json (JObj it)" .
  let ?all = "sort (remdups (services_of it @ service_set ss))"
  let ?n = "min (int_field it ''next_attempt_at'' now) now"
  let ?it2 = "AList.update ''next_attempt_at'' (JInt ?n) (AList.update ''static_services'' (JList (map JStr ?all)) it)"
  have b: "snd (add_static_services_body i (service_set ss) now d) = Some (AList.update i (JObj ?it2) d)"
    using Some it by (simp add: add_static_services_body_def retain_pending_def Let_def)
  have "set ?all \<subseteq> set ALLOWED_STATIC_SERVICES"
    using task_valid_services [OF it(2)] ss by (auto simp: services_allowed_def)
  then have v: "task_valid i ?it2" using task_valid_updates(2,5) it(2) by blast
  have w: "wf_json (JObj ?it2)" using it(3) by (intro wf_json_update) simp_all
  have q: "abs_queue d i = Some (abs_task it)" using Some it present_task by simp
  have t: "abs_task ?it2 = (abs_task it)\<lparr>t_services := sort (remdups (t_services (abs_task it) @ service_set ss)), t_next := ?n\<rparr>"
    by (simp add: abs_task_simps)
  have "queue_step (AddStaticServices i ss now) (abs_queue d) ((abs_queue d)(i \<mapsto> abs_task ?it2))"
    unfolding t by (rule queue_step.add_services, rule q) simp
  from implements_update [OF d v w this] show ?thesis by (simp add: b)
qed

lemma release_implements:
  assumes d: "cell_ok check_queue d"
  shows "implements (ReleaseClaim i delay now) d (snd (release_claim_body i delay now d))"
proof (cases "map_of d i")
  case None
  with queue_step.release_missing [where q = "abs_queue d", OF missing_task] d show ?thesis
    by (simp add: release_claim_body_def retain_pending_def implements_same)
next
  case (Some j)
  from cell_ok_lookup [OF d Some] obtain it where it: "j = JObj it" "task_valid i it" "wf_json (JObj it)" .
  let ?it2 = "AList.update ''next_attempt_at'' (JInt (now + max 1 delay)) (AList.update ''lease_until'' (JInt 0) it)"
  have b: "snd (release_claim_body i delay now d) = Some (AList.update i (JObj ?it2) d)"
    using Some it by (simp add: release_claim_body_def retain_pending_def Let_def)
  have v: "task_valid i ?it2" using task_valid_updates(1,2) it(2) by blast
  have w: "wf_json (JObj ?it2)" using it(3) by (intro wf_json_update) simp_all
  have q: "abs_queue d i = Some (abs_task it)" using Some it present_task by simp
  have t: "abs_task ?it2 = (abs_task it)\<lparr>t_lease := 0, t_next := now + max 1 delay\<rparr>"
    by (simp add: abs_task_simps)
  have "queue_step (ReleaseClaim i delay now) (abs_queue d) ((abs_queue d)(i \<mapsto> abs_task ?it2))"
    unfolding t by (rule queue_step.release, rule q)
  from implements_update [OF d v w this] show ?thesis by (simp add: b)
qed

lemma complete_implements:
  assumes d: "cell_ok check_queue d"
  shows "implements (CompleteAttempt i ok ss now) d (snd (complete_attempt_body i ok ss now d))"
proof (cases "map_of d i")
  case None
  with queue_step.complete_missing [where q = "abs_queue d", OF missing_task] d show ?thesis
    by (simp add: complete_attempt_body_def retain_pending_def implements_same)
next
  case (Some j)
  from cell_ok_lookup [OF d Some] obtain it where it: "j = JObj it" "task_valid i it" "wf_json (JObj it)" .
  define k where "k = (if ok then min 2 (int_field it ''kick_successes'' 0 + 1) else 0)"
  define pend where "pend = filter (\<lambda>s. s \<notin> set ss) (services_of it)"
  define delay where "delay = (if ok then SECOND_KICK_DELAY_SECONDS else RETRY_DELAY_SECONDS)"
  let ?it3 = "AList.update ''next_attempt_at'' (JInt (now + delay)) (AList.update ''lease_until'' (JInt 0)
      (AList.update ''static_services'' (JList (map JStr pend)) (AList.update ''kick_successes'' (JInt k) it)))"
  have b: "snd (complete_attempt_body i ok ss now d) =
      Some (if 2 \<le> k \<and> pend = [] then AList.delete i d else AList.update i (JObj ?it3) d)"
    unfolding k_def pend_def delay_def using Some it
    by (simp add: complete_attempt_body_def retain_pending_def Let_def)
  have q: "abs_queue d i = Some (abs_task it)" using Some it present_task by simp
  show ?thesis
  proof (cases "2 \<le> k \<and> pend = []")
    case True
    then have ok and kk: "2 \<le> t_kicks (abs_task it) + 1"
      by (auto simp: k_def abs_task_def split: if_splits)
    have "set (t_services (abs_task it)) \<subseteq> set ss"
      using True by (auto simp: pend_def abs_task_def filter_empty_conv)
    with kk have "queue_step (CompleteAttempt i ok ss now) (abs_queue d) ((abs_queue d)(i := None))"
      using \<open>ok\<close> queue_step.finish [where q = "abs_queue d", OF q] by simp
    from implements_delete [OF d this] True show ?thesis by (simp add: b)
  next
    case False
    have k: "0 \<le> k" "k \<le> 2" using it(2) by (auto simp: k_def task_valid_def)
    have "set pend \<subseteq> set ALLOWED_STATIC_SERVICES"
      using task_valid_services [OF it(2)] by (auto simp: pend_def)
    then have v: "task_valid i ?it3"
      by (intro task_valid_updates(1,2) task_valid_updates(5) task_valid_updates(4) it(2) k)
    have w: "wf_json (JObj ?it3)" using it(3) by (intro wf_json_update) simp_all
    have t: "abs_task ?it3 = (abs_task it)\<lparr>t_kicks := k, t_services := pend, t_lease := 0,
         t_next := now + (if ok then SECOND_KICK_DELAY_SECONDS else RETRY_DELAY_SECONDS)\<rparr>"
      by (simp add: abs_task_simps delay_def)
    have kt: "k = (if ok then min 2 (t_kicks (abs_task it) + 1) else 0)"
      and pt: "pend = filter (\<lambda>s. s \<notin> set ss) (t_services (abs_task it))"
      by (simp_all add: k_def pend_def abs_task_def)
    have "queue_step (CompleteAttempt i ok ss now) (abs_queue d) ((abs_queue d)(i \<mapsto> abs_task ?it3))"
      unfolding t by (rule queue_step.retry, rule q, rule kt, rule pt) (use False in simp)
    from implements_update [OF d v w this] show ?thesis by (simp only: b False if_False)
  qed
qed

lemma discard_implements:
  assumes d: "cell_ok check_queue d"
  shows "implements (Discard i) d (snd (discard_body i d))"
proof (cases "map_of d i")
  case None
  then have "(abs_queue d)(i := None) = abs_queue d" using missing_task by auto
  with queue_step.discard [of i "abs_queue d"] d None show ?thesis
    by (simp add: discard_body_def implements_same)
next
  case (Some j)
  with d queue_step.discard [of i "abs_queue d"] show ?thesis
    by (simp add: discard_body_def implements_delete)
qed

text \<open>The time stamps the callers pass are positive.\<close>

definition op_time_ok :: "qop \<Rightarrow> bool" where
  "op_time_ok op = (case op of Prepare i u p t ss now \<Rightarrow> 0 < now | _ \<Rightarrow> True)"

lemma snd_map_res [simp]: "snd (map_res f x) = snd x"
  by (simp add: map_res_def)

lemma qbody_implements:
  assumes d: "cell_ok check_queue d" and g: "qguard op = None" and t: "op_time_ok op"
  shows "implements op d (snd (qbody op d))"
proof (cases op)
  case (Prepare i u p t ss now)
  with g \<open>op_time_ok op\<close> prepare_implements [OF d, of i ss now u p t] show ?thesis
    by (simp add: op_time_ok_def split: if_splits)
next
  case (AddStaticServices i ss now)
  with g add_services_implements [OF d, of ss i now] show ?thesis by (simp split: if_splits)
next
  case (ClaimDue now)
  with claim_due_implements [OF d] show ?thesis by simp
next
  case (ReleaseClaim i delay now)
  with release_implements [OF d] show ?thesis by simp
next
  case (CompleteAttempt i ok ss now)
  with complete_implements [OF d] show ?thesis by simp
next
  case (Discard i)
  with discard_implements [OF d] show ?thesis by simp
qed

section \<open>The queue as a store\<close>

interpretation queue_store: stored_ops queue_op "\<lambda>op _. qguard op" check_queue qbody op_time_ok
  put_private "\<lambda>_. True"
proof
  show "queue_op lock fails op c = (a, c)" if "qguard op = Some a" for lock fails op c a
    using that by (simp add: queue_op_def)
  show "\<exists>q. transact put_private lock check_queue (qbody op) fails c = (q, c') \<and> (r = q \<or> isl r)"
    if "qguard op = None" "queue_op lock fails op c = (r, c')" for lock fails op c r c'
    using that by (simp add: queue_op_def)
  show "atomic_put put_private" by (rule put_private_atomic)
  show "refused put_private d' \<or> cell_ok check_queue d' \<and> True" if "cell_ok check_queue d" "qguard op = None" "op_time_ok op"
    "qbody op d = (r, Some d')" for d op r d'
    using qbody_implements [OF that(1-3)] that(4) by (simp add: implements_def)
qed

definition kick_reported :: "string \<Rightarrow> qop event \<Rightarrow> bool" where
  "kick_reported i e = (case e of Op _ _ (CompleteAttempt j ok ss now) \<Rightarrow> j = i \<and> ok | _ \<Rightarrow> False)"

definition stop_reported :: "string \<Rightarrow> string \<Rightarrow> qop event \<Rightarrow> bool" where
  "stop_reported i s e = (case e of Op _ _ (CompleteAttempt j ok ss now) \<Rightarrow> j = i \<and> s \<in> set ss | _ \<Rightarrow> False)"

definition discarded :: "string \<Rightarrow> qop event \<Rightarrow> bool" where
  "discarded i e = (case e of Op _ _ (Discard j) \<Rightarrow> j = i | _ \<Rightarrow> False)"

text \<open>What every abstract step keeps, every history keeps.\<close>

lemma queue_history_safe:
  assumes h: "history queue_op es c c'" and ok: "\<forall>e \<in> set es. event_ok op_time_ok e"
    and "cell_safe check_queue (\<lambda>d. P es (abs_queue d)) c"
    and step: "\<And>lock fails op es' q q'. P (Op lock fails op # es') q \<Longrightarrow> queue_step op q q' \<Longrightarrow> P es' q'"
    and weaker: "\<And>e es' q. P (e # es') q \<Longrightarrow> P es' q"
  shows "cell_safe check_queue (\<lambda>d. P [] (abs_queue d)) c'"
  using h ok assms(3)
proof (rule queue_store.history_safe [where P = "\<lambda>es d. P es (abs_queue d)"])
  fix lock fails op es' d r d'
  assume a: "cell_ok check_queue d" "P (Op lock fails op # es') (abs_queue d)" "qguard op = None"
    "op_time_ok op" "qbody op d = (r, Some d')"
  from qbody_implements [OF a(1,3,4)] a(5) have "queue_step op (abs_queue d) (abs_queue d')"
    by (simp add: implements_def)
  with a(2) show "P es' (abs_queue d')" by (rule step)
qed (rule TrueI weaker, assumption?)+

section \<open>Properties\<close>

text \<open>
  C14. The queue module implements its abstract machine. Whatever lock or system-call failure
  strikes, an operation on a valid state file leaves a valid state file whose queue is either the
  old one or a successor under the abstract step of that operation, and a successful operation has
  taken the step, except when its arguments make it answer before the file is opened.
\<close>

theorem queue_op_refines:
  assumes "queue_op lock fails op c = (r, c')" and "op_time_ok op"
    and "cell_load check_queue (seen c) = Inr d"
  shows "\<exists>d'. cell_load check_queue (seen c') = Inr d'
     \<and> (abs_queue d' = abs_queue d \<or> queue_step op (abs_queue d) (abs_queue d'))
     \<and> (\<not> isl r \<and> qguard op = None \<longrightarrow> queue_step op (abs_queue d) (abs_queue d'))"
proof (cases "qguard op")
  case (Some a)
  with assms show ?thesis by (simp add: queue_op_def)
next
  case None
  note imp = qbody_implements [OF cell_load_ok [OF assms(3)] None assms(2)]
  from queue_store.op_outcome [OF assms(3,1,2) None TrueI] show ?thesis
  proof (elim disjE conjE exE)
    assume "seen c' = seen c" "isl r"
    then show ?thesis using assms(3) by simp
  next
    assume "seen c' = seen c" "qbody op d = (r, None)"
    then show ?thesis using assms(3) imp by (simp add: implements_def)
  next
    fix r0 d' assume "qbody op d = (r0, Some d')" "cell_load check_queue (seen c') = Inr d'"
    then show ?thesis using imp by (simp add: implements_def)
  qed (use imp in \<open>auto simp: implements_def\<close>)
qed

text \<open>The property texts below are about the file after a history that may include crashes.\<close>

lemma prepare_fresh_safe:
  assumes "cell_load check_queue (seen c0) = Inr d0" and none: "abs_queue d0 i = None"
    and op: "queue_op lock fails (Prepare i u p t ss now) c0 = (Inr r, c)" and now: "0 < now"
  shows "cell_safe check_queue (\<lambda>d. abs_queue d i = Some (fresh_task u p t (service_set ss) now)) c"
proof -
  let ?op = "Prepare i u p t ss now"
  have g: "qguard ?op = None" using op by (auto simp: queue_op_def split: if_splits)
  have m: "map_of d0 i = None" using none by (simp add: abs_queue_def)
  have t: "op_time_ok ?op" using now by (simp add: op_time_ok_def)
  from queue_store.op_success [OF assms(1) op t g TrueI] m obtain d' where
    "d' = AList.update i (JObj (new_task u p t (service_set ss) now)) d0"
    "cell_load check_queue (seen c) = Inr d'" "after_crash c = {seen c}"
    by (auto simp: prepare_body_def retain_pending_def map_res_def Let_def split: if_splits)
  then show ?thesis by (simp add: cell_safe_def abs_queue_update abs_new_task)
qed

definition survives :: "string \<Rightarrow> task \<Rightarrow> qop event list \<Rightarrow> queue \<Rightarrow> bool" where
  "survives i x0 es q \<longleftrightarrow> (\<forall>e \<in> set es. \<not> discarded i e) \<and> (\<exists>x. q i = Some x
     \<and> t_user x = t_user x0 \<and> t_previous x = t_previous x0 \<and> t_target x = t_target x0 \<and> 0 \<le> t_kicks x
     \<and> (t_kicks x + int (length (filter (kick_reported i) es)) \<le> 1
        \<or> (\<exists>s \<in> set (t_services x). \<forall>e \<in> set es. \<not> stop_reported i s e)))"

lemma survives_weaker: "survives i x0 (e # es) q \<Longrightarrow> survives i x0 es q"
  unfolding survives_def by (force split: if_splits)

lemma survives_step:
  assumes "survives i x0 (Op lock fails op # es) q" and "queue_step op q q'"
  shows "survives i x0 es q'"
  using assms(2,1)
proof (cases rule: queue_step.cases)
  case (add_services j x n now ss)
  with assms(1) show ?thesis
    unfolding survives_def by (auto simp: kick_reported_def stop_reported_def)
next
  case (retry j x k ok ss' ss now)
  show ?thesis
  proof (cases "j = i")
    case True
    with assms(1) retry(3) have x: "t_user x = t_user x0" "t_previous x = t_previous x0"
      "t_target x = t_target x0" "0 \<le> t_kicks x" and nd: "\<forall>e \<in> set es. \<not> discarded i e"
      and dis: "t_kicks x + (if ok then 1 else 0) + int (length (filter (kick_reported i) es)) \<le> 1
        \<or> (\<exists>s \<in> set (t_services x). s \<notin> set ss \<and> (\<forall>e \<in> set es. \<not> stop_reported i s e))"
      using True unfolding retry(1) survives_def
      by (auto simp: kick_reported_def stop_reported_def)
    have k: "0 \<le> k" "k \<le> t_kicks x + (if ok then 1 else 0)" using retry(4) x(4) by auto
    from dis have "k + int (length (filter (kick_reported i) es)) \<le> 1
        \<or> (\<exists>s \<in> set ss'. \<forall>e \<in> set es. \<not> stop_reported i s e)"
      using k retry(5) by auto
    with x nd k(1) True retry(2) show ?thesis unfolding survives_def by simp
  next
    case False
    have "survives i x0 es q" using assms(1) by (rule survives_weaker)
    with False retry(2) show ?thesis unfolding survives_def by simp
  qed
next
  case (finish j x ss now)
  show ?thesis
  proof (cases "j = i")
    case True
    with finish assms(1) show ?thesis
      unfolding survives_def by (auto simp: kick_reported_def stop_reported_def)
  next
    case False
    have "survives i x0 es q" using assms(1) by (rule survives_weaker)
    with False finish(2) show ?thesis unfolding survives_def by simp
  qed
next
  case (discard j)
  with assms(1) survives_weaker [OF assms(1)] show ?thesis
    unfolding survives_def by (auto simp: discarded_def)
next
  case (claim j x now)
  with survives_weaker [OF assms(1)] show ?thesis unfolding survives_def by auto
next
  case (release j x delay now)
  with survives_weaker [OF assms(1)] show ?thesis unfolding survives_def by auto
next
  case (prepare j u p t ss now)
  with survives_weaker [OF assms(1)] show ?thesis unfolding survives_def by auto
qed (use survives_weaker [OF assms(1)] in simp_all)

lemma survives_fresh:
  assumes "\<forall>e \<in> set es. \<not> discarded i e"
    and "length (filter (kick_reported i) es) \<le> 1 \<or> (\<exists>s \<in> set ss. \<forall>e \<in> set es. \<not> stop_reported i s e)"
    and "q i = Some (fresh_task u p t ss now)"
  shows "survives i (fresh_task u p t ss now) es q"
  using assms unfolding survives_def by (auto simp: fresh_task_def)

text \<open>
  C9. A revocation is not lost. Once preparing a new task has succeeded, the task is still in the
  file, for the same user and generations, after any history of operations that may fail at any
  system call and of power losses, as long as nobody discards it and it has not been completed:
  at most one successful kick was reported for it, or one of its static services was never
  reported stopped.
\<close>

theorem revocation_not_lost:
  assumes "cell_load check_queue (seen c0) = Inr d0" and "abs_queue d0 i = None"
    and "queue_op lock fails (Prepare i u p t ss now) c0 = (Inr r, c)" and "0 < now"
    and "history queue_op es c c'" and "\<forall>e \<in> set es. event_ok op_time_ok e" and "\<forall>e \<in> set es. \<not> discarded i e"
    and "length (filter (kick_reported i) es) \<le> 1
      \<or> (\<exists>s \<in> set (service_set ss). \<forall>e \<in> set es. \<not> stop_reported i s e)"
  shows "\<exists>d x. cell_load check_queue (seen c') = Inr d \<and> abs_queue d i = Some x
     \<and> t_user x = u \<and> t_previous x = p \<and> t_target x = t"
proof -
  let ?x0 = "fresh_task u p t (service_set ss) now"
  have "cell_safe check_queue (\<lambda>d. survives i ?x0 es (abs_queue d)) c"
    using prepare_fresh_safe [OF assms(1-4)] by (rule cell_safe_mono) (rule survives_fresh [OF assms(7,8)])
  from assms(5,6) this have "cell_safe check_queue (\<lambda>d. survives i ?x0 [] (abs_queue d)) c'"
    by (rule queue_history_safe [where P = "survives i ?x0"]) (rule survives_step survives_weaker, assumption+)+
  from cell_safe_seen [OF this] show ?thesis by (auto simp: survives_def fresh_task_def)
qed

definition ends_claim :: "string \<Rightarrow> qop event \<Rightarrow> bool" where
  "ends_claim i e = (case e of
      Op _ _ (ReleaseClaim j delay now) \<Rightarrow> j = i
    | Op _ _ (CompleteAttempt j ok ss now) \<Rightarrow> j = i
    | Op _ _ (Discard j) \<Rightarrow> j = i
    | _ \<Rightarrow> False)"

definition leased :: "string \<Rightarrow> int \<Rightarrow> qop event list \<Rightarrow> queue \<Rightarrow> bool" where
  "leased i until es q \<longleftrightarrow> (\<forall>e \<in> set es. \<not> ends_claim i e) \<and> (\<exists>x. q i = Some x \<and> until \<le> t_lease x)"

lemma leased_weaker: "leased i until (e # es) q \<Longrightarrow> leased i until es q"
  by (auto simp: leased_def)

lemma leased_step:
  assumes l: "leased i until (Op lock fails op # es) q" and s: "queue_step op q q'"
  shows "leased i until es q'"
  using s leased_weaker [OF l] l
proof (cases rule: queue_step.cases)
  case (claim j x now)
  with leased_weaker [OF l] show ?thesis
    by (auto simp: leased_def CLAIM_LEASE_SECONDS_def)
qed (auto simp: leased_def ends_claim_def)

lemma claim_safe:
  assumes "cell_load check_queue (seen c0) = Inr d0"
    and op: "queue_op lock fails (ClaimDue now) c0 = (Inr (Claimed (Some (i, it))), c)"
  shows "cell_safe check_queue (\<lambda>d. abs_queue d i = Some (abs_task it)
      \<and> t_lease (abs_task it) = now + CLAIM_LEASE_SECONDS) c
    \<and> (\<exists>x. abs_queue d0 i = Some x \<and> t_lease x \<le> now)"
proof -
  have t: "op_time_ok (ClaimDue now)" "qguard (ClaimDue now) = None" by (simp_all add: op_time_ok_def)
  note out = queue_store.op_success [OF assms(1) op t TrueI]
  from cell_load_ok [OF assms(1)] show ?thesis
  proof (cases rule: claim_body_cases [where now = now])
    case 1
    with out show ?thesis by (simp add: map_res_def)
  next
    case (2 j jt x)
    with out obtain d' where eq: "j = i" "jt = it" "d' = AList.update i (JObj it) d0"
      and l: "cell_load check_queue (seen c) = Inr d'" "after_crash c = {seen c}"
      by (auto simp: map_res_def)
    have "abs_queue d' i = Some (abs_task it)" by (simp add: eq abs_queue_update)
    with l 2(1,3,5) show ?thesis by (simp add: cell_safe_def eq)
  qed
qed

text \<open>
  A claim is exclusive for its lease. After a claim has returned a task at time \<open>now\<close>, no later
  claim at a time before \<open>now + 15\<close> returns that task, after any history of operations, failures
  and power losses in which the claimed task is not released, completed or discarded.
\<close>

theorem lease_exclusive:
  assumes "cell_load check_queue (seen c0) = Inr d0"
    and "queue_op lock fails (ClaimDue now) c0 = (Inr (Claimed (Some (i, it))), c)"
    and "history queue_op es c c'" and "\<forall>e \<in> set es. event_ok op_time_ok e \<and> \<not> ends_claim i e"
    and "queue_op lock' fails' (ClaimDue now') c' = (Inr (Claimed (Some (j, jt))), c'')"
    and "now' < now + CLAIM_LEASE_SECONDS"
  shows "j \<noteq> i"
proof -
  have ev: "\<forall>e \<in> set es. event_ok op_time_ok e" and ne: "\<forall>e \<in> set es. \<not> ends_claim i e" using assms(4) by auto
  from conjunct1 [OF claim_safe [OF assms(1,2)]]
  have "cell_safe check_queue (\<lambda>d. leased i (now + CLAIM_LEASE_SECONDS) es (abs_queue d)) c"
    by (rule cell_safe_mono) (use ne in \<open>auto simp: leased_def\<close>)
  with assms(3) ev have "cell_safe check_queue (\<lambda>d. leased i (now + CLAIM_LEASE_SECONDS) [] (abs_queue d)) c'"
    by (rule queue_history_safe [where P = "leased i (now + CLAIM_LEASE_SECONDS)"])
      (rule leased_step leased_weaker, assumption+)+
  from cell_safe_seen [OF this] obtain d x where d: "cell_load check_queue (seen c') = Inr d"
    "abs_queue d i = Some x" "now + CLAIM_LEASE_SECONDS \<le> t_lease x"
    by (auto simp: leased_def)
  from claim_safe [OF d(1) assms(5)] obtain y where "abs_queue d j = Some y" "t_lease y \<le> now'" by auto
  with d(2,3) assms(6) show ?thesis by auto
qed

text \<open>
  A claim serves the queue fairly. With the file readable and no failure, claiming at \<open>now\<close>
  answers None exactly when nothing is due, and otherwise leases, for 15 seconds and counting one
  more attempt, the due task with the earliest attempt time, then the oldest.
\<close>

theorem claim_due_earliest:
  assumes "cell_load check_queue (seen c) = Inr d"
    and "queue_op None (\<lambda>_. False) (ClaimDue now) c = (r, c')"
  shows "(case r of
      Inr (Claimed None) \<Rightarrow> c' = c \<and> (\<forall>j y. abs_queue d j = Some y \<longrightarrow> now < t_next y \<or> now < t_lease y)
    | Inr (Claimed (Some (i, it))) \<Rightarrow> (\<exists>x. abs_queue d i = Some x \<and> t_next x \<le> now \<and> t_lease x \<le> now
         \<and> abs_task it = x\<lparr>t_lease := now + CLAIM_LEASE_SECONDS, t_attempts := t_attempts x + 1\<rparr>
         \<and> (\<forall>j y. abs_queue d j = Some y \<longrightarrow> t_next y \<le> now \<longrightarrow> t_lease y \<le> now \<longrightarrow>
              t_next x < t_next y \<or> t_next x = t_next y \<and> t_created x \<le> t_created y)
         \<and> (\<exists>d'. cell_load check_queue (seen c') = Inr d' \<and> abs_queue d' = (abs_queue d)(i \<mapsto> abs_task it)))
    | _ \<Rightarrow> False)"
  using cell_load_ok [OF assms(1)]
proof (cases rule: claim_body_cases [where now = now])
  case 1
  have "queue_op None (\<lambda>_. False) (ClaimDue now) c = (Inr (Claimed None), c)"
    using assms(1) 1(2) by (simp add: queue_op_def transact_def txn_def map_res_def)
  with assms(2) 1(1) show ?thesis by auto
next
  case (2 i it x)
  let ?d' = "AList.update i (JObj it) d"
  obtain e c1 where p: "put_private (\<lambda>_. False) ?d' c = (e, c1)" by fastforce
  then have e: "e = None" "seen c1 = Doc (raw_of_json (JObj ?d'))"
    by (auto simp: put_private_def save_private_def save_json_def write_atomic_def Let_def)
  have "queue_op None (\<lambda>_. False) (ClaimDue now) c = (Inr (Claimed (Some (i, it))), c1)"
    using assms(1) 2(8) p e(1) by (simp add: queue_op_def transact_def txn_def map_res_def)
  with assms(2) have r: "r = Inr (Claimed (Some (i, it)))" "c' = c1" by auto
  have ok: "cell_ok check_queue ?d'"
    using cell_ok_update [OF cell_load_ok [OF assms(1)] 2(6,7)] .
  have l: "cell_load check_queue (seen c') = Inr ?d'" using cell_load_doc [OF ok] by (simp add: r e)
  have "t_next x < t_next y \<or> t_next x = t_next y \<and> t_created x \<le> t_created y"
    if "abs_queue d j = Some y" "t_next y \<le> now" "t_lease y \<le> now" for j y
    using 2(4) [OF that] by (auto simp: less_eq_prod_def)
  with 2(1-3,5) l r show ?thesis by (auto simp: abs_queue_update)
qed

text \<open>
  The queue never holds more than 512 tasks and its file never stops being readable: after any
  history from a fresh installation, failures and power losses included, the file loads, and so
  does every content a power loss may bring back.
\<close>

theorem queue_bounded:
  assumes "history queue_op es (quiet Missing) c" and "\<forall>e \<in> set es. event_ok op_time_ok e"
  shows "\<forall>f \<in> insert (seen c) (after_crash c). \<exists>d. cell_load check_queue f = Inr d
     \<and> length d \<le> TASK_MAX_ENTRIES"
proof -
  let ?P = "\<lambda>(es :: qop event list) q. finite (dom q) \<and> card (dom (q :: queue)) \<le> TASK_MAX_ENTRIES"
  have step: "?P es q'" if "queue_step op q q'" "?P es q" for op q q' and es :: "qop event list"
    using that
    by (cases rule: queue_step.cases) (auto simp: card_insert_if insert_absorb domI card_Diff_singleton_if)
  have "cell_safe check_queue (\<lambda>d. ?P es (abs_queue d)) (quiet Missing)"
    by (simp add: cell_safe_def quiet_def cell_load_def load_dict_def load_json_strict_def obj_of_def
        check_queue_def abs_queue_def)
  with assms have "cell_safe check_queue (\<lambda>d. ?P [] (abs_queue d)) c"
    by (rule queue_history_safe [where P = ?P]) (use step in blast)+
  then show ?thesis
    unfolding cell_safe_def using cell_load_ok card_dom_abs_queue
    by (metis (no_types, lifting) cell_ok_def wf_json.simps(2))
qed

text \<open>
  A task id is bound to one transition. Preparing an id that is already queued changes
  nothing: it answers the queued task when user and generations agree, and a PermissionError
  otherwise.
\<close>

theorem prepare_binding:
  assumes "cell_load check_queue (seen c) = Inr d" and "abs_queue d i = Some x"
    and "length i = 64" and "services_allowed ss"
    and "ascii_only p" "ascii_only t" "ascii_only (t_previous x)" "ascii_only (t_target x)"
    and "queue_op None (\<lambda>_. False) (Prepare i u p t ss now) c = (r, c')"
  shows "cell_load check_queue (seen c') = Inr d \<and>
    (if t_user x = u \<and> t_previous x = p \<and> t_target x = t
     then \<exists>it. r = Inr (Task it) \<and> abs_task it = x else r = Inl PermissionError)"
proof -
  let ?b = "prepare_body i u p t (service_set ss) now d"
  note ok = cell_load_ok [OF assms(1)]
  obtain j where j: "map_of d i = Some j" using assms(2) by (auto simp: abs_queue_def)
  from cell_ok_lookup [OF ok j] obtain it where it: "j = JObj it" "task_valid i it" by blast
  have x: "x = abs_task it" using assms(2) present_task j it(1) by simp
  have user: "dget it ''user'' JNull = JStr u \<longleftrightarrow> t_user x = u"
    using it(2) by (auto simp: task_valid_def is_str_def x abs_task_def str_of_def split: json.splits)
  have body: "?b = (if t_user x = u \<and> t_previous x = p \<and> t_target x = t then (Inr it, Some d)
      else (Inl PermissionError, None))"
    using j it(1) assms(5-8) user
    by (simp add: prepare_body_def retain_pending_def binding_matches_def compare_digest_def obj_of_def)
      (simp add: x abs_task_def obj_of_def)
  have op: "transact put_private None check_queue (qbody (Prepare i u p t ss now)) (\<lambda>_. False) c = (r, c')"
    using assms(3,4,9) by (simp add: queue_op_def)
  obtain e c1 where p: "put_private (\<lambda>_. False) d c = (e, c1)" by fastforce
  then have e: "e = None" "seen c1 = Doc (raw_of_json (JObj d))"
    by (auto simp: put_private_def save_private_def save_json_def write_atomic_def Let_def)
  have l: "cell_load check_queue (seen c1) = Inr d" using cell_load_doc [OF ok] by (simp add: e)
  show ?thesis
    using op assms(1) body p e l by (auto simp: transact_def txn_def map_res_def x split: if_splits)
qed

declare int_field_def [py_eval] str_of_def [py_eval] str_list_def [py_eval] services_of_def [py_eval]
  counter_value_def [py_eval] services_ok_def [py_eval] check_task_def [py_eval]
  check_queue_def [py_eval] retain_pending_def [py_eval] ascii_only_def [py_eval]
  compare_digest_def [py_eval] service_set_def [py_eval] new_task_def [py_eval]
  binding_matches_def [py_eval] prepare_body_def [py_eval] add_static_services_body_def [py_eval]
  due_def [py_eval] claim_order_def [py_eval] claim_due_body_def [py_eval]
  release_claim_body_def [py_eval] complete_attempt_body_def [py_eval] discard_body_def [py_eval]
  map_res_def [py_eval] services_allowed_def [py_eval] queue_op_def [py_eval]
  TASK_TTL_SECONDS_def [py_eval] TASK_MAX_ENTRIES_def [py_eval] CLAIM_LEASE_SECONDS_def [py_eval]
  SECOND_KICK_DELAY_SECONDS_def [py_eval] RETRY_DELAY_SECONDS_def [py_eval]
  ALLOWED_STATIC_SERVICES_def [py_eval]

section \<open>The properties at concrete inputs\<close>

text \<open>A fresh installation on which the revocation of bob's credential has been prepared at time 100.\<close>

definition demo_id :: string where "demo_id = replicate 64 CHR ''a''"

definition demo_prepare :: qop where
  "demo_prepare = Prepare demo_id ''bob'' ''g0'' ''g1'' [''xray.service''] 100"

definition demo_task :: "json dict" where
  "demo_task = new_task ''bob'' ''g0'' ''g1'' [''xray.service''] 100"

definition demo_cell :: cell where
  "demo_cell = quiet (Doc (raw_of_json (JObj [(demo_id, JObj demo_task)])))"

lemma demo_prepare_run:
  "queue_op None (\<lambda>_. False) demo_prepare (quiet Missing) = (Inr (Task demo_task), demo_cell)"
  by (simp add: demo_id_def demo_prepare_def demo_task_def demo_cell_def py_eval)

lemma demo_load: "cell_load check_queue (seen demo_cell) = Inr [(demo_id, JObj demo_task)]"
  by (simp add: demo_id_def demo_task_def demo_cell_def py_eval raise_if_def dget_def)

lemma demo_empty: "cell_load check_queue (seen (quiet Missing)) = Inr []"
  by (simp add: py_eval raise_if_def)

lemma demo_abs: "abs_queue [(demo_id, JObj demo_task)] demo_id
    = Some (fresh_task ''bob'' ''g0'' ''g1'' [''xray.service''] 100)"
  by (simp add: abs_queue_def obj_of_def demo_task_def abs_new_task)

theorem queue_op_refines_witness:
  "\<exists>d'. cell_load check_queue (seen demo_cell) = Inr d'
     \<and> queue_step demo_prepare (abs_queue []) (abs_queue d')"
proof -
  have "op_time_ok demo_prepare" "qguard demo_prepare = None"
    by (simp_all add: demo_prepare_def op_time_ok_def demo_id_def services_allowed_def service_set_def
        ALLOWED_STATIC_SERVICES_def)
  with queue_op_refines [OF demo_prepare_run _ demo_empty] show ?thesis by fastforce
qed

theorem revocation_not_lost_witness:
  "\<exists>d x. cell_load check_queue (seen (crashed demo_cell (seen demo_cell))) = Inr d
     \<and> abs_queue d demo_id = Some x \<and> t_user x = ''bob'' \<and> t_previous x = ''g0'' \<and> t_target x = ''g1''"
proof (rule revocation_not_lost [OF demo_empty _ demo_prepare_run [unfolded demo_prepare_def]])
  let ?es = "[Op None (\<lambda>s. s = MkTemp) (CompleteAttempt demo_id True [''xray.service''] 102),
    Op (Some LockTimeout) (\<lambda>_. False) (ClaimDue 103), Crash (seen demo_cell)]"
  have op1: "queue_op None (\<lambda>s. s = MkTemp) (CompleteAttempt demo_id True [''xray.service''] 102) demo_cell
      = (Inl OSError, demo_cell)"
    by (simp add: queue_op_def transact_def txn_def demo_load)
      (simp add: demo_id_def demo_task_def demo_cell_def py_eval dget_def)
  show "history queue_op ?es demo_cell (crashed demo_cell (seen demo_cell))"
    by (rule history.operation, rule op1, rule history.operation)
      (simp add: queue_op_def transact_def, rule history.power_loss,
        simp add: demo_cell_def quiet_def, rule history.nothing)
  show "\<forall>e \<in> set ?es. event_ok op_time_ok e" by (simp add: event_ok_def op_time_ok_def)
  show "\<forall>e \<in> set ?es. \<not> discarded demo_id e" by (simp add: discarded_def)
  show "length (filter (kick_reported demo_id) ?es) \<le> 1
      \<or> (\<exists>s \<in> set (service_set [''xray.service'']). \<forall>e \<in> set ?es. \<not> stop_reported demo_id s e)"
    by (simp add: kick_reported_def)
qed (simp_all add: abs_queue_def)

definition demo_claimed :: "json dict" where
  "demo_claimed = AList.update ''attempts'' (JInt 1) (AList.update ''lease_until'' (JInt 115) demo_task)"

definition demo_claimed_cell :: cell where
  "demo_claimed_cell = quiet (Doc (raw_of_json (JObj [(demo_id, JObj demo_claimed)])))"

lemma demo_claim_run:
  "queue_op None (\<lambda>_. False) (ClaimDue 100) demo_cell
     = (Inr (Claimed (Some (demo_id, demo_claimed))), demo_claimed_cell)"
  by (simp add: queue_op_def transact_def txn_def demo_load)
    (simp add: demo_id_def demo_task_def demo_claimed_def demo_claimed_cell_def demo_cell_def py_eval dget_def)

text \<open>A second task, prepared while the first is claimed, is the one the next claim returns.\<close>

definition demo_other :: string where "demo_other = replicate 64 CHR ''b''"

definition demo_other_task :: "json dict" where
  "demo_other_task = new_task ''eve'' ''h0'' ''h1'' [] 101"

definition demo_two :: cell where
  "demo_two = quiet (Doc (raw_of_json (JObj [(demo_id, JObj demo_claimed), (demo_other, JObj demo_other_task)])))"

lemma demo_claimed_load: "cell_load check_queue (seen demo_claimed_cell) = Inr [(demo_id, JObj demo_claimed)]"
  by (simp add: demo_id_def demo_task_def demo_claimed_def demo_claimed_cell_def py_eval raise_if_def dget_def)

lemma demo_two_load: "cell_load check_queue (seen demo_two)
    = Inr [(demo_id, JObj demo_claimed), (demo_other, JObj demo_other_task)]"
  by (simp add: demo_id_def demo_other_def demo_task_def demo_claimed_def demo_other_task_def demo_two_def
      py_eval raise_if_def dget_def)

lemma demo_two_prepared:
  "queue_op None (\<lambda>_. False) (Prepare demo_other ''eve'' ''h0'' ''h1'' [] 101) demo_claimed_cell
   = (Inr (Task demo_other_task), demo_two)"
proof -
  have "demo_other \<noteq> demo_id" "length demo_other = 64" by (simp_all add: demo_other_def demo_id_def)
  then show ?thesis
    by (simp add: queue_op_def transact_def txn_def demo_claimed_load services_allowed_def service_set_def
        prepare_body_def retain_pending_def map_res_def TASK_MAX_ENTRIES_def Let_def)
      (simp add: put_private_def save_private_def save_json_def write_atomic_def demo_other_task_def
        demo_two_def demo_claimed_cell_def quiet_def)
qed

lemma demo_two_claim:
  "queue_op None (\<lambda>_. False) (ClaimDue 110) demo_two
     = (Inr (Claimed (Some (demo_other, AList.update ''attempts'' (JInt 1)
          (AList.update ''lease_until'' (JInt 125) demo_other_task)))),
        snd (queue_op None (\<lambda>_. False) (ClaimDue 110) demo_two))"
proof -
  have "fst (claim_due_body 110 [(demo_id, JObj demo_claimed), (demo_other, JObj demo_other_task)])
      = Inr (Some (demo_other, AList.update ''attempts'' (JInt 1)
          (AList.update ''lease_until'' (JInt 125) demo_other_task)))"
    by (simp add: demo_claimed_def demo_task_def demo_other_task_def py_eval dget_def)
  then have "fst (map_res Claimed (claim_due_body 110 [(demo_id, JObj demo_claimed), (demo_other, JObj demo_other_task)]))
      = Inr (Claimed (Some (demo_other, AList.update ''attempts'' (JInt 1)
          (AList.update ''lease_until'' (JInt 125) demo_other_task))))"
    by (simp add: map_res_def)
  then show ?thesis
    using transact_quiet [OF demo_two_load, of "qbody (ClaimDue 110)"]
    by (intro prod_eqI; cases "qbody (ClaimDue 110) [(demo_id, JObj demo_claimed), (demo_other, JObj demo_other_task)]")
      (simp_all add: queue_op_def)
qed

theorem lease_exclusive_witness: "demo_other \<noteq> demo_id"
proof (rule lease_exclusive [OF demo_load demo_claim_run _ _ demo_two_claim])
  let ?op = "Prepare demo_other ''eve'' ''h0'' ''h1'' [] 101"
  show "history queue_op [Op None (\<lambda>_. False) ?op] demo_claimed_cell demo_two"
    by (rule history.operation, rule demo_two_prepared, rule history.nothing)
qed (simp_all add: event_ok_def op_time_ok_def ends_claim_def CLAIM_LEASE_SECONDS_def)

theorem claim_due_earliest_witness:
  "\<exists>x. abs_queue [(demo_id, JObj demo_task)] demo_id = Some x \<and> t_next x \<le> 100 \<and> t_lease x \<le> 100"
  using claim_due_earliest [OF demo_load demo_claim_run] by auto

theorem queue_bounded_witness:
  "\<exists>d. cell_load check_queue (seen demo_cell) = Inr d \<and> length d \<le> TASK_MAX_ENTRIES"
proof -
  have "history queue_op [Op None (\<lambda>_. False) demo_prepare] (quiet Missing) demo_cell"
    by (rule history.operation, rule demo_prepare_run, rule history.nothing)
  from queue_bounded [OF this] show ?thesis
    by (simp add: event_ok_def op_time_ok_def demo_prepare_def)
qed

theorem prepare_binding_witness:
  "fst (queue_op None (\<lambda>_. False) (Prepare demo_id ''bob'' ''g0'' ''g2'' [] 120) demo_cell) = Inl PermissionError"
  using prepare_binding [OF demo_load demo_abs, of "[]" "''g0''" "''g2''" "''bob''" 120]
  by (cases "queue_op None (\<lambda>_. False) (Prepare demo_id ''bob'' ''g0'' ''g2'' [] 120) demo_cell")
    (simp add: demo_id_def fresh_task_def services_allowed_def service_set_def ascii_only_def)

end
