(* ===== verification/RotationRecovery.thy ===== *)
theory RotationRecovery
  imports RevocationQueue
begin

text \<open>
  Recovery receipts of credential rotations: \<^verbatim>\<open>hysteria/rotation_recovery.py\<close>. A receipt is the JSON
  object stored under the digest of user and request id. As in the queue, an operation is a guard,
  which answers before the lock is taken, and a body on the loaded dictionary; \<open>receipt_op\<close> runs them
  on the file. SHA-256 is the parameter \<open>hex\<close>: the digest of a text, in hexadecimal. What the store
  needs of it is that digests have 64 characters.
\<close>

section \<open>Constants and keys\<close>

definition RECEIPT_TTL_SECONDS :: int where "RECEIPT_TTL_SECONDS = 5 * 60"
definition RECEIPT_MAX_ENTRIES :: nat where "RECEIPT_MAX_ENTRIES = 256"

definition request_char :: "char \<Rightarrow> bool" where
  "request_char c \<longleftrightarrow> is_alpha c \<or> is_digit c \<or> c = CHR ''_'' \<or> c = CHR ''-''"

definition valid_request_id :: "string \<Rightarrow> bool" where
  "valid_request_id value \<longleftrightarrow> 20 \<le> length value \<and> length value \<le> 128 \<and> list_all request_char value"

definition digest :: "(string \<Rightarrow> string) \<Rightarrow> string \<Rightarrow> string \<Rightarrow> string" where
  "digest hex label value = hex (label @ [CHR 0x00] @ value)"

definition receipt_key :: "(string \<Rightarrow> string) \<Rightarrow> string \<Rightarrow> string \<Rightarrow> string" where
  "receipt_key hex user request_id = digest hex ''rotation-request'' (user @ [CHR 0x00] @ request_id)"

definition session_digest :: "(string \<Rightarrow> string) \<Rightarrow> string \<Rightarrow> string" where
  "session_digest hex session_id = digest hex ''rotation-session'' session_id"

section \<open>Loading\<close>

definition str_field :: "json dict \<Rightarrow> string \<Rightarrow> string" where
  "str_field it k = str_of (dget it k JNull)"

definition digests_of :: "json dict \<Rightarrow> string list" where
  "digests_of it = str_list (dget it ''session_digests'' (JList []))"

definition digest_list_ok :: "json \<Rightarrow> bool" where
  "digest_list_ok v = (case v of
      JList xs \<Rightarrow> (\<forall>x \<in> set xs. case x of JStr s \<Rightarrow> length s = 64 | _ \<Rightarrow> False)
    | _ \<Rightarrow> False)"

definition check_receipt :: "string \<times> json \<Rightarrow> unit res" where
  "check_receipt kv = (let key = fst kv; it = obj_of (snd kv) in
     rbind (raise_if
         (length key \<noteq> 64 \<or> \<not> is_obj (snd kv)
          \<or> \<not> is_str (dget it ''user'' JNull)
          \<or> \<not> is_str (dget it ''new_token'' JNull)
          \<or> \<not> is_str (dget it ''new_uuid'' JNull)
          \<or> \<not> is_str (dget it ''old_generation'' JNull)
          \<or> \<not> is_str (dget it ''new_generation'' JNull)
          \<or> \<not> digest_list_ok (dget it ''session_digests'' JNull))
         InvalidJsonState) (\<lambda>_.
     rbind (counter_value (dget it ''created_at'' JNull)) (\<lambda>created.
     rbind (counter_value (dget it ''expires_at'' JNull)) (\<lambda>expires.
       raise_if (created \<le> 0 \<or> expires \<le> created \<or> 512 < length (str_field it ''new_token'')
           \<or> 128 < length (str_field it ''new_uuid'') \<or> digests_of it = [])
         InvalidJsonState))))"

definition check_receipts :: "json dict \<Rightarrow> unit res" where
  "check_receipts data = check_all check_receipt data"

definition prune :: "json dict \<Rightarrow> int \<Rightarrow> json dict" where
  "prune data now = filter (\<lambda>kv. now < int_field (obj_of (snd kv)) ''expires_at'' 0) data"

text \<open>\<^verbatim>\<open>any(hmac.compare_digest(supplied, expected) for expected in digests)\<close>.\<close>

fun any_digest :: "string \<Rightarrow> string list \<Rightarrow> bool res" where
  "any_digest supplied [] = Inr False"
| "any_digest supplied (expected # rest) =
     rbind (compare_digest supplied expected) (\<lambda>b. if b then Inr True else any_digest supplied rest)"

section \<open>Operations\<close>

definition prune_expired_body :: "int \<Rightarrow> json dict \<Rightarrow> nat res \<times> json dict option" where
  "prune_expired_body timestamp original =
     (let data = prune original timestamp; removed = length original - length data
      in (Inr removed, if removed \<noteq> 0 then Some data else None))"

definition lookup_bound_body ::
  "(string \<Rightarrow> string) \<Rightarrow> string \<Rightarrow> string \<Rightarrow> string \<Rightarrow> int \<Rightarrow> json dict
   \<Rightarrow> json dict option res \<times> json dict option" where
  "lookup_bound_body hex user request_id session_id timestamp original =
     (let data = prune original timestamp;
          saved = (if data \<noteq> original then Some data else None)
      in case map_of data (receipt_key hex user request_id) of
          Some (JObj item) \<Rightarrow> (case any_digest (session_digest hex session_id) (digests_of item) of
              Inl e \<Rightarrow> (Inl e, saved)
            | Inr bound \<Rightarrow> (Inr (if bound then Some item else None), saved))
        | _ \<Rightarrow> (Inr None, saved))"

definition new_receipt ::
  "(string \<Rightarrow> string) \<Rightarrow> string \<Rightarrow> string \<Rightarrow> string \<Rightarrow> string \<Rightarrow> string \<Rightarrow> string \<Rightarrow> int \<Rightarrow> json dict" where
  "new_receipt hex user session_id old_gen new_gen new_token new_uuid timestamp =
     [(''user'', JStr user), (''old_generation'', JStr old_gen), (''new_generation'', JStr new_gen),
      (''new_token'', JStr new_token), (''new_uuid'', JStr new_uuid),
      (''session_digests'', JList [JStr (session_digest hex session_id)]),
      (''created_at'', JInt timestamp), (''expires_at'', JInt (timestamp + RECEIPT_TTL_SECONDS))]"

definition receipt_matches ::
  "(string \<Rightarrow> string) \<Rightarrow> json dict \<Rightarrow> string \<Rightarrow> string \<Rightarrow> string \<Rightarrow> bool res" where
  "receipt_matches hex existing user session_id old_gen =
     (if dget existing ''user'' JNull \<noteq> JStr user then Inr False
      else rbind (any_digest (session_digest hex session_id) (digests_of existing)) (\<lambda>bound.
        if \<not> bound then Inr False
        else compare_digest (str_field existing ''old_generation'') old_gen))"

definition prepare_receipt_body ::
  "(string \<Rightarrow> string) \<Rightarrow> string \<Rightarrow> string \<Rightarrow> string \<Rightarrow> string \<Rightarrow> string \<Rightarrow> string \<Rightarrow> string \<Rightarrow> int
   \<Rightarrow> json dict \<Rightarrow> json dict res \<times> json dict option" where
  "prepare_receipt_body hex user request_id session_id old_gen new_gen new_token new_uuid timestamp loaded =
     (let data = prune loaded timestamp; key = receipt_key hex user request_id in
      case map_of data key of
        Some existing \<Rightarrow> (case receipt_matches hex (obj_of existing) user session_id old_gen of
            Inl e \<Rightarrow> (Inl e, None)
          | Inr False \<Rightarrow> (Inl PermissionError, None)
          | Inr True \<Rightarrow> (Inr (obj_of existing), Some data))
      | None \<Rightarrow>
          if RECEIPT_MAX_ENTRIES \<le> length data then (Inl CapacityError, None)
          else let item = new_receipt hex user session_id old_gen new_gen new_token new_uuid timestamp
               in (Inr item, Some (AList.update key (JObj item) data)))"

definition last_four :: "'a list \<Rightarrow> 'a list" where
  "last_four xs = drop (length xs - 4) xs"

definition bind_replacement_body ::
  "(string \<Rightarrow> string) \<Rightarrow> string \<Rightarrow> string \<Rightarrow> string \<Rightarrow> string \<Rightarrow> int \<Rightarrow> json dict
   \<Rightarrow> bool res \<times> json dict option" where
  "bind_replacement_body hex user request_id original_session replacement_session timestamp loaded =
     (let data = prune loaded timestamp; key = receipt_key hex user request_id in
      case map_of data key of
        Some (JObj item) \<Rightarrow> (case any_digest (session_digest hex original_session) (digests_of item) of
            Inl e \<Rightarrow> (Inl e, None)
          | Inr False \<Rightarrow> (Inr False, None)
          | Inr True \<Rightarrow>
              (let replacement = session_digest hex replacement_session in
               case any_digest replacement (digests_of item) of
                 Inl e \<Rightarrow> (Inl e, None)
               | Inr True \<Rightarrow> (Inr True, Some data)
               | Inr False \<Rightarrow> (Inr True, Some (AList.update key
                   (JObj (AList.update ''session_digests''
                     (JList (map JStr (last_four (digests_of item @ [replacement])))) item)) data))))
      | _ \<Rightarrow> (Inr False, None))"

definition discard_receipt_body ::
  "(string \<Rightarrow> string) \<Rightarrow> string \<Rightarrow> string \<Rightarrow> json dict \<Rightarrow> unit res \<times> json dict option" where
  "discard_receipt_body hex user request_id data =
     (let key = receipt_key hex user request_id
      in if map_of data key \<noteq> None then (Inr (), Some (AList.delete key data)) else (Inr (), None))"

section \<open>The operations on the receipt file\<close>

datatype rop =
    PruneExpired int
  | LookupBound string string string int
  | PrepareReceipt string string string string string string string int
  | BindReplacement string string string string int
  | DiscardReceipt string string

datatype rresult =
    Removed nat
  | Found "json dict option"
  | Receipt "json dict"
  | Bound bool
  | Discarded

fun rbody :: "(string \<Rightarrow> string) \<Rightarrow> rop \<Rightarrow> json dict \<Rightarrow> rresult res \<times> json dict option" where
  "rbody hex (PruneExpired now) d = map_res Removed (prune_expired_body now d)"
| "rbody hex (LookupBound u rid sid now) d = map_res Found (lookup_bound_body hex u rid sid now d)"
| "rbody hex (PrepareReceipt u rid sid og ng tok uuid now) d =
     map_res Receipt (prepare_receipt_body hex u rid sid og ng tok uuid now d)"
| "rbody hex (BindReplacement u rid sid sid' now) d =
     map_res Bound (bind_replacement_body hex u rid sid sid' now d)"
| "rbody hex (DiscardReceipt u rid) d = map_res (\<lambda>_. Discarded) (discard_receipt_body hex u rid d)"

text \<open>What an operation answers before it takes the lock; maintenance skips a missing file.\<close>

fun rguard :: "rop \<Rightarrow> cell \<Rightarrow> rresult res option" where
  "rguard (PruneExpired now) c = (if seen c = Missing then Some (Inr (Removed 0)) else None)"
| "rguard (LookupBound u rid sid now) c =
     (if \<not> valid_request_id rid \<or> sid = [] then Some (Inr (Found None)) else None)"
| "rguard (PrepareReceipt u rid sid og ng tok uuid now) c =
     (if \<not> valid_request_id rid \<or> sid = [] then Some (Inl ValueError) else None)"
| "rguard (BindReplacement u rid sid sid' now) c = (if sid' = [] then Some (Inr (Bound False)) else None)"
| "rguard (DiscardReceipt u rid) c = (if \<not> valid_request_id rid then Some (Inr Discarded) else None)"

definition receipt_op ::
  "(string \<Rightarrow> string) \<Rightarrow> exc option \<Rightarrow> faults \<Rightarrow> rop \<Rightarrow> cell \<Rightarrow> rresult res \<times> cell" where
  "receipt_op hex lock fails op c = (case rguard op c of
      Some r \<Rightarrow> (r, c)
    | None \<Rightarrow> transact put_private lock check_receipts (rbody hex op) fails c)"

section \<open>Valid receipts\<close>

definition receipt_valid :: "string \<Rightarrow> json dict \<Rightarrow> bool" where
  "receipt_valid key it \<longleftrightarrow> length key = 64
     \<and> is_str (dget it ''user'' JNull) \<and> is_str (dget it ''new_token'' JNull)
     \<and> is_str (dget it ''new_uuid'' JNull) \<and> is_str (dget it ''old_generation'' JNull)
     \<and> is_str (dget it ''new_generation'' JNull) \<and> digest_list_ok (dget it ''session_digests'' JNull)
     \<and> has_int it ''created_at'' JNull \<and> has_int it ''expires_at'' JNull
     \<and> 0 < int_field it ''created_at'' 0 \<and> int_field it ''created_at'' 0 < int_field it ''expires_at'' 0
     \<and> length (str_field it ''new_token'') \<le> 512 \<and> length (str_field it ''new_uuid'') \<le> 128
     \<and> digests_of it \<noteq> []"

lemma check_receipt_Inr:
  "check_receipt (key, item) = Inr u \<longleftrightarrow> (\<exists>it. item = JObj it \<and> receipt_valid key it)"
proof (cases "is_obj item")
  case False
  then show ?thesis by (auto simp: check_receipt_def is_obj_def raise_if_def)
next
  case True
  then obtain it where it: "item = JObj it" by (auto simp: is_obj_conv)
  let ?S = "length key = 64 \<and> is_str (dget it ''user'' JNull) \<and> is_str (dget it ''new_token'' JNull)
     \<and> is_str (dget it ''new_uuid'' JNull) \<and> is_str (dget it ''old_generation'' JNull)
     \<and> is_str (dget it ''new_generation'' JNull) \<and> digest_list_ok (dget it ''session_digests'' JNull)"
  let ?B = "\<lambda>c e. 0 < c \<and> c < (e::int) \<and> length (str_field it ''new_token'') \<le> 512
     \<and> length (str_field it ''new_uuid'') \<le> 128 \<and> digests_of it \<noteq> []"
  have "check_receipt (key, item) = Inr u \<longleftrightarrow> ?S \<and> (\<exists>c. py_int (dget it ''created_at'' JNull) = Inr c
     \<and> (\<exists>e. py_int (dget it ''expires_at'' JNull) = Inr e \<and> ?B c e))"
    by (simp add: it check_receipt_def Let_def rbind_eq_Inr counter_value_Inr is_obj_def obj_of_def
        not_less not_le conj_ac)
  also have "\<dots> \<longleftrightarrow> receipt_valid key it"
    unfolding receipt_valid_def has_int_def int_field_def
    by (rule iffI; elim conjE exE; simp add: dget_present [where v = "JInt 0"])
  finally show ?thesis by (simp add: it)
qed

lemma check_receipts_Inr:
  "check_receipts d = Inr u \<longleftrightarrow>
     (\<forall>k item. (k, item) \<in> set d \<longrightarrow> (\<exists>it. item = JObj it \<and> receipt_valid k it))"
  by (auto simp: check_receipts_def check_all_Inr check_receipt_Inr)

text \<open>The updates of the operations keep a valid dictionary.\<close>

lemma receipts_lookup:
  assumes "cell_ok check_receipts d" and "map_of d k = Some j"
  obtains it where "j = JObj it" "receipt_valid k it" "wf_json (JObj it)"
proof -
  from assms have "(k, j) \<in> set d" by (auto dest: map_of_SomeD)
  with assms(1) obtain it where "j = JObj it" "receipt_valid k it"
    unfolding cell_ok_def check_receipts_Inr by blast
  with that assms wf_json_lookup show ?thesis unfolding cell_ok_def by blast
qed

lemma receipts_prune:
  assumes "cell_ok check_receipts d"
  shows "cell_ok check_receipts (prune d now)"
  using assms by (auto simp: cell_ok_def prune_def check_receipts_Inr)

lemma receipts_update:
  assumes "cell_ok check_receipts d" "receipt_valid k it" "wf_json (JObj it)"
  shows "cell_ok check_receipts (AList.update k (JObj it) d)"
  unfolding cell_ok_def check_receipts_Inr
proof (intro conjI allI impI)
  show "wf_json (JObj (AList.update k (JObj it) d))"
    using assms wf_json_update unfolding cell_ok_def by blast
  fix k' j assume "(k', j) \<in> set (AList.update k (JObj it) d)"
  then have "(k', j) = (k, JObj it) \<or> (k', j) \<in> set d" using set_update_subset by fastforce
  with assms(1,2) show "\<exists>it. j = JObj it \<and> receipt_valid k' it"
    unfolding cell_ok_def check_receipts_Inr by blast
qed

lemma receipts_delete:
  assumes "cell_ok check_receipts d"
  shows "cell_ok check_receipts (AList.delete k d)"
  using assms set_delete_subset [of k d] wf_json_delete [of d k]
  unfolding cell_ok_def check_receipts_Inr by blast

lemma map_of_prune:
  "wf_dict d \<Longrightarrow> map_of (prune d now) k = (case map_of d k of None \<Rightarrow> None
     | Some j \<Rightarrow> if now < int_field (obj_of j) ''expires_at'' 0 then Some j else None)"
  by (simp add: prune_def map_of_filter_wf split: option.splits)

lemma length_prune: "length (prune d now) \<le> length d"
  by (simp add: prune_def)

lemma digests_ok: "digest_list_ok v \<Longrightarrow> \<forall>s \<in> set (str_list v). length s = 64"
  by (auto simp: digest_list_ok_def str_list_def str_of_def split: json.splits)

lemma digest_list_strings [simp]: "digest_list_ok (JList (map JStr xs)) \<longleftrightarrow> (\<forall>x \<in> set xs. length x = 64)"
  by (simp add: digest_list_ok_def)

lemma receipt_digests: "receipt_valid k it \<Longrightarrow> \<forall>s \<in> set (digests_of it). length s = 64"
  using digests_ok [of "dget it ''session_digests'' JNull"]
  by (auto simp: receipt_valid_def digests_of_def dget_def digest_list_ok_def split: option.splits json.splits)

lemma digests_of_update [simp]:
  "digests_of (AList.update k v it) = (if k = ''session_digests'' then str_list v else digests_of it)"
  by (auto simp: digests_of_def)

lemma str_field_update [simp]:
  "str_field (AList.update k v it) x = (if x = k then str_of v else str_field it x)"
  by (simp add: str_field_def)

lemma length_last_four [simp]: "length (last_four xs) = min 4 (length xs)"
  by (simp add: last_four_def)

lemma set_last_four: "set (last_four xs) \<subseteq> set xs"
  by (auto simp: last_four_def dest: in_set_dropD)

lemma last_four_id: "length xs \<le> 4 \<Longrightarrow> last_four xs = xs"
  by (simp add: last_four_def)

lemma receipt_valid_rebind:
  assumes "receipt_valid k it" "\<forall>x \<in> set ds. length x = 64" "ds \<noteq> []"
  shows "receipt_valid k (AList.update ''session_digests'' (JList (map JStr ds)) it)"
  using assms unfolding receipt_valid_def by (simp add: str_list_strings)

text \<open>The arguments the callers pass: a positive time, and a token and UUID of bounded length.\<close>

definition rop_ok :: "rop \<Rightarrow> bool" where
  "rop_ok op = (case op of
      PrepareReceipt u rid sid og ng tok uuid now \<Rightarrow> 0 < now \<and> length tok \<le> 512 \<and> length uuid \<le> 128
    | _ \<Rightarrow> True)"

text \<open>What a body leaves in the file: pruning, then at most one changed entry.\<close>

lemma bind_body_cases:
  assumes d: "cell_ok check_receipts d"
    and b: "bind_replacement_body hex u rid sid sid' now d = (r, Some d')"
    and hex: "\<And>s. length (hex s) = 64"
  obtains "d' = prune d now" "r = Inr True"
  | it ds where "map_of (prune d now) (receipt_key hex u rid) = Some (JObj it)" "r = Inr True"
      "ds = last_four (digests_of it @ [session_digest hex sid'])"
      "d' = AList.update (receipt_key hex u rid)
         (JObj (AList.update ''session_digests'' (JList (map JStr ds)) it)) (prune d now)"
      "\<forall>x \<in> set ds. length x = 64" "ds \<noteq> []"
proof -
  from b obtain it where it: "map_of (prune d now) (receipt_key hex u rid) = Some (JObj it)"
    by (auto simp: bind_replacement_body_def Let_def split: option.splits json.splits)
  from receipts_lookup [OF receipts_prune [OF d] it]
  have v: "receipt_valid (receipt_key hex u rid) it" by blast
  let ?ds = "last_four (digests_of it @ [session_digest hex sid'])"
  have ds: "\<forall>x \<in> set ?ds. length x = 64"
    using receipt_digests [OF v] set_last_four [of "digests_of it @ [session_digest hex sid']"] hex
    by (auto simp: session_digest_def digest_def)
  have ne: "?ds \<noteq> []" by (simp add: last_four_def)
  show ?thesis
    using b it that(1) that(2) [OF it _ refl _ ds ne]
    by (auto simp: bind_replacement_body_def Let_def split: sum.splits bool.splits)
qed

lemma rbody_ok:
  assumes hex: "\<And>s. length (hex s) = 64" and d: "cell_ok check_receipts d" and ok: "rop_ok op"
    and b: "rbody hex op d = (r, Some d')"
  shows "cell_ok check_receipts d'"
proof (cases op)
  case (PruneExpired now)
  with b receipts_prune [OF d] show ?thesis
    by (auto simp: map_res_def prune_expired_body_def Let_def split: if_splits)
next
  case (LookupBound u rid sid now)
  with b receipts_prune [OF d] show ?thesis
    by (auto simp: map_res_def lookup_bound_body_def Let_def split: if_splits option.splits json.splits sum.splits)
next
  case (PrepareReceipt u rid sid og ng tok uuid now)
  let ?it = "new_receipt hex u sid og ng tok uuid now" and ?k = "receipt_key hex u rid"
  have v: "receipt_valid ?k ?it"
    using hex ok PrepareReceipt
    by (simp add: receipt_valid_def new_receipt_def dget_def has_int_def int_field_def is_str_def
        str_field_def str_of_def digests_of_def str_list_def digest_list_ok_def receipt_key_def
        session_digest_def digest_def RECEIPT_TTL_SECONDS_def rop_ok_def)
  have w: "wf_json (JObj ?it)" by (simp add: new_receipt_def wf_dict_def)
  from b PrepareReceipt have "d' = prune d now \<or> d' = AList.update ?k (JObj ?it) (prune d now)"
    by (auto simp: map_res_def prepare_receipt_body_def Let_def
        split: if_splits option.splits sum.splits bool.splits)
  with receipts_prune [OF d] receipts_update [OF receipts_prune [OF d] v w] show ?thesis by auto
next
  case (BindReplacement u rid sid sid' now)
  with b have "snd (bind_replacement_body hex u rid sid sid' now d) = Some d'" by (simp add: map_res_def)
  then obtain r0 where r0: "bind_replacement_body hex u rid sid sid' now d = (r0, Some d')"
    by (cases "bind_replacement_body hex u rid sid sid' now d") simp
  from d r0 hex show ?thesis
  proof (cases rule: bind_body_cases)
    case 1
    with receipts_prune [OF d] show ?thesis by simp
  next
    case (2 it ds)
    from receipts_lookup [OF receipts_prune [OF d] 2(1)]
    have v: "receipt_valid (receipt_key hex u rid) it" and w: "wf_json (JObj it)" by auto
    have w': "wf_json (JObj (AList.update ''session_digests'' (JList (map JStr ds)) it))"
      using w by (rule wf_json_update) simp
    from receipts_update [OF receipts_prune [OF d] receipt_valid_rebind [OF v 2(5,6)] w'] show ?thesis
      by (simp add: 2(4))
  qed
next
  case (DiscardReceipt u rid)
  with b receipts_delete [OF d] show ?thesis
    by (auto simp: map_res_def discard_receipt_body_def Let_def split: if_splits)
qed

interpretation receipt_store: stored_ops "receipt_op hex" rguard check_receipts "rbody hex"
  "\<lambda>op. rop_ok op \<and> hex_digest hex" put_private "\<lambda>_. True" for hex
proof
  show "receipt_op hex lock fails op c = (a, c)" if "rguard op c = Some a" for lock fails op c a
    using that by (simp add: receipt_op_def)
  show "\<exists>q. transact put_private lock check_receipts (rbody hex op) fails c = (q, c') \<and> (r = q \<or> isl r)"
    if "rguard op c = None" "receipt_op hex lock fails op c = (r, c')" for lock fails op c r c'
    using that by (simp add: receipt_op_def)
  show "atomic_put put_private" by (rule put_private_atomic)
  show "refused put_private d' \<or> cell_ok check_receipts d' \<and> True" if "cell_ok check_receipts d" "rop_ok op \<and> hex_digest hex"
    "rbody hex op d = (r, Some d')" for d op r d'
    using rbody_ok [of hex d op r d'] that by (simp add: hex_digest_def)
qed

section \<open>Receipts over time\<close>

definition op_time :: "rop \<Rightarrow> int option" where
  "op_time op = (case op of
      PruneExpired now \<Rightarrow> Some now
    | LookupBound u rid sid now \<Rightarrow> Some now
    | PrepareReceipt u rid sid og ng tok uuid now \<Rightarrow> Some now
    | BindReplacement u rid sid sid' now \<Rightarrow> Some now
    | DiscardReceipt u rid \<Rightarrow> None)"

definition before :: "int \<Rightarrow> rop event \<Rightarrow> bool" where
  "before t e = (case e of Op _ _ op \<Rightarrow> (case op_time op of Some now \<Rightarrow> now < t | None \<Rightarrow> True) | Crash f \<Rightarrow> True)"

definition discards_key :: "(string \<Rightarrow> string) \<Rightarrow> string \<Rightarrow> rop event \<Rightarrow> bool" where
  "discards_key hex k e = (case e of Op _ _ (DiscardReceipt u rid) \<Rightarrow> receipt_key hex u rid = k | _ \<Rightarrow> False)"

definition rebinds_key :: "(string \<Rightarrow> string) \<Rightarrow> string \<Rightarrow> rop event \<Rightarrow> bool" where
  "rebinds_key hex k e = (case e of Op _ _ (BindReplacement u rid sid sid' now) \<Rightarrow> receipt_key hex u rid = k | _ \<Rightarrow> False)"

text \<open>The receipt under a key is still the one with this token, bound to this session.\<close>

definition held :: "(string \<Rightarrow> string) \<Rightarrow> string \<Rightarrow> string \<Rightarrow> json dict \<Rightarrow> rop event list \<Rightarrow> json dict \<Rightarrow> bool" where
  "held hex k dig it0 es d \<longleftrightarrow> (\<forall>e \<in> set es. before (int_field it0 ''expires_at'' 0) e \<and> \<not> discards_key hex k e)
     \<and> (\<exists>it. map_of d k = Some (JObj it) \<and> int_field it ''expires_at'' 0 = int_field it0 ''expires_at'' 0
         \<and> str_field it ''new_token'' = str_field it0 ''new_token'' \<and> str_field it ''new_uuid'' = str_field it0 ''new_uuid''
         \<and> dig \<in> set (digests_of it) \<and> (\<forall>x \<in> set (digests_of it). ascii_only x)
         \<and> length (digests_of it) + length (filter (rebinds_key hex k) es) \<le> 4)"

lemma held_weaker: "held hex k dig it0 (e # es) d \<Longrightarrow> held hex k dig it0 es d"
  unfolding held_def by (force split: if_splits)

lemma held_prune:
  assumes "wf_dict d" "held hex k dig it0 es d" "now < int_field it0 ''expires_at'' 0"
  shows "held hex k dig it0 es (prune d now)"
  using assms unfolding held_def by (auto simp: map_of_prune obj_of_def)

lemma held_step:
  assumes h: "held hex k dig it0 (Op lock fails op # es) d" and d: "cell_ok check_receipts d"
    and hex: "hex_digest hex" and b: "rbody hex op d = (r, Some d')"
  shows "held hex k dig it0 es d'"
proof -
  note w = held_weaker [OF h]
  have wf: "wf_dict d" using d by (simp add: cell_ok_def)
  have p: "held hex k dig it0 es (prune d now)" if "op_time op = Some now" for now
    using held_prune [OF wf w] h that by (simp add: held_def before_def)
  show ?thesis
  proof (cases op)
    case (PruneExpired now)
    with b p show ?thesis
      by (auto simp: map_res_def prune_expired_body_def Let_def op_time_def split: if_splits)
  next
    case (LookupBound u rid sid now)
    with b p show ?thesis
      by (auto simp: map_res_def lookup_bound_body_def Let_def op_time_def
          split: if_splits option.splits json.splits sum.splits)
  next
    case (PrepareReceipt u rid sid og ng tok uuid now)
    from p [of now] PrepareReceipt have pr: "held hex k dig it0 es (prune d now)" by (simp add: op_time_def)
    from b PrepareReceipt have "d' = prune d now \<or> map_of (prune d now) (receipt_key hex u rid) = None
        \<and> (\<exists>j. d' = AList.update (receipt_key hex u rid) j (prune d now))"
      by (auto simp: map_res_def prepare_receipt_body_def Let_def
          split: if_splits option.splits sum.splits bool.splits)
    with pr show ?thesis unfolding held_def by auto
  next
    case (BindReplacement u rid sid sid' now)
    from p [of now] BindReplacement have pr: "held hex k dig it0 es (prune d now)" by (simp add: op_time_def)
    from b BindReplacement have "snd (bind_replacement_body hex u rid sid sid' now d) = Some d'"
      by (simp add: map_res_def)
    then obtain r0 where r0: "bind_replacement_body hex u rid sid sid' now d = (r0, Some d')"
      by (cases "bind_replacement_body hex u rid sid sid' now d") simp
    from hex have len: "length (hex s) = 64" for s by (simp add: hex_digest_def)
    from d r0 len show ?thesis
    proof (cases rule: bind_body_cases)
      case 1
      with pr show ?thesis by simp
    next
      case (2 it ds)
      show ?thesis
      proof (cases "receipt_key hex u rid = k")
        case False
        with pr 2(4) show ?thesis unfolding held_def by auto
      next
        case True
        have reb: "rebinds_key hex k (Op lock fails op)" using True BindReplacement by (simp add: rebinds_key_def)
        from h obtain it1 where it1: "map_of d k = Some (JObj it1)"
          "dig \<in> set (digests_of it1)" "\<forall>x \<in> set (digests_of it1). ascii_only x"
          "length (digests_of it1) + length (filter (rebinds_key hex k) es) \<le> 3"
          using reb by (auto simp: held_def)
        from 2(1) True it1(1) wf have "it1 = it" by (auto simp: map_of_prune split: if_splits)
        with it1 2(3) hex have ds: "length ds = Suc (length (digests_of it))" "dig \<in> set ds"
          "\<forall>x \<in> set ds. ascii_only x"
          by (auto simp: last_four_id hex_digest_def session_digest_def digest_def)
        with it1 \<open>it1 = it\<close> pr 2(1,4) True show ?thesis
          unfolding held_def by auto
      qed
    qed
  next
    case (DiscardReceipt u rid)
    with h have "receipt_key hex u rid \<noteq> k" by (simp add: held_def discards_key_def)
    with b DiscardReceipt w show ?thesis
      unfolding held_def by (auto simp: map_res_def discard_receipt_body_def Let_def split: if_splits)
  qed
qed

section \<open>Properties\<close>

lemma any_digest_Inr_True: "any_digest s xs = Inr True \<Longrightarrow> s \<in> set xs"
  by (induction xs) (auto simp: rbind_eq_Inr compare_digest_def split: if_splits)

lemma any_digest_all_ascii:
  "ascii_only s \<Longrightarrow> \<forall>x \<in> set xs. ascii_only x \<Longrightarrow> any_digest s xs = Inr (s \<in> set xs)"
  by (induction xs) (auto simp: compare_digest_def)

lemma lookup_found:
  assumes "cell_load check_receipts (seen c) = Inr d"
    and "receipt_op hex lock fails (LookupBound u rid sid now) c = (Inr (Found (Some it)), c')"
  shows "valid_request_id rid \<and> sid \<noteq> [] \<and> map_of d (receipt_key hex u rid) = Some (JObj it)
     \<and> session_digest hex sid \<in> set (digests_of it) \<and> now < int_field it ''expires_at'' 0"
proof -
  let ?op = "LookupBound u rid sid now"
  have g: "rguard ?op c = None" using assms(2) by (auto simp: receipt_op_def split: if_splits)
  then have tr: "transact put_private lock check_receipts (rbody hex ?op) fails c = (Inr (Found (Some it)), c')"
    using assms(2) by (simp add: receipt_op_def)
  then have "fst (rbody hex ?op d) = Inr (Found (Some it))"
    using assms(1) by (auto simp: transact_def txn_def split: option.splits prod.splits)
  then have *: "map_of (prune d now) (receipt_key hex u rid) = Some (JObj it)"
    "any_digest (session_digest hex sid) (digests_of it) = Inr True"
    by (auto simp: map_res_def lookup_bound_body_def Let_def
        split: option.splits json.splits sum.splits if_splits)
  have "wf_dict d" using cell_load_ok [OF assms(1)] by (simp add: cell_ok_def)
  with * have "map_of d (receipt_key hex u rid) = Some (JObj it)" "now < int_field it ''expires_at'' 0"
    by (auto simp: map_of_prune obj_of_def split: option.splits if_splits)
  with g any_digest_Inr_True [OF *(2)] show ?thesis by (simp split: if_splits)
qed

text \<open>
  C29. A receipt is handed out only to the browser session it is bound to, only under the request
  id it was made for, and never after it has expired: what a lookup returns is the stored entry of
  that key, with the digest of the asking session among its sessions and a later expiry time.
\<close>

theorem lookup_bound_only:
  assumes "cell_load check_receipts (seen c) = Inr d"
    and "receipt_op hex lock fails (LookupBound u rid sid now) c = (Inr (Found (Some it)), c')"
  shows "valid_request_id rid \<and> sid \<noteq> [] \<and> map_of d (receipt_key hex u rid) = Some (JObj it)
     \<and> session_digest hex sid \<in> set (digests_of it) \<and> now < int_field it ''expires_at'' 0"
  using assms by (rule lookup_found)

lemma lookup_body_found:
  assumes "map_of (prune d now) (receipt_key hex u rid) = Some (JObj it)"
    and "session_digest hex sid \<in> set (digests_of it)"
    and "ascii_only (session_digest hex sid)" "\<forall>x \<in> set (digests_of it). ascii_only x"
  shows "fst (lookup_bound_body hex u rid sid now d) = Inr (Some it)"
  using assms any_digest_all_ascii [OF assms(3,4)] by (simp add: lookup_bound_body_def Let_def)

lemma prepare_receipt_safe:
  assumes "hex_digest hex" and "cell_load check_receipts (seen c0) = Inr d0"
    and none: "map_of (prune d0 now0) (receipt_key hex u rid) = None"
    and op: "receipt_op hex lock fails (PrepareReceipt u rid sid og ng tok uuid now0) c0 = (Inr r, c)"
    and ok: "rop_ok (PrepareReceipt u rid sid og ng tok uuid now0)"
  shows "cell_safe check_receipts (\<lambda>d. map_of d (receipt_key hex u rid)
      = Some (JObj (new_receipt hex u sid og ng tok uuid now0))) c"
proof -
  let ?op = "PrepareReceipt u rid sid og ng tok uuid now0"
  have g: "rguard ?op c0 = None" using op by (auto simp: receipt_op_def split: if_splits)
  from receipt_store.op_success [OF assms(2) op _ g TrueI] ok assms(1) none obtain d' where
    "d' = AList.update (receipt_key hex u rid) (JObj (new_receipt hex u sid og ng tok uuid now0)) (prune d0 now0)"
    "cell_load check_receipts (seen c) = Inr d'" "after_crash c = {seen c}"
    by (auto simp: prepare_receipt_body_def map_res_def Let_def split: if_splits)
  then show ?thesis by (simp add: cell_safe_def)
qed

lemma held_new_receipt:
  assumes "map_of d k = Some (JObj (new_receipt hex u sid og ng tok uuid now))" "hex_digest hex"
    and "\<forall>e \<in> set es. before (now + RECEIPT_TTL_SECONDS) e \<and> \<not> discards_key hex k e"
    and "length (filter (rebinds_key hex k) es) \<le> 3"
  shows "held hex k (session_digest hex sid) (new_receipt hex u sid og ng tok uuid now) es d"
  using assms by (auto simp: held_def new_receipt_def int_field_def dget_def digests_of_def str_list_def
      str_of_def hex_digest_def session_digest_def digest_def)


text \<open>
  The receipt file stays bounded and readable: after any history from a fresh installation,
  failures and power losses included, it holds at most 256 receipts and loads, as does every
  content a power loss may bring back.
\<close>

theorem receipts_bounded:
  assumes "hex_digest hex" and "history (receipt_op hex) es (quiet Missing) c"
    and "\<forall>e \<in> set es. event_ok rop_ok e"
  shows "\<forall>f \<in> insert (seen c) (after_crash c). \<exists>d. cell_load check_receipts f = Inr d
     \<and> length d \<le> RECEIPT_MAX_ENTRIES"
proof -
  let ?P = "\<lambda>(es :: rop event list) d. length (d :: json dict) \<le> RECEIPT_MAX_ENTRIES"
  have step: "length d' \<le> RECEIPT_MAX_ENTRIES"
    if "length d \<le> RECEIPT_MAX_ENTRIES" "rbody hex op d = (r, Some d')" for op d r d'
  proof -
    have p: "length (prune d now) \<le> RECEIPT_MAX_ENTRIES" for now using that(1) length_prune le_trans by blast
    have in_fst: "map_of xs k = Some v \<Longrightarrow> k \<in> fst ` set xs" for xs :: "json dict" and k v
      by (force dest: map_of_SomeD)
    show ?thesis
      using that p length_delete_le [of _ d] in_fst
      by (cases op)
        (auto simp: map_res_def prune_expired_body_def lookup_bound_body_def prepare_receipt_body_def
          bind_replacement_body_def discard_receipt_body_def Let_def length_update not_le
          split: if_splits option.splits json.splits sum.splits bool.splits intro: le_trans le_antisym)
  qed
  have safe: "cell_safe check_receipts (?P es) (quiet Missing)"
    by (simp add: cell_safe_def quiet_def cell_load_def load_dict_def load_json_strict_def obj_of_def
        check_receipts_def)
  have ev: "\<forall>e \<in> set es. event_ok (\<lambda>op. rop_ok op \<and> hex_digest hex) e"
    using assms(1,3) by (auto simp: event_ok_def split: event.splits)
  have "cell_safe check_receipts (?P []) c"
    by (rule receipt_store.history_safe [where P = ?P, OF assms(2) ev safe]) (use step in blast)+
  then show ?thesis by (simp add: cell_safe_def)
qed

lemma prune_live: "(k, j) \<in> set (prune d now) \<Longrightarrow> now < int_field (obj_of j) ''expires_at'' 0"
  by (simp add: prune_def)

lemma prune_same_length: "length (prune d now) = length d \<Longrightarrow> prune d now = d"
  unfolding prune_def by (metis (lifting) filter_id_conv length_filter_less nat_less_le)

lemma update_live:
  assumes "\<And>k j. (k, j) \<in> set d \<Longrightarrow> P j" "P v"
  shows "(k, j) \<in> set (AList.update k0 v d) \<Longrightarrow> P j"
  using assms set_update_subset [of k0 v d] by blast

text \<open>What each successful operation but discarding leaves behind is live.\<close>

lemma rbody_live:
  assumes d: "cell_ok check_receipts d" and op: "op_time op = Some now" and r: "r \<noteq> Bound False"
    and hex: "hex_digest hex" and b: "rbody hex op d = (Inr r, w)"
    and j: "(k, j) \<in> set (case w of None \<Rightarrow> d | Some d' \<Rightarrow> d')"
  shows "now < int_field (obj_of j) ''expires_at'' 0"
proof (cases op)
  case (PruneExpired t)
  have "(case w of None \<Rightarrow> d | Some d' \<Rightarrow> d') = prune d now"
    using b PruneExpired op prune_same_length [of d now] length_prune [of d now]
    by (auto simp: map_res_def prune_expired_body_def Let_def op_time_def split: if_splits)
  with j prune_live show ?thesis by simp
next
  case (LookupBound u rid sid t)
  have "(case w of None \<Rightarrow> d | Some d' \<Rightarrow> d') = prune d now"
    using b LookupBound op
    by (auto simp: map_res_def lookup_bound_body_def Let_def op_time_def
        split: if_splits option.splits json.splits sum.splits)
  with j prune_live show ?thesis by simp
next
  case (PrepareReceipt u rid sid og ng tok uuid t)
  let ?it = "new_receipt hex u sid og ng tok uuid now"
  have "w = Some (prune d now) \<or> w = Some (AList.update (receipt_key hex u rid) (JObj ?it) (prune d now))"
    using b PrepareReceipt op
    by (auto simp: map_res_def prepare_receipt_body_def Let_def op_time_def
        split: if_splits option.splits sum.splits bool.splits)
  moreover have "now < int_field (obj_of (JObj ?it)) ''expires_at'' 0"
    by (simp add: new_receipt_def int_field_def dget_def obj_of_def RECEIPT_TTL_SECONDS_def)
  ultimately show ?thesis
    using j prune_live update_live [where d = "prune d now" and P = "\<lambda>j. now < int_field (obj_of j) ''expires_at'' 0"]
    by auto
next
  case (BindReplacement u rid sid sid' t)
  then have t: "t = now" using op by (simp add: op_time_def)
  from b BindReplacement r t obtain d' where w: "w = Some d'"
    "snd (bind_replacement_body hex u rid sid sid' now d) = Some d'"
    by (auto simp: map_res_def bind_replacement_body_def Let_def
        split: option.splits json.splits sum.splits bool.splits)
  then obtain r0 where r0: "bind_replacement_body hex u rid sid sid' now d = (r0, Some d')"
    by (cases "bind_replacement_body hex u rid sid sid' now d") simp
  from hex have len: "length (hex s) = 64" for s by (simp add: hex_digest_def)
  from d r0 len show ?thesis
  proof (cases rule: bind_body_cases)
    case 1
    with j w(1) prune_live show ?thesis by simp
  next
    case (2 it ds)
    let ?v = "JObj (AList.update ''session_digests'' (JList (map JStr ds)) it)"
    have v: "now < int_field (obj_of ?v) ''expires_at'' 0"
      using prune_live [OF map_of_SomeD [OF 2(1)]] by (simp add: obj_of_def)
    have "(k, j) \<in> set (AList.update (receipt_key hex u rid) ?v (prune d now))"
      using j w(1) 2(4) by simp
    with v prune_live show ?thesis
      by (rule_tac update_live [where d = "prune d now" and v = ?v]) assumption+
  qed
next
  case (DiscardReceipt u rid)
  with op show ?thesis by (simp add: op_time_def)
qed

text \<open>
  Expired plaintext tokens are erased: after a successful maintenance pass, lookup, preparation
  or binding at time \<open>now\<close>, the file holds no receipt that had expired by \<open>now\<close>.
\<close>

theorem expired_erased:
  assumes "hex_digest hex" and "cell_load check_receipts (seen c) = Inr d"
    and "receipt_op hex lock fails op c = (Inr r, c')" and "rop_ok op" and "rguard op c = None"
    and "op_time op = Some now" and "r \<noteq> Bound False"
  shows "\<exists>d'. cell_load check_receipts (seen c') = Inr d'
     \<and> (\<forall>(k, j) \<in> set d'. now < int_field (obj_of j) ''expires_at'' 0)"
proof -
  note live = rbody_live [OF cell_load_ok [OF assms(2)] assms(6,7,1)]
  have ok: "rop_ok op \<and> hex_digest hex" using assms(1,4) by simp
  from receipt_store.op_success [OF assms(2,3) ok assms(5) TrueI] show ?thesis
  proof (elim disjE conjE exE)
    assume b: "rbody hex op d = (Inr r, None)" and s: "seen c' = seen c"
    show ?thesis using live [OF b] assms(2) s by (intro exI [of _ d]) auto
  next
    fix d' assume b: "rbody hex op d = (Inr r, Some d')" and s: "cell_load check_receipts (seen c') = Inr d'"
    show ?thesis using live [OF b] s by (intro exI [of _ d']) auto
  qed
qed

section \<open>The properties at concrete inputs\<close>

declare RECEIPT_TTL_SECONDS_def [py_eval] RECEIPT_MAX_ENTRIES_def [py_eval] request_char_def [py_eval]
  valid_request_id_def [py_eval] digest_def [py_eval] receipt_key_def [py_eval]
  session_digest_def [py_eval] str_field_def [py_eval] digests_of_def [py_eval]
  digest_list_ok_def [py_eval] check_receipt_def [py_eval] check_receipts_def [py_eval]
  prune_def [py_eval] prune_expired_body_def [py_eval] lookup_bound_body_def [py_eval]
  new_receipt_def [py_eval] receipt_matches_def [py_eval] prepare_receipt_body_def [py_eval]
  last_four_def [py_eval] bind_replacement_body_def [py_eval] discard_receipt_body_def [py_eval]
  receipt_op_def [py_eval]

text \<open>A stand-in for the digest: reversed text, cut or padded to 64 ASCII characters.\<close>

definition demo_hex :: "string \<Rightarrow> string" where
  "demo_hex s = take 64 (filter (\<lambda>c. (of_char c :: nat) < 128) (rev s) @ replicate 64 CHR ''0'')"

lemma demo_hex_digest: "hex_digest demo_hex"
  by (auto simp: hex_digest_def demo_hex_def ascii_only_def dest!: in_set_takeD)

definition demo_rid :: string where "demo_rid = replicate 20 CHR ''r''"

definition demo_receipt :: "json dict" where
  "demo_receipt = new_receipt demo_hex ''bob'' ''cookie'' ''g0'' ''g1'' ''tok'' ''uuid'' 100"

definition demo_rkey :: string where "demo_rkey = receipt_key demo_hex ''bob'' demo_rid"

definition demo_receipts :: cell where
  "demo_receipts = quiet (Doc (raw_of_json (JObj [(demo_rkey, JObj demo_receipt)])))"

lemma demo_rid_valid: "valid_request_id demo_rid"
  by (simp add: demo_rid_def valid_request_id_def list_all_iff request_char_def py_eval)

lemma demo_receipt_prepared:
  "receipt_op demo_hex None (\<lambda>_. False)
     (PrepareReceipt ''bob'' demo_rid ''cookie'' ''g0'' ''g1'' ''tok'' ''uuid'' 100) (quiet Missing)
   = (Inr (Receipt demo_receipt), demo_receipts)"
  by (simp add: receipt_op_def demo_rid_valid)
    (simp add: demo_receipt_def demo_receipts_def demo_rkey_def demo_rid_def demo_hex_def py_eval)

lemma demo_receipts_empty: "cell_load check_receipts (seen (quiet Missing)) = Inr []"
  by (simp add: py_eval)

lemma demo_receipts_load: "cell_load check_receipts (seen demo_receipts) = Inr [(demo_rkey, JObj demo_receipt)]"
  by (simp add: demo_receipt_def demo_receipts_def demo_rkey_def demo_rid_def demo_hex_def py_eval
      raise_if_def dget_def)


lemma demo_receipt_found:
  "receipt_op demo_hex None (\<lambda>_. False) (LookupBound ''bob'' demo_rid ''cookie'' 120) demo_receipts
   = (Inr (Found (Some demo_receipt)), demo_receipts)"
  by (simp add: receipt_op_def transact_def txn_def demo_receipts_load demo_rid_valid)
    (simp add: demo_receipt_def demo_rkey_def demo_rid_def demo_hex_def py_eval dget_def)

theorem lookup_bound_only_witness:
  "120 < int_field demo_receipt ''expires_at'' 0
   \<and> session_digest demo_hex ''cookie'' \<in> set (digests_of demo_receipt)"
  using lookup_bound_only [OF demo_receipts_load demo_receipt_found] by simp

theorem receipts_bounded_witness:
  "\<exists>d. cell_load check_receipts (seen demo_receipts) = Inr d \<and> length d \<le> RECEIPT_MAX_ENTRIES"
proof -
  have "history (receipt_op demo_hex)
      [Op None (\<lambda>_. False) (PrepareReceipt ''bob'' demo_rid ''cookie'' ''g0'' ''g1'' ''tok'' ''uuid'' 100)]
      (quiet Missing) demo_receipts"
    by (rule history.operation, rule demo_receipt_prepared, rule history.nothing)
  from receipts_bounded [OF demo_hex_digest this] show ?thesis
    by (simp add: event_ok_def rop_ok_def)
qed

theorem expired_erased_witness:
  "\<exists>d'. cell_load check_receipts (seen demo_receipts) = Inr d'
     \<and> (\<forall>(k, j) \<in> set d'. 120 < int_field (obj_of j) ''expires_at'' 0)"
  by (rule expired_erased [OF demo_hex_digest demo_receipts_load demo_receipt_found])
    (simp_all add: rop_ok_def op_time_def demo_rid_valid)

end
