(* ===== verification/StaticAccess.thy ===== *)
theory StaticAccess
  imports StateStore
begin

text \<open>
  Stopping and recovering the proxies with generated credentials: \<^verbatim>\<open>hysteria/static_access.py\<close>.
  The state is the marker file of the service, as a cell with its crash behaviour, and the list of
  systemctl commands issued so far, latest last. systemctl is the parameter \<open>run\<close>: what a command
  answers may depend on everything issued before it.
\<close>

definition XRAY_SERVICE :: string where "XRAY_SERVICE = ''xray.service''"
definition TUIC_SERVICE :: string where "TUIC_SERVICE = ''tuic-server.service''"
definition SERVICES :: "string list" where "SERVICES = [XRAY_SERVICE, TUIC_SERVICE]"
definition RECOVERY_READINESS_STABILITY_PROBES :: nat where "RECOVERY_READINESS_STABILITY_PROBES = 3"

record service_action =
  act_service :: string
  act_action :: string
  act_attempted :: bool
  act_ok :: bool
  act_effect_confirmed :: bool
  act_marker_persisted :: bool
  act_code :: string
  act_retryable :: bool

definition service_key :: "string \<Rightarrow> string res" where
  "service_key service =
     (if service = XRAY_SERVICE \<or> service = ''xray'' then Inr ''xray''
      else if service = TUIC_SERVICE then Inr ''tuic''
      else Inl ValueError)"

definition marker_path :: "string \<Rightarrow> string \<Rightarrow> string res" where
  "marker_path dir service = rbind (service_key service) (\<lambda>k. Inr (dir @ ''/'' @ k @ ''.fail-closed.pending''))"

datatype command = Stop | Start | IsActive | Restart | ScheduleReload
datatype outcome = Exited int | RunFailed string

type_synonym runner = "command list \<Rightarrow> command \<Rightarrow> outcome"

record svc =
  marker :: cell
  issued :: "command list"

text \<open>The marker's content names the service, the reason and the time; only its presence is read.\<close>

definition marker_doc :: "string \<Rightarrow> string \<Rightarrow> string \<Rightarrow> jfile" where
  "marker_doc service reason_type stopped_at =
     Doc (RObj [(''service'', RStr service), (''reason_type'', RStr reason_type), (''stopped_at'', RStr stopped_at)])"

definition mark_pending :: "faults \<Rightarrow> string \<Rightarrow> string \<Rightarrow> string \<Rightarrow> svc \<Rightarrow> exc option \<times> svc" where
  "mark_pending fails service reason now s =
     (case service_key service of
        Inl e \<Rightarrow> (Some e, s)
      | Inr _ \<Rightarrow> (case save_text_atomic fails (marker_doc service reason now) (marker s) of
            (Some e, c) \<Rightarrow> (Some e, s\<lparr>marker := c\<rparr>)
          | (None, c) \<Rightarrow> if fails Chmod then (Some OSError, s\<lparr>marker := c\<rparr>) else (None, s\<lparr>marker := c\<rparr>)))"

definition issue :: "runner \<Rightarrow> command \<Rightarrow> svc \<Rightarrow> outcome \<times> svc" where
  "issue run cmd s = (run (issued s) cmd, s\<lparr>issued := issued s @ [cmd]\<rparr>)"

definition action_result :: "string \<Rightarrow> bool \<Rightarrow> bool \<Rightarrow> bool \<Rightarrow> bool \<Rightarrow> string \<Rightarrow> bool \<Rightarrow> service_action" where
  "action_result service attempted ok confirmed persisted code retryable =
     \<lparr>act_service = service, act_action = ''stop_fail_closed'', act_attempted = attempted, act_ok = ok,
      act_effect_confirmed = confirmed, act_marker_persisted = persisted, act_code = code,
      act_retryable = retryable\<rparr>"

text \<open>StateStoreError and OSError of the marker are caught; an unsupported service raises.\<close>

definition caught_by_stop :: "exc \<Rightarrow> bool" where
  "caught_by_stop e \<longleftrightarrow> e \<in> {StateUnavailable, InvalidJsonState, LockTimeout, DurabilityUncertain, CapacityError, StateStoreError,
     OSError, PermissionError}"

definition stop_fail_closed ::
  "runner \<Rightarrow> faults \<Rightarrow> string \<Rightarrow> string \<Rightarrow> string \<Rightarrow> bool \<Rightarrow> svc \<Rightarrow> service_action res \<times> svc" where
  "stop_fail_closed run fails service reason now live s =
     (if \<not> live then (Inr (action_result service False False False False ''not_live'' False), s)
      else (let (e, s1) = mark_pending fails service reason now s in
        if e \<noteq> None \<and> \<not> caught_by_stop (the e) then (Inl (the e), s1)
        else (let persisted = (e = None); (out, s2) = issue run Stop s1 in
          case out of
            RunFailed name \<Rightarrow> (Inr (action_result service True False False persisted name True), s2)
          | Exited code \<Rightarrow>
              if code \<noteq> 0 then (Inr (action_result service True False False persisted ''nonzero_exit'' True), s2)
              else (Inr (action_result service True persisted True persisted
                  (if persisted then ''stopped'' else ''stopped_marker_pending'') (\<not> persisted)), s2))))"

text \<open>Clearing the marker: unlink, then sync the directory.\<close>

definition unlink_marker :: "faults \<Rightarrow> svc \<Rightarrow> exc option \<times> svc" where
  "unlink_marker fails s = (let c = marker s in
     if fails UnlinkFile then (Some OSError, s)
     else if fails SyncDir
       then (Some OSError, s\<lparr>marker := c\<lparr>seen := Missing, after_crash := insert Missing (after_crash c)\<rparr>\<rparr>)
     else (None, s\<lparr>marker := c\<lparr>seen := Missing, after_crash := {Missing}\<rparr>\<rparr>))"

fun probe :: "runner \<Rightarrow> nat \<Rightarrow> svc \<Rightarrow> bool \<times> svc" where
  "probe run 0 s = (True, s)"
| "probe run (Suc n) s = (let (out, s1) = issue run IsActive s in
     if out = Exited 0 then probe run n s1 else (False, s1))"

definition recover_if_pending :: "runner \<Rightarrow> faults \<Rightarrow> string \<Rightarrow> bool \<Rightarrow> svc \<Rightarrow> bool res \<times> svc" where
  "recover_if_pending run fails service live s =
     (if \<not> live then (Inr False, s)
      else case service_key service of
        Inl e \<Rightarrow> (Inl e, s)
      | Inr _ \<Rightarrow>
        if seen (marker s) = Missing then (Inr False, s)
        else let (out, s1) = issue run Stop s in
          if out \<noteq> Exited 0 then (Inr False, s1)
          else let (out, s2) = issue run Start s1 in
            if out \<noteq> Exited 0 then (Inr False, s2)
            else let (ready, s3) = probe run RECOVERY_READINESS_STABILITY_PROBES s2 in
              if \<not> ready then (Inr False, s3)
              else (case unlink_marker fails s3 of
                  (Some e, s4) \<Rightarrow> (Inr False, s4)
                | (None, s4) \<Rightarrow> (Inr True, s4)))"

section \<open>What the operations do\<close>

lemma probe_spec:
  "probe run n s = (r, s') \<Longrightarrow> marker s' = marker s
     \<and> (\<exists>k \<le> n. issued s' = issued s @ replicate k IsActive \<and> (r \<longrightarrow> k = n))
     \<and> (r \<longleftrightarrow> (\<forall>j < n. run (issued s @ replicate j IsActive) IsActive = Exited 0))"
proof (induction n arbitrary: s r s')
  case 0
  then show ?case by simp
next
  case (Suc n)
  let ?s1 = "s\<lparr>issued := issued s @ [IsActive]\<rparr>"
  show ?case
  proof (cases "run (issued s) IsActive = Exited 0")
    case True
    with Suc.prems have p: "probe run n ?s1 = (r, s')" by (simp add: issue_def)
    from Suc.IH [OF p] obtain k where ih: "marker s' = marker s" "k \<le> n"
      "issued s' = issued s @ IsActive # replicate k IsActive" "r \<longrightarrow> k = n"
      "r \<longleftrightarrow> (\<forall>j < n. run (issued s @ IsActive # replicate j IsActive) IsActive = Exited 0)"
      by auto
    have all: "(\<forall>j < Suc n. run (issued s @ replicate j IsActive) IsActive = Exited 0)
        \<longleftrightarrow> (\<forall>j < n. run (issued s @ IsActive # replicate j IsActive) IsActive = Exited 0)"
      using True by (simp add: All_less_Suc2)
    show ?thesis unfolding all using ih by (intro conjI exI [of _ "Suc k"]) auto
  next
    case False
    with Suc.prems have "r = False" "s' = ?s1" by (auto simp: issue_def)
    with False show ?thesis by (intro conjI exI [of _ 1]) auto
  qed
qed

text \<open>
  Fail-closed stopping is honest about what it achieved. On a live installation the stop
  command is issued exactly once, even when the recovery marker cannot be written. The result is ok
  only when the command succeeded and the marker is on disk in every content a power loss may leave;
  when it is not ok it asks to be retried.
\<close>

theorem stop_fail_closed_contract:
  assumes "stop_fail_closed run fails service reason now True s = (Inr a, s')"
  shows "issued s' = issued s @ [Stop] \<and> act_attempted a
    \<and> (act_ok a \<longleftrightarrow> act_effect_confirmed a \<and> act_marker_persisted a)
    \<and> (act_effect_confirmed a \<longleftrightarrow> run (issued s) Stop = Exited 0)
    \<and> (act_retryable a \<longleftrightarrow> \<not> act_ok a)
    \<and> (act_marker_persisted a \<longrightarrow> seen (marker s') \<noteq> Missing \<and> Missing \<notin> after_crash (marker s'))
    \<and> (\<not> act_marker_persisted a \<and> seen (marker s) \<noteq> Missing \<longrightarrow> seen (marker s') \<noteq> Missing)"
proof -
  obtain e s1 where m: "mark_pending fails service reason now s = (e, s1)" by fastforce
  have mk: "issued s1 = issued s" "e = None \<longrightarrow> seen (marker s1) \<noteq> Missing \<and> Missing \<notin> after_crash (marker s1)"
    "seen (marker s) \<noteq> Missing \<longrightarrow> seen (marker s1) \<noteq> Missing"
    using m by (auto simp: mark_pending_def save_text_atomic_def write_atomic_def drop_temp_def marker_doc_def
        Let_def split: sum.splits if_splits)
  have s': "issued s' = issued s1 @ [Stop]" "marker s' = marker s1" "act_attempted a"
    "act_marker_persisted a \<longleftrightarrow> e = None"
    "act_effect_confirmed a \<longleftrightarrow> run (issued s1) Stop = Exited 0"
    "act_ok a \<longleftrightarrow> e = None \<and> run (issued s1) Stop = Exited 0"
    "act_retryable a \<longleftrightarrow> \<not> (e = None \<and> run (issued s1) Stop = Exited 0)"
    using assms m
    by (auto simp: stop_fail_closed_def issue_def action_result_def Let_def split: outcome.splits if_splits)
  show ?thesis using mk s' by auto
qed

definition recovery_script :: "command list" where
  "recovery_script = [Stop, Start, IsActive, IsActive, IsActive]"

definition script_step :: "runner \<Rightarrow> command list \<Rightarrow> nat \<Rightarrow> bool" where
  "script_step run past k \<longleftrightarrow> run (past @ take k recovery_script) (recovery_script ! k) = Exited 0"

lemma script_steps:
  "script_step run past 0 \<longleftrightarrow> run past Stop = Exited 0"
  "script_step run past (Suc 0) \<longleftrightarrow> run (past @ [Stop]) Start = Exited 0"
  "script_step run past (Suc (Suc 0)) \<longleftrightarrow> run (past @ [Stop, Start]) IsActive = Exited 0"
  "script_step run past (Suc (Suc (Suc 0))) \<longleftrightarrow> run (past @ [Stop, Start, IsActive]) IsActive = Exited 0"
  "script_step run past (Suc (Suc (Suc (Suc 0)))) \<longleftrightarrow>
     run (past @ [Stop, Start, IsActive, IsActive]) IsActive = Exited 0"
  by (simp_all add: script_step_def recovery_script_def)

lemma below_five_cases:
  "k < (5::nat) \<longleftrightarrow> k = 0 \<or> k = Suc 0 \<or> k = Suc (Suc 0) \<or> k = Suc (Suc (Suc 0)) \<or> k = Suc (Suc (Suc (Suc 0)))"
  by arith

lemma below_five:
  "(\<forall>k < (5::nat). P k) \<longleftrightarrow> P 0 \<and> P (Suc 0) \<and> P (Suc (Suc 0)) \<and> P (Suc (Suc (Suc 0)))
     \<and> P (Suc (Suc (Suc (Suc 0))))"
  unfolding below_five_cases by auto

text \<open>How far a recovery gets: the first command that fails, or the removal of the marker.\<close>

lemma recover_runs:
  assumes "recover_if_pending run fails service True s = (Inr ok, s')" and m: "seen (marker s) \<noteq> Missing"
  obtains k where "k < 5" "\<not> script_step run (issued s) k" "\<forall>j < k. script_step run (issued s) j" "\<not> ok"
      "issued s' = issued s @ take (Suc k) recovery_script" "marker s' = marker s"
  | "\<forall>k < 5. script_step run (issued s) k" "issued s' = issued s @ recovery_script"
      "ok \<longleftrightarrow> \<not> fails UnlinkFile \<and> \<not> fails SyncDir"
      "ok \<longrightarrow> seen (marker s') = Missing \<and> after_crash (marker s') = {Missing}"
proof -
  let ?s = "\<lambda>k. script_step run (issued s) k"
  have key: "\<exists>x. service_key service = Inr x"
    using assms by (auto simp: recover_if_pending_def split: sum.splits)
  have three: "RECOVERY_READINESS_STABILITY_PROBES = Suc (Suc (Suc 0))"
    by (simp add: RECOVERY_READINESS_STABILITY_PROBES_def)
  have at: "marker s' = marker s \<and> issued s' = issued s @ take (Suc k) recovery_script \<and> \<not> ok"
    if "k < 5" "\<not> ?s k" "\<forall>j < k. ?s j" for k
  proof -
    from that(1)[unfolded below_five_cases] show ?thesis
      using assms that(2,3) key
      by (elim disjE) (auto simp: recover_if_pending_def issue_def three Let_def script_steps
          recovery_script_def All_less_Suc2)
  qed
  show ?thesis
  proof (cases "\<forall>k < 5. ?s k")
    case True
    from assms key True [unfolded below_five] show ?thesis
      by (intro that(2) True)
        (auto simp: recover_if_pending_def issue_def three Let_def script_steps recovery_script_def
          unlink_marker_def split: if_splits)
  next
    case False
    then obtain k0 where "k0 < 5 \<and> \<not> ?s k0" by blast
    then obtain k where k: "k < 5 \<and> \<not> ?s k" "\<forall>j < k. \<not> (j < 5 \<and> \<not> ?s j)"
      using exists_least_iff [of "\<lambda>k. k < 5 \<and> \<not> ?s k"] by blast
    then have "k < 5" "\<not> ?s k" "\<forall>j < k. ?s j" by auto
    with at [OF this] that(1) show ?thesis by blast
  qed
qed

text \<open>
  Recovery restarts a service only when it carries the marker, and always with a confirmed stop
  before the start: what it issues is a prefix of stop, start and three readiness probes, broken off
  at the first command that fails. It reports success exactly when all of them succeeded and the
  marker was durably removed; if a command failed, the marker is untouched and a later run tries
  again.
\<close>

theorem recover_if_pending_contract:
  assumes "recover_if_pending run fails service True s = (Inr ok, s')"
  shows "(seen (marker s) = Missing \<longrightarrow> \<not> ok \<and> s' = s)
    \<and> (\<exists>n. issued s' = issued s @ take n recovery_script
        \<and> (\<forall>k. Suc k < n \<longrightarrow> k < 5 \<longrightarrow> script_step run (issued s) k))
    \<and> (ok \<longrightarrow> issued s' = issued s @ recovery_script \<and> (\<forall>k < 5. script_step run (issued s) k)
        \<and> seen (marker s') = Missing \<and> after_crash (marker s') = {Missing})
    \<and> ((\<exists>k < 5. \<not> script_step run (issued s) k) \<longrightarrow> \<not> ok \<and> marker s' = marker s)"
proof (cases "seen (marker s) = Missing")
  case True
  with assms have "\<not> ok" "s' = s" by (auto simp: recover_if_pending_def split: sum.splits)
  then show ?thesis by (auto intro!: exI [of _ 0])
next
  case False
  with assms show ?thesis
  proof (cases rule: recover_runs)
    case (1 k)
    then show ?thesis using False by (auto intro!: exI [of _ "Suc k"])
  next
    case 2
    have "issued s' = issued s @ take 5 recovery_script"
      using 2(2) by (simp add: recovery_script_def)
    then show ?thesis using False 2 by (auto intro!: exI [of _ 5])
  qed
qed

section \<open>The contracts at concrete inputs\<close>

text \<open>The first command succeeds, and so do the two of the restart; the first readiness probe fails.\<close>

definition demo_run :: runner where
  "demo_run past cmd = (if cmd = IsActive \<and> length past = 3 then Exited 3 else Exited 0)"

definition demo_fresh :: svc where
  "demo_fresh = \<lparr>marker = quiet Missing, issued = []\<rparr>"

definition demo_stopped :: svc where
  "demo_stopped = \<lparr>marker = quiet (marker_doc XRAY_SERVICE ''LockTimeout'' ''t0''), issued = [Stop]\<rparr>"

lemma demo_stop:
  "stop_fail_closed demo_run (\<lambda>_. False) XRAY_SERVICE ''LockTimeout'' ''t0'' True demo_fresh
   = (Inr (action_result XRAY_SERVICE True True True True ''stopped'' False), demo_stopped)"
  by (simp add: stop_fail_closed_def mark_pending_def service_key_def save_text_atomic_def write_atomic_def
      issue_def demo_fresh_def demo_stopped_def quiet_def demo_run_def Let_def)

theorem stop_fail_closed_contract_witness:
  "issued demo_stopped = [Stop] \<and> Missing \<notin> after_crash (marker demo_stopped)"
  using stop_fail_closed_contract [OF demo_stop]
  by (simp add: action_result_def demo_fresh_def)

lemma demo_recover:
  "recover_if_pending demo_run (\<lambda>_. False) XRAY_SERVICE True demo_stopped
   = (Inr False, demo_stopped\<lparr>issued := [Stop, Stop, Start, IsActive]\<rparr>)"
  by (simp add: recover_if_pending_def service_key_def issue_def demo_stopped_def quiet_def marker_doc_def
      demo_run_def RECOVERY_READINESS_STABILITY_PROBES_def numeral_eq_Suc)

theorem recover_if_pending_contract_witness:
  "marker (demo_stopped\<lparr>issued := [Stop, Stop, Start, IsActive]\<rparr>) = marker demo_stopped"
proof -
  have "\<not> script_step demo_run (issued demo_stopped) (Suc (Suc 0))"
    by (simp add: script_steps demo_run_def demo_stopped_def)
  then have "\<exists>k < 5. \<not> script_step demo_run (issued demo_stopped) k"
    by (intro exI [of _ "Suc (Suc 0)"]) simp
  with recover_if_pending_contract [OF demo_recover] show ?thesis by blast
qed

end
