(* ===== verification/Display.thy ===== *)
theory Display
  imports StateStore
begin

text \<open>
  The billing multiplier: \<^verbatim>\<open>hysteria/display.py\<close>. The strict readers decide what quotas are billed
  with, the lenient ones what pages show; the environment variable, the state file and the deployed
  default are inputs. \<open>float_literal\<close> is \<^verbatim>\<open>float(s)\<close> on a string.
\<close>

section \<open>Parsing floats\<close>

definition lower_char :: "char \<Rightarrow> char" where
  "lower_char c = (case map_of (zip ''ABCDEFGHIJKLMNOPQRSTUVWXYZ'' ''abcdefghijklmnopqrstuvwxyz'') c of
      Some l \<Rightarrow> l | None \<Rightarrow> c)"

fun split_at_char :: "char list \<Rightarrow> string \<Rightarrow> string \<times> string option" where
  "split_at_char seps [] = ([], None)"
| "split_at_char seps (c # cs) =
     (if c \<in> set seps then ([], Some cs)
      else (let (a, b) = split_at_char seps cs in (c # a, b)))"

text \<open>An optional run of digits with single underscores between them.\<close>

definition digit_part :: "string \<Rightarrow> string option" where
  "digit_part s = (if s = [] then Some [] else scan_digits 10 False s)"

definition exponent_value :: "string option \<Rightarrow> int option" where
  "exponent_value e = (case e of
      None \<Rightarrow> Some 0
    | Some s \<Rightarrow> (let (neg, ds) = split_sign s in
        case scan_digits 10 False ds of
          None \<Rightarrow> None
        | Some d \<Rightarrow> Some (if neg then - int (digits_val 10 d) else int (digits_val 10 d))))"

definition decimal_literal :: "string \<Rightarrow> rat option" where
  "decimal_literal s =
     (let (mant, e) = split_at_char ''eE'' s; (i, f) = split_at_char ''.'' mant
      in case (digit_part i, digit_part (case f of None \<Rightarrow> [] | Some x \<Rightarrow> x), exponent_value e) of
          (Some a, Some b, Some x) \<Rightarrow>
            if a @ b = [] then None
            else Some (of_nat (digits_val 10 (a @ b)) * 10 powi (x - int (length b)))
        | _ \<Rightarrow> None)"

definition float_literal :: "string \<Rightarrow> pyfloat option" where
  "float_literal s =
     (let (neg, body) = split_sign (py_strip s); low = map lower_char body in
      if low = ''inf'' \<or> low = ''infinity'' then Some (if neg then NInf else PInf)
      else if low = ''nan'' then Some NaN
      else case decimal_literal body of
          None \<Rightarrow> None
        | Some x \<Rightarrow> Some (double_of (if neg then - x else x)))"

text \<open>
  \<^verbatim>\<open>float(str(raw).strip())\<close>. The text of a float reads back as that float, the text of an int is
  its decimal notation (a ValueError beyond 4300 digits), and no other constant is a float literal.
\<close>

definition float_of_text :: "json \<Rightarrow> pyfloat option" where
  "float_of_text raw = (case raw of
      JStr s \<Rightarrow> float_literal s
    | JInt n \<Rightarrow> if 10 ^ 4300 \<le> \<bar>n\<bar> then None else Some (double_of (of_int n))
    | JFloat x \<Rightarrow> Some x
    | _ \<Rightarrow> None)"

section \<open>The multiplier\<close>

definition DEFAULT_DISPLAY_MULTIPLIER :: rat where "DEFAULT_DISPLAY_MULTIPLIER = fl (228 / 100)"
definition DISPLAY_MULTIPLIER_MIN :: rat where "DISPLAY_MULTIPLIER_MIN = fl (1 / 10)"
definition DISPLAY_MULTIPLIER_MAX :: rat where "DISPLAY_MULTIPLIER_MAX = 20"

definition in_range :: "pyfloat option \<Rightarrow> rat option" where
  "in_range v = (case v of
      Some (Fin x) \<Rightarrow> if x < DISPLAY_MULTIPLIER_MIN \<or> DISPLAY_MULTIPLIER_MAX < x then None else Some x
    | _ \<Rightarrow> None)"

definition parse_display_multiplier :: "json \<Rightarrow> rat \<Rightarrow> rat" where
  "parse_display_multiplier raw dflt = (case in_range (float_of_text raw) of None \<Rightarrow> dflt | Some x \<Rightarrow> x)"

definition parse_optional_display_multiplier :: "json \<Rightarrow> rat option" where
  "parse_optional_display_multiplier raw = in_range (float_of_text raw)"

text \<open>The deployed default: the installer replaces the placeholder by the configured text.\<close>

definition DEPLOYED_DISPLAY_MULTIPLIER :: "string \<Rightarrow> rat" where
  "DEPLOYED_DISPLAY_MULTIPLIER placeholder = parse_display_multiplier (JStr placeholder) DEFAULT_DISPLAY_MULTIPLIER"

definition runtime_display_multiplier :: "jfile \<Rightarrow> rat option" where
  "runtime_display_multiplier f = (case f of
      Doc r \<Rightarrow> (case json_of_raw r of
          JObj d \<Rightarrow> if \<not> truthy (dget d ''enabled'' (JBool True)) then None
                    else parse_optional_display_multiplier (dget d ''multiplier'' JNull)
        | _ \<Rightarrow> None)
    | _ \<Rightarrow> None)"

definition runtime_display_multiplier_strict :: "jfile \<Rightarrow> rat option res" where
  "runtime_display_multiplier_strict f = (case f of
      Missing \<Rightarrow> Inr None
    | Unreadable \<Rightarrow> Inl ValueError
    | NotJson \<Rightarrow> Inl ValueError
    | Doc r \<Rightarrow> (case json_of_raw r of
          JObj d \<Rightarrow> (case dget d ''enabled'' (JBool True) of
              JBool enabled \<Rightarrow>
                if \<not> enabled then Inr None
                else (case parse_optional_display_multiplier (dget d ''multiplier'' JNull) of
                    None \<Rightarrow> Inl ValueError
                  | Some v \<Rightarrow> Inr (Some v))
            | _ \<Rightarrow> Inl ValueError)
        | _ \<Rightarrow> Inl ValueError))"

definition effective_display_multiplier_strict :: "string option \<Rightarrow> rat \<Rightarrow> jfile \<Rightarrow> rat res" where
  "effective_display_multiplier_strict env dflt f =
     (case env of
        Some (c # cs) \<Rightarrow> (case parse_optional_display_multiplier (JStr (c # cs)) of
            None \<Rightarrow> Inl ValueError | Some v \<Rightarrow> Inr v)
      | _ \<Rightarrow> rbind (runtime_display_multiplier_strict f) (\<lambda>v.
          Inr (case v of None \<Rightarrow> dflt | Some x \<Rightarrow> x)))"

definition load_display_multiplier :: "string option \<Rightarrow> rat \<Rightarrow> jfile \<Rightarrow> rat" where
  "load_display_multiplier env dflt f =
     (case env of
        Some (c # cs) \<Rightarrow> parse_display_multiplier (JStr (c # cs)) dflt
      | _ \<Rightarrow> (case runtime_display_multiplier f of Some v \<Rightarrow> v | None \<Rightarrow> dflt))"

section \<open>Rendering bytes\<close>

fun fmt_scale :: "nat \<Rightarrow> rat \<Rightarrow> nat \<Rightarrow> rat \<times> nat" where
  "fmt_scale 0 n idx = (n, idx)"
| "fmt_scale (Suc left) n idx = (if 1024 \<le> n then fmt_scale left (n / 1024) (Suc idx) else (n, idx))"

definition fixed_two :: "rat \<Rightarrow> string" where
  "fixed_two n = (let h = nat (round_half_even (n * 100)) in
     str_nat (h div 100) @ ''.'' @ pad_zero 2 (str_nat (h mod 100)))"

definition fmt_bytes :: "int \<Rightarrow> string" where
  "fmt_bytes num =
     (let units = [''B'', ''KB'', ''MB'', ''GB'', ''TB''];
          (n, idx) = fmt_scale (length units - 1) (fl (of_int (max 0 num))) 0
      in fixed_two n @ '' '' @ units ! idx)"

section \<open>Properties\<close>

definition multiplier_ok :: "rat \<Rightarrow> bool" where
  "multiplier_ok m \<longleftrightarrow> DISPLAY_MULTIPLIER_MIN \<le> m \<and> m \<le> DISPLAY_MULTIPLIER_MAX"

lemma in_range_ok: "in_range v = Some x \<Longrightarrow> multiplier_ok x"
  by (auto simp: in_range_def multiplier_ok_def split: option.splits pyfloat.splits if_splits)

lemma multiplier_min_bounds: "0 < DISPLAY_MULTIPLIER_MIN \<and> DISPLAY_MULTIPLIER_MIN < 1"
  using fl_error [of "1 / 10"] unfolding abs_le_iff DISPLAY_MULTIPLIER_MIN_def by simp

lemma multiplier_ok_pos: "multiplier_ok m \<Longrightarrow> 0 < m"
proof -
  have "0 < DISPLAY_MULTIPLIER_MIN" using multiplier_min_bounds by simp
  then show "multiplier_ok m \<Longrightarrow> 0 < m" by (simp add: multiplier_ok_def)
qed

text \<open>
  What is billed is what is shown. Whenever the strict reader accepts the environment and the
  state file, the multiplier it returns lies in the permitted range and the lenient reader used for
  display returns the same one; and once the state file exists it never falls back to the default
  unless the file says in so many words that it is disabled.
\<close>

theorem display_multiplier_agree:
  assumes "effective_display_multiplier_strict env dflt f = Inr m" and "multiplier_ok dflt"
  shows "multiplier_ok m \<and> load_display_multiplier env dflt f = m
    \<and> (env = None \<and> f \<noteq> Missing \<longrightarrow> (\<exists>r d. f = Doc r \<and> json_of_raw r = JObj d
        \<and> (dget d ''enabled'' (JBool True) = JBool False
           \<or> parse_optional_display_multiplier (dget d ''multiplier'' JNull) = Some m)))"
proof -
  have on_file: "(v = None \<or> (\<exists>x. v = Some x \<and> multiplier_ok x)) \<and> runtime_display_multiplier f = v
    \<and> (f \<noteq> Missing \<longrightarrow> (\<exists>r d. f = Doc r \<and> json_of_raw r = JObj d
        \<and> (dget d ''enabled'' (JBool True) = JBool False
           \<or> (\<exists>x. v = Some x \<and> parse_optional_display_multiplier (dget d ''multiplier'' JNull) = Some x))))"
    if "runtime_display_multiplier_strict f = Inr v" for v
    using that in_range_ok
    by (auto simp: runtime_display_multiplier_strict_def runtime_display_multiplier_def
        parse_optional_display_multiplier_def split: jfile.splits json.splits option.splits if_splits)
  show ?thesis
  proof (cases "env = None \<or> env = Some []")
    case True
    with assms(1) obtain v where "runtime_display_multiplier_strict f = Inr v"
      "m = (case v of None \<Rightarrow> dflt | Some x \<Rightarrow> x)"
      by (auto simp: effective_display_multiplier_strict_def rbind_eq_Inr)
    with on_file [of v] assms(2) True show ?thesis
      by (auto simp: load_display_multiplier_def)
  next
    case False
    then obtain c cs where "env = Some (c # cs)" by (cases env) (auto simp: neq_Nil_conv)
    with assms(1) in_range_ok show ?thesis
      by (auto simp: effective_display_multiplier_strict_def load_display_multiplier_def
          parse_display_multiplier_def parse_optional_display_multiplier_def split: option.splits)
  qed
qed

declare lower_char_def [py_eval] digit_part_def [py_eval] exponent_value_def [py_eval]
  decimal_literal_def [py_eval] float_literal_def [py_eval] float_of_text_def [py_eval]
  in_range_def [py_eval] parse_display_multiplier_def [py_eval]
  parse_optional_display_multiplier_def [py_eval] DISPLAY_MULTIPLIER_MAX_def [py_eval]

theorem display_multiplier_agree_witness:
  "multiplier_ok 2 \<and> load_display_multiplier None 1
     (Doc (RObj [(''enabled'', RBool True), (''multiplier'', RFloat (Fin 2))])) = 2"
proof -
  have "DISPLAY_MULTIPLIER_MIN < 1" using multiplier_min_bounds by simp
  then have "effective_display_multiplier_strict None 1
      (Doc (RObj [(''enabled'', RBool True), (''multiplier'', RFloat (Fin 2))])) = Inr 2" and "multiplier_ok 1"
    by (simp_all add: effective_display_multiplier_strict_def runtime_display_multiplier_strict_def
        py_eval dget_def multiplier_ok_def)
  from display_multiplier_agree [OF this] show ?thesis by simp
qed

end
