(* ===== verification/JsonText.thy ===== *)
theory JsonText
  imports Json
begin

text \<open>
  \<^verbatim>\<open>json.dumps(v, ensure_ascii=True, separators=(",", ":"), allow_nan=False)\<close>, with or without
  \<^verbatim>\<open>sort_keys\<close>: the canonical text that digests and size limits are taken of.
\<close>

section \<open>Floats\<close>

text \<open>\<^verbatim>\<open>repr(x)\<close> of a positive double: the shortest digits that read back, then their layout.\<close>

definition repr_digits :: "rat \<Rightarrow> nat" where
  "repr_digits x = (case find (\<lambda>n. fl (round_sig 10 n x) = x) [1..<18] of None \<Rightarrow> 17 | Some n \<Rightarrow> n)"

definition lay_out :: "string \<Rightarrow> int \<Rightarrow> string" where
  "lay_out ds e = (let n = int (length ds) in
     if 0 \<le> e \<and> e < 16
     then (if n \<le> e + 1 then ds @ replicate (nat (e + 1 - n)) CHR ''0'' @ ''.0''
           else take (nat (e + 1)) ds @ ''.'' @ drop (nat (e + 1)) ds)
     else if - 4 \<le> e \<and> e < 0 then ''0.'' @ replicate (nat (- e - 1)) CHR ''0'' @ ds
     else take 1 ds @ (if 1 < n then ''.'' @ drop 1 ds else []) @ ''e''
        @ (if e < 0 then ''-'' else ''+'') @ pad_zero 2 (str_nat (nat \<bar>e\<bar>)))"

definition float_text :: "rat \<Rightarrow> string" where
  "float_text x = (let a = \<bar>x\<bar>; n = repr_digits a; r = round_sig 10 n a; e = expo 10 r;
       ds = str_nat (nat \<lfloor>r * 10 powi (int n - 1 - e)\<rfloor>)
     in (if x < 0 then ''-'' else []) @ (if x = 0 then ''0.0'' else lay_out ds e))"

section \<open>Strings\<close>

definition hex_digit :: "nat \<Rightarrow> char" where
  "hex_digit n = ''0123456789abcdef'' ! n"

definition escape_char :: "char \<Rightarrow> string" where
  "escape_char c = (let n = of_char c :: nat in
     if c = CHR 0x22 then [CHR 0x5C, CHR 0x22]
     else if c = CHR 0x5C then [CHR 0x5C, CHR 0x5C]
     else if n = 10 then [CHR 0x5C, CHR ''n'']
     else if n = 13 then [CHR 0x5C, CHR ''r'']
     else if n = 9 then [CHR 0x5C, CHR ''t'']
     else if n = 12 then [CHR 0x5C, CHR ''f'']
     else if n = 8 then [CHR 0x5C, CHR ''b'']
     else if 32 \<le> n \<and> n \<le> 126 then [c]
     else CHR 0x5C # CHR ''u'' # CHR ''0'' # CHR ''0'' # [hex_digit (n div 16), hex_digit (n mod 16)])"

definition quoted :: "string \<Rightarrow> string" where
  "quoted s = CHR 0x22 # concat (map escape_char s) @ [CHR 0x22]"

section \<open>Values\<close>

fun joined :: "string list \<Rightarrow> string" where
  "joined [] = []"
| "joined [x] = x"
| "joined (x # y # rest) = x @ '','' @ joined (y # rest)"

fun json_text :: "bool \<Rightarrow> json \<Rightarrow> string" where
  "json_text sorted_keys JNull = ''null''"
| "json_text sorted_keys (JBool b) = (if b then ''true'' else ''false'')"
| "json_text sorted_keys (JInt i) = str_int i"
| "json_text sorted_keys (JFloat (Fin x)) = float_text x"
| "json_text sorted_keys (JFloat PInf) = ''Infinity''"
| "json_text sorted_keys (JFloat NInf) = ''-Infinity''"
| "json_text sorted_keys (JFloat NaN) = ''NaN''"
| "json_text sorted_keys (JStr s) = quoted s"
| "json_text sorted_keys (JList xs) = ''['' @ joined (map (json_text sorted_keys) xs) @ '']''"
| "json_text sorted_keys (JObj d) =
     (let rows = map (\<lambda>(k, v). (k, json_text sorted_keys v)) d;
          rows' = (if sorted_keys then sort_key fst rows else rows)
      in ''{'' @ joined (map (\<lambda>(k, t). quoted k @ '':'' @ t) rows') @ ''}'')"

fun all_finite :: "json \<Rightarrow> bool" where
  "all_finite (JFloat x) = is_finite x"
| "all_finite (JList xs) = (\<forall>x \<in> set xs. all_finite x)"
| "all_finite (JObj d) = (\<forall>kv \<in> set d. all_finite (snd kv))"
| "all_finite _ = True"

definition dumps :: "bool \<Rightarrow> json \<Rightarrow> string res" where
  "dumps sorted_keys v = (if all_finite v then Inr (json_text sorted_keys v) else Inl ValueError)"

text \<open>A number as a double: \<^verbatim>\<open>math.isfinite\<close> of an int beyond the doubles raises.\<close>

definition checked_number :: "json \<Rightarrow> rat option res" where
  "checked_number j = (case j of
      JInt i \<Rightarrow> if is_finite (double_of (of_int i)) then Inr (Some (of_int i)) else Inl OverflowError
    | JFloat (Fin r) \<Rightarrow> Inr (Some r)
    | _ \<Rightarrow> Inr None)"

declare repr_digits_def [py_eval] lay_out_def [py_eval] float_text_def [py_eval] hex_digit_def [py_eval]
  escape_char_def [py_eval] quoted_def [py_eval] dumps_def [py_eval] checked_number_def [py_eval]
  double_of_def [py_eval] is_finite_def [py_eval]

end
