(* ===== verification/OnlineSnapshot.thy ===== *)
theory OnlineSnapshot
  imports JsonText RevocationQueue
begin

text \<open>
  The online snapshot that authorization falls back to when the live API does not answer:
  \<^verbatim>\<open>hysteria/online_snapshot.py\<close>. \<open>hex\<close> is SHA-256 of a text, in hexadecimal. Times are the
  doubles \<^verbatim>\<open>time.time()\<close> returns; a subtraction is rounded as a double is.
\<close>

definition SCHEMA_VERSION :: int where "SCHEMA_VERSION = 1"

definition metadata_path :: "string \<Rightarrow> string \<Rightarrow> string" where
  "metadata_path stem suffix = stem @ ''.meta'' @ suffix"

definition snapshot_sha256 :: "(string \<Rightarrow> string) \<Rightarrow> json \<Rightarrow> string res" where
  "snapshot_sha256 hex snapshot =
     (if \<not> is_obj snapshot then Inl InvalidOnlineSnapshot
      else case dumps True snapshot of
          Inl e \<Rightarrow> Inl InvalidOnlineSnapshot
        | Inr payload \<Rightarrow> Inr (hex payload))"

definition build_metadata :: "(string \<Rightarrow> string) \<Rightarrow> json \<Rightarrow> pyfloat \<Rightarrow> json dict res" where
  "build_metadata hex snapshot observed_at =
     (case observed_at of
        Fin t \<Rightarrow>
          if t < 0 then Inl InvalidOnlineSnapshot
          else rbind (snapshot_sha256 hex snapshot) (\<lambda>d. Inr
            [(''schema_version'', JInt SCHEMA_VERSION), (''captured_at_unix'', JFloat (Fin t)),
             (''snapshot_sha256'', JStr d)])
      | _ \<Rightarrow> Inl InvalidOnlineSnapshot)"

definition metadata_keys :: "string list" where
  "metadata_keys = [''schema_version'', ''captured_at_unix'', ''snapshot_sha256'']"

definition validate_fresh_snapshot ::
  "(string \<Rightarrow> string) \<Rightarrow> json \<Rightarrow> json \<Rightarrow> pyfloat \<Rightarrow> pyfloat \<Rightarrow> json res" where
  "validate_fresh_snapshot hex snapshot metadata current ttl_seconds =
     (case current of
        Fin now \<Rightarrow> if now < 0 then Inl InvalidOnlineSnapshot else
        (case ttl_seconds of
          Fin ttl \<Rightarrow> if ttl \<le> 0 then Inl InvalidOnlineSnapshot else
          (case metadata of
            JObj m \<Rightarrow>
              if set (dkeys m) \<noteq> set metadata_keys then Inl InvalidOnlineSnapshot
              else if \<not> eq_int (dget m ''schema_version'' JNull) SCHEMA_VERSION then Inl InvalidOnlineSnapshot
              else rbind (checked_number (dget m ''captured_at_unix'' JNull)) (\<lambda>captured.
                case captured of
                  None \<Rightarrow> Inl InvalidOnlineSnapshot
                | Some t \<Rightarrow>
                    if t < 0 \<or> now < t \<or> ttl < fl (now - fl t) then Inl InvalidOnlineSnapshot
                    else (case dget m ''snapshot_sha256'' JNull of
                        JStr expected \<Rightarrow>
                          if length expected \<noteq> 64 then Inl InvalidOnlineSnapshot
                          else rbind (snapshot_sha256 hex snapshot) (\<lambda>d.
                            rbind (compare_digest d expected) (\<lambda>same.
                              if same then Inr snapshot else Inl InvalidOnlineSnapshot))
                      | _ \<Rightarrow> Inl InvalidOnlineSnapshot))
          | _ \<Rightarrow> Inl InvalidOnlineSnapshot)
        | _ \<Rightarrow> Inl InvalidOnlineSnapshot)
      | _ \<Rightarrow> Inl InvalidOnlineSnapshot)"

section \<open>Properties\<close>

text \<open>
  A snapshot is trusted only when it is bound and fresh: what validation returns is the given
  snapshot, its digest is the one in the metadata, and it was captured no later than now and, in
  the arithmetic of doubles, no longer ago than the time to live.
\<close>

theorem validated_snapshot_fresh:
  assumes "validate_fresh_snapshot hex snapshot metadata (Fin now) (Fin ttl) = Inr result"
  shows "result = snapshot \<and> is_obj snapshot \<and> (\<exists>m t d. metadata = JObj m
     \<and> snapshot_sha256 hex snapshot = Inr d \<and> dget m ''snapshot_sha256'' JNull = JStr d
     \<and> finite_number (dget m ''captured_at_unix'' JNull) = Some t
     \<and> 0 \<le> t \<and> t \<le> now \<and> fl (now - fl t) \<le> ttl)"
proof -
  from assms obtain m t d where m: "metadata = JObj m"
    and c: "checked_number (dget m ''captured_at_unix'' JNull) = Inr (Some t)"
    and t: "0 \<le> t" "t \<le> now" "fl (now - fl t) \<le> ttl"
    and d: "snapshot_sha256 hex snapshot = Inr d" "dget m ''snapshot_sha256'' JNull = JStr d"
    and r: "result = snapshot"
    by (auto simp: validate_fresh_snapshot_def rbind_eq_Inr compare_digest_def not_le
        split: if_splits json.splits option.splits)
  have "finite_number (dget m ''captured_at_unix'' JNull) = Some t"
    using c by (auto simp: checked_number_def finite_number_def split: json.splits pyfloat.splits if_splits)
  moreover have "is_obj snapshot" using d(1) by (auto simp: snapshot_sha256_def split: if_splits)
  ultimately show ?thesis using m t d r by blast
qed

text \<open>
  The metadata the monitor builds is accepted: a snapshot captured at \<open>t\<close> validates against its
  own metadata at any later time that is within the time to live.
\<close>

theorem metadata_roundtrip:
  assumes "hex_digest hex" and "build_metadata hex snapshot (Fin t) = Inr m"
    and "fl t = t" and "t \<le> now" and "0 < ttl" and "fl (now - t) \<le> ttl"
  shows "validate_fresh_snapshot hex snapshot (JObj m) (Fin now) (Fin ttl) = Inr snapshot"
proof -
  from assms(2) obtain d where t: "0 \<le> t" and d: "snapshot_sha256 hex snapshot = Inr d"
    and m: "m = [(''schema_version'', JInt SCHEMA_VERSION), (''captured_at_unix'', JFloat (Fin t)),
             (''snapshot_sha256'', JStr d)]"
    by (auto simp: build_metadata_def rbind_eq_Inr split: if_splits)
  have "length d = 64" "ascii_only d"
    using d assms(1) by (auto simp: snapshot_sha256_def hex_digest_def split: if_splits sum.splits)
  with t d assms(3-6) show ?thesis
    by (simp add: m validate_fresh_snapshot_def metadata_keys_def dkeys_def dget_def SCHEMA_VERSION_def
        checked_number_def compare_digest_def)
qed

section \<open>The properties at concrete inputs\<close>

text \<open>A stand-in for the digest: reversed text, cut or padded to 64 ASCII characters.\<close>

definition demo_digest :: "string \<Rightarrow> string" where
  "demo_digest s = take 64 (filter (\<lambda>c. (of_char c :: nat) < 128) (rev s) @ replicate 64 CHR ''0'')"

lemma demo_digest_hex: "hex_digest demo_digest"
  by (auto simp: hex_digest_def demo_digest_def ascii_only_def dest!: in_set_takeD)

definition demo_metadata :: "json dict" where
  "demo_metadata = [(''schema_version'', JInt 1), (''captured_at_unix'', JFloat (Fin 100)),
     (''snapshot_sha256'', JStr (demo_digest (json_text True (JObj [(''bob'', JInt 2)]))))]"

lemma demo_metadata_built:
  "build_metadata demo_digest (JObj [(''bob'', JInt 2)]) (Fin 100) = Inr demo_metadata"
  by (simp add: build_metadata_def snapshot_sha256_def dumps_def is_obj_def demo_metadata_def SCHEMA_VERSION_def)

theorem metadata_roundtrip_witness:
  "validate_fresh_snapshot demo_digest (JObj [(''bob'', JInt 2)]) (JObj demo_metadata) (Fin 115) (Fin 20)
   = Inr (JObj [(''bob'', JInt 2)])"
  by (rule metadata_roundtrip [OF demo_digest_hex demo_metadata_built]) (simp_all add: fl_numeral)

lemma demo_validated:
  "validate_fresh_snapshot demo_digest (JObj [(''bob'', JInt 2)]) (JObj demo_metadata) (Fin 115) (Fin 20)
   = Inr (JObj [(''bob'', JInt 2)])"
proof -
  have "length (demo_digest s) = 64" "ascii_only (demo_digest s)" for s
    using demo_digest_hex by (simp_all add: hex_digest_def)
  then show ?thesis
    by (simp add: validate_fresh_snapshot_def demo_metadata_def metadata_keys_def dkeys_def dget_def
        SCHEMA_VERSION_def checked_number_def compare_digest_def snapshot_sha256_def dumps_def is_obj_def
        fl_numeral)
qed

theorem validated_snapshot_fresh_witness: "is_obj (JObj [(''bob'', JInt 2)])"
  using validated_snapshot_fresh [OF demo_validated] by blast

end
