(* ===== verification/DeviceAdmission.thy ===== *)
theory DeviceAdmission
  imports JsonText StateStore
begin

text \<open>
  The ledger of device admissions: \<^verbatim>\<open>reserve_device_admission\<close> and its loader and writer in
  \<^verbatim>\<open>hysteria/auth_backend.py\<close>. Times are doubles. The size of the file is taken to be that of the
  compact text the program writes. A reservation is a guard on the request, a body on the loaded
  ledger, and the release of the lock, which may fail after the ledger has been saved.
\<close>

section \<open>Constants and records\<close>

definition DEVICE_ADMISSION_TTL_SECONDS :: rat where "DEVICE_ADMISSION_TTL_SECONDS = 20"
definition DEVICE_ADMISSION_MAX_BYTES :: nat where "DEVICE_ADMISSION_MAX_BYTES = 2 ^ 20"

record admission =
  observed :: "int option"
  pending :: "rat list"

type_synonym ledger = "(string \<times> admission) list"

abbreviation auth_integer :: "json \<Rightarrow> int res" where
  "auth_integer \<equiv> non_negative_integer StateUnavailable StateUnavailable"

section \<open>Loading\<close>

definition stamp_of :: "json \<Rightarrow> rat res" where
  "stamp_of v = rbind (checked_number v) (\<lambda>x. case x of
      None \<Rightarrow> Inl StateUnavailable
    | Some t \<Rightarrow> if t < 0 then Inl StateUnavailable else Inr (fl t))"

definition parse_admission :: "json \<Rightarrow> admission res" where
  "parse_admission rec = (case rec of
     JList ts \<Rightarrow> rbind (collect stamp_of ts) (\<lambda>clean. Inr \<lparr>observed = None, pending = clean\<rparr>)
   | JObj r \<Rightarrow>
       if set (dkeys r) \<noteq> {''observed'', ''pending''} then Inl StateUnavailable
       else rbind (auth_integer (dget r ''observed'' JNull)) (\<lambda>n.
         case dget r ''pending'' JNull of
           JList ts \<Rightarrow> rbind (collect stamp_of ts) (\<lambda>clean. Inr \<lparr>observed = Some n, pending = clean\<rparr>)
         | _ \<Rightarrow> Inl StateUnavailable)
   | _ \<Rightarrow> Inl StateUnavailable)"

definition admission_of :: "string \<times> json \<Rightarrow> (string \<times> admission) res" where
  "admission_of kv = (if fst kv = [] then Inl StateUnavailable
     else rbind (parse_admission (snd kv)) (\<lambda>r. Inr (fst kv, r)))"

definition load_admissions :: "json dict \<Rightarrow> ledger res" where
  "load_admissions data = collect admission_of data"

definition ledger_text :: "json dict \<Rightarrow> string" where
  "ledger_text d = json_text False (JObj d) @ [CHR 0x0A]"

text \<open>What \<^verbatim>\<open>_load_device_admissions\<close> accepts, its size limit included.\<close>

definition check_ledger :: "json dict \<Rightarrow> unit res" where
  "check_ledger d = rbind (raise_if (DEVICE_ADMISSION_MAX_BYTES < length (ledger_text d)) StateUnavailable)
     (\<lambda>_. rbind (load_admissions d) (\<lambda>_. Inr ()))"

section \<open>Saving\<close>

definition admission_json :: "admission \<Rightarrow> json" where
  "admission_json r = JObj
     [(''observed'', case observed r of None \<Rightarrow> JNull | Some n \<Rightarrow> JInt n),
      (''pending'', JList (map (\<lambda>t. JFloat (Fin t)) (pending r)))]"

definition ledger_json :: "ledger \<Rightarrow> json dict" where
  "ledger_json a = map (\<lambda>(u, r). (u, admission_json r)) a"

text \<open>
  The size check, then a private temporary file that replaces the ledger; every OSError is a
  StateUnavailable.
\<close>

definition save_device_admissions :: "faults \<Rightarrow> json dict \<Rightarrow> cell \<Rightarrow> exc option \<times> cell" where
  "save_device_admissions fails d c =
     (if DEVICE_ADMISSION_MAX_BYTES < length (ledger_text d) then (Some StateUnavailable, c)
      else case write_atomic (\<lambda>s. fails s \<or> s = WriteTemp \<and> fails Chmod) (Doc (raw_of_json (JObj d))) c of
          (None, c') \<Rightarrow> (None, c')
        | (Some e, c') \<Rightarrow> (Some StateUnavailable, c'))"

section \<open>Reserving\<close>

definition live_admissions :: "rat \<Rightarrow> ledger \<Rightarrow> ledger" where
  "live_admissions cutoff a = filter (\<lambda>(u, r). pending r \<noteq> [])
     (map (\<lambda>(u, r). (u, r\<lparr>pending := filter (\<lambda>t. cutoff < t) (pending r)\<rparr>)) a)"

definition reserve_ledger :: "string \<Rightarrow> int \<Rightarrow> int \<Rightarrow> rat \<Rightarrow> ledger \<Rightarrow> bool \<times> ledger option" where
  "reserve_ledger user maximum seen_online current admissions =
     (let cutoff = fl (fl current - DEVICE_ADMISSION_TTL_SECONDS);
          pruned = live_admissions cutoff admissions;
          changed = (pruned \<noteq> admissions);
          rec = (case map_of pruned user of
                   Some r \<Rightarrow> r | None \<Rightarrow> \<lparr>observed = Some seen_online, pending = []\<rparr>);
          previous = (case observed rec of None \<Rightarrow> seen_online | Some n \<Rightarrow> n);
          reflected = max 0 (seen_online - previous);
          waiting = drop (min (nat reflected) (length (pending rec))) (pending rec);
          allowed = (seen_online + int (length waiting) < maximum);
          waiting' = (if allowed then waiting @ [fl current] else waiting);
          pruned' = (if waiting' \<noteq> []
                     then AList.update user \<lparr>observed = Some seen_online, pending = waiting'\<rparr> pruned
                     else AList.delete user pruned)
      in (allowed,
          if changed \<or> allowed \<or> reflected \<noteq> 0 \<or> observed rec \<noteq> Some seen_online
          then Some pruned' else None))"

datatype reserve_op = Reserve (dev_user: string) (dev_max: int) (dev_online: int) (dev_time: rat)

definition reserve_body :: "reserve_op \<Rightarrow> json dict \<Rightarrow> bool res \<times> json dict option" where
  "reserve_body op d = (case op of Reserve user maximum online current \<Rightarrow>
     (case load_admissions d of
        Inl e \<Rightarrow> (Inl e, None)
      | Inr admissions \<Rightarrow>
          (let (allowed, w) = reserve_ledger user maximum online current admissions
           in (Inr allowed, map_option ledger_json w))))"

definition reserve_guard :: "reserve_op \<Rightarrow> bool res option" where
  "reserve_guard op = (case op of Reserve user maximum online current \<Rightarrow>
     if user = [] \<or> current < 0 \<or> maximum < 0 \<or> online < 0 \<or> maximum \<le> 0
     then Some (Inl StateUnavailable) else None)"

text \<open>StateUnavailable, OSError and ValueError become StateUnavailable; any other exception escapes.\<close>

definition admission_error :: "exc \<Rightarrow> exc" where
  "admission_error e = (if e = OverflowError \<or> e = TypeError then e else StateUnavailable)"

definition reserve_device_admission ::
  "exc option \<Rightarrow> faults \<Rightarrow> reserve_op \<Rightarrow> cell \<Rightarrow> bool res \<times> cell" where
  "reserve_device_admission lock fails op c = (case reserve_guard op of
      Some r \<Rightarrow> (r, c)
    | None \<Rightarrow>
        (case transact save_device_admissions lock check_ledger (reserve_body op) fails c of
           (r, c') \<Rightarrow>
             if lock = None \<and> fails Unlock then (Inl StateUnavailable, c')
             else (case r of Inl e \<Rightarrow> (Inl (admission_error e), c') | Inr b \<Rightarrow> (Inr b, c'))))"

text \<open>The readiness probe: lock, load, and a throw-away file in the same directory.\<close>

definition device_admission_state_ready :: "exc option \<Rightarrow> faults \<Rightarrow> bool \<Rightarrow> cell \<Rightarrow> bool res" where
  "device_admission_state_ready lock fails expired c = (case lock of
      Some e \<Rightarrow> if admission_error e = StateUnavailable then Inr False else Inl e
    | None \<Rightarrow> (case cell_load check_ledger (seen c) of
        Inl e \<Rightarrow> if admission_error e = StateUnavailable then Inr False else Inl e
      | Inr _ \<Rightarrow> Inr (\<not> fails MkTemp \<and> \<not> fails Chmod \<and> \<not> fails WriteTemp \<and> \<not> fails UnlinkTemp
          \<and> \<not> expired)))"

section \<open>Ledgers that the current format can hold\<close>

definition stamps_ok :: "rat list \<Rightarrow> bool" where
  "stamps_ok ts \<longleftrightarrow> (\<forall>t \<in> set ts. 0 \<le> t \<and> fl t = t)"

definition admission_ok :: "admission \<Rightarrow> bool" where
  "admission_ok r \<longleftrightarrow> (\<exists>n. observed r = Some n \<and> 0 \<le> n) \<and> stamps_ok (pending r)"

definition ledger_ok :: "ledger \<Rightarrow> bool" where
  "ledger_ok a \<longleftrightarrow> wf_dict a \<and> (\<forall>u r. (u, r) \<in> set a \<longrightarrow> u \<noteq> [] \<and> admission_ok r)"

lemma admission_of_fst: "admission_of (u, v) = Inr x \<Longrightarrow> fst x = u"
  by (auto simp: admission_of_def rbind_eq_Inr split: if_splits)

lemma collect_fst: "collect admission_of d = Inr a \<Longrightarrow> map fst a = map fst d"
proof (induction d arbitrary: a)
  case (Cons kv d)
  obtain u v where kv: "kv = (u, v)" by fastforce
  from Cons show ?case by (auto simp: kv rbind_eq_Inr dest: admission_of_fst)
qed simp

lemma collect_map: "(\<And>x. x \<in> set xs \<Longrightarrow> f (g x) = Inr x) \<Longrightarrow> collect f (map g xs) = Inr xs"
  by (induction xs) auto

lemma collect_stamps: "stamps_ok ts \<Longrightarrow> collect stamp_of (map (\<lambda>t. JFloat (Fin t)) ts) = Inr ts"
  by (rule collect_map) (simp add: stamps_ok_def stamp_of_def checked_number_def not_less)

lemma admission_of_json:
  assumes "u \<noteq> []" "admission_ok r"
  shows "admission_of (u, admission_json r) = Inr (u, r)"
proof -
  obtain n where n: "observed r = Some n" "0 \<le> n" using assms(2) by (auto simp: admission_ok_def)
  have "collect stamp_of (map (\<lambda>t. JFloat (Fin t)) (pending r)) = Inr (pending r)"
    using assms(2) by (intro collect_stamps) (simp add: admission_ok_def)
  with assms(1) n show ?thesis
    by (simp add: admission_of_def parse_admission_def admission_json_def dkeys_def dget_def
        non_negative_integer_def)
qed

text \<open>Round trip: a ledger in the current format reads back as it was saved.\<close>

lemma load_ledger_json: "ledger_ok a \<Longrightarrow> load_admissions (ledger_json a) = Inr a"
  unfolding load_admissions_def ledger_json_def
  by (rule collect_map) (auto simp: ledger_ok_def intro: admission_of_json)

lemma wf_admission_json: "wf_json (admission_json r)"
  by (cases "observed r") (simp_all add: admission_json_def wf_dict_def)

lemma ledger_json_wf: "ledger_ok a \<Longrightarrow> wf_json (JObj (ledger_json a))"
  by (auto simp: ledger_ok_def ledger_json_def wf_dict_def comp_def case_prod_unfold wf_admission_json)

lemma in_live_admissions:
  "(u, r) \<in> set (live_admissions cutoff a) \<longleftrightarrow>
     (\<exists>r0. (u, r0) \<in> set a \<and> r = r0\<lparr>pending := filter (\<lambda>t. cutoff < t) (pending r0)\<rparr> \<and> pending r \<noteq> [])"
  by (auto simp: live_admissions_def)

lemma live_admissions_ok:
  assumes "ledger_ok a"
  shows "ledger_ok (live_admissions cutoff a)"
proof -
  have "wf_dict (live_admissions cutoff a)"
    using assms unfolding live_admissions_def
    by (intro wf_dict_filter) (simp add: ledger_ok_def wf_dict_def comp_def case_prod_unfold)
  moreover have "u \<noteq> [] \<and> admission_ok r" if "(u, r) \<in> set (live_admissions cutoff a)" for u r
  proof -
    from that obtain r0 where "(u, r0) \<in> set a" "r = r0\<lparr>pending := filter (\<lambda>t. cutoff < t) (pending r0)\<rparr>"
      unfolding in_live_admissions by blast
    moreover from this assms have "u \<noteq> []" "admission_ok r0" unfolding ledger_ok_def by blast+
    ultimately show ?thesis by (auto simp: admission_ok_def stamps_ok_def)
  qed
  ultimately show ?thesis unfolding ledger_ok_def by blast
qed

lemma map_of_live_admissions:
  assumes "wf_dict a"
  shows "map_of (live_admissions cutoff a) u = (case map_of a u of None \<Rightarrow> None
    | Some r \<Rightarrow> (let ts = filter (\<lambda>t. cutoff < t) (pending r) in
        if ts = [] then None else Some (r\<lparr>pending := ts\<rparr>)))"
proof -
  let ?f = "\<lambda>(u, r). (u :: string, r\<lparr>pending := filter (\<lambda>t. cutoff < t) (pending r)\<rparr>)"
  have wf: "wf_dict (map ?f a)" using assms by (simp add: wf_dict_def comp_def case_prod_unfold)
  have "map_of (map ?f a) u = map_option (\<lambda>r. r\<lparr>pending := filter (\<lambda>t. cutoff < t) (pending r)\<rparr>) (map_of a u)"
    by (induction a) auto
  then show ?thesis
    unfolding live_admissions_def map_of_filter_wf [OF wf] by (auto simp: Let_def split: option.splits)
qed

lemma ledger_ok_update:
  assumes "ledger_ok a" "u \<noteq> []" "admission_ok r"
  shows "ledger_ok (AList.update u r a)"
proof -
  have "k \<noteq> [] \<and> admission_ok x" if "(k, x) \<in> set (AList.update u r a)" for k x
    using that set_update_subset [of u r a] assms unfolding ledger_ok_def by blast
  with assms(1) show ?thesis by (simp add: ledger_ok_def)
qed

lemma ledger_ok_delete: "ledger_ok a \<Longrightarrow> ledger_ok (AList.delete u a)"
  unfolding ledger_ok_def using set_delete_subset [of u a] wf_dict_delete [of a u] by blast

lemma ledger_ok_lookup: "ledger_ok a \<Longrightarrow> map_of a u = Some r \<Longrightarrow> admission_ok r"
  unfolding ledger_ok_def by (meson map_of_SomeD)

section \<open>What a reservation does\<close>

text \<open>The reservations of a user that are still counted when a request for the user comes.\<close>

definition counted :: "ledger \<Rightarrow> string \<Rightarrow> int \<Rightarrow> rat \<Rightarrow> rat list" where
  "counted a user online current =
     (case map_of (live_admissions (fl (fl current - DEVICE_ADMISSION_TTL_SECONDS)) a) user of
        None \<Rightarrow> []
      | Some r \<Rightarrow> drop (nat (max 0 (online - (case observed r of None \<Rightarrow> online | Some n \<Rightarrow> n)))) (pending r))"

lemma drop_min: "drop (min n (length xs)) xs = drop n xs"
  by (cases "n \<le> length xs") (auto simp: min_def)

lemma reserve_ledger_eq:
  "reserve_ledger user maximum online current a = (allowed, w) \<Longrightarrow>
     allowed = (online + int (length (counted a user online current)) < maximum)
     \<and> (allowed \<longrightarrow> w \<noteq> None)
     \<and> (case w of None \<Rightarrow> True | Some a' \<Rightarrow>
         (let pruned = live_admissions (fl (fl current - DEVICE_ADMISSION_TTL_SECONDS)) a;
              ts = counted a user online current @ (if allowed then [fl current] else [])
          in a' = (if ts \<noteq> [] then AList.update user \<lparr>observed = Some online, pending = ts\<rparr> pruned
                   else AList.delete user pruned)))"
proof -
  let ?P = "live_admissions (fl (fl current - DEVICE_ADMISSION_TTL_SECONDS)) a"
  assume r: "reserve_ledger user maximum online current a = (allowed, w)"
  show ?thesis
  proof (cases "map_of ?P user")
    case None
    with r show ?thesis
      by (cases "online < maximum") (auto simp: reserve_ledger_def counted_def Let_def split: if_splits)
  next
    case (Some x)
    show ?thesis
    proof (cases "online + int (length (counted a user online current)) < maximum")
      case True
      with Some r show ?thesis
        by (cases w) (auto simp: reserve_ledger_def counted_def drop_min Let_def split: if_splits option.splits)
    next
      case False
      with Some r show ?thesis
        by (cases w) (auto simp: reserve_ledger_def counted_def drop_min Let_def split: if_splits option.splits)
    qed
  qed
qed

section \<open>The ledger as a store\<close>

definition current_format :: "json dict \<Rightarrow> bool" where
  "current_format d \<longleftrightarrow> (\<exists>a. load_admissions d = Inr a \<and> ledger_ok a)"

lemma counted_ok:
  assumes "ledger_ok a"
  shows "stamps_ok (counted a user online current)"
proof (cases "map_of (live_admissions (fl (fl current - DEVICE_ADMISSION_TTL_SECONDS)) a) user")
  case None
  then show ?thesis by (simp add: counted_def stamps_ok_def)
next
  case (Some r)
  with ledger_ok_lookup [OF live_admissions_ok [OF assms]] have "stamps_ok (pending r)"
    by (simp add: admission_ok_def)
  with Some show ?thesis by (simp add: counted_def stamps_ok_def) (meson in_set_dropD)
qed

lemma reserve_ledger_ok:
  assumes a: "ledger_ok a" and u: "user \<noteq> []" and n: "0 \<le> online" and t: "0 \<le> current"
    and r: "reserve_ledger user maximum online current a = (allowed, Some a')"
  shows "ledger_ok a'"
proof -
  let ?p = "live_admissions (fl (fl current - DEVICE_ADMISSION_TTL_SECONDS)) a"
  let ?ts = "counted a user online current @ (if allowed then [fl current] else [])"
  have ts: "stamps_ok ?ts"
    using counted_ok [OF a, of user online current] t by (auto simp: stamps_ok_def fl_idem fl_nonneg)
  have p: "ledger_ok ?p" by (rule live_admissions_ok [OF a])
  from reserve_ledger_eq [OF r] have
    "a' = (if ?ts \<noteq> [] then AList.update user \<lparr>observed = Some online, pending = ?ts\<rparr> ?p else AList.delete user ?p)"
    by (simp add: Let_def)
  moreover have "ledger_ok (AList.update user \<lparr>observed = Some online, pending = ?ts\<rparr> ?p)"
    using ts n by (intro ledger_ok_update [OF p u]) (simp add: admission_ok_def)
  ultimately show ?thesis using ledger_ok_delete [OF p] by presburger
qed

lemma ledger_json_ok:
  assumes "ledger_ok a" "length (ledger_text (ledger_json a)) \<le> DEVICE_ADMISSION_MAX_BYTES"
  shows "cell_ok check_ledger (ledger_json a)"
  using ledger_json_wf [OF assms(1)] load_ledger_json [OF assms(1)] assms(2)
  by (simp add: cell_ok_def check_ledger_def raise_if_def del: wf_json.simps)

lemma too_large_refused:
  "DEVICE_ADMISSION_MAX_BYTES < length (ledger_text d) \<Longrightarrow> refused save_device_admissions d"
  by (simp add: refused_def save_device_admissions_def)

lemma save_admissions_atomic: "atomic_put save_device_admissions"
  by (auto simp: atomic_put_def save_device_admissions_def write_atomic_def drop_temp_def Let_def)

lemma reserve_body_ok:
  assumes d: "current_format d" and g: "reserve_guard op = None" and b: "reserve_body op d = (r, Some d')"
  shows "\<exists>a'. d' = ledger_json a' \<and> ledger_ok a'"
proof -
  obtain a where a: "load_admissions d = Inr a" "ledger_ok a" using d by (auto simp: current_format_def)
  obtain user maximum online current where op: "op = Reserve user maximum online current" by (cases op)
  obtain allowed w where w: "reserve_ledger user maximum online current a = (allowed, w)" by fastforce
  with b a(1) op obtain a' where "w = Some a'" "d' = ledger_json a'" by (auto simp: reserve_body_def)
  with reserve_ledger_ok [OF a(2), of user online current maximum allowed a'] w g op show ?thesis
    by (auto simp: reserve_guard_def split: if_splits)
qed

interpretation device_store: stored_ops reserve_device_admission "\<lambda>op _. reserve_guard op" check_ledger
  reserve_body "\<lambda>_. True" save_device_admissions current_format
proof
  show "reserve_device_admission lock fails op c = (a, c)" if "reserve_guard op = Some a" for lock fails op c a
    using that by (simp add: reserve_device_admission_def)
  show "\<exists>q. transact save_device_admissions lock check_ledger (reserve_body op) fails c = (q, c') \<and> (r = q \<or> isl r)"
    if "reserve_guard op = None" "reserve_device_admission lock fails op c = (r, c')" for lock fails op c r c'
    using that by (auto simp: reserve_device_admission_def split: prod.splits if_splits sum.splits)
  show "atomic_put save_device_admissions" by (rule save_admissions_atomic)
  show "refused save_device_admissions d' \<or> cell_ok check_ledger d' \<and> current_format d'"
    if "current_format d" "reserve_guard op = None" "reserve_body op d = (r, Some d')" for d op r d'
    using reserve_body_ok [OF that] too_large_refused [of d'] ledger_json_ok load_ledger_json
    by (force simp: current_format_def not_less)
qed

section \<open>The limit\<close>

text \<open>
  The ledger still counts \<open>n\<close> reservations of the user made since \<open>since\<close>, at the online count
  \<open>online\<close>.
\<close>

definition counts :: "string \<Rightarrow> int \<Rightarrow> rat \<Rightarrow> nat \<Rightarrow> json dict \<Rightarrow> bool" where
  "counts user online since n d \<longleftrightarrow> current_format d \<and> (n = 0 \<or>
     (\<exists>a r. load_admissions d = Inr a \<and> map_of a user = Some r \<and> observed r = Some online
        \<and> n \<le> length (filter (\<lambda>t. since \<le> t) (pending r))))"

definition in_window :: "rat \<Rightarrow> rat \<Rightarrow> bool" where
  "in_window since t \<longleftrightarrow> since \<le> fl t \<and> fl (fl t - DEVICE_ADMISSION_TTL_SECONDS) < since"

lemma filter_since: "cutoff < since \<Longrightarrow> filter (\<lambda>t. since \<le> t) (filter (\<lambda>t. cutoff < t) xs) = filter (\<lambda>t. since \<le> (t :: rat)) xs"
  by (auto intro!: filter_cong)

lemma length_filter_pos: "0 < n \<Longrightarrow> n \<le> length (filter P xs) \<Longrightarrow> xs \<noteq> []"
  by auto

lemma counts_live:
  assumes "ledger_ok a" "map_of a user = Some r" "n \<le> length (filter (\<lambda>t. since \<le> t) (pending r))"
    and "0 < n" "cutoff < since"
  shows "map_of (live_admissions cutoff a) user = Some (r\<lparr>pending := filter (\<lambda>t. cutoff < t) (pending r)\<rparr>)"
proof -
  have "filter (\<lambda>t. cutoff < t) (pending r) \<noteq> []"
    using assms(3,4) filter_since [OF assms(5), of "pending r"] by (metis length_filter_pos)
  with assms(1,2) show ?thesis by (simp add: map_of_live_admissions ledger_ok_def Let_def)
qed

lemma reserve_counts:
  assumes c: "counts user online since n d" and g: "reserve_guard (Reserve u m v t) = None"
    and b: "reserve_body (Reserve u m v t) d = (Inr allowed, Some d')"
    and w: "in_window since t" and same: "u = user \<longrightarrow> v = online"
  shows "counts user online since n d' \<and>
    (u = user \<and> allowed \<longrightarrow> counts user online since (Suc n) d' \<and> int (Suc n) \<le> m - online)"
proof -
  let ?cut = "fl (fl t - DEVICE_ADMISSION_TTL_SECONDS)"
  obtain a where a: "load_admissions d = Inr a" "ledger_ok a"
    using c by (auto simp: counts_def current_format_def)
  obtain ok w' where r: "reserve_ledger u m v t a = (ok, w')" by fastforce
  with b a(1) obtain a' where a': "d' = ledger_json a'" "ok = allowed" "w' = Some a'"
    by (auto simp: reserve_body_def)
  have oka: "ledger_ok a'"
    using reserve_ledger_ok [OF a(2), of u v t m allowed a'] r a' g
    by (auto simp: reserve_guard_def split: if_splits)
  have load: "load_admissions d' = Inr a'" "current_format d'"
    using load_ledger_json [OF oka] oka by (auto simp: a'(1) current_format_def)
  let ?ts = "counted a u v t @ (if allowed then [fl t] else [])"
  have eq: "a' = (if ?ts \<noteq> [] then AList.update u \<lparr>observed = Some v, pending = ?ts\<rparr> (live_admissions ?cut a)
      else AList.delete u (live_admissions ?cut a))"
    and allowed: "allowed = (v + int (length (counted a u v t)) < m)"
    using reserve_ledger_eq [OF r] a' by (simp_all add: Let_def)
  have cut: "?cut < since" "since \<le> fl t" using w by (simp_all add: in_window_def)
  show ?thesis
  proof (cases "n = 0")
    case True
    have "counts user online since (Suc 0) d' \<and> int (Suc 0) \<le> m - online" if "u = user" "allowed"
      using that eq load same cut allowed by (auto simp: counts_def)
    with True load show ?thesis by (auto simp: counts_def)
  next
    case False
    then obtain r0 where r0: "map_of a user = Some r0" "observed r0 = Some online"
      "n \<le> length (filter (\<lambda>t. since \<le> t) (pending r0))"
      using c a(1) by (auto simp: counts_def)
    let ?live = "filter (\<lambda>t. ?cut < t) (pending r0)"
    have m: "map_of (live_admissions ?cut a) user = Some (r0\<lparr>pending := ?live\<rparr>)"
      using counts_live [OF a(2) r0(1,3) _ cut(1)] False by simp
    have n: "n \<le> length (filter (\<lambda>t. since \<le> t) ?live)" using r0(3) filter_since [OF cut(1)] by simp
    show ?thesis
    proof (cases "u = user")
      case False
      then have "map_of a' user = Some (r0\<lparr>pending := ?live\<rparr>)" using eq m by simp
      with load r0(2) n False show ?thesis by (auto simp: counts_def)
    next
      case True
      with same m r0(2) have ts: "counted a u v t = ?live" by (simp add: counted_def)
      have "?live \<noteq> []" using n \<open>n \<noteq> 0\<close> by (metis length_filter_pos neq0_conv)
      then have "map_of a' user = Some \<lparr>observed = Some online, pending = ?ts\<rparr>"
        using eq ts True same by simp
      moreover have "n \<le> length ?live" using n le_trans length_filter_le by blast
      ultimately show ?thesis
        using load n cut ts True same allowed by (auto simp: counts_def)
    qed
  qed
qed

text \<open>What one request does to everything that is visible or may come back.\<close>

lemma reserve_step:
  assumes safe: "cell_safe check_ledger (counts user online since n) c"
    and op: "reserve_device_admission lock fails (Reserve u m v t) c = (r, c')"
    and w: "in_window since t" and same: "u = user \<longrightarrow> v = online"
  shows "cell_safe check_ledger (counts user online since n) c' \<and>
    (u = user \<and> r = Inr True \<longrightarrow>
       cell_safe check_ledger (counts user online since (Suc n)) c' \<and> int (Suc n) \<le> m - online)"
proof (cases "reserve_guard (Reserve u m v t)")
  case (Some a)
  with op safe have "c' = c" "r \<noteq> Inr True"
    by (auto simp: reserve_device_admission_def reserve_guard_def split: if_splits)
  with safe show ?thesis by simp
next
  case None
  have fmt: "\<And>d. counts user online since n d \<Longrightarrow> current_format d" by (simp add: counts_def)
  have body: "\<exists>b. r0 = Inr b" if "reserve_body (Reserve u m v t) d = (r0, Some d')" for d r0 d'
    using that by (auto simp: reserve_body_def split: sum.splits prod.splits)
  have 1: "cell_safe check_ledger (counts user online since n) c'"
    using safe op
  proof (rule device_store.op_safe)
    show "counts user online since n d'"
      if "counts user online since n d" "reserve_body (Reserve u m v t) d = (r0, Some d')" for d r0 d'
      using body [OF that(2)] reserve_counts [OF that(1) None _ w same] that(2) by blast
  qed (simp_all add: fmt)
  have 2: "cell_safe check_ledger (counts user online since (Suc n)) c' \<and> int (Suc n) \<le> m - online"
    if "u = user" "r = Inr True"
  proof -
    obtain d where d: "cell_load check_ledger (seen c) = Inr d" "counts user online since n d"
      using cell_safe_seen [OF safe] by blast
    have wr: "snd (reserve_body (Reserve u m v t) d) \<noteq> None"
      if "fst (reserve_body (Reserve u m v t) d) = Inr True"
      using that reserve_ledger_eq
      by (auto simp: reserve_body_def split: sum.splits prod.splits)
    from device_store.op_success [OF d(1) op [unfolded that(2)] TrueI None fmt [OF d(2)]] wr
    obtain d' where d': "reserve_body (Reserve u m v t) d = (Inr True, Some d')"
      "cell_load check_ledger (seen c') = Inr d'" "after_crash c' = {seen c'}" by auto
    from reserve_counts [OF d(2) None d'(1) w same] that(1) d'(2,3) show ?thesis
      by (simp add: cell_safe_def)
  qed
  from 1 2 show ?thesis by blast
qed

definition admitted :: "string \<Rightarrow> reserve_op event \<Rightarrow> bool res option \<Rightarrow> bool" where
  "admitted user e r = (case e of Op _ _ op \<Rightarrow> dev_user op = user \<and> r = Some (Inr True) | Crash _ \<Rightarrow> False)"

definition admissions :: "string \<Rightarrow> reserve_op event list \<Rightarrow> bool res option list \<Rightarrow> nat" where
  "admissions user es rs = length (filter (\<lambda>(e, r). admitted user e r) (zip es rs))"

definition request_in :: "rat \<Rightarrow> string \<Rightarrow> int \<Rightarrow> int \<Rightarrow> reserve_op event \<Rightarrow> bool" where
  "request_in since user maximum online e = (case e of
      Op _ _ op \<Rightarrow> in_window since (dev_time op)
        \<and> (dev_user op = user \<longrightarrow> dev_max op = maximum \<and> dev_online op = online)
    | Crash _ \<Rightarrow> True)"

lemma admissions_bound:
  assumes "answered reserve_device_admission es rs c c'"
    and "\<forall>e \<in> set es. request_in since user maximum online e"
    and "cell_safe check_ledger (counts user online since n) c"
  shows "admissions user es rs = 0 \<or> int (n + admissions user es rs) \<le> maximum - online"
  using assms
proof (induction arbitrary: n rule: answered.induct)
  case (answered_nothing c)
  then show ?case by (simp add: admissions_def)
next
  case (answered_operation lock fails op c r c1 es rs c2)
  obtain u m v t where op: "op = Reserve u m v t" by (cases op)
  have req: "in_window since t" "u = user \<longrightarrow> v = online" "u = user \<longrightarrow> m = maximum"
    using answered_operation.prems(1) by (auto simp: request_in_def op)
  have rest: "\<forall>e \<in> set es. request_in since user maximum online e"
    using answered_operation.prems(1) by simp
  note step = reserve_step [OF answered_operation.prems(2) answered_operation.hyps(1) [unfolded op] req(1,2)]
  show ?case
  proof (cases "u = user \<and> r = Inr True")
    case True
    with step req(3) have "cell_safe check_ledger (counts user online since (Suc n)) c1"
      "int (Suc n) \<le> maximum - online" by auto
    with answered_operation.IH [OF rest, of "Suc n"] True show ?thesis
      by (auto simp: admissions_def admitted_def op)
  next
    case False
    with answered_operation.IH [OF rest, of n] step show ?thesis
      by (auto simp: admissions_def admitted_def op)
  qed
next
  case (answered_power_loss f c es rs c2)
  have rest: "\<forall>e \<in> set es. request_in since user maximum online e"
    using answered_power_loss.prems(1) by simp
  from crash_cell_safe [OF answered_power_loss.prems(2) answered_power_loss.hyps(1)]
  show ?case using answered_power_loss.IH [OF rest] by (simp add: admissions_def admitted_def)
qed


declare DEVICE_ADMISSION_TTL_SECONDS_def [py_eval] stamp_of_def [py_eval] parse_admission_def [py_eval]
  admission_of_def [py_eval] load_admissions_def [py_eval] check_ledger_def [py_eval]
  ledger_text_def [py_eval] admission_json_def [py_eval] ledger_json_def [py_eval]
  save_device_admissions_def [py_eval] live_admissions_def [py_eval] reserve_ledger_def [py_eval]
  reserve_body_def [py_eval] reserve_guard_def [py_eval] reserve_device_admission_def [py_eval]
  DEVICE_ADMISSION_MAX_BYTES_def [py_eval]

text \<open>Two users' reservations in the list-only format, and the ledger one request makes of them.\<close>

definition legacy_ledger :: jfile where
  "legacy_ledger = Doc (RObj [(''ann'', RList [RInt 1]), (''bob'', RList [RInt 1])])"

lemma small_floats: "fl 1 = 1" "fl 2 = 2" "fl (- 18) = - 18" "float_text 1 = ''1.0''" "float_text 2 = ''2.0''"
proof -
  show "fl 1 = 1" using fl_of_int [of 1] by simp
  show "fl 2 = 2" by (simp add: fl_numeral)
  show "fl (- 18) = - 18" by (simp add: fl_uminus fl_numeral)
  show "float_text 1 = ''1.0''" "float_text 2 = ''2.0''" by code_simp+
qed

definition migrated_ledger :: jfile where
  "migrated_ledger = Doc (raw_of_json (JObj
     [(''ann'', JObj [(''observed'', JInt 0), (''pending'', JList [JFloat (Fin 1), JFloat (Fin 2)])]),
      (''bob'', JObj [(''observed'', JNull), (''pending'', JList [JFloat (Fin 1)])])]))"

lemma migration_run:
  "reserve_device_admission None (\<lambda>_. False) (Reserve ''ann'' 9 0 2) (quiet legacy_ledger)
   = (Inr True, quiet migrated_ledger)"
proof -
  let ?d = "[(''ann'', JObj [(''observed'', JInt 0), (''pending'', JList [JFloat (Fin 1), JFloat (Fin 2)])]),
      (''bob'', JObj [(''observed'', JNull), (''pending'', JList [JFloat (Fin 1)])])]"
  let ?l = "[(''ann'', JList [JInt 1]), (''bob'', JList [JInt 1])]"
  have size: "length (ledger_text ?l) = 22" "length (ledger_text ?d) = 83"
    by code_simp+
  have load: "load_admissions ?l = Inr [(''ann'', \<lparr>observed = None, pending = [1]\<rparr>), (''bob'', \<lparr>observed = None, pending = [1]\<rparr>)]"
    by (simp add: py_eval small_floats float_max_bound_def)
  have body: "reserve_body (Reserve ''ann'' 9 0 2) ?l = (Inr True, Some ?d)"
    unfolding reserve_body_def by (simp add: load) (simp add: reserve_ledger_def live_admissions_def
        DEVICE_ADMISSION_TTL_SECONDS_def small_floats ledger_json_def admission_json_def)
  have "cell_load check_ledger (seen (quiet legacy_ledger)) = Inr ?l"
    using load size(1)
    by (simp add: legacy_ledger_def quiet_def cell_load_def load_dict_def load_json_strict_def same_type_def
        is_obj_def obj_of_def dict_of_pairs_def check_ledger_def DEVICE_ADMISSION_MAX_BYTES_def raise_if_def)
  with body size(2) show ?thesis
    by (simp add: reserve_device_admission_def reserve_guard_def transact_def txn_def save_device_admissions_def
        DEVICE_ADMISSION_MAX_BYTES_def write_atomic_def quiet_def migrated_ledger_def)
qed

text \<open>
  Migrating the first ledger format is not safe. With two users' live reservations in the
  list-only format, one accepted request writes the other user's entry back without an online
  count; the loader refuses such an entry, so that every later request of every user is answered
  StateUnavailable, whatever its limit and time, and leaves the ledger as it is.
\<close>

theorem legacy_migration_locks_out:
  "reserve_device_admission None (\<lambda>_. False) (Reserve ''ann'' 9 0 2) (quiet legacy_ledger)
     = (Inr True, quiet migrated_ledger)
   \<and> reserve_device_admission None (\<lambda>_. False) (Reserve u maximum online t) (quiet migrated_ledger)
     = (Inl StateUnavailable, quiet migrated_ledger)"
proof -
  have "cell_load check_ledger migrated_ledger = Inl StateUnavailable"
    by (simp add: migrated_ledger_def cell_load_def load_dict_def load_json_strict_def same_type_def is_obj_def
        obj_of_def dict_of_pairs_def raw_of_json.simps check_ledger_def load_admissions_def admission_of_def
        parse_admission_def dkeys_def dget_def non_negative_integer_def stamp_of_def checked_number_def
        small_floats raise_if_def)
  then have "reserve_device_admission None (\<lambda>_. False) (Reserve u maximum online t) (quiet migrated_ledger)
      = (Inl StateUnavailable, quiet migrated_ledger)"
    by (simp add: reserve_device_admission_def reserve_guard_def transact_def txn_def quiet_def
        admission_error_def)
  with migration_run show ?thesis by (rule conjI)
qed


end
