(* ===== verification/Credentials.thy ===== *)
theory Credentials
  imports JsonText UserCompat StateStore
begin

text \<open>
  Credentials and per-user policy: the first half of \<^verbatim>\<open>hysteria/auth_backend.py\<close>. PBKDF2 and SHA-256
  are parameters: \<open>kdf password salt rounds\<close> is \<^verbatim>\<open>hashlib.pbkdf2_hmac("sha256", ...)\<close> as a list of
  byte values, \<open>gen text\<close> the SHA-256 digest of a text. A deadline is read at several points of a
  request; \<open>expired p\<close> says whether it has passed at point \<open>p\<close>.
\<close>

section \<open>Deadlines\<close>

datatype checkpoint =
    AtEntry | BeforePassword | AfterLease | AfterPassword | BeforeConnect | AfterResponse
  | BeforeSnapshot | AtCommit
  | AtProbe | AfterProbe

text \<open>\<^verbatim>\<open>_remaining_timeout(deadline, maximum)\<close> at monotonic time \<open>now\<close>, on finite doubles.\<close>

definition remaining_timeout :: "pyfloat option \<Rightarrow> pyfloat \<Rightarrow> rat \<Rightarrow> rat res" where
  "remaining_timeout deadline maximum now = (case maximum of
      Fin mx \<Rightarrow>
        if mx \<le> 0 then Inl StateUnavailable
        else (case deadline of
            None \<Rightarrow> Inr mx
          | Some (Fin d) \<Rightarrow>
              (let remaining = fl (d - now)
               in if remaining \<le> 0 then Inl StateUnavailable else Inr (min mx remaining))
          | Some _ \<Rightarrow> Inl StateUnavailable)
    | _ \<Rightarrow> Inl StateUnavailable)"

definition deadline_expired :: "pyfloat option \<Rightarrow> rat \<Rightarrow> bool" where
  "deadline_expired deadline now = (case deadline of
      None \<Rightarrow> False
    | Some (Fin d) \<Rightarrow> d \<le> now
    | Some NInf \<Rightarrow> True
    | Some _ \<Rightarrow> False)"

text \<open>
  \<^verbatim>\<open>sendall\<close> of the deadline socket: \<open>send i n\<close> is the number of the \<open>n\<close> remaining bytes that the
  \<open>i\<close>-th call accepts.
\<close>

function send_all :: "(nat \<Rightarrow> nat \<Rightarrow> int res) \<Rightarrow> nat \<Rightarrow> nat \<Rightarrow> unit res" where
  "send_all send i view =
     (if view = 0 then Inr ()
      else case send i view of
          Inl e \<Rightarrow> Inl e
        | Inr sent \<Rightarrow> if sent \<le> 0 then Inl StateUnavailable else send_all send (Suc i) (view - nat sent))"
  by pat_completeness auto
termination by (relation "measure (\<lambda>(send, i, view). view)") auto

declare send_all.simps [simp del]

definition DEVICE_ADMISSION_LOCK_TIMEOUT_SECONDS :: rat where "DEVICE_ADMISSION_LOCK_TIMEOUT_SECONDS = 1 / 4"
definition DEVICE_ADMISSION_LOCK_POLL_SECONDS :: rat where "DEVICE_ADMISSION_LOCK_POLL_SECONDS = fl (1 / 100)"

text \<open>
  \<^verbatim>\<open>_acquire_device_lock\<close>: the polling loop of the ledger's lock, as \<^const>\<open>poll_lock\<close>. An error of
  \<^verbatim>\<open>flock\<close> other than the lock being held is the outcome the operations take as a parameter.
\<close>

definition acquire_device_lock ::
  "nat \<Rightarrow> (nat \<Rightarrow> bool) \<Rightarrow> (nat \<Rightarrow> rat) \<Rightarrow> pyfloat option \<Rightarrow> rat \<Rightarrow> rat res option" where
  "acquire_device_lock fuel free late deadline now =
     (case remaining_timeout deadline (Fin DEVICE_ADMISSION_LOCK_TIMEOUT_SECONDS) now of
        Inl e \<Rightarrow> Some (Inl e)
      | Inr budget \<Rightarrow>
          (case poll_lock fuel free late DEVICE_ADMISSION_LOCK_POLL_SECONDS (now + budget) now 0 of
             None \<Rightarrow> None
           | Some (Inl e) \<Rightarrow> Some (Inl StateUnavailable)
           | Some (Inr t) \<Rightarrow> Some (Inr t)))"

section \<open>Secrets and password hashes\<close>

definition AUTH_SECRET_MAX_CHARS :: nat where "AUTH_SECRET_MAX_CHARS = 256"
definition PASSWORD_HASH_MAX_CHARS :: nat where "PASSWORD_HASH_MAX_CHARS = 512"
definition PBKDF2_ROUNDS_MIN :: int where "PBKDF2_ROUNDS_MIN = 100000"
definition PBKDF2_ROUNDS_MAX :: int where "PBKDF2_ROUNDS_MAX = 1000000"
definition PBKDF2_SALT_BYTES :: nat where "PBKDF2_SALT_BYTES = 16"
definition PBKDF2_DIGEST_BYTES :: nat where "PBKDF2_DIGEST_BYTES = 32"

text \<open>
  A text of bounded length, standing for its UTF-8 bytes: a character of the model takes at most two
  bytes, so the byte limit of four per character is never the one that is hit.
\<close>

definition bounded_utf8 :: "string \<Rightarrow> string option" where
  "bounded_utf8 value = (if AUTH_SECRET_MAX_CHARS < length value then None else Some value)"

definition b64_alphabet :: string where
  "b64_alphabet = ''ABCDEFGHIJKLMNOPQRSTUVWXYZabcdefghijklmnopqrstuvwxyz0123456789''"

definition b64_table :: "(char \<times> nat) list" where
  "b64_table = zip b64_alphabet [0..<62] @ [(CHR ''-'', 62), (CHR ''+'', 62), (CHR ''_'', 63), (CHR 0x2F, 63)]"

fun b64_bytes :: "nat list \<Rightarrow> nat list option" where
  "b64_bytes [] = Some []"
| "b64_bytes [a] = None"
| "b64_bytes [a, b] = Some [a * 4 + b div 16]"
| "b64_bytes [a, b, c] = Some [a * 4 + b div 16, b mod 16 * 16 + c div 4]"
| "b64_bytes (a # b # c # d # rest) = map_option
     (\<lambda>bs. (a * 4 + b div 16) # (b mod 16 * 16 + c div 4) # (c mod 4 * 64 + d) # bs) (b64_bytes rest)"

definition b64url_decode_nopad :: "string \<Rightarrow> nat list option" where
  "b64url_decode_nopad s =
     (if s = [] \<or> 128 < length s \<or> \<not> (\<forall>c \<in> set s. c \<in> fst ` set b64_table) then None
      else b64_bytes (map (\<lambda>c. the (map_of b64_table c)) s))"

text \<open>\<^verbatim>\<open>encoded.split("$", 3)\<close> into exactly four parts.\<close>

definition split_dollar :: "string \<Rightarrow> string \<times> string option" where
  "split_dollar s = (takeWhile (\<lambda>c. c \<noteq> CHR ''$'') s,
     case dropWhile (\<lambda>c. c \<noteq> CHR ''$'') s of [] \<Rightarrow> None | c # rest \<Rightarrow> Some rest)"

definition four_parts :: "string \<Rightarrow> (string \<times> string \<times> string \<times> string) option" where
  "four_parts s = (case split_dollar s of
      (a, Some r1) \<Rightarrow> (case split_dollar r1 of
          (b, Some r2) \<Rightarrow> (case split_dollar r2 of
              (c, Some d) \<Rightarrow> Some (a, b, c, d)
            | _ \<Rightarrow> None)
        | _ \<Rightarrow> None)
    | _ \<Rightarrow> None)"

definition verify_password_hash ::
  "(string \<Rightarrow> nat list \<Rightarrow> int \<Rightarrow> nat list) \<Rightarrow> string \<Rightarrow> string \<Rightarrow> bool" where
  "verify_password_hash kdf password encoded =
     (case bounded_utf8 password of
        None \<Rightarrow> False
      | Some password_bytes \<Rightarrow>
          if PASSWORD_HASH_MAX_CHARS < length encoded then False
          else (case four_parts encoded of
              None \<Rightarrow> False
            | Some (algo, rounds_s, salt_b64, digest_b64) \<Rightarrow>
                if algo \<noteq> ''pbkdf2_sha256'' then False
                else if rounds_s = [] \<or> \<not> (\<forall>c \<in> set rounds_s. is_digit c) then False
                else (let rounds = int (digits_val 10 rounds_s) in
                  if \<not> (PBKDF2_ROUNDS_MIN \<le> rounds \<and> rounds \<le> PBKDF2_ROUNDS_MAX) then False
                  else (case (b64url_decode_nopad salt_b64, b64url_decode_nopad digest_b64) of
                      (Some salt, Some expected) \<Rightarrow>
                        length salt = PBKDF2_SALT_BYTES \<and> length expected = PBKDF2_DIGEST_BYTES
                        \<and> kdf password_bytes salt rounds = expected
                    | _ \<Rightarrow> False))))"

section \<open>The user record\<close>

abbreviation policy_integer :: "json \<Rightarrow> int res" where
  "policy_integer \<equiv> non_negative_integer StateUnavailable StateUnavailable"

fun unique_uuids :: "json dict \<Rightarrow> int list \<Rightarrow> unit res" where
  "unique_uuids [] seen_uuids = Inr ()"
| "unique_uuids ((username, cfg) # rest) seen_uuids =
     (if \<not> valid_username username then Inl StateUnavailable
      else case cfg of
        JObj d \<Rightarrow>
          (let raw = dget d ''vless_uuid'' JNull in
           if none_or_empty raw then unique_uuids rest seen_uuids
           else case raw of
             JStr s \<Rightarrow> (case uuid_value s of
                 None \<Rightarrow> Inl StateUnavailable
               | Some canonical \<Rightarrow>
                   if canonical \<in> set seen_uuids then Inl StateUnavailable
                   else unique_uuids rest (canonical # seen_uuids))
           | _ \<Rightarrow> Inl StateUnavailable)
      | _ \<Rightarrow> Inl StateUnavailable)"

definition validate_unique_vless_uuids :: "json dict \<Rightarrow> unit res" where
  "validate_unique_vless_uuids users = unique_uuids users []"

definition check_policy_fields :: "json dict \<Rightarrow> unit res" where
  "check_policy_fields user = check_all (\<lambda>f. case map_of user f of
      None \<Rightarrow> Inr ()
    | Some v \<Rightarrow> rbind (policy_integer v) (\<lambda>_. Inr ()))
     [''monthly_quota_bytes'', ''quota_extra_bytes'', ''max_devices'']"

definition validated_authorization_user ::
  "iso_parser \<Rightarrow> json dict \<Rightarrow> string \<Rightarrow> date \<Rightarrow> json dict res" where
  "validated_authorization_user isodt users username today =
     rbind (validate_unique_vless_uuids users) (\<lambda>_.
       case map_of users username of
         Some (JObj user) \<Rightarrow>
           rbind (authorization_config_error isodt (JObj user)) (\<lambda>e.
             if e \<noteq> None then Inl StateUnavailable
             else rbind (check_policy_fields user) (\<lambda>_.
               if is_inactive (JObj user) today then Inl StateUnavailable else Inr user))
       | _ \<Rightarrow> Inl StateUnavailable)"

definition authorization_generation :: "(string \<Rightarrow> string) \<Rightarrow> json dict \<Rightarrow> string res" where
  "authorization_generation gen user = (case dumps True (JObj user) of
      Inl e \<Rightarrow> Inl StateUnavailable
    | Inr canonical \<Rightarrow> Inr (gen canonical))"

section \<open>Verifying a credential\<close>

text \<open>What the process-wide password limiter answers: no limiter, no budget, an exception, a lease.\<close>

datatype limiter = NoLimiter | NoBudget | LimiterRaised | Leased

text \<open>\<^verbatim>\<open>str(user.get(field) or "")\<close> of a validated user: a string, or nothing.\<close>

definition secret_field :: "json dict \<Rightarrow> string \<Rightarrow> string" where
  "secret_field user f = (case dget user f JNull of JStr s \<Rightarrow> s | _ \<Rightarrow> [])"

definition verify_user_credential ::
  "(string \<Rightarrow> nat list \<Rightarrow> int \<Rightarrow> nat list) \<Rightarrow> json dict \<Rightarrow> string \<Rightarrow> (checkpoint \<Rightarrow> bool) \<Rightarrow> limiter \<Rightarrow> bool
   \<Rightarrow> bool" where
  "verify_user_credential kdf user password expired limiter allow_password =
     (let token = secret_field user ''sub_token''; token_bytes = bounded_utf8 token in
      case bounded_utf8 password of
        None \<Rightarrow> False
      | Some password_bytes \<Rightarrow>
          if token \<noteq> [] \<and> token_bytes = None then False
          else if token \<noteq> [] \<and> token_bytes = Some password_bytes then True
          else if \<not> allow_password \<or> \<not> truthy (dget user ''password_hash'' JNull) \<or> expired BeforePassword
          then False
          else if limiter = NoBudget \<or> limiter = LimiterRaised then False
          else if expired AfterLease then False
          else verify_password_hash kdf password (secret_field user ''password_hash'')
            \<and> \<not> expired AfterPassword)"

section \<open>Lemmas\<close>

text \<open>\<^verbatim>\<open>sendall\<close> returns after at most as many calls as there are bytes.\<close>

lemma send_all_stalled: "0 < view \<Longrightarrow> send i view = Inr 0 \<Longrightarrow> send_all send i view = Inl StateUnavailable"
  by (subst send_all.simps) simp

lemma send_all_progress:
  assumes "\<And>i n. 0 < n \<Longrightarrow> \<exists>k. send i n = Inr k \<and> 0 < k \<and> k \<le> int n"
  shows "send_all send i view = Inr ()"
proof (induction view arbitrary: i rule: less_induct)
  case (less view)
  show ?case
  proof (cases "view = 0")
    case True
    then show ?thesis by (subst send_all.simps) simp
  next
    case False
    with assms obtain k where k: "send i view = Inr k" "0 < k" "k \<le> int view" by blast
    with False have "view - nat k < view" by simp
    with less k False show ?thesis by (subst send_all.simps) simp
  qed
qed

lemma unique_uuids_sound:
  assumes "unique_uuids users seen_uuids = Inr ()"
  shows "(\<forall>(u, c) \<in> set users. valid_username u \<and> (\<exists>d. c = JObj d))
    \<and> (\<forall>u d s n. (u, JObj d) \<in> set users \<longrightarrow> dget d ''vless_uuid'' JNull = JStr s \<longrightarrow> s \<noteq> [] \<longrightarrow>
          uuid_value s = Some n \<longrightarrow> n \<notin> set seen_uuids)"
  using assms
proof (induction users seen_uuids rule: unique_uuids.induct)
  case (2 username cfg rest seen_uuids)
  from "2.prems" obtain d where d: "cfg = JObj d" "valid_username username"
    by (auto split: if_splits json.splits)
  show ?case
  proof (cases "none_or_empty (dget d ''vless_uuid'' JNull)")
    case True
    with "2.prems" d have "unique_uuids rest seen_uuids = Inr ()" by simp
    from "2.IH"(1) [OF _ d(1) refl True this] d True show ?thesis
      by (auto simp: none_or_empty_def)
  next
    case False
    with "2.prems" d obtain s n where s: "dget d ''vless_uuid'' JNull = JStr s" "uuid_value s = Some n"
      "n \<notin> set seen_uuids" "unique_uuids rest (n # seen_uuids) = Inr ()"
      by (auto split: json.splits option.splits if_splits)
    from "2.IH"(2) [OF _ d(1) refl False s(1,2,3,4)] d s show ?thesis by auto
  qed
qed simp

end
