(* ===== verification/AuthBackend.thy ===== *)
theory AuthBackend
  imports Credentials DeviceAdmission OnlineSnapshot Display Cycle
begin

text \<open>
  A connection request: \<^verbatim>\<open>authenticate\<close> of \<^verbatim>\<open>hysteria/auth_backend.py\<close> with the state it reads, the
  readiness probes and the command line. Everything the outside answers during one request is a
  field of the record \<open>auth_env\<close>: the two readings of \<^verbatim>\<open>users.json\<close>, the other state files, the clock,
  the deadline, the password limiter and the online API. The device ledger is the state. A JSON file
  is its parse; the digits of its numbers stay below Python's limit of 4300.
\<close>

section \<open>Loading\<close>

text \<open>\<^verbatim>\<open>load_json(path, {}, required=...)\<close>.\<close>

definition auth_load_json :: "jfile \<Rightarrow> bool \<Rightarrow> json dict res" where
  "auth_load_json f required = (case f of
      Missing \<Rightarrow> if required then Inl StateUnavailable else Inr []
    | Doc r \<Rightarrow> (case json_of_raw r of JObj d \<Rightarrow> Inr d | _ \<Rightarrow> Inl StateUnavailable)
    | _ \<Rightarrow> Inl StateUnavailable)"

definition strict_json_bytes :: "jfile \<Rightarrow> json res" where
  "strict_json_bytes payload = (case payload of
      Doc r \<Rightarrow> if raw_strict r then Inr (json_of_raw r) else Inl StateUnavailable
    | _ \<Rightarrow> Inl StateUnavailable)"

text \<open>A file of \<open>nbytes\<close> bytes; a size beyond the maximum is refused before and after reading.\<close>

definition load_bounded_json :: "jfile \<Rightarrow> nat \<Rightarrow> bool \<Rightarrow> nat \<Rightarrow> json dict res" where
  "load_bounded_json f nbytes required maximum_bytes = (case f of
      Missing \<Rightarrow> if required then Inl StateUnavailable else Inr []
    | _ \<Rightarrow>
        if maximum_bytes < nbytes then Inl StateUnavailable
        else rbind (strict_json_bytes f) (\<lambda>data.
          case data of JObj d \<Rightarrow> Inr d | _ \<Rightarrow> Inl StateUnavailable))"

definition API_SECRET_PLACEHOLDER :: string where "API_SECRET_PLACEHOLDER = ''__HY_API_SECRET__''"
definition API_SECRET_FALLBACK :: string where "API_SECRET_FALLBACK = ''__HY_API_SECRET__''"

text \<open>The secret file is its text, or the exception that reading it raises.\<close>

definition get_api_secret :: "string res \<Rightarrow> string res" where
  "get_api_secret content = (case content of
      Inl e \<Rightarrow> if e = OSError then Inr API_SECRET_FALLBACK else Inl e
    | Inr text \<Rightarrow> (let v = py_strip text in
        if v \<noteq> [] \<and> v \<noteq> API_SECRET_PLACEHOLDER then Inr v else Inr API_SECRET_FALLBACK))"

section \<open>Usage and cycle settings\<close>

definition usage_total :: "json \<Rightarrow> int res" where
  "usage_total entry = (case entry of
      JObj d \<Rightarrow>
        if \<not> set (dkeys d) \<subseteq> {''tx'', ''rx'', ''total''} then Inl StateUnavailable
        else rbind (auth_integer (dget d ''tx'' (JInt 0))) (\<lambda>tx.
          rbind (auth_integer (dget d ''rx'' (JInt 0))) (\<lambda>rx.
          rbind (auth_integer (dget d ''total'' (JInt (tx + rx)))) (\<lambda>total.
            if total \<noteq> tx + rx then Inl StateUnavailable else Inr total)))
    | _ \<Rightarrow> auth_integer entry)"

definition iso_date_key :: "string \<Rightarrow> bool" where
  "iso_date_key k = (case strptime_ymd k of None \<Rightarrow> False | Some d \<Rightarrow> date_key d = k)"

definition check_bucket :: "string \<times> json \<Rightarrow> unit res" where
  "check_bucket kv =
     (if \<not> iso_date_key (fst kv) then Inl StateUnavailable
      else (case snd kv of
          JObj rows \<Rightarrow> check_all (\<lambda>(username, entry).
            if username = [] then Inl StateUnavailable
            else rbind (usage_total entry) (\<lambda>_. Inr ())) rows
        | _ \<Rightarrow> Inl StateUnavailable))"

definition validate_daily_usage :: "json dict \<Rightarrow> unit res" where
  "validate_daily_usage daily = check_all check_bucket daily"

definition check_setting :: "json dict \<Rightarrow> string \<Rightarrow> int \<Rightarrow> int \<Rightarrow> unit res" where
  "check_setting meta f lo hi = (case map_of meta f of
      None \<Rightarrow> Inr ()
    | Some v \<Rightarrow> rbind (auth_integer v) (\<lambda>n.
        if lo \<le> n \<and> n \<le> hi then Inr () else Inl StateUnavailable))"

definition validate_meta :: "json dict \<Rightarrow> unit res" where
  "validate_meta meta =
     rbind (check_setting meta ''settlement_day'' 1 28) (\<lambda>_.
     rbind (check_setting meta ''cycle_length_days'' CYCLE_LENGTH_MIN CYCLE_LENGTH_MAX) (\<lambda>_.
       let anchor = dget meta ''cycle_anchor_date'' JNull in
       if none_or_empty anchor then Inr ()
       else case anchor of
         JStr s \<Rightarrow> if iso_date_key s then Inr () else Inl StateUnavailable
       | _ \<Rightarrow> Inl StateUnavailable))"

section \<open>Online counts\<close>

definition ONLINE_SNAPSHOT_TTL_SECONDS :: rat where "ONLINE_SNAPSHOT_TTL_SECONDS = 20"
definition ONLINE_RESPONSE_MAX_BYTES :: nat where "ONLINE_RESPONSE_MAX_BYTES = 2 ^ 20"
definition ONLINE_MAX_USERS :: nat where "ONLINE_MAX_USERS = 10000"

definition online_count_of :: "string \<times> json \<Rightarrow> (string \<times> int) res" where
  "online_count_of kv = (if \<not> valid_username (fst kv) then Inl StateUnavailable
     else rbind (auth_integer (snd kv)) (\<lambda>n. Inr (fst kv, n)))"

definition validate_online_counts :: "json \<Rightarrow> (string \<times> int) list res" where
  "validate_online_counts online = (case online of
      JObj d \<Rightarrow> if ONLINE_MAX_USERS < length d then Inl StateUnavailable else collect online_count_of d
    | _ \<Rightarrow> Inl StateUnavailable)"

record reply =
  reply_status :: int
  reply_body :: jfile
  reply_size :: nat

text \<open>
  What the online state of a request depends on: the secret file, the API (its answer to a request
  that carries a secret, or nothing where connecting, sending or reading raised), the snapshot
  files with their sizes, and the clock.
\<close>

record online_env =
  secret_file :: "string res"
  online_api :: "string \<Rightarrow> reply option"
  snapshot_file :: jfile
  snapshot_size :: nat
  metadata_file :: jfile
  metadata_size :: nat
  wall_clock :: pyfloat

definition live_online_counts :: "online_env \<Rightarrow> (checkpoint \<Rightarrow> bool) \<Rightarrow> (string \<times> int) list res" where
  "live_online_counts env expired =
     (if expired BeforeConnect then Inl StateUnavailable
      else rbind (get_api_secret (secret_file env)) (\<lambda>secret.
        case online_api env secret of
          None \<Rightarrow> Inl OSError
        | Some response \<Rightarrow>
            if reply_status response \<noteq> 200 then Inl StateUnavailable
            else if expired AfterResponse then Inl StateUnavailable
            else if ONLINE_RESPONSE_MAX_BYTES < reply_size response then Inl StateUnavailable
            else rbind (strict_json_bytes (reply_body response)) validate_online_counts))"

definition snapshot_online_counts ::
  "(string \<Rightarrow> string) \<Rightarrow> online_env \<Rightarrow> (checkpoint \<Rightarrow> bool) \<Rightarrow> bool \<Rightarrow> (string \<times> int) list res" where
  "snapshot_online_counts hex env expired allow_snapshot =
     (if expired BeforeSnapshot then Inl StateUnavailable
      else if \<not> allow_snapshot then Inl StateUnavailable
      else rbind (load_bounded_json (snapshot_file env) (snapshot_size env) True ONLINE_RESPONSE_MAX_BYTES)
        (\<lambda>snapshot. rbind (load_bounded_json (metadata_file env) (metadata_size env) True 4096)
        (\<lambda>metadata. rbind (validate_fresh_snapshot hex (JObj snapshot) (JObj metadata) (wall_clock env)
            (Fin ONLINE_SNAPSHOT_TTL_SECONDS)) validate_online_counts)))"

text \<open>
  Every failure of the live request falls back to the snapshot; a StateUnavailable or an invalid
  snapshot is reported as StateUnavailable, any other exception of the fallback escapes.
\<close>

definition get_online_counts ::
  "(string \<Rightarrow> string) \<Rightarrow> online_env \<Rightarrow> (checkpoint \<Rightarrow> bool) \<Rightarrow> bool \<Rightarrow> (string \<times> int) list res" where
  "get_online_counts hex env expired allow_snapshot = (case live_online_counts env expired of
      Inr cs \<Rightarrow> Inr cs
    | Inl _ \<Rightarrow> (case snapshot_online_counts hex env expired allow_snapshot of
        Inr cs \<Rightarrow> Inr cs
      | Inl e \<Rightarrow> if e = InvalidOnlineSnapshot then Inl StateUnavailable else Inl e))"

section \<open>One request\<close>

record auth_env =
  users_first :: jfile
  users_again :: jfile
  meta_file :: jfile
  daily_file :: jfile
  multiplier_file :: jfile
  multiplier_env :: "string option"
  deployed_multiplier :: rat
  today_first :: date
  billing_now :: datetime
  today_again :: date
  expired_at :: "checkpoint \<Rightarrow> bool"
  limiter_answer :: limiter
  allow_password :: bool
  online_state :: online_env
  device_lock :: "exc option"
  device_faults :: faults
  device_now :: rat

record crypto =
  kdf :: "string \<Rightarrow> nat list \<Rightarrow> int \<Rightarrow> nat list"
  generation_digest :: "string \<Rightarrow> string"
  hex_sha256 :: "string \<Rightarrow> string"
  iso_datetime :: iso_parser

text \<open>\<^verbatim>\<open>(daily.get(day) or {}).get(username)\<close>.\<close>

definition bucket_entry :: "json dict \<Rightarrow> string \<Rightarrow> string \<Rightarrow> json option res" where
  "bucket_entry daily username day = (case dget daily day JNull of
      JObj rows \<Rightarrow> Inr (map_of rows username)
    | v \<Rightarrow> if truthy v then Inl AttributeError else Inr None)"

definition day_total :: "json dict \<Rightarrow> string \<Rightarrow> string \<Rightarrow> int res" where
  "day_total daily username day = rbind (bucket_entry daily username day) (\<lambda>entry.
     usage_total (case entry of None \<Rightarrow> JInt 0 | Some v \<Rightarrow> v))"

definition billing_state :: "auth_env \<Rightarrow> (json dict \<times> json dict \<times> rat) res" where
  "billing_state env =
     rbind (auth_load_json (meta_file env) True) (\<lambda>meta.
     rbind (auth_load_json (daily_file env) True) (\<lambda>daily.
     rbind (validate_meta meta) (\<lambda>_.
     rbind (validate_daily_usage daily) (\<lambda>_.
     rbind (effective_display_multiplier_strict (multiplier_env env) (deployed_multiplier env)
         (multiplier_file env)) (\<lambda>multiplier. Inr (meta, daily, multiplier))))))"

text \<open>The quota test of a metered user: go on, answer None, or an exception that escapes.\<close>

definition quota_step :: "auth_env \<Rightarrow> json dict \<Rightarrow> string \<Rightarrow> bool res" where
  "quota_step env u username =
     (if \<not> is_metered (JObj u) then Inr True
      else case billing_state env of
          Inl e \<Rightarrow> if e \<in> {StateUnavailable, OSError, ValueError} then Inr False else Inl e
        | Inr (meta, daily, multiplier) \<Rightarrow>
            (case rbind (cycle_days (billing_now env) None JNull None meta) (collect (day_total daily username)) of
               Inl e \<Rightarrow> if e = StateUnavailable then Inr False else Inl e
             | Inr totals \<Rightarrow>
                 rbind (total_quota_bytes (JObj u)) (\<lambda>quota.
                   Inr (\<not> (0 < quota \<and> of_int quota \<le> decimal_times (sum_list totals) multiplier)))))"

text \<open>The device test of a user with a limit.\<close>

definition device_step :: "crypto \<Rightarrow> auth_env \<Rightarrow> json dict \<Rightarrow> string \<Rightarrow> cell \<Rightarrow> bool res \<times> cell" where
  "device_step cr env u username c =
     (case auth_integer (dget u ''max_devices'' (JInt 0)) of
        Inl e \<Rightarrow> (Inl e, c)
      | Inr max_devices \<Rightarrow>
          if max_devices \<le> 0 then (Inr True, c)
          else (case get_online_counts (hex_sha256 cr) (online_state env) (expired_at env) True of
              Inl e \<Rightarrow> (if e = StateUnavailable then Inr False else Inl e, c)
            | Inr cs \<Rightarrow>
                (case reserve_device_admission (device_lock env) (device_faults env)
                    (Reserve username max_devices
                      (case map_of cs username of None \<Rightarrow> 0 | Some n \<Rightarrow> n) (device_now env)) c of
                   (Inl e, c') \<Rightarrow> (if e = StateUnavailable then Inr False else Inl e, c')
                 | (Inr allowed, c') \<Rightarrow> (Inr allowed, c'))))"

text \<open>Reading the user and the digest that binds its credentials and policy.\<close>

definition read_generation ::
  "crypto \<Rightarrow> jfile \<Rightarrow> date \<Rightarrow> string \<Rightarrow> (json dict \<times> string) res" where
  "read_generation cr f today username =
     rbind (auth_load_json f True) (\<lambda>users.
     rbind (validated_authorization_user (iso_datetime cr) users username today) (\<lambda>u.
     rbind (authorization_generation (generation_digest cr) u) (\<lambda>g. Inr (u, g))))"

text \<open>The last step: read again, and compare just before answering.\<close>

definition commit_step :: "crypto \<Rightarrow> auth_env \<Rightarrow> string \<Rightarrow> string \<Rightarrow> string option res" where
  "commit_step cr env username initial_generation =
     (case read_generation cr (users_again env) (today_again env) username of
        Inl e \<Rightarrow> if e = StateUnavailable then Inr None else Inl e
      | Inr (current, current_generation) \<Rightarrow>
          Inr (if expired_at env AtCommit \<or> initial_generation \<noteq> current_generation then None
               else Some username))"

definition authenticate ::
  "crypto \<Rightarrow> auth_env \<Rightarrow> string \<Rightarrow> string \<Rightarrow> cell \<Rightarrow> string option res \<times> cell" where
  "authenticate cr env username password c =
     (if \<not> valid_username username \<or> expired_at env AtEntry then (Inr None, c)
      else case read_generation cr (users_first env) (today_first env) username of
        Inl e \<Rightarrow> (if e = StateUnavailable then Inr None else Inl e, c)
      | Inr (u, initial_generation) \<Rightarrow>
          if \<not> verify_user_credential (kdf cr) u password (expired_at env) (limiter_answer env)
              (allow_password env)
          then (Inr None, c)
          else (case quota_step env u username of
              Inl e \<Rightarrow> (Inl e, c)
            | Inr False \<Rightarrow> (Inr None, c)
            | Inr True \<Rightarrow>
                (case device_step cr env u username c of
                   (Inl e, c') \<Rightarrow> (Inl e, c')
                 | (Inr False, c') \<Rightarrow> (Inr None, c')
                 | (Inr True, c') \<Rightarrow> (commit_step cr env username initial_generation, c'))))"

text \<open>\<^verbatim>\<open>username:secret\<close>, cut at the first colon.\<close>

definition authenticate_payload ::
  "crypto \<Rightarrow> auth_env \<Rightarrow> string \<Rightarrow> cell \<Rightarrow> string option res \<times> cell" where
  "authenticate_payload cr env auth_payload c =
     (case dropWhile (\<lambda>ch. ch \<noteq> CHR '':'') auth_payload of
        [] \<Rightarrow> (Inr None, c)
      | colon # password \<Rightarrow>
          authenticate cr env (takeWhile (\<lambda>ch. ch \<noteq> CHR '':'') auth_payload) password c)"

text \<open>The command line: what is written to standard output, and the exit code.\<close>

definition main_command ::
  "crypto \<Rightarrow> auth_env \<Rightarrow> string list \<Rightarrow> cell \<Rightarrow> (string \<times> int) res \<times> cell" where
  "main_command cr env argv c =
     (if length argv < 3 then (Inr ([], 1), c)
      else case authenticate_payload cr (env\<lparr>allow_password := False\<rparr>) (argv ! 2) c of
          (Inl e, c') \<Rightarrow> (Inl e, c')
        | (Inr None, c') \<Rightarrow> (Inr ([], 1), c')
        | (Inr (Some username), c') \<Rightarrow> (Inr (username, 0), c'))"

section \<open>Readiness\<close>

text \<open>\<^verbatim>\<open>if user_compat.authorization_config_error(cfg): return False\<close>, then the policy fields.\<close>

fun users_ready :: "iso_parser \<Rightarrow> json dict \<Rightarrow> bool res" where
  "users_ready isodt [] = Inr True"
| "users_ready isodt ((username, cfg) # rest) =
     rbind (authorization_config_error isodt cfg) (\<lambda>e.
       if e \<noteq> None then Inr False
       else rbind (check_policy_fields (obj_of cfg)) (\<lambda>_. users_ready isodt rest))"

definition readiness_error :: "bool res \<Rightarrow> bool res" where
  "readiness_error r = (case r of
      Inl e \<Rightarrow> if e \<in> {StateUnavailable, OSError, ValueError} then Inr False else Inl e
    | Inr b \<Rightarrow> Inr b)"

definition authorization_state_ready :: "crypto \<Rightarrow> auth_env \<Rightarrow> bool res" where
  "authorization_state_ready cr env = readiness_error (
     rbind (auth_load_json (users_first env) True) (\<lambda>users.
     rbind (validate_unique_vless_uuids users) (\<lambda>_.
     rbind (users_ready (iso_datetime cr) users) (\<lambda>ready.
       if \<not> ready then Inr False
       else if \<exists>kv \<in> set users. is_metered (snd kv) then rbind (billing_state env) (\<lambda>_. Inr True)
       else Inr True))))"

text \<open>Validating the counts a second time, as the code does, changes nothing.\<close>

definition deep_authorization_state_ready :: "crypto \<Rightarrow> auth_env \<Rightarrow> cell \<Rightarrow> bool res" where
  "deep_authorization_state_ready cr env c =
     rbind (authorization_state_ready cr env) (\<lambda>ready.
       if \<not> ready \<or> expired_at env AtProbe then Inr False
       else (case get_online_counts (hex_sha256 cr) (online_state env) (expired_at env) False of
           Inl e \<Rightarrow> if e = StateUnavailable then Inr False else Inl e
         | Inr _ \<Rightarrow> device_admission_state_ready (device_lock env) (device_faults env)
             (expired_at env AfterProbe) c))"

section \<open>What an accepted request went through\<close>

lemma validated_user_Inr:
  assumes "validated_authorization_user isodt users username today = Inr u"
  shows "validate_unique_vless_uuids users = Inr () \<and> map_of users username = Some (JObj u)
    \<and> authorization_config_error isodt (JObj u) = Inr None \<and> check_policy_fields u = Inr ()
    \<and> \<not> is_inactive (JObj u) today"
proof -
  from assms obtain v where v: "map_of users username = Some v" "validate_unique_vless_uuids users = Inr ()"
    by (auto simp: validated_authorization_user_def rbind_eq_Inr split: option.splits)
  from assms v obtain d where d: "v = JObj d"
    by (cases v) (simp_all add: validated_authorization_user_def)
  from assms v d obtain e where e: "authorization_config_error isodt (JObj d) = Inr e"
    by (auto simp: validated_authorization_user_def rbind_eq_Inr)
  with assms v d have "e = None" by (cases e) (simp_all add: validated_authorization_user_def)
  with assms v d e show ?thesis
    by (auto simp: validated_authorization_user_def rbind_eq_Inr split: if_splits)
qed

lemma generation_Inr:
  "authorization_generation h u = Inr g \<longleftrightarrow> all_finite (JObj u) \<and> g = h (json_text True (JObj u))"
  by (auto simp: authorization_generation_def dumps_def simp del: all_finite.simps json_text.simps)

lemma read_generation_Inr:
  assumes "read_generation cr f today username = Inr (u, g)"
  shows "\<exists>users. auth_load_json f True = Inr users \<and> map_of users username = Some (JObj u)
    \<and> validate_unique_vless_uuids users = Inr () \<and> authorization_config_error (iso_datetime cr) (JObj u) = Inr None
    \<and> check_policy_fields u = Inr () \<and> \<not> is_inactive (JObj u) today
    \<and> all_finite (JObj u) \<and> g = generation_digest cr (json_text True (JObj u))"
proof -
  from assms obtain users where "auth_load_json f True = Inr users"
    "validated_authorization_user (iso_datetime cr) users username today = Inr u"
    "authorization_generation (generation_digest cr) u = Inr g"
    by (auto simp: read_generation_def rbind_eq_Inr)
  with validated_user_Inr [OF this(2)] show ?thesis unfolding generation_Inr by blast
qed

lemma authenticate_accept:
  assumes a: "authenticate cr env username password c = (Inr (Some name), c')"
  obtains u g where "valid_username username" "read_generation cr (users_first env) (today_first env) username = Inr (u, g)"
    "verify_user_credential (kdf cr) u password (expired_at env) (limiter_answer env) (allow_password env)"
    "quota_step env u username = Inr True" "device_step cr env u username c = (Inr True, c')"
    "commit_step cr env username g = Inr (Some name)"
proof -
  have v: "valid_username username" "\<not> expired_at env AtEntry"
    using a unfolding authenticate_def by (meson option.distinct(1) prod.inject sum.inject(2))+
  obtain u g where u: "read_generation cr (users_first env) (today_first env) username = Inr (u, g)"
    using a v by (cases "read_generation cr (users_first env) (today_first env) username")
      (simp_all add: authenticate_def split: if_splits prod.splits)
  have w: "verify_user_credential (kdf cr) u password (expired_at env) (limiter_answer env) (allow_password env)"
    using a v u unfolding authenticate_def by (simp split: if_splits)
  have q: "quota_step env u username = Inr True"
    using a v u w by (cases "quota_step env u username") (simp_all add: authenticate_def split: bool.splits)
  obtain r c1 where d: "device_step cr env u username c = (r, c1)" by fastforce
  have "r = Inr True" using a v u w q d
    by (cases r) (simp_all add: authenticate_def split: bool.splits)
  with a v u w q d have "c1 = c'" "commit_step cr env username g = Inr (Some name)"
    by (simp_all add: authenticate_def)
  with v u w q d \<open>r = Inr True\<close> that show ?thesis by simp
qed

lemma commit_step_Some:
  assumes "commit_step cr env username g = Inr (Some name)"
  shows "name = username \<and> \<not> expired_at env AtCommit
    \<and> (\<exists>u. read_generation cr (users_again env) (today_again env) username = Inr (u, g))"
  using assms by (auto simp: commit_step_def split: sum.splits if_splits)

lemma verified_credential:
  assumes "verify_user_credential k u password expired limiter allow"
  shows "password \<noteq> [] \<and> password = secret_field u ''sub_token''
    \<or> allow \<and> limiter \<in> {NoLimiter, Leased} \<and> verify_password_hash k password (secret_field u ''password_hash'')"
  using assms
  by (cases limiter) (auto simp: verify_user_credential_def Let_def bounded_utf8_def split: option.splits if_splits)

section \<open>Properties\<close>

text \<open>
  C1. Whoever is let in is who the state says. When a request is accepted, the answer is its own
  user name; the user is in both readings of the user file, active on the day of each, no other
  user of the file has an invalid name or shares a static credential; the secret is the user's
  token, or its password under a lease of the limiter; the record that was checked and the one
  read just before the answer have the same digest, and the deadline had not passed.
\<close>

theorem authenticate_sound:
  assumes "authenticate cr env username password c = (Inr (Some name), c')"
  shows "name = username \<and> valid_username username \<and> \<not> expired_at env AtCommit
    \<and> (\<exists>users u users' u'.
        auth_load_json (users_first env) True = Inr users \<and> map_of users username = Some (JObj u)
        \<and> auth_load_json (users_again env) True = Inr users' \<and> map_of users' username = Some (JObj u')
        \<and> validate_unique_vless_uuids users = Inr () \<and> validate_unique_vless_uuids users' = Inr ()
        \<and> \<not> is_inactive (JObj u) (today_first env) \<and> \<not> is_inactive (JObj u') (today_again env)
        \<and> generation_digest cr (json_text True (JObj u)) = generation_digest cr (json_text True (JObj u'))
        \<and> (password \<noteq> [] \<and> password = secret_field u ''sub_token''
           \<or> allow_password env \<and> limiter_answer env \<in> {NoLimiter, Leased}
             \<and> verify_password_hash (kdf cr) password (secret_field u ''password_hash'')))"
proof -
  from assms obtain u g where u: "valid_username username"
    "read_generation cr (users_first env) (today_first env) username = Inr (u, g)"
    "verify_user_credential (kdf cr) u password (expired_at env) (limiter_answer env) (allow_password env)"
    "commit_step cr env username g = Inr (Some name)"
    by (rule authenticate_accept)
  from commit_step_Some [OF u(4)] obtain u' where
    u': "name = username" "\<not> expired_at env AtCommit"
      "read_generation cr (users_again env) (today_again env) username = Inr (u', g)" by blast
  from read_generation_Inr [OF u(2)] read_generation_Inr [OF u'(3)] verified_credential [OF u(3)] u(1) u'(1,2)
  show ?thesis by blast
qed

text \<open>
  C2. Quotas and device limits are enforced on everyone who is let in. A metered user's usage over
  the days of the current cycle, billed exactly, was below its quota (a quota of zero is none); a
  user with a device limit holds a reservation that this request made in the ledger.
\<close>

theorem authenticate_enforces_limits:
  assumes "authenticate cr env username password c = (Inr (Some name), c')"
    and "auth_load_json (users_first env) True = Inr users" and "map_of users username = Some (JObj u)"
  shows "(is_metered (JObj u) \<longrightarrow> (\<exists>meta daily multiplier days totals quota.
        billing_state env = Inr (meta, daily, multiplier)
        \<and> cycle_days (billing_now env) None JNull None meta = Inr days
        \<and> collect (day_total daily username) days = Inr totals \<and> total_quota_bytes (JObj u) = Inr quota
        \<and> (0 < quota \<longrightarrow> decimal_times (sum_list totals) multiplier < of_int quota)))
    \<and> (\<forall>n. auth_integer (dget u ''max_devices'' (JInt 0)) = Inr n \<longrightarrow> 0 < n \<longrightarrow>
        (\<exists>seen_online. reserve_device_admission (device_lock env) (device_faults env)
           (Reserve username n seen_online (device_now env)) c = (Inr True, c')))"
proof -
  from assms(1) obtain u0 g where u: "read_generation cr (users_first env) (today_first env) username = Inr (u0, g)"
    "quota_step env u0 username = Inr True" "device_step cr env u0 username c = (Inr True, c')"
    by (rule authenticate_accept)
  from read_generation_Inr [OF u(1)] assms(2,3) have [simp]: "u0 = u" by auto
  have "\<exists>meta daily multiplier days totals quota.
        billing_state env = Inr (meta, daily, multiplier)
        \<and> cycle_days (billing_now env) None JNull None meta = Inr days
        \<and> collect (day_total daily username) days = Inr totals \<and> total_quota_bytes (JObj u) = Inr quota
        \<and> (0 < quota \<longrightarrow> decimal_times (sum_list totals) multiplier < of_int quota)" if "is_metered (JObj u)"
    using u(2) that
    by (auto simp: quota_step_def rbind_eq_Inr not_le split: sum.splits if_splits)
  moreover have "\<exists>seen_online. reserve_device_admission (device_lock env) (device_faults env)
           (Reserve username n seen_online (device_now env)) c = (Inr True, c')"
    if "auth_integer (dget u ''max_devices'' (JInt 0)) = Inr n" "0 < n" for n
    using u(3) that by (auto simp: device_step_def split: sum.splits if_splits prod.splits)
  ultimately show ?thesis by blast
qed

text \<open>
  Only a request that has proved who it is can touch the device ledger: a wrong or missing
  credential, an exhausted quota, or a user without a device limit leaves the ledger as it is, so
  that nobody else can use up a user's device slots.
\<close>

theorem ledger_untouched:
  assumes "authenticate cr env username password c = (r, c')" and "c' \<noteq> c"
  shows "\<exists>u g n. read_generation cr (users_first env) (today_first env) username = Inr (u, g)
    \<and> verify_user_credential (kdf cr) u password (expired_at env) (limiter_answer env) (allow_password env)
    \<and> quota_step env u username = Inr True
    \<and> auth_integer (dget u ''max_devices'' (JInt 0)) = Inr n \<and> 0 < n"
proof -
  have v: "valid_username username" "\<not> expired_at env AtEntry"
    using assms unfolding authenticate_def by (metis prod.inject)+
  obtain u g where u: "read_generation cr (users_first env) (today_first env) username = Inr (u, g)"
    using assms v by (cases "read_generation cr (users_first env) (today_first env) username")
      (auto simp: authenticate_def)
  have w: "verify_user_credential (kdf cr) u password (expired_at env) (limiter_answer env) (allow_password env)"
    using assms v u unfolding authenticate_def by (auto split: if_splits)
  have q: "quota_step env u username = Inr True"
    using assms v u w by (cases "quota_step env u username") (auto simp: authenticate_def split: bool.splits)
  obtain r1 c1 where d: "device_step cr env u username c = (r1, c1)" by fastforce
  have "c1 = c'" using assms(1) v u w q d
    by (cases r1) (auto simp: authenticate_def split: bool.splits)
  with d assms(2) have "\<exists>n. auth_integer (dget u ''max_devices'' (JInt 0)) = Inr n \<and> 0 < n"
    by (cases "auth_integer (dget u ''max_devices'' (JInt 0))") (auto simp: device_step_def split: if_splits)
  with u w q show ?thesis by blast
qed

lemma users_ready_all:
  "users_ready isodt users = Inr True \<Longrightarrow> (u, cfg) \<in> set users \<Longrightarrow>
     authorization_config_error isodt cfg = Inr None \<and> check_policy_fields (obj_of cfg) = Inr ()"
  by (induction isodt users rule: users_ready.induct) (auto simp: rbind_eq_Inr split: if_splits)

lemma ready_users:
  assumes "authorization_state_ready cr env = Inr True"
  shows "\<exists>users. auth_load_json (users_first env) True = Inr users \<and> validate_unique_vless_uuids users = Inr ()
    \<and> users_ready (iso_datetime cr) users = Inr True"
  using assms
  by (auto simp: authorization_state_ready_def readiness_error_def rbind_eq_Inr rbind_def split: sum.splits if_splits)

text \<open>
  The readiness probe means something: when it answers yes and a request then sees the same
  user file, every user who is neither inactive nor metered nor limited gets in with the token,
  in time, whatever the state of the ledgers and the API.
\<close>

theorem ready_means_service:
  assumes ready: "authorization_state_ready cr env = Inr True"
    and users: "auth_load_json (users_first env) True = Inr users" and u: "map_of users username = Some (JObj u)"
    and active: "\<not> is_inactive (JObj u) (today_first env)" "\<not> is_inactive (JObj u) (today_again env)"
    and free: "\<not> is_metered (JObj u)" "auth_integer (dget u ''max_devices'' (JInt 0)) = Inr 0"
    and token: "map_of u ''sub_token'' = Some (JStr password)" "password \<noteq> []"
      "length password \<le> AUTH_SECRET_MAX_CHARS"
    and same: "users_again env = users_first env" and finite: "all_finite (JObj u)"
    and time: "\<not> expired_at env AtEntry" "\<not> expired_at env AtCommit"
  shows "authenticate cr env username password c = (Inr (Some username), c)"
proof -
  from ready_users [OF ready] users have ok: "validate_unique_vless_uuids users = Inr ()"
    "users_ready (iso_datetime cr) users = Inr True" by auto
  have in_users: "(username, JObj u) \<in> set users" using u by (rule map_of_SomeD)
  from users_ready_all [OF ok(2) this] have e: "authorization_config_error (iso_datetime cr) (JObj u) = Inr None"
    "check_policy_fields u = Inr ()" by (simp_all add: obj_of_def)
  have name: "valid_username username"
    using unique_uuids_sound [of users "[]"] ok(1) in_users by (auto simp: validate_unique_vless_uuids_def)
  let ?g = "generation_digest cr (json_text True (JObj u))"
  have digest: "authorization_generation (generation_digest cr) u = Inr ?g"
    using finite by (simp only: generation_Inr)
  have gen: "read_generation cr (users_first env) t username = Inr (u, ?g)" if "\<not> is_inactive (JObj u) t" for t
    using that users u ok(1) e finite
    by (simp add: read_generation_def validated_authorization_user_def digest
        del: all_finite.simps json_text.simps)
  have "verify_user_credential (kdf cr) u password (expired_at env) (limiter_answer env) (allow_password env)"
    using token by (simp add: verify_user_credential_def secret_field_def dget_def bounded_utf8_def)
  moreover have "quota_step env u username = Inr True" using free(1) by (simp add: quota_step_def)
  moreover have "device_step cr env u username c = (Inr True, c)" using free(2) by (simp add: device_step_def)
  moreover have "commit_step cr env username ?g = Inr (Some username)"
    using gen [OF active(2)] same time(2) by (simp add: commit_step_def)
  ultimately show ?thesis using gen [OF active(1)] name time(1) by (simp add: authenticate_def)
qed

lemma collect_le:
  assumes "collect f days = Inr xs" and "collect g days = Inr ys"
    and "\<And>k x y. k \<in> set days \<Longrightarrow> f k = Inr x \<Longrightarrow> g k = Inr y \<Longrightarrow> x \<le> (y :: int)"
  shows "sum_list xs \<le> sum_list ys"
  using assms
proof (induction days arbitrary: xs ys)
  case (Cons k ks)
  then obtain x xs' y ys' where "f k = Inr x" "collect f ks = Inr xs'" "xs = x # xs'"
    "g k = Inr y" "collect g ks = Inr ys'" "ys = y # ys'" by (auto simp: rbind_eq_Inr)
  moreover have "sum_list xs' \<le> sum_list ys'"
    using calculation by (intro Cons.IH [OF _ _ Cons.prems(3)]) auto
  ultimately show ?case using Cons.prems(3) [of k x y] by simp
qed simp

lemma billing_state_multiplier:
  assumes "billing_state env = Inr (meta, daily, multiplier)" and "multiplier_ok (deployed_multiplier env)"
  shows "multiplier_ok multiplier"
  using assms
  by (auto simp: billing_state_def rbind_eq_Inr effective_display_multiplier_strict_def
      runtime_display_multiplier_strict_def parse_optional_display_multiplier_def
      split: option.splits list.splits jfile.splits json.splits if_splits dest: in_range_ok)

text \<open>
  More usage never opens a closed door: if a metered user passes the quota test, it also
  passes with any daily ledger that counts no more for it on each day of the cycle.
\<close>

theorem quota_step_monotone:
  assumes "quota_step env u username = Inr True" and "multiplier_ok (deployed_multiplier env)"
    and bill: "billing_state env = Inr (meta, daily, multiplier)"
    and bill': "billing_state env' = Inr (meta, daily', multiplier)" and now: "billing_now env' = billing_now env"
    and days: "cycle_days (billing_now env) None JNull None meta = Inr days"
    and totals: "collect (day_total daily' username) days = Inr totals'"
    and less: "\<And>k n n'. k \<in> set days \<Longrightarrow> day_total daily username k = Inr n \<Longrightarrow>
      day_total daily' username k = Inr n' \<Longrightarrow> n' \<le> n"
  shows "quota_step env' u username = Inr True"
proof (cases "is_metered (JObj u)")
  case False
  then show ?thesis by (simp add: quota_step_def)
next
  case True
  from assms(1) True bill days obtain totals quota where t: "collect (day_total daily username) days = Inr totals"
    "total_quota_bytes (JObj u) = Inr quota" "0 < quota \<Longrightarrow> decimal_times (sum_list totals) multiplier < of_int quota"
    by (auto simp: quota_step_def rbind_eq_Inr not_le split: sum.splits if_splits)
  have m: "0 \<le> multiplier"
    using multiplier_ok_pos [OF billing_state_multiplier [OF bill assms(2)]] by simp
  have "sum_list totals' \<le> sum_list totals" by (rule collect_le [OF totals t(1)]) (rule less)
  then have "decimal_times (sum_list totals') multiplier \<le> decimal_times (sum_list totals) multiplier"
    by (rule decimal_times_mono [OF m])
  with t(2,3) True bill' now days totals show ?thesis
    by (auto simp: quota_step_def)
qed

lemma uuid_clash:
  "unique_uuids users seen_uuids = Inr () \<Longrightarrow> (b, JObj d) \<in> set users \<Longrightarrow>
     dget d ''vless_uuid'' JNull = JStr t \<Longrightarrow> t \<noteq> [] \<Longrightarrow> uuid_value t = Some n \<Longrightarrow> n \<notin> set seen_uuids"
  using unique_uuids_sound by blast

lemma unique_uuids_pairwise:
  assumes "unique_uuids users seen_uuids = Inr ()" and "(a, JObj d) \<in> set users" and "(b, JObj d') \<in> set users"
    and "a \<noteq> b" and s: "dget d ''vless_uuid'' JNull = JStr s" "s \<noteq> []" "uuid_value s = Some n"
    and t: "dget d' ''vless_uuid'' JNull = JStr t" "t \<noteq> []" "uuid_value t = Some n"
  shows False
  using assms(1-3)
proof (induction users seen_uuids rule: unique_uuids.induct)
  case (2 username cfg rest seen_uuids)
  from "2.prems"(1) obtain d0 where d0: "cfg = JObj d0" "valid_username username"
    by (auto split: if_splits json.splits)
  show ?case
  proof (cases "none_or_empty (dget d0 ''vless_uuid'' JNull)")
    case True
    with "2.prems" d0 have rest: "unique_uuids rest seen_uuids = Inr ()" by simp
    have "d0 \<noteq> d" "d0 \<noteq> d'" using True s t by (auto simp: none_or_empty_def)
    with "2.prems"(2,3) d0 have "(a, JObj d) \<in> set rest" "(b, JObj d') \<in> set rest" by auto
    with "2.IH"(1) [OF _ d0(1) refl True rest] d0(2) show ?thesis by blast
  next
    case False
    with "2.prems"(1) d0 obtain r m where r: "dget d0 ''vless_uuid'' JNull = JStr r" "uuid_value r = Some m"
      "m \<notin> set seen_uuids" and rest: "unique_uuids rest (m # seen_uuids) = Inr ()"
      by (auto split: json.splits option.splits if_splits)
    consider "(a, JObj d) \<in> set rest" "(b, JObj d') \<in> set rest" | "d0 = d" "(b, JObj d') \<in> set rest"
      | "d0 = d'" "(a, JObj d) \<in> set rest"
      using "2.prems"(2,3) d0(1) assms(4) by auto
    then show ?thesis
    proof cases
      case 1
      with "2.IH"(2) [OF _ d0(1) refl False r(1,2,3) rest] d0(2) show ?thesis by blast
    next
      case 2
      with uuid_clash [OF rest 2(2) t] r s show ?thesis by simp
    next
      case 3
      with uuid_clash [OF rest 3(2) s] r t show ?thesis by simp
    qed
  qed
qed simp

text \<open>
  A static credential belongs to one user: in a user file that passes validation, two users
  whose VLESS identifiers denote the same UUID, however they are written, are the same user.
\<close>

theorem static_credential_unique:
  assumes "validate_unique_vless_uuids users = Inr ()"
    and "map_of users a = Some (JObj d)" and "map_of users b = Some (JObj d')"
    and "dget d ''vless_uuid'' JNull = JStr s" "s \<noteq> []" "uuid_value s = Some n"
    and "dget d' ''vless_uuid'' JNull = JStr t" "t \<noteq> []" "uuid_value t = Some n"
  shows "a = b"
  using unique_uuids_pairwise [OF _ map_of_SomeD [OF assms(2)] map_of_SomeD [OF assms(3)] _ assms(4-9)]
    assms(1) by (auto simp: validate_unique_vless_uuids_def)

theorem static_credential_unique_witness:
  "(''ann'' :: string) = ''ann'' \<and> validate_unique_vless_uuids
     [(''ann'', JObj [(''vless_uuid'', JStr ''00000000-0000-0000-0000-00000000000A'')])] = Inr ()"
proof -
  let ?d = "[(''vless_uuid'', JStr ''00000000-0000-0000-0000-00000000000A'')]"
  have v: "uuid_value ''00000000-0000-0000-0000-00000000000A'' = Some 10" by code_simp
  have ok: "validate_unique_vless_uuids [(''ann'', JObj ?d)] = Inr ()"
    using v by (simp add: validate_unique_vless_uuids_def py_eval)
  have u: "map_of [(''ann'', JObj ?d)] ''ann'' = Some (JObj ?d)"
    and g: "dget ?d ''vless_uuid'' JNull = JStr ''00000000-0000-0000-0000-00000000000A''"
    by (simp_all add: dget_def)
  from static_credential_unique [OF ok u u g _ v g _ v] ok show ?thesis by simp
qed

section \<open>The properties at concrete inputs\<close>

declare auth_load_json_def [py_eval] validated_authorization_user_def [py_eval]
  validate_unique_vless_uuids_def [py_eval] check_policy_fields_def [py_eval]
  iso_date_key_def [py_eval] check_bucket_def [py_eval] validate_daily_usage_def [py_eval]
  check_setting_def [py_eval] validate_meta_def [py_eval] usage_total_def [py_eval]

text \<open>
  A user with a quota of 100 and a limit of two devices, who has used 30 bytes today, billed
  double; the cycle began today. The online API answers that nobody is connected.
\<close>

definition demo_user :: "json dict" where
  "demo_user = [(''sub_token'', JStr ''tok''), (''metered'', JBool True), (''monthly_quota_bytes'', JInt 100),
     (''max_devices'', JInt 2)]"

definition demo_users :: rawjson where
  "demo_users = RObj [(''ann'', RObj [(''sub_token'', RStr ''tok''), (''metered'', RBool True),
     (''monthly_quota_bytes'', RInt 100), (''max_devices'', RInt 2)])]"

definition demo_env :: auth_env where
  "demo_env = \<lparr>users_first = Doc demo_users, users_again = Doc demo_users,
     meta_file = Doc (RObj [(''cycle_anchor_date'', RStr ''2026-05-20'')]),
     daily_file = Doc (RObj [(''2026-05-20'', RObj [(''ann'', RInt 30)])]),
     multiplier_file = Doc (RObj [(''multiplier'', RFloat (Fin 2))]), multiplier_env = None, deployed_multiplier = 1,
     today_first = YMD 2026 5 20, billing_now = DT (YMD 2026 5 20) 0 None, today_again = YMD 2026 5 20,
     expired_at = (\<lambda>_. False), limiter_answer = NoLimiter, allow_password = False,
     online_state = \<lparr>secret_file = Inr ''s'',
       online_api = (\<lambda>_. Some \<lparr>reply_status = 200, reply_body = Doc (RObj []), reply_size = 2\<rparr>),
       snapshot_file = Missing, snapshot_size = 0, metadata_file = Missing, metadata_size = 0, wall_clock = Fin 2\<rparr>,
     device_lock = None, device_faults = (\<lambda>_. False), device_now = 2\<rparr>"

definition demo_crypto :: crypto where
  "demo_crypto = \<lparr>kdf = (\<lambda>p s n. []), generation_digest = (\<lambda>t. t), hex_sha256 = (\<lambda>t. t),
     iso_datetime = (\<lambda>_. None)\<rparr>"

lemma demo_config: "authorization_config_error isodt (JObj demo_user) = Inr None"
  by (simp add: demo_user_def authorization_config_error_def py_eval)

lemma demo_users_load: "auth_load_json (Doc demo_users) True = Inr [(''ann'', JObj demo_user)]"
  by (simp add: demo_users_def demo_user_def py_eval)

lemma demo_generation:
  "read_generation cr (Doc demo_users) (YMD 2026 5 20) ''ann''
   = Inr (demo_user, generation_digest cr (json_text True (JObj demo_user)))"
proof -
  have "validated_authorization_user (iso_datetime cr) [(''ann'', JObj demo_user)] ''ann'' (YMD 2026 5 20) = Inr demo_user"
    unfolding validated_authorization_user_def
    by (simp add: demo_config) (simp add: demo_user_def py_eval is_alpha_def is_digit_def ends_with_def)
  moreover have "authorization_generation h demo_user = Inr (h (json_text True (JObj demo_user)))" for h
    by (simp only: generation_Inr) (simp add: demo_user_def)
  ultimately show ?thesis by (simp add: read_generation_def demo_users_load)
qed

lemma demo_days: "cycle_days (DT (YMD 2026 5 20) 0 None) None JNull None [(''cycle_anchor_date'', JStr ''2026-05-20'')]
   = Inr [''2026-05-20'']"
  by (simp add: py_eval)

lemma demo_billing:
  "billing_state demo_env = Inr ([(''cycle_anchor_date'', JStr ''2026-05-20'')],
     [(''2026-05-20'', JObj [(''ann'', JInt 30)])], 2)"
proof -
  have two: "in_range (Some (Fin 2)) = Some 2"
    using multiplier_min_bounds by (simp add: in_range_def DISPLAY_MULTIPLIER_MAX_def)
  have k: "iso_date_key ''2026-05-20''" by (simp add: py_eval)
  have m: "effective_display_multiplier_strict None 1 (Doc (RObj [(''multiplier'', RFloat (Fin 2))])) = Inr 2"
    by (simp add: effective_display_multiplier_strict_def runtime_display_multiplier_strict_def dget_def
        dict_of_pairs_def parse_optional_display_multiplier_def float_of_text_def two)
  show ?thesis
    by (simp add: billing_state_def demo_env_def auth_load_json_def dict_of_pairs_def validate_meta_def
        check_setting_def dget_def none_or_empty_def k validate_daily_usage_def check_bucket_def usage_total_def
        non_negative_integer_def m)
qed

lemma demo_quota: "quota_step demo_env demo_user ''ann'' = Inr True"
proof -
  have d: "day_total [(''2026-05-20'', JObj [(''ann'', JInt 30)])] ''ann'' ''2026-05-20'' = Inr 30"
    by (simp add: day_total_def bucket_entry_def dget_def usage_total_def non_negative_integer_def)
  have t: "decimal_times 30 2 = 60" by code_simp
  have now: "billing_now demo_env = DT (YMD 2026 5 20) 0 None" by (simp add: demo_env_def)
  have q: "total_quota_bytes (JObj demo_user) = Inr 100" "is_metered (JObj demo_user)"
    by (simp_all add: demo_user_def py_eval)
  show ?thesis
    unfolding quota_step_def demo_billing now by (simp add: demo_days d t q)
qed

definition demo_cell :: cell where
  "demo_cell = quiet (Doc (raw_of_json (JObj
     [(''ann'', JObj [(''observed'', JInt 0), (''pending'', JList [JFloat (Fin 2)])])])))"

lemma demo_device: "device_step demo_crypto demo_env demo_user ''ann'' (quiet Missing) = (Inr True, demo_cell)"
proof -
  let ?d = "[(''ann'', JObj [(''observed'', JInt 0), (''pending'', JList [JFloat (Fin 2)])])]"
  have size: "length (ledger_text ?d) = 39" "length (ledger_text []) = 3" by code_simp+
  have load: "cell_load check_ledger Missing = Inr []"
    using size by (simp add: cell_load_def load_dict_def load_json_strict_def obj_of_def check_ledger_def
        load_admissions_def DEVICE_ADMISSION_MAX_BYTES_def raise_if_def)
  have body: "reserve_body (Reserve ''ann'' 2 0 2) [] = (Inr True, Some ?d)"
    by (simp add: reserve_body_def load_admissions_def reserve_ledger_def live_admissions_def small_floats
        ledger_json_def admission_json_def Let_def)
  have "reserve_device_admission None (\<lambda>_. False) (Reserve ''ann'' 2 0 2) (quiet Missing) = (Inr True, demo_cell)"
    using size by (simp add: reserve_device_admission_def reserve_guard_def transact_def txn_def quiet_def load body
        save_device_admissions_def DEVICE_ADMISSION_MAX_BYTES_def write_atomic_def demo_cell_def)
  moreover have "get_online_counts h (online_state demo_env) (expired_at demo_env) True = Inr []" for h
    by (simp add: get_online_counts_def live_online_counts_def demo_env_def get_api_secret_def py_strip_def
        strip_with_def py_space_def API_SECRET_PLACEHOLDER_def ONLINE_RESPONSE_MAX_BYTES_def strict_json_bytes_def
        dict_of_pairs_def validate_online_counts_def)
  ultimately show ?thesis
    by (simp add: device_step_def demo_user_def dget_def non_negative_integer_def demo_env_def)
qed

lemma demo_authenticated:
  "authenticate demo_crypto demo_env ''ann'' ''tok'' (quiet Missing) = (Inr (Some ''ann''), demo_cell)"
proof -
  have f: "users_first demo_env = Doc demo_users" "users_again demo_env = Doc demo_users"
    "today_first demo_env = YMD 2026 5 20" "today_again demo_env = YMD 2026 5 20" "expired_at demo_env = (\<lambda>_. False)"
    by (simp_all add: demo_env_def)
  have name: "valid_username ''ann''" by (simp add: py_eval is_alpha_def ends_with_def)
  have v: "verify_user_credential (kdf demo_crypto) demo_user ''tok'' (expired_at demo_env) (limiter_answer demo_env)
      (allow_password demo_env)"
    by (simp add: verify_user_credential_def demo_user_def secret_field_def dget_def bounded_utf8_def
        AUTH_SECRET_MAX_CHARS_def)
  have c: "commit_step demo_crypto demo_env ''ann'' (generation_digest demo_crypto (json_text True (JObj demo_user)))
      = Inr (Some ''ann'')"
    by (simp add: commit_step_def f demo_generation)
  show ?thesis
    unfolding authenticate_def by (simp only: f demo_generation name v [unfolded f] demo_quota demo_device c
        sum.case prod.case bool.case if_False if_True not_True_eq_False simp_thms)
qed

theorem authenticate_sound_witness: "\<not> expired_at demo_env AtCommit \<and> valid_username ''ann''"
  using authenticate_sound [OF demo_authenticated] by blast

theorem authenticate_enforces_limits_witness:
  "\<exists>seen_online. reserve_device_admission (device_lock demo_env) (device_faults demo_env)
     (Reserve ''ann'' 2 seen_online (device_now demo_env)) (quiet Missing) = (Inr True, demo_cell)"
proof -
  have "auth_load_json (users_first demo_env) True = Inr [(''ann'', JObj demo_user)]"
    using demo_users_load by (simp add: demo_env_def)
  from authenticate_enforces_limits [OF demo_authenticated this]
  show ?thesis by (simp add: demo_user_def dget_def non_negative_integer_def)
qed

theorem ledger_untouched_witness: "\<exists>u g. read_generation demo_crypto (users_first demo_env) (today_first demo_env) ''ann'' = Inr (u, g)
    \<and> quota_step demo_env u ''ann'' = Inr True"
proof -
  have "demo_cell \<noteq> quiet Missing" by (simp add: demo_cell_def quiet_def)
  from ledger_untouched [OF demo_authenticated this] show ?thesis by blast
qed

theorem quota_step_monotone_witness:
  "quota_step (demo_env\<lparr>daily_file := Doc (RObj [])\<rparr>) demo_user ''ann'' = Inr True"
proof -
  have k: "effective_display_multiplier_strict None 1 (Doc (RObj [(''multiplier'', RFloat (Fin 2))])) = Inr 2"
    "validate_meta [(''cycle_anchor_date'', JStr ''2026-05-20'')] = Inr ()"
    using demo_billing
    by (simp_all add: billing_state_def demo_env_def rbind_eq_Inr auth_load_json_def dict_of_pairs_def)
  have b: "billing_state (demo_env\<lparr>daily_file := Doc (RObj [])\<rparr>)
      = Inr ([(''cycle_anchor_date'', JStr ''2026-05-20'')], [], 2)"
    using k by (simp add: billing_state_def demo_env_def auth_load_json_def dict_of_pairs_def validate_daily_usage_def)
  have m: "multiplier_ok (deployed_multiplier demo_env)"
    using multiplier_min_bounds by (simp add: demo_env_def multiplier_ok_def DISPLAY_MULTIPLIER_MAX_def)
  have d: "cycle_days (billing_now demo_env) None JNull None [(''cycle_anchor_date'', JStr ''2026-05-20'')]
      = Inr [''2026-05-20'']" using demo_days by (simp add: demo_env_def)
  have z: "day_total [] ''ann'' ''2026-05-20'' = Inr 0"
    by (simp add: day_total_def bucket_entry_def dget_def usage_total_def non_negative_integer_def)
  have t: "collect (day_total [] ''ann'') [''2026-05-20''] = Inr [0]" by (simp add: z)
  have x: "day_total [(''2026-05-20'', JObj [(''ann'', JInt 30)])] ''ann'' ''2026-05-20'' = Inr 30"
    by (simp add: day_total_def bucket_entry_def dget_def usage_total_def non_negative_integer_def)
  show ?thesis
    by (rule quota_step_monotone [OF demo_quota m demo_billing b _ d t]) (auto simp: z x)
qed

text \<open>An unmetered user without limits, for the readiness probe.\<close>

definition plain_user :: "json dict" where "plain_user = [(''sub_token'', JStr ''tok'')]"

definition plain_env :: auth_env where
  "plain_env = demo_env\<lparr>users_first := Doc (RObj [(''bob'', RObj [(''sub_token'', RStr ''tok'')])]),
     users_again := Doc (RObj [(''bob'', RObj [(''sub_token'', RStr ''tok'')])])\<rparr>"

theorem ready_means_service_witness:
  "authenticate demo_crypto plain_env ''bob'' ''tok'' (quiet Unreadable) = (Inr (Some ''bob''), quiet Unreadable)"
proof -
  have l: "auth_load_json (users_first plain_env) True = Inr [(''bob'', JObj plain_user)]"
    by (simp add: plain_env_def plain_user_def auth_load_json_def dict_of_pairs_def)
  have name: "valid_username ''bob''" by (simp add: py_eval is_alpha_def ends_with_def)
  have cfg: "authorization_config_error isodt (JObj plain_user) = Inr None" for isodt
    by (simp add: plain_user_def authorization_config_error_def py_eval)
  have p: "check_policy_fields plain_user = Inr ()" "\<not> is_metered (JObj plain_user)"
    "\<not> is_inactive (JObj plain_user) t" for t
    by (simp_all add: plain_user_def py_eval)
  have "validate_unique_vless_uuids [(''bob'', JObj plain_user)] = Inr ()"
    using name by (simp add: validate_unique_vless_uuids_def plain_user_def py_eval)
  with cfg p have "authorization_state_ready demo_crypto plain_env = Inr True"
    by (simp add: authorization_state_ready_def l readiness_error_def obj_of_def)
  from ready_means_service [OF this l, of "''bob''" plain_user "''tok''" "quiet Unreadable"]
  show ?thesis
    using p by (simp add: plain_user_def plain_env_def demo_env_def dget_def non_negative_integer_def
        AUTH_SECRET_MAX_CHARS_def)
qed

end
