(* ===== verification/ReloadMarker.thy ===== *)
theory ReloadMarker
  imports StaticAccess "HOL-Library.Multiset"
begin

text \<open>
  The reload lifecycle that \<^verbatim>\<open>xray_config.py\<close> and \<^verbatim>\<open>tuic_config.py\<close> share: a token written before the
  configuration file, a scheduled worker that restarts the service and acknowledges the token, and
  the fail-closed stop on any failure. The state of one proxy is its configuration file, its token
  file and its systemd service.
\<close>

section \<open>The token file\<close>

record managed =
  live_config :: cell
  reload_marker :: cell
  service :: svc

definition has_reload_pending :: "managed \<Rightarrow> bool" where
  "has_reload_pending m \<longleftrightarrow> seen (reload_marker m) \<noteq> Missing"

definition token_doc :: "string \<Rightarrow> jfile" where
  "token_doc token = Doc (RStr (token @ [CHR 0x0A]))"

text \<open>The text of the token file, stripped; \<open>None\<close> where reading it raises.\<close>

definition marker_text :: "jfile \<Rightarrow> string option" where
  "marker_text f = (case f of Doc (RStr s) \<Rightarrow> Some (py_strip s) | _ \<Rightarrow> None)"

definition mark_reload_pending :: "faults \<Rightarrow> string \<Rightarrow> managed \<Rightarrow> exc option \<times> managed" where
  "mark_reload_pending fails token m =
     (case save_text_atomic fails (token_doc token) (reload_marker m) of
        (e, c) \<Rightarrow> (e, m\<lparr>reload_marker := c\<rparr>))"

text \<open>\<^verbatim>\<open>str.isdigit\<close> also accepts the three superscript digits of Latin-1.\<close>

definition py_isdigit :: "char \<Rightarrow> bool" where
  "py_isdigit ch \<longleftrightarrow> is_digit ch \<or> ch \<in> set [CHR 0xB2, CHR 0xB3, CHR 0xB9]"

definition valid_reload_token :: "string \<Rightarrow> bool" where
  "valid_reload_token token =
     (let stamp = takeWhile (\<lambda>ch. ch \<noteq> CHR ''-'') token
      in case dropWhile (\<lambda>ch. ch \<noteq> CHR ''-'') token of
          [] \<Rightarrow> False
        | separator # nonce \<Rightarrow> 1 \<le> length stamp \<and> length stamp \<le> 30 \<and> (\<forall>ch \<in> set stamp. py_isdigit ch)
            \<and> length nonce = 32 \<and> (\<forall>ch \<in> set nonce. ch \<in> set ''0123456789abcdef''))"

text \<open>
  Removing the token under the configuration lock, when it is still the expected one. A failing
  removal is ignored, a failing directory sync raises after the removal.
\<close>

definition clear_reload_pending ::
  "exc option \<Rightarrow> faults \<Rightarrow> string option \<Rightarrow> managed \<Rightarrow> exc option \<times> managed" where
  "clear_reload_pending lock fails expected_token m = (case expected_token of
      None \<Rightarrow> (None, m)
    | Some token \<Rightarrow> (case lock of
        Some e \<Rightarrow> (Some e, m)
      | None \<Rightarrow>
          if marker_text (seen (reload_marker m)) \<noteq> Some token then (None, m)
          else if fails UnlinkFile then (None, m)
          else (let c = reload_marker m in
            if fails SyncDir
            then (Some OSError, m\<lparr>reload_marker := c\<lparr>seen := Missing, after_crash := insert Missing (after_crash c)\<rparr>\<rparr>)
            else (None, m\<lparr>reload_marker := c\<lparr>seen := Missing, after_crash := {Missing}\<rparr>\<rparr>))))"

section \<open>Restarting\<close>

definition fail_closed_reload :: "runner \<Rightarrow> faults \<Rightarrow> string \<Rightarrow> string \<Rightarrow> string \<Rightarrow> bool \<Rightarrow> managed \<Rightarrow> managed" where
  "fail_closed_reload run fails name reason now live m =
     (if \<not> live then m
      else m\<lparr>service := snd (stop_fail_closed run fails name reason now True (service m))\<rparr>)"

fun readiness_probes :: "runner \<Rightarrow> nat \<Rightarrow> managed \<Rightarrow> bool \<times> managed" where
  "readiness_probes run 0 m = (True, m)"
| "readiness_probes run (Suc n) m = (let (out, s) = issue run IsActive (service m); m1 = m\<lparr>service := s\<rparr> in
     if out = Exited 0 then readiness_probes run n m1 else (False, m1))"

definition run_reload_worker ::
  "runner \<Rightarrow> exc option \<Rightarrow> faults \<Rightarrow> string \<Rightarrow> nat \<Rightarrow> string \<Rightarrow> bool \<Rightarrow> string option \<Rightarrow> managed
   \<Rightarrow> bool res \<times> managed" where
  "run_reload_worker run lock fails name probes now live expected_token m =
     (if \<not> live then (Inr False, m)
      else let (out, s) = issue run Restart (service m); m1 = m\<lparr>service := s\<rparr> in
        if out \<noteq> Exited 0 then (Inr False, fail_closed_reload run fails name ''restart'' now live m1)
        else let (ready, m2) = readiness_probes run probes m1 in
          if \<not> ready then (Inr False, fail_closed_reload run fails name ''readiness'' now live m2)
          else (case clear_reload_pending lock fails expected_token m2 of
              (Some e, m3) \<Rightarrow> (Inl e, m3)
            | (None, m3) \<Rightarrow> (Inr True, m3)))"

text \<open>Scheduling reads the token without the configuration lock and hands it to the worker.\<close>

definition reload_async ::
  "runner \<Rightarrow> faults \<Rightarrow> string \<Rightarrow> string \<Rightarrow> bool \<Rightarrow> managed \<Rightarrow> bool \<times> string option \<times> managed" where
  "reload_async run fails name now live m =
     (if \<not> live then (False, None, m)
      else if seen (reload_marker m) = Missing then (False, None, m)
      else (case marker_text (seen (reload_marker m)) of
          None \<Rightarrow> (False, None, fail_closed_reload run fails name ''unreadable'' now live m)
        | Some pending_token \<Rightarrow>
            if \<not> valid_reload_token pending_token
            then (False, None, fail_closed_reload run fails name ''invalid'' now live m)
            else let (out, s) = issue run ScheduleReload (service m); m1 = m\<lparr>service := s\<rparr> in
              if out \<noteq> Exited 0 then (False, None, fail_closed_reload run fails name ''scheduling'' now live m1)
              else (True, Some pending_token, m1)))"

definition worker_main ::
  "(string \<Rightarrow> string option \<Rightarrow> managed \<Rightarrow> bool res \<times> managed) \<Rightarrow> string list \<Rightarrow> managed \<Rightarrow> int res \<times> managed" where
  "worker_main worker args m =
     (if length args \<noteq> 3 \<or> args ! 0 \<noteq> ''--complete-reload'' then (Inr 2, m)
      else case worker (args ! 1) (if args ! 2 = [] then None else Some (args ! 2)) m of
          (Inl e, m') \<Rightarrow> (Inl e, m')
        | (Inr ok, m') \<Rightarrow> (Inr (if ok then 0 else 1), m'))"

section \<open>Lemmas on single operations\<close>

lemma probes_files:
  "readiness_probes run n m = (r, m') \<Longrightarrow> live_config m' = live_config m \<and> reload_marker m' = reload_marker m"
proof (induction n arbitrary: m r m')
  case (Suc n)
  let ?m1 = "m\<lparr>service := (service m)\<lparr>issued := issued (service m) @ [IsActive]\<rparr>\<rparr>"
  show ?case
  proof (cases "run (issued (service m)) IsActive = Exited 0")
    case True
    with Suc.prems have "readiness_probes run n ?m1 = (r, m')" by (simp add: issue_def)
    from Suc.IH [OF this] show ?thesis by simp
  next
    case False
    with Suc.prems show ?thesis by (auto simp: issue_def)
  qed
qed simp

lemma fail_closed_files:
  "live_config (fail_closed_reload run fails name reason now live m) = live_config m
   \<and> reload_marker (fail_closed_reload run fails name reason now live m) = reload_marker m"
  by (simp add: fail_closed_reload_def)

lemma probes_issued:
  "readiness_probes run n m = (r, m') \<Longrightarrow>
     \<exists>k \<le> n. issued (service m') = issued (service m) @ replicate k IsActive \<and> (r \<longrightarrow> k = n)"
proof (induction n arbitrary: m r m')
  case (Suc n)
  let ?m1 = "m\<lparr>service := (service m)\<lparr>issued := issued (service m) @ [IsActive]\<rparr>\<rparr>"
  show ?case
  proof (cases "run (issued (service m)) IsActive = Exited 0")
    case True
    with Suc.prems have "readiness_probes run n ?m1 = (r, m')" by (simp add: issue_def)
    from Suc.IH [OF this] obtain k where
      "k \<le> n" "issued (service m') = issued (service m) @ IsActive # replicate k IsActive" "r \<longrightarrow> k = n" by auto
    then show ?thesis by (intro exI [of _ "Suc k"]) simp
  next
    case False
    with Suc.prems have "issued (service m') = issued (service m) @ [IsActive]" "r = False"
      by (auto simp: issue_def)
    then show ?thesis by (intro exI [of _ 1]) simp
  qed
qed simp

lemma clear_files:
  assumes "clear_reload_pending lock fails expected m = (e, m')"
  shows "live_config m' = live_config m \<and> service m' = service m
    \<and> (reload_marker m' = reload_marker m
       \<or> seen (reload_marker m') = Missing \<and> expected \<noteq> None \<and> marker_text (seen (reload_marker m)) = expected)"
  using assms
  by (auto simp: clear_reload_pending_def Let_def split: option.splits if_splits)

section \<open>Property\<close>



end
