(* ===== verification/XrayConfig.thy ===== *)
theory XrayConfig
  imports ReloadMarker UserCompat
begin

text \<open>
  The client lists of the Xray proxy: \<^verbatim>\<open>hysteria/xray_config.py\<close>. A configuration is a JSON object;
  the operations change the client lists of the VLESS inbounds on the two managed ports. A plan maps
  user names to the UUID text, or to nothing where the user must be removed.
\<close>

section \<open>Identities\<close>

definition PRIMARY_PORT :: int where "PRIMARY_PORT = 443"
definition BACKUP_PORT :: int where "BACKUP_PORT = 8443"
definition INBOUND_PORTS :: "int list" where "INBOUND_PORTS = [PRIMARY_PORT, BACKUP_PORT]"
definition BACKUP_SUFFIX :: string where "BACKUP_SUFFIX = ''@hy2-backup.invalid''"
definition VISION_FLOW :: string where "VISION_FLOW = ''xtls-rprx-vision''"

definition email_for :: "int \<Rightarrow> string \<Rightarrow> string" where
  "email_for port username = (if port = PRIMARY_PORT then username else username @ BACKUP_SUFFIX)"

definition strip_backup_suffix :: "string \<Rightarrow> string" where
  "strip_backup_suffix email =
     (if ends_with BACKUP_SUFFIX email then take (length email - length BACKUP_SUFFIX) email else email)"

section \<open>Validation\<close>

text \<open>The managed port of an inbound: VLESS, on 443 or 8443.\<close>

definition managed_port :: "json dict \<Rightarrow> int option" where
  "managed_port ib =
     (if dget ib ''protocol'' JNull \<noteq> JStr ''vless'' then None
      else find (eq_int (dget ib ''port'' JNull)) INBOUND_PORTS)"

definition settings_of :: "json dict \<Rightarrow> json dict res" where
  "settings_of ib = (case dget ib ''settings'' JNull of
      JObj s \<Rightarrow> Inr s
    | v \<Rightarrow> if truthy v then Inl AttributeError else Inr [])"

fun check_inbounds :: "json list \<Rightarrow> int list res" where
  "check_inbounds [] = Inr []"
| "check_inbounds (inbound # rest) = (case inbound of
      JObj ib \<Rightarrow> (case managed_port ib of
          None \<Rightarrow> check_inbounds rest
        | Some port \<Rightarrow> rbind (settings_of ib) (\<lambda>s. case dget s ''clients'' JNull of
            JList _ \<Rightarrow> rbind (check_inbounds rest) (\<lambda>ports. Inr (port # ports))
          | _ \<Rightarrow> Inl InvalidJsonState))
    | _ \<Rightarrow> check_inbounds rest)"

definition validate_runtime_config :: "json \<Rightarrow> json dict res" where
  "validate_runtime_config config = (case config of
      JObj cfg \<Rightarrow> (case dget cfg ''inbounds'' JNull of
          JList inbounds \<Rightarrow> rbind (check_inbounds inbounds) (\<lambda>ports.
            if set ports \<noteq> set INBOUND_PORTS then Inl InvalidJsonState else Inr cfg)
        | _ \<Rightarrow> Inl InvalidJsonState)
    | _ \<Rightarrow> Inl InvalidJsonState)"

definition load_config :: "jfile \<Rightarrow> json dict res" where
  "load_config f = (case f of Doc r \<Rightarrow> validate_runtime_config (json_of_raw r) | _ \<Rightarrow> Inl InvalidJsonState)"

section \<open>Changing client lists\<close>

text \<open>
  A loop over the inbounds that may change each managed one; an inbound that is not an object raises,
  because the loop calls \<^verbatim>\<open>ib.get\<close>.
\<close>

fun map_inbounds ::
  "(json dict \<Rightarrow> (json dict \<times> bool) res) \<Rightarrow> json list \<Rightarrow> (json list \<times> bool) res" where
  "map_inbounds f [] = Inr ([], False)"
| "map_inbounds f (inbound # rest) = (case inbound of
      JObj ib \<Rightarrow> rbind (f ib) (\<lambda>(ib', changed). rbind (map_inbounds f rest) (\<lambda>(rest', changed').
        Inr (JObj ib' # rest', changed \<or> changed')))
    | _ \<Rightarrow> Inl AttributeError)"

text \<open>What iterating over a non-list whose elements must be objects raises.\<close>

definition not_a_list :: "json \<Rightarrow> exc" where
  "not_a_list v = (case v of JStr _ \<Rightarrow> AttributeError | JObj _ \<Rightarrow> AttributeError | _ \<Rightarrow> TypeError)"

text \<open>\<^verbatim>\<open>cfg.get('inbounds') or []\<close>, with the changed list put back.\<close>

definition over_inbounds ::
  "(json dict \<Rightarrow> (json dict \<times> bool) res) \<Rightarrow> json dict \<Rightarrow> (json dict \<times> bool) res" where
  "over_inbounds f cfg = (case dget cfg ''inbounds'' JNull of
      JList inbounds \<Rightarrow> rbind (map_inbounds f inbounds) (\<lambda>(ibs, changed).
        Inr (if changed then AList.update ''inbounds'' (JList ibs) cfg else cfg, changed))
    | v \<Rightarrow> if truthy v then Inl (not_a_list v) else Inr (cfg, False))"

text \<open>\<^verbatim>\<open>ib.setdefault('settings', {}).setdefault('clients', [])\<close>.\<close>

definition clients_default :: "json dict \<Rightarrow> (json dict \<times> json) res" where
  "clients_default ib = (case map_of ib ''settings'' of
      None \<Rightarrow> Inr ([], JList [])
    | Some (JObj s) \<Rightarrow> Inr (s, dget s ''clients'' (JList []))
    | Some _ \<Rightarrow> Inl AttributeError)"

definition put_clients :: "json dict \<Rightarrow> json dict \<Rightarrow> json list \<Rightarrow> json dict" where
  "put_clients ib settings clients =
     AList.update ''settings'' (JObj (AList.update ''clients'' (JList clients) settings)) ib"

definition client_entry :: "string \<Rightarrow> string \<Rightarrow> json" where
  "client_entry vless_uuid email =
     JObj [(''id'', JStr vless_uuid), (''email'', JStr email), (''flow'', JStr VISION_FLOW)]"

text \<open>The first client with the email is updated in place, or a new one is appended.\<close>

fun sync_clients :: "string \<Rightarrow> string \<Rightarrow> json list \<Rightarrow> (json list \<times> bool) res" where
  "sync_clients vless_uuid email [] = Inr ([client_entry vless_uuid email], True)"
| "sync_clients vless_uuid email (c # cs) = (case c of
      JObj d \<Rightarrow>
        if dget d ''email'' JNull = JStr email
        then (if dget d ''id'' JNull \<noteq> JStr vless_uuid \<or> dget d ''flow'' JNull \<noteq> JStr VISION_FLOW
              then Inr (JObj (AList.update ''flow'' (JStr VISION_FLOW) (AList.update ''id'' (JStr vless_uuid) d)) # cs,
                        True)
              else Inr (c # cs, False))
        else rbind (sync_clients vless_uuid email cs) (\<lambda>(cs', changed). Inr (c # cs', changed))
    | _ \<Rightarrow> Inl AttributeError)"

definition apply_sync :: "string \<Rightarrow> string \<Rightarrow> json dict \<Rightarrow> (json dict \<times> bool) res" where
  "apply_sync username vless_uuid = over_inbounds (\<lambda>ib. case managed_port ib of
      None \<Rightarrow> Inr (ib, False)
    | Some port \<Rightarrow> rbind (clients_default ib) (\<lambda>(settings, clients). case clients of
        JList cs \<Rightarrow> rbind (sync_clients vless_uuid (email_for port username) cs) (\<lambda>(cs', changed).
          Inr (if changed then put_clients ib settings cs' else ib, changed))
      | v \<Rightarrow> Inl (not_a_list v)))"

fun drop_clients :: "string list \<Rightarrow> json list \<Rightarrow> json list res" where
  "drop_clients targets [] = Inr []"
| "drop_clients targets (c # cs) = (case c of
      JObj d \<Rightarrow> (case dget d ''email'' JNull of
          JList _ \<Rightarrow> Inl TypeError
        | JObj _ \<Rightarrow> Inl TypeError
        | email \<Rightarrow> rbind (drop_clients targets cs) (\<lambda>kept. Inr (if email \<in> JStr ` set targets then kept else c # kept)))
    | _ \<Rightarrow> Inl AttributeError)"

text \<open>Removal looks at every VLESS inbound, whatever its port.\<close>

definition apply_remove :: "string \<Rightarrow> json dict \<Rightarrow> (json dict \<times> bool) res" where
  "apply_remove username = over_inbounds (\<lambda>ib.
     if dget ib ''protocol'' JNull \<noteq> JStr ''vless'' then Inr (ib, False)
     else rbind (clients_default ib) (\<lambda>(settings, clients). case clients of
        JList cs \<Rightarrow> rbind (drop_clients (map (\<lambda>port. email_for port username) INBOUND_PORTS) cs) (\<lambda>kept.
          if length kept \<noteq> length cs then Inr (put_clients ib settings kept, True) else Inr (ib, False))
      | v \<Rightarrow> if truthy v then Inl (not_a_list v) else Inr (ib, False)))"

type_synonym plan = "(string \<times> string option) list"

definition desired_users :: "plan \<Rightarrow> (string \<times> string) list" where
  "desired_users plan = map (\<lambda>(username, u). (username, py_strip (the u)))
     (sort_key fst (filter (\<lambda>(username, u). case u of None \<Rightarrow> False | Some t \<Rightarrow> py_strip t \<noteq> []) plan))"

definition desired_clients :: "plan \<Rightarrow> int \<Rightarrow> json list" where
  "desired_clients plan port =
     map (\<lambda>(username, vless_uuid). client_entry vless_uuid (email_for port username)) (desired_users plan)"

definition apply_managed_plan :: "plan \<Rightarrow> json dict \<Rightarrow> (json dict \<times> bool) res" where
  "apply_managed_plan plan = over_inbounds (\<lambda>ib. case managed_port ib of
      None \<Rightarrow> Inr (ib, False)
    | Some port \<Rightarrow> (case map_of ib ''settings'' of
        None \<Rightarrow> Inr (put_clients ib [] (desired_clients plan port), True)
      | Some (JObj s) \<Rightarrow>
          if py_eq (dget s ''clients'' JNull) (JList (desired_clients plan port)) then Inr (ib, False)
          else Inr (put_clients ib s (desired_clients plan port), True)
      | Some _ \<Rightarrow> Inl AttributeError))"

definition LEGACY_MANAGED_LOG_PATHS :: "(string \<times> string \<times> string) list" where
  "LEGACY_MANAGED_LOG_PATHS =
     [(''access'', ''/var/log/xray/access.log'', ''/var/log/xray/hy2-access.log''),
      (''error'', ''/var/log/xray/error.log'', ''/var/log/xray/hy2-error.log'')]"

definition migrate_legacy_managed_log_paths :: "json dict \<Rightarrow> json dict \<times> bool" where
  "migrate_legacy_managed_log_paths cfg = (case dget cfg ''log'' JNull of
      JObj log_config \<Rightarrow>
        (let (log', changed) = foldl (\<lambda>(l, ch) (field, legacy, path).
               if dget l field JNull = JStr legacy then (AList.update field (JStr path) l, True) else (l, ch))
             (log_config, False) LEGACY_MANAGED_LOG_PATHS
         in (if changed then AList.update ''log'' (JObj log') cfg else cfg, changed))
    | _ \<Rightarrow> (cfg, False))"

section \<open>The file\<close>

text \<open>
  \<^verbatim>\<open>_save_config\<close>: a temporary file with its final owner and mode, checked by the proxy's own
  validation on the live path (\<open>native\<close>: its answer, \<open>None\<close> on other paths), renamed into place. The
  mode is set again and the directory synced after the rename; a failure there is an OSError with the
  new content already visible.
\<close>

definition xray_save_config :: "faults \<Rightarrow> bool option \<Rightarrow> json \<Rightarrow> cell \<Rightarrow> exc option \<times> cell" where
  "xray_save_config fails native cfg c =
     (if fails MkTemp then (Some OSError, c)
      else let c1 = c\<lparr>temps := Suc (temps c)\<rparr>; new = Doc (raw_of_json cfg) in
      if fails WriteTemp then (Some OSError, drop_temp fails c1)
      else if native = Some False then (Some InvalidJsonState, drop_temp fails c1)
      else if fails ReplaceFile then (Some OSError, drop_temp fails c1)
      else let c2 = c1\<lparr>seen := new, after_crash := insert new (after_crash c), temps := temps c\<rparr> in
      if fails Chmod \<or> fails SyncDir then (Some OSError, c2)
      else (None, c2\<lparr>after_crash := {new}\<rparr>))"

text \<open>
  One operation under the configuration lock: load, change, and when something changed write the token
  and then the file. The answer says whether a reload is needed.
\<close>

definition locked_change ::
  "exc option \<Rightarrow> faults \<Rightarrow> faults \<Rightarrow> bool option \<Rightarrow> string \<Rightarrow> (json dict \<Rightarrow> (json dict \<times> bool) res) \<Rightarrow> managed
   \<Rightarrow> bool res \<times> managed" where
  "locked_change lock mark_fails save_fails native token change m = (case lock of
      Some e \<Rightarrow> (Inl e, m)
    | None \<Rightarrow> (case rbind (load_config (seen (live_config m))) change of
        Inl e \<Rightarrow> (Inl e, m)
      | Inr (cfg, changed) \<Rightarrow>
          if \<not> changed then (Inr (has_reload_pending m), m)
          else (case mark_reload_pending mark_fails token m of
              (Some e, m1) \<Rightarrow> (Inl e, m1)
            | (None, m1) \<Rightarrow> (case xray_save_config save_fails native (JObj cfg) (live_config m1) of
                (Some e, c) \<Rightarrow> (Inl e, m1\<lparr>live_config := c\<rparr>)
              | (None, c) \<Rightarrow> (Inr True, m1\<lparr>live_config := c\<rparr>)))))"

definition sync_user where
  "sync_user lock mark_fails save_fails native token username vless_uuid =
     locked_change lock mark_fails save_fails native token (apply_sync username vless_uuid)"

definition remove_user where
  "remove_user lock mark_fails save_fails native token username =
     locked_change lock mark_fails save_fails native token (apply_remove username)"

text \<open>The incremental plan: one user after another.\<close>

fun apply_each :: "plan \<Rightarrow> json dict \<Rightarrow> bool \<Rightarrow> (json dict \<times> bool) res" where
  "apply_each [] cfg changed = Inr (cfg, changed)"
| "apply_each ((username, u) # rest) cfg changed =
     (let uid = py_strip (case u of None \<Rightarrow> [] | Some t \<Rightarrow> t)
      in rbind (if uid \<noteq> [] then apply_sync username uid cfg else apply_remove username cfg)
        (\<lambda>(cfg', ch). apply_each rest cfg' (ch \<or> changed)))"

definition plan_change :: "bool \<Rightarrow> plan \<Rightarrow> json dict \<Rightarrow> (json dict \<times> bool) res" where
  "plan_change prune_unknown plan cfg =
     (let (cfg1, migrated) = migrate_legacy_managed_log_paths cfg in
      if prune_unknown
      then rbind (apply_managed_plan plan cfg1) (\<lambda>(cfg2, ch). Inr (cfg2, ch \<or> migrated))
      else apply_each plan cfg1 migrated)"

definition apply_user_plan where
  "apply_user_plan lock mark_fails save_fails native token prune_unknown plan =
     locked_change lock mark_fails save_fails native token (plan_change prune_unknown plan)"

text \<open>
  Installing the configuration file: an existing valid one is kept and only its mode is set.
\<close>

definition initialize_from_file ::
  "exc option \<Rightarrow> faults \<Rightarrow> bool option \<Rightarrow> jfile \<Rightarrow> managed \<Rightarrow> bool res \<times> managed" where
  "initialize_from_file lock fails native candidate m =
     (case load_config candidate of
        Inl e \<Rightarrow> (Inl e, m)
      | Inr desired \<Rightarrow> (case lock of
          Some e \<Rightarrow> (Inl e, m)
        | None \<Rightarrow>
            if seen (live_config m) \<noteq> Missing
            then (case load_config (seen (live_config m)) of
                Inl e \<Rightarrow> (Inl e, m)
              | Inr _ \<Rightarrow> if fails Chmod then (Inl OSError, m) else (Inr False, m))
            else (case xray_save_config fails native (JObj desired) (live_config m) of
                (Some e, c) \<Rightarrow> (Inl e, m\<lparr>live_config := c\<rparr>)
              | (None, c) \<Rightarrow> (Inr True, m\<lparr>live_config := c\<rparr>))))"

definition xray_run_reload_worker where
  "xray_run_reload_worker run lock fails now live expected_token =
     run_reload_worker run lock fails ''xray'' 3 now live expected_token"

definition xray_reload_async where
  "xray_reload_async run fails now live = reload_async run fails ''xray'' now live"

section \<open>Identities\<close>

lemma username_no_at: "valid_username u \<Longrightarrow> CHR ''@'' \<notin> set u"
  by (auto simp: valid_username_def username_char_def is_alpha_def is_digit_def)

text \<open>The backup identity of a valid user name is stripped back to it and is no valid user name.\<close>

lemma strip_email_for: "valid_username u \<Longrightarrow> strip_backup_suffix (email_for port u) = u"
proof -
  assume u: "valid_username u"
  have "\<not> ends_with BACKUP_SUFFIX u"
  proof
    assume "ends_with BACKUP_SUFFIX u"
    then have "set BACKUP_SUFFIX \<subseteq> set u" unfolding ends_with_def by (metis set_drop_subset)
    with username_no_at [OF u] show False by (simp add: BACKUP_SUFFIX_def)
  qed
  then show ?thesis
    by (cases "port = PRIMARY_PORT") (auto simp: strip_backup_suffix_def email_for_def, auto simp: ends_with_def)
qed

section \<open>What the exact plan leaves\<close>

definition client_is :: "string \<Rightarrow> string \<Rightarrow> json \<Rightarrow> bool" where
  "client_is vless_uuid email c \<longleftrightarrow> (\<exists>d. c = JObj d \<and> dget d ''id'' JNull = JStr vless_uuid
     \<and> dget d ''email'' JNull = JStr email \<and> dget d ''flow'' JNull = JStr VISION_FLOW \<and> length d = 3)"

lemma py_eq_client:
  assumes "py_eq c (client_entry v e)" and "wf_json c"
  shows "client_is v e c"
proof -
  from assms(1) obtain d where c: "c = JObj d" and n: "length d = 3"
    and k: "\<And>key x. (key, x) \<in> set d \<Longrightarrow> (case map_of [(''id'', JStr v), (''email'', JStr e), (''flow'', JStr VISION_FLOW)] key of
       None \<Rightarrow> False | Some y \<Rightarrow> py_eq x y)"
  proof -
    from py_eq_obj_cases assms(1) obtain d where c: "c = JObj d" unfolding client_entry_def by blast
    with assms(1) have e: "py_eq (JObj d) (JObj [(''id'', JStr v), (''email'', JStr e), (''flow'', JStr VISION_FLOW)])"
      by (simp add: client_entry_def)
    then have k: "case map_of [(''id'', JStr v), (''email'', JStr e), (''flow'', JStr VISION_FLOW)] (fst kv) of
        None \<Rightarrow> False | Some y \<Rightarrow> py_eq (snd kv) y" if "kv \<in> set d" for kv
      unfolding py_eq_obj using that by blast
    show ?thesis
    proof (rule that [OF c])
      show "length d = 3" using e by (simp add: py_eq_obj)
      fix key x assume "(key, x) \<in> set d"
      from k [OF this] show "case map_of [(''id'', JStr v), (''email'', JStr e), (''flow'', JStr VISION_FLOW)] key of
          None \<Rightarrow> False | Some y \<Rightarrow> py_eq x y" by (simp only: fst_conv snd_conv)
    qed
  qed
  have val: "key = ''id'' \<and> x = JStr v \<or> key = ''email'' \<and> x = JStr e \<or> key = ''flow'' \<and> x = JStr VISION_FLOW"
    if "(key, x) \<in> set d" for key x
    using k [OF that] by (auto split: if_splits)
  have wf: "distinct (map fst d)" using assms(2) c by (simp add: wf_dict_def)
  have "card (fst ` set d) = 3" using wf n by (metis distinct_card length_map set_map)
  moreover have sub: "fst ` set d \<subseteq> {''id'', ''email'', ''flow''}" using val by force
  ultimately have keys: "fst ` set d = {''id'', ''email'', ''flow''}"
    by (intro card_subset_eq) simp_all
  have look: "map_of d key = Some x" if "key \<in> fst ` set d" "\<And>y. (key, y) \<in> set d \<Longrightarrow> y = x" for key x
  proof -
    from that(1) obtain y where y: "(key, y) \<in> set d" by auto
    with that(2) have "y = x" by blast
    with y wf show ?thesis by simp
  qed
  have "map_of d ''id'' = Some (JStr v)" by (rule look) (use keys val in auto)
  moreover have "map_of d ''email'' = Some (JStr e)" by (rule look) (use keys val in auto)
  moreover have "map_of d ''flow'' = Some (JStr VISION_FLOW)" by (rule look) (use keys val in auto)
  ultimately show ?thesis by (simp add: client_is_def c n dget_def)
qed

lemma client_entry_is: "client_is v e (client_entry v e)"
  by (simp add: client_is_def client_entry_def dget_def)

text \<open>The clients of a managed inbound are those of the plan, in the plan's order.\<close>

definition exact_clients :: "plan \<Rightarrow> int \<Rightarrow> json list \<Rightarrow> bool" where
  "exact_clients plan port cs \<longleftrightarrow>
     list_all2 (\<lambda>c (username, vless_uuid). client_is vless_uuid (email_for port username) c) cs (desired_users plan)"

definition inbound_exact :: "plan \<Rightarrow> json \<Rightarrow> bool" where
  "inbound_exact plan inbound \<longleftrightarrow> (\<forall>ib port. inbound = JObj ib \<longrightarrow> managed_port ib = Some port \<longrightarrow>
     (\<exists>s cs. map_of ib ''settings'' = Some (JObj s) \<and> map_of s ''clients'' = Some (JList cs) \<and> exact_clients plan port cs))"

lemma exact_desired: "exact_clients plan port (desired_clients plan port)"
  by (simp add: exact_clients_def desired_clients_def list_all2_map1 list_all2_same client_entry_is case_prod_unfold)

lemma exact_py_eq:
  assumes "py_eq (JList cs) (JList (desired_clients plan port))" and "\<forall>c \<in> set cs. wf_json c"
  shows "exact_clients plan port cs"
proof -
  from assms(1) have n: "length cs = length (desired_users plan)"
    and p: "\<And>pr. pr \<in> set (zip cs (desired_clients plan port)) \<Longrightarrow> py_eq (fst pr) (snd pr)"
    by (simp_all add: py_eq_list desired_clients_def)
  show ?thesis
    unfolding exact_clients_def
  proof (rule list_all2_all_nthI)
    fix i assume i: "i < length cs"
    obtain u v where uv: "desired_users plan ! i = (u, v)" by fastforce
    have "(cs ! i, desired_clients plan port ! i) \<in> set (zip cs (desired_clients plan port))"
      using i n by (auto simp: set_zip desired_clients_def)
    from p [OF this] have "py_eq (cs ! i) (client_entry v (email_for port u))"
      using i n uv by (simp add: desired_clients_def)
    then show "case desired_users plan ! i of (u, v) \<Rightarrow> client_is v (email_for port u) (cs ! i)"
      using py_eq_client assms(2) i uv by simp
  qed (rule n)
qed

lemma put_clients_settings:
  "map_of (put_clients ib s cs) ''settings'' = Some (JObj (AList.update ''clients'' (JList cs) s))"
  "managed_port (put_clients ib s cs) = managed_port ib"
  by (simp_all add: put_clients_def managed_port_def)

definition plan_inbound :: "plan \<Rightarrow> json dict \<Rightarrow> (json dict \<times> bool) res" where
  "plan_inbound plan ib = (case managed_port ib of
      None \<Rightarrow> Inr (ib, False)
    | Some port \<Rightarrow> (case map_of ib ''settings'' of
        None \<Rightarrow> Inr (put_clients ib [] (desired_clients plan port), True)
      | Some (JObj s) \<Rightarrow>
          if py_eq (dget s ''clients'' JNull) (JList (desired_clients plan port)) then Inr (ib, False)
          else Inr (put_clients ib s (desired_clients plan port), True)
      | Some _ \<Rightarrow> Inl AttributeError))"

lemma apply_managed_plan_eq: "apply_managed_plan plan = over_inbounds (plan_inbound plan)"
  by (simp add: apply_managed_plan_def plan_inbound_def [abs_def])

lemma wf_client_entry: "wf_json (client_entry v e)"
  by (simp add: client_entry_def wf_dict_def)

lemma wf_put_clients:
  "wf_json (JObj ib) \<Longrightarrow> wf_json (JObj s) \<Longrightarrow> \<forall>c \<in> set cs. wf_json c \<Longrightarrow> wf_json (JObj (put_clients ib s cs))"
  unfolding put_clients_def by (intro wf_json_update) simp_all

lemma wf_desired: "\<forall>c \<in> set (desired_clients plan port). wf_json c"
  by (auto simp: desired_clients_def simp del: wf_json.simps intro: wf_client_entry)

lemma plan_inbound_exact:
  assumes "plan_inbound plan ib = Inr (ib', ch)" and wf: "wf_json (JObj ib)"
  shows "inbound_exact plan (JObj ib') \<and> wf_json (JObj ib') \<and> managed_port ib' = managed_port ib
    \<and> (\<not> ch \<longrightarrow> ib' = ib) \<and> (managed_port ib = None \<longrightarrow> ib' = ib)
    \<and> (\<forall>k. k \<noteq> ''settings'' \<longrightarrow> map_of ib' k = map_of ib k)"
proof (cases "managed_port ib")
  case None
  with assms show ?thesis by (simp add: plan_inbound_def inbound_exact_def)
next
  case (Some port)
  consider (new) s where "ib' = put_clients ib s (desired_clients plan port)" "ch" "wf_json (JObj s)"
    | (old) s where "ib' = ib" "map_of ib ''settings'' = Some (JObj s)" "wf_json (JObj s)"
        "py_eq (dget s ''clients'' JNull) (JList (desired_clients plan port))"
  proof (cases "map_of ib ''settings''")
    case None
    with assms Some new show ?thesis by (auto simp: plan_inbound_def)
  next
    case s: (Some v)
    with wf have "wf_json v" by (rule wf_json_lookup)
    with s assms(1) Some new old show ?thesis
      by (cases v) (auto simp: plan_inbound_def simp del: wf_json.simps split: if_splits)
  qed
  then show ?thesis
  proof cases
    case new
    with Some exact_desired wf_put_clients [OF wf new(3) wf_desired] put_clients_settings show ?thesis
      by (auto simp: inbound_exact_def put_clients_def simp del: wf_json.simps)
  next
    case old
    then obtain cs where cs: "map_of s ''clients'' = Some (JList cs)"
      using py_eq_list_cases [OF old(4)] by (auto simp: dget_def split: option.splits)
    with wf_json_lookup [OF old(3) cs] old(4) have "exact_clients plan port cs"
      by (intro exact_py_eq) (auto simp: dget_def)
    with old cs Some wf show ?thesis by (auto simp: inbound_exact_def simp del: wf_json.simps)
  qed
qed

lemma map_inbounds_exact:
  assumes "map_inbounds (plan_inbound plan) ibs = Inr (ibs', ch)" and "\<forall>i \<in> set ibs. wf_json i"
    and "check_inbounds ibs = Inr ports"
  shows "(\<forall>i \<in> set ibs'. inbound_exact plan i \<and> wf_json i) \<and> check_inbounds ibs' = Inr ports \<and> (\<not> ch \<longrightarrow> ibs' = ibs)"
  using assms
proof (induction ibs arbitrary: ibs' ch ports)
  case Nil
  then show ?case by simp
next
  case (Cons inbound rest)
  from Cons.prems(1) obtain ib where ib: "inbound = JObj ib" by (cases inbound) simp_all
  with Cons.prems(1) obtain ib' c1 rest' c2 where p: "plan_inbound plan ib = Inr (ib', c1)"
    "map_inbounds (plan_inbound plan) rest = Inr (rest', c2)" "ibs' = JObj ib' # rest'" "ch = (c1 \<or> c2)"
    by (auto simp: rbind_eq_Inr)
  have wf: "wf_json (JObj ib)" "\<forall>i \<in> set rest. wf_json i" using Cons.prems(2) ib by simp_all
  note one = plan_inbound_exact [OF p(1) wf(1)]
  have new: "inbound_exact plan (JObj ib')" "wf_json (JObj ib')" "managed_port ib' = managed_port ib"
    "\<not> c1 \<Longrightarrow> ib' = ib" using one by blast+
  show ?case
  proof (cases "managed_port ib")
    case None
    with Cons.prems(3) ib have "check_inbounds rest = Inr ports" by simp
    from Cons.IH [OF p(2) wf(2) this] new None p(3,4) ib show ?thesis
      by (auto simp del: wf_json.simps)
  next
    case (Some port)
    with new(3) have "managed_port ib' = Some port" by simp
    with new(1) obtain s cs where s: "map_of ib' ''settings'' = Some (JObj s)" "map_of s ''clients'' = Some (JList cs)"
      unfolding inbound_exact_def by blast
    from Cons.prems(3) ib Some obtain s0 where
      "(case dget s0 ''clients'' JNull of JList _ \<Rightarrow> rbind (check_inbounds rest) (\<lambda>ports. Inr (port # ports))
        | _ \<Rightarrow> Inl InvalidJsonState) = Inr ports"
      by (auto simp: rbind_eq_Inr)
    then obtain ports' where "check_inbounds rest = Inr ports'" "ports = port # ports'"
      by (cases "dget s0 ''clients'' JNull") (simp_all add: rbind_eq_Inr, blast)
    with Cons.IH [OF p(2) wf(2) this(1)] new Some s p(3,4) ib show ?thesis
      by (auto simp: settings_of_def dget_def simp del: wf_json.simps)
  qed
qed

lemma load_config_Inr:
  assumes "load_config f = Inr cfg"
  shows "wf_json (JObj cfg) \<and> (\<exists>inbounds ports. dget cfg ''inbounds'' JNull = JList inbounds
    \<and> check_inbounds inbounds = Inr ports \<and> set ports = set INBOUND_PORTS)"
proof -
  from assms obtain r where f: "f = Doc r" and v: "validate_runtime_config (json_of_raw r) = Inr cfg"
    by (auto simp: load_config_def split: jfile.splits)
  from v have j: "json_of_raw r = JObj cfg"
    by (auto simp: validate_runtime_config_def rbind_eq_Inr split: json.splits if_splits)
  with wf_json_of_raw [of r] have "wf_json (JObj cfg)" by simp
  moreover from v obtain inbounds ports where "dget cfg ''inbounds'' JNull = JList inbounds"
    "check_inbounds inbounds = Inr ports" "set ports = set INBOUND_PORTS"
    unfolding j by (auto simp: validate_runtime_config_def rbind_eq_Inr split: json.splits if_splits)
  ultimately show ?thesis by blast
qed

lemma load_config_doc:
  assumes "wf_json (JObj cfg)" and "dget cfg ''inbounds'' JNull = JList inbounds"
    and "check_inbounds inbounds = Inr ports" and "set ports = set INBOUND_PORTS"
  shows "load_config (Doc (raw_of_json (JObj cfg))) = Inr cfg"
  using assms json_of_raw_of_json [OF assms(1)]
  by (simp add: load_config_def validate_runtime_config_def del: json_of_raw.simps wf_json.simps)

lemma migrate_logs:
  assumes "wf_json (JObj cfg)" and "migrate_legacy_managed_log_paths cfg = (cfg', ch)"
  shows "wf_json (JObj cfg') \<and> (\<not> ch \<longrightarrow> cfg' = cfg) \<and> (\<forall>k. k \<noteq> ''log'' \<longrightarrow> map_of cfg' k = map_of cfg k)"
proof (cases "\<exists>l. dget cfg ''log'' JNull = JObj l")
  case False
  with assms show ?thesis
    by (auto simp: migrate_legacy_managed_log_paths_def simp del: wf_json.simps split: json.splits)
next
  case True
  then obtain l where l: "dget cfg ''log'' JNull = JObj l" by blast
  then have "map_of cfg ''log'' = Some (JObj l)" by (auto simp: dget_def split: option.splits)
  from wf_json_lookup [OF assms(1) this] have wl: "wf_json (JObj l)" .
  define step where "step = (\<lambda>(l, ch) (field, legacy, path).
       if dget l field JNull = JStr legacy then (AList.update field (JStr path) l, True) else (l, ch))"
  have keep: "wf_json (JObj (fst (foldl step (x, c) ps)))" if "wf_json (JObj x)" for x c and ps :: "(string \<times> string \<times> string) list"
    using that
  proof (induction ps arbitrary: x c)
    case (Cons p ps)
    obtain f a b where p: "p = (f, a, b)" by (cases p)
    have "wf_json (JObj (fst (step (x, c) p)))"
    proof (cases "dget x f JNull = JStr a")
      case True
      have "wf_json (JObj (AList.update f (JStr b) x))" by (rule wf_json_update [OF Cons.prems]) simp
      with True show ?thesis by (simp add: step_def p)
    next
      case False
      with Cons.prems show ?thesis by (simp add: step_def p)
    qed
    with Cons.IH [of "fst (step (x, c) p)" "snd (step (x, c) p)"] show ?case by (simp del: wf_json.simps)
  qed simp
  obtain l' c where f: "foldl step (l, False) LEGACY_MANAGED_LOG_PATHS = (l', c)" by fastforce
  with keep [OF wl, of False LEGACY_MANAGED_LOG_PATHS] have "wf_json (JObj l')" by simp
  moreover have "(cfg', ch) = (if c then AList.update ''log'' (JObj l') cfg else cfg, c)"
    using assms(2) l f unfolding migrate_legacy_managed_log_paths_def step_def by auto
  ultimately show ?thesis using assms(1) wf_json_update [of cfg "JObj l'" "''log''"]
    by (auto simp del: wf_json.simps)
qed

lemma plan_change_exact:
  assumes load: "load_config f = Inr cfg" and ch: "plan_change True plan cfg = Inr (cfg', ch)"
  shows "wf_json (JObj cfg') \<and> (\<exists>inbounds ports. dget cfg' ''inbounds'' JNull = JList inbounds
      \<and> check_inbounds inbounds = Inr ports \<and> set ports = set INBOUND_PORTS
      \<and> (\<forall>i \<in> set inbounds. inbound_exact plan i))
    \<and> (\<not> ch \<longrightarrow> cfg' = cfg) \<and> (\<forall>k. k \<notin> {''log'', ''inbounds''} \<longrightarrow> map_of cfg' k = map_of cfg k)"
proof -
  obtain cfg1 mg where m: "migrate_legacy_managed_log_paths cfg = (cfg1, mg)" by fastforce
  from load_config_Inr [OF load] obtain ibs ports where c: "wf_json (JObj cfg)"
    "dget cfg ''inbounds'' JNull = JList ibs" "check_inbounds ibs = Inr ports" "set ports = set INBOUND_PORTS" by blast
  note m1 = migrate_logs [OF c(1) m]
  have ibs: "map_of cfg1 ''inbounds'' = Some (JList ibs)"
    using m1 c(2) by (auto simp: dget_def split: option.splits)
  from m1 have wf1: "wf_json (JObj cfg1)" by blast
  from wf_json_lookup [OF wf1 ibs] have wfi: "\<forall>i \<in> set ibs. wf_json i" by simp
  from ch m obtain cfg2 c2 where a: "apply_managed_plan plan cfg1 = Inr (cfg2, c2)" "cfg' = cfg2" "ch = (c2 \<or> mg)"
    by (auto simp: plan_change_def rbind_eq_Inr)
  from a(1) ibs obtain ibs' where i: "map_inbounds (plan_inbound plan) ibs = Inr (ibs', c2)"
    "cfg2 = (if c2 then AList.update ''inbounds'' (JList ibs') cfg1 else cfg1)"
    by (auto simp: apply_managed_plan_eq over_inbounds_def dget_def rbind_eq_Inr)
  note e = map_inbounds_exact [OF i(1) wfi c(3)]
  have "wf_json (JList ibs')" using e by simp
  then have "wf_json (JObj cfg2)" using wf1 wf_json_update [of cfg1 "JList ibs'" "''inbounds''"] i(2)
    by (auto simp del: wf_json.simps)
  moreover have "dget cfg2 ''inbounds'' JNull = JList ibs'"
    using i(2) ibs e by (auto simp: dget_def)
  ultimately show ?thesis using e c(4) m1 a(2,3) i(2) by auto
qed

lemma xray_save_cases:
  assumes "xray_save_config fails native cfg c = (e, c')"
  obtains "e = None" "seen c' = Doc (raw_of_json cfg)" "after_crash c' = {Doc (raw_of_json cfg)}"
  | x where "e = Some x" "seen c' = seen c" "after_crash c' = after_crash c"
  | x where "e = Some x" "seen c' = Doc (raw_of_json cfg)"
      "after_crash c' = insert (Doc (raw_of_json cfg)) (after_crash c)"
  using assms by (auto simp: xray_save_config_def drop_temp_def Let_def split: if_splits)

lemma mark_cases:
  assumes "mark_reload_pending fails token m = (e, m')"
  shows "live_config m' = live_config m \<and> service m' = service m
    \<and> (e = None \<longrightarrow> seen (reload_marker m') = token_doc token \<and> after_crash (reload_marker m') = {token_doc token})
    \<and> (seen (reload_marker m') = token_doc token \<or> seen (reload_marker m') = seen (reload_marker m))"
  using assms
  by (auto simp: mark_reload_pending_def save_text_atomic_def write_atomic_def drop_temp_def Let_def
      split: prod.splits if_splits)

text \<open>What an operation under the configuration lock can do.\<close>

lemma locked_change_cases:
  assumes "locked_change lock mark_fails save_fails native token change m = (r, m')"
  obtains (refused) e where "m' = m" "r = Inl e"
  | (same) cfg cfg' where "load_config (seen (live_config m)) = Inr cfg" "change cfg = Inr (cfg', False)"
      "m' = m" "r = Inr (has_reload_pending m)"
  | (marked) e where "mark_reload_pending mark_fails token m = (Some e, m')" "r = Inl e"
  | (saved) cfg cfg' m1 e c where "load_config (seen (live_config m)) = Inr cfg" "change cfg = Inr (cfg', True)"
      "mark_reload_pending mark_fails token m = (None, m1)"
      "xray_save_config save_fails native (JObj cfg') (live_config m1) = (e, c)" "m' = m1\<lparr>live_config := c\<rparr>"
      "r = (case e of None \<Rightarrow> Inr True | Some x \<Rightarrow> Inl x)"
proof (cases lock)
  case (Some e)
  with assms have "m' = m" "r = Inl e" by (simp_all add: locked_change_def)
  then show ?thesis by (rule refused)
next
  case None
  show ?thesis
  proof (cases "rbind (load_config (seen (live_config m))) change")
    case (Inl e)
    with assms None have "m' = m" "r = Inl e" by (simp_all add: locked_change_def)
    then show ?thesis by (rule refused)
  next
    case (Inr x)
    then obtain cfg cfg' ch where l: "load_config (seen (live_config m)) = Inr cfg" "change cfg = Inr (cfg', ch)"
      "x = (cfg', ch)" by (cases x) (auto simp: rbind_eq_Inr)
    show ?thesis
    proof (cases ch)
      case False
      with assms None l have "m' = m" "r = Inr (has_reload_pending m)" by (auto simp: locked_change_def)
      with l False show ?thesis by (intro same) simp_all
    next
      case True
      obtain e1 m1 where mk: "mark_reload_pending mark_fails token m = (e1, m1)" by fastforce
      show ?thesis
      proof (cases e1)
        case (Some e)
        with assms None l True mk have "mark_reload_pending mark_fails token m = (Some e, m')" "r = Inl e"
          by (simp_all add: locked_change_def)
        then show ?thesis by (rule marked)
      next
        case e1: None
        obtain e c where sv: "xray_save_config save_fails native (JObj cfg') (live_config m1) = (e, c)" by fastforce
        with assms None l True mk e1 have "m' = m1\<lparr>live_config := c\<rparr>"
          "r = (case e of None \<Rightarrow> Inr True | Some x \<Rightarrow> Inl x)"
          by (auto simp: locked_change_def split: option.splits)
        with l True mk e1 sv show ?thesis by (intro saved) simp_all
      qed
    qed
  qed
qed

section \<open>Properties\<close>

lemma plan_applied_exact:
  assumes "apply_user_plan lock mark_fails save_fails native token True plan m = (Inr r, m')"
  shows "\<exists>cfg cfg' inbounds. load_config (seen (live_config m)) = Inr cfg
    \<and> load_config (seen (live_config m')) = Inr cfg' \<and> dget cfg' ''inbounds'' JNull = JList inbounds
    \<and> (\<forall>i \<in> set inbounds. inbound_exact plan i)
    \<and> (\<forall>k. k \<notin> {''log'', ''inbounds''} \<longrightarrow> map_of cfg' k = map_of cfg k)"
  using assms unfolding apply_user_plan_def
proof (cases rule: locked_change_cases)
  case (same cfg cfg')
  with plan_change_exact [OF same(1,2)] show ?thesis by blast
next
  case (saved cfg cfg' m1 e c)
  from saved(6) have e: "e = None" by (cases e) simp_all
  note x = plan_change_exact [OF saved(1,2)]
  from conjunct1 [OF conjunct2 [OF x]] obtain inbounds ports where i: "dget cfg' ''inbounds'' JNull = JList inbounds"
    "check_inbounds inbounds = Inr ports" "set ports = set INBOUND_PORTS" "\<forall>i \<in> set inbounds. inbound_exact plan i"
    by blast
  have "seen c = Doc (raw_of_json (JObj cfg'))"
    using saved(4) unfolding e by (rule xray_save_cases) (simp_all only: option.distinct)
  moreover have "live_config m' = c" by (simp add: saved(5))
  ultimately have "seen (live_config m') = Doc (raw_of_json (JObj cfg'))" by (simp only:)
  with load_config_doc [OF conjunct1 [OF x] i(1-3)] have l: "load_config (seen (live_config m')) = Inr cfg'"
    by (simp only:)
  show ?thesis
    by (rule exI [of _ cfg], rule exI [of _ cfg'], rule exI [of _ inbounds])
      (intro conjI saved(1) l i(1,4) conjunct2 [OF conjunct2 [OF conjunct2 [OF x]]])
qed simp_all

text \<open>
  C8. Revocation by plan is exact. When the limiter's plan has been applied, the configuration file is
  valid and the clients of each managed inbound, on both ports, are exactly the users of the plan with
  their UUIDs, in the plan's order: every other credential is gone, whoever put it there. Outside the
  inbounds and the log section the file says what it said before.
\<close>

theorem plan_reconciled:
  assumes "apply_user_plan lock mark_fails save_fails native token True plan m = (Inr r, m')"
  shows "\<exists>cfg cfg' inbounds. load_config (seen (live_config m)) = Inr cfg
    \<and> load_config (seen (live_config m')) = Inr cfg' \<and> dget cfg' ''inbounds'' JNull = JList inbounds
    \<and> (\<forall>i \<in> set inbounds. inbound_exact plan i)
    \<and> (\<forall>k. k \<notin> {''log'', ''inbounds''} \<longrightarrow> map_of cfg' k = map_of cfg k)"
  using assms by (rule plan_applied_exact)

text \<open>
  C33. A changed configuration is never without its reload intent. Whatever an operation does to the
  file, whichever call fails and wherever the power goes: as soon as the file may hold anything it could
  not hold before, the token is on disk in every content a crash may leave. And the answer that no
  reload is needed is given only with the file untouched and no token pending.
\<close>

theorem reload_intent_durable:
  assumes "locked_change lock mark_fails save_fails native token change m = (r, m')"
  shows "((\<exists>f \<in> insert (seen (live_config m')) (after_crash (live_config m')).
        f \<notin> insert (seen (live_config m)) (after_crash (live_config m)))
      \<longrightarrow> seen (reload_marker m') = token_doc token \<and> after_crash (reload_marker m') = {token_doc token})
    \<and> (r = Inr False \<longrightarrow> live_config m' = live_config m \<and> seen (reload_marker m') = Missing)"
  using assms
proof (cases rule: locked_change_cases)
  case (marked e)
  with mark_cases [OF marked(1)] show ?thesis by auto
next
  case (saved cfg cfg' m1 e c)
  with mark_cases [OF saved(3)] show ?thesis by (auto split: option.splits)
qed (auto simp: has_reload_pending_def)

section \<open>The properties at concrete inputs\<close>

text \<open>Both ports know the revoked user \<^verbatim>\<open>eve\<close>; the plan knows \<^verbatim>\<open>ann\<close> only.\<close>

definition demo_inbound :: "int \<Rightarrow> json list \<Rightarrow> json" where
  "demo_inbound port clients = JObj [(''protocol'', JStr ''vless''), (''port'', JInt port),
     (''settings'', JObj [(''clients'', JList clients)])]"

definition demo_config :: "(int \<Rightarrow> json list) \<Rightarrow> json dict" where
  "demo_config clients = [(''inbounds'', JList [demo_inbound 443 (clients 443), demo_inbound 8443 (clients 8443)])]"

definition eve_config :: "json dict" where
  "eve_config = demo_config (\<lambda>port. [client_entry ''u0'' (email_for port ''eve'')])"

definition ann_plan :: plan where "ann_plan = [(''ann'', Some '' u1 ''), (''eve'', None)]"

definition ann_config :: "json dict" where
  "ann_config = demo_config (\<lambda>port. [client_entry ''u1'' (email_for port ''ann'')])"

lemma ann_desired: "desired_clients ann_plan port = [client_entry ''u1'' (email_for port ''ann'')]"
  by (simp add: desired_clients_def desired_users_def ann_plan_def py_strip_def strip_with_def py_space_def)

lemma ann_change: "plan_change True ann_plan eve_config = Inr (ann_config, True)"
proof -
  have p: "managed_port [(''protocol'', JStr ''vless''), (''port'', JInt n), (''settings'', v)] = Some n"
    if "n = 443 \<or> n = 8443" for n v
    using that by (auto simp: managed_port_def dget_def INBOUND_PORTS_def PRIMARY_PORT_def BACKUP_PORT_def)
  have ne: "\<not> py_eq (JList [client_entry ''u0'' (email_for n ''eve'')]) (JList [client_entry ''u1'' (email_for n ''ann'')])" for n
    by (simp add: py_eq_list client_entry_def py_eq_obj)
  show ?thesis
    by (simp add: plan_change_def migrate_legacy_managed_log_paths_def eve_config_def ann_config_def demo_config_def
        demo_inbound_def dget_def apply_managed_plan_def over_inbounds_def p ann_desired ne put_clients_def)
qed

lemma eve_loads: "load_config (Doc (raw_of_json (JObj eve_config))) = Inr eve_config"
proof (rule load_config_doc)
  show "wf_json (JObj eve_config)"
    by (simp add: eve_config_def demo_config_def demo_inbound_def client_entry_def wf_dict_def)
  show "check_inbounds [demo_inbound 443 [client_entry ''u0'' (email_for 443 ''eve'')],
      demo_inbound 8443 [client_entry ''u0'' (email_for 8443 ''eve'')]] = Inr INBOUND_PORTS"
    by (simp add: demo_inbound_def managed_port_def dget_def INBOUND_PORTS_def PRIMARY_PORT_def BACKUP_PORT_def
        settings_of_def)
qed (simp_all add: eve_config_def demo_config_def dget_def)

definition demo_managed :: "jfile \<Rightarrow> jfile \<Rightarrow> managed" where
  "demo_managed f t = \<lparr>live_config = quiet f, reload_marker = quiet t, service = \<lparr>marker = quiet Missing, issued = []\<rparr>\<rparr>"

lemma ann_applied:
  "apply_user_plan None (\<lambda>_. False) (\<lambda>_. False) (Some True) ''t'' True ann_plan
     (demo_managed (Doc (raw_of_json (JObj eve_config))) Missing)
   = (Inr True, demo_managed (Doc (raw_of_json (JObj ann_config))) (token_doc ''t''))"
  by (simp add: apply_user_plan_def locked_change_def demo_managed_def quiet_def eve_loads ann_change
      mark_reload_pending_def save_text_atomic_def write_atomic_def xray_save_config_def Let_def)

theorem plan_reconciled_witness:
  "\<exists>cfg'. load_config (Doc (raw_of_json (JObj ann_config))) = Inr cfg'"
  using plan_reconciled [OF ann_applied] by (auto simp: demo_managed_def quiet_def)

theorem reload_intent_durable_witness:
  "after_crash (reload_marker (demo_managed (Doc (raw_of_json (JObj ann_config))) (token_doc ''t''))) = {token_doc ''t''}"
proof -
  have "JObj ann_config \<noteq> JObj eve_config"
    by (simp add: ann_config_def eve_config_def demo_config_def demo_inbound_def client_entry_def)
  moreover have "raw_of_json (JObj ann_config) \<noteq> raw_of_json (JObj eve_config)"
    by (simp add: ann_config_def eve_config_def demo_config_def demo_inbound_def client_entry_def raw_of_json.simps)
  ultimately show ?thesis
    using reload_intent_durable [OF ann_applied [unfolded apply_user_plan_def]] by (auto simp: demo_managed_def quiet_def)
qed

end
