(* ===== verification/ReloadProtocol.thy ===== *)
theory ReloadProtocol
  imports XrayConfig
begin

text \<open>
  Writers, schedulers and reload workers of one proxy, interleaved. A writer holds the configuration
  lock from writing its token to replacing the file; a worker takes the lock only to acknowledge its
  token; scheduling takes no lock. Every file operation is the one of the code, with any system call
  able to fail. \<open>loaded\<close> is the configuration the running service has read, \<open>None\<close> when it was stopped.
\<close>

record system =
  files :: managed
  loaded :: "jfile option"
  writing :: "json option"
  workers :: "(bool \<times> string) multiset"
  used :: "string set"

text \<open>
  A worker is its token with the information whether it has restarted the service. Tokens carry 128
  random bits and are taken to be new. With \<open>calm\<close>, nobody schedules while a writer is between its
  token and its file; the code does not ensure that.
\<close>

inductive reload_step :: "bool \<Rightarrow> system \<Rightarrow> system \<Rightarrow> bool" for calm where
  writer_marks: "writing s = None \<Longrightarrow> t \<notin> used s \<Longrightarrow> valid_reload_token t \<Longrightarrow>
    mark_reload_pending fails t (files s) = (e, m) \<Longrightarrow>
    reload_step calm s (s\<lparr>files := m, used := insert t (used s), writing := (if e = None then Some cfg else None)\<rparr>)"
| writer_saves: "writing s = Some cfg \<Longrightarrow>
    xray_save_config fails native cfg (live_config (files s)) = (e, c) \<Longrightarrow>
    reload_step calm s (s\<lparr>files := (files s)\<lparr>live_config := c\<rparr>, writing := None\<rparr>)"
| scheduled: "calm \<longrightarrow> writing s = None \<Longrightarrow>
    xray_reload_async run fails now True (files s) = (True, Some t, m) \<Longrightarrow>
    reload_step calm s (s\<lparr>files := m, workers := add_mset (False, t) (workers s)\<rparr>)"
| restarted: "(False, t) \<in># workers s \<Longrightarrow>
    reload_step calm s (s\<lparr>loaded := Some (seen (live_config (files s))),
      workers := add_mset (True, t) (workers s - {#(False, t)#})\<rparr>)"
| failed: "w \<in># workers s \<Longrightarrow>
    reload_step calm s (s\<lparr>loaded := None, workers := workers s - {#w#}\<rparr>)"
| acknowledged: "(True, t) \<in># workers s \<Longrightarrow> writing s = None \<Longrightarrow>
    clear_reload_pending None fails (Some t) (files s) = (e, m) \<Longrightarrow>
    reload_step calm s (s\<lparr>files := m, workers := workers s - {#(True, t)#}\<rparr>)"

inductive_cases reload_stepE: "reload_step calm s s'"

abbreviation reload_run :: "bool \<Rightarrow> system \<Rightarrow> system \<Rightarrow> bool" where
  "reload_run calm \<equiv> (reload_step calm)\<^sup>*\<^sup>*"

text \<open>A quiet beginning: the service runs on the file, no token is pending, nobody is at work.\<close>

definition settled :: "system \<Rightarrow> bool" where
  "settled s \<longleftrightarrow> loaded s = Some (seen (live_config (files s))) \<and> seen (reload_marker (files s)) = Missing
     \<and> writing s = None \<and> workers s = {#}"

section \<open>Tokens\<close>

lemma isdigit_not_space: "py_isdigit ch \<Longrightarrow> \<not> py_space ch"
  by (auto simp: py_isdigit_def py_space_def is_digit_def)

lemma token_chars: "valid_reload_token t \<Longrightarrow> \<forall>ch \<in> set t. \<not> py_space ch"
proof
  fix ch assume t: "valid_reload_token t" and ch: "ch \<in> set t"
  define stamp where "stamp = takeWhile (\<lambda>ch. ch \<noteq> CHR ''-'') t"
  from t obtain sep nonce where d: "dropWhile (\<lambda>ch. ch \<noteq> CHR ''-'') t = sep # nonce"
    and s: "\<forall>ch \<in> set stamp. py_isdigit ch" and n: "\<forall>ch \<in> set nonce. ch \<in> set ''0123456789abcdef''"
    by (auto simp: valid_reload_token_def stamp_def Let_def split: list.splits)
  have "sep = CHR ''-''" using d hd_dropWhile [of "\<lambda>ch. ch \<noteq> CHR ''-''" t] by fastforce
  moreover have "t = stamp @ sep # nonce" unfolding stamp_def d [symmetric] by simp
  ultimately have "ch \<in> set stamp \<or> ch = CHR ''-'' \<or> ch \<in> set nonce" using ch by auto
  then show "\<not> py_space ch"
  proof (elim disjE)
    assume "ch \<in> set nonce"
    with n have "ch \<in> set ''0123456789abcdef''" by blast
    then show ?thesis by (auto simp: py_space_def)
  qed (use s isdigit_not_space in \<open>auto simp: py_space_def\<close>)
qed

lemma marker_token: "valid_reload_token t \<Longrightarrow> marker_text (token_doc t) = Some t"
proof -
  assume "valid_reload_token t"
  then have c: "\<forall>ch \<in> set t. \<not> py_space ch" by (rule token_chars)
  have "dropWhile py_space (t @ [CHR 0x0A]) = (if t = [] then [] else t @ [CHR 0x0A])"
    using c by (cases t) (auto simp: py_space_def)
  moreover have "dropWhile py_space (rev (t @ [CHR 0x0A])) = rev t"
  proof -
    have "dropWhile py_space (rev t) = rev t"
      using c by (cases "rev t") (auto simp: in_set_conv_decomp [of _ t] dest: arg_cong [of _ _ set] simp del: set_rev)
    then show ?thesis by (simp add: py_space_def)
  qed
  ultimately show ?thesis by (auto simp: marker_text_def token_doc_def py_strip_def strip_with_def)
qed

section \<open>Without a race\<close>

definition reload_inv :: "system \<Rightarrow> bool" where
  "reload_inv s \<longleftrightarrow>
     (\<forall>w \<in># workers s. snd w \<in> used s)
     \<and> (writing s \<noteq> None \<longrightarrow> seen (reload_marker (files s)) \<noteq> Missing
         \<and> (\<forall>w \<in># workers s. marker_text (seen (reload_marker (files s))) \<noteq> Some (snd w)))
     \<and> (\<forall>t. marker_text (seen (reload_marker (files s))) = Some t \<longrightarrow> t \<in> used s)
     \<and> (\<forall>x. writing s = None \<longrightarrow> loaded s = Some x \<longrightarrow>
          (seen (reload_marker (files s)) = Missing
           \<or> (\<exists>t. (True, t) \<in># workers s \<and> marker_text (seen (reload_marker (files s))) = Some t)) \<longrightarrow>
          x = seen (live_config (files s)))"

lemma settled_inv: "settled s \<Longrightarrow> reload_inv s"
  by (simp add: settled_def reload_inv_def marker_text_def)

lemma async_files:
  assumes "reload_async run fails name now live m = (True, t, m')"
  shows "live_config m' = live_config m \<and> reload_marker m' = reload_marker m
    \<and> (\<exists>u. t = Some u \<and> marker_text (seen (reload_marker m)) = Some u)"
  using assms
  by (cases "marker_text (seen (reload_marker m))")
    (auto simp: reload_async_def Let_def split: if_splits prod.splits)

lemma step_inv:
  assumes "reload_step True s s'" and "reload_inv s"
  shows "reload_inv s'"
  using assms(1)
proof (cases rule: reload_step.cases)
  case (writer_marks t fails e m cfg)
  note mk = mark_cases [OF writer_marks(5)] and tok = marker_token [OF writer_marks(4)]
  have nt: "token_doc t \<noteq> Missing" by (simp add: token_doc_def)
  have fresh: "snd w \<noteq> t" if "w \<in># workers s" for w
    using assms(2) that writer_marks(3) by (auto simp: reload_inv_def)
  then have new: "(b, t) \<notin># workers s" for b by fastforce
  show ?thesis
  proof (cases "seen (reload_marker m) = token_doc t")
    case True
    with writer_marks(1) assms(2) tok nt fresh new mk show ?thesis by (auto simp: reload_inv_def)
  next
    case False
    with mk have "seen (reload_marker m) = seen (reload_marker (files s))" "e \<noteq> None" by auto
    with writer_marks(1,2) assms(2) mk show ?thesis by (auto simp: reload_inv_def)
  qed
next
  case (writer_saves cfg fails native e c)
  with assms(2) show ?thesis by (auto simp: reload_inv_def)
next
  case (scheduled run fails now t m)
  with async_files [OF scheduled(3) [unfolded xray_reload_async_def]] assms(2) show ?thesis
    by (auto simp: reload_inv_def)
next
  case (restarted t)
  with assms(2) show ?thesis by (auto simp: reload_inv_def dest: in_diffD)
next
  case (failed w)
  with assms(2) show ?thesis by (auto simp: reload_inv_def dest: in_diffD)
next
  case (acknowledged t fails e m)
  with clear_files [OF acknowledged(4)] assms(2) show ?thesis
    by (auto simp: reload_inv_def marker_text_def dest: in_diffD)
qed

text \<open>
  C32. No reload is lost as long as nobody schedules one in the middle of a write. From a settled
  beginning, whatever writers, schedulers and workers do and whichever call fails: when no token is
  pending and nobody is writing, a running service has read the configuration that is on disk.
\<close>

theorem no_lost_reload:
  assumes "reload_run True s0 s" and "settled s0"
    and "seen (reload_marker (files s)) = Missing" and "writing s = None" and "loaded s = Some x"
  shows "x = seen (live_config (files s))"
proof -
  from assms(1) have "reload_inv s"
    by (induction rule: rtranclp_induct) (use assms(2) settled_inv step_inv in blast)+
  with assms(3-5) show ?thesis by (auto simp: reload_inv_def)
qed

section \<open>The race\<close>

definition race_token :: string where "race_token = ''1-'' @ replicate 32 CHR ''0''"

lemma race_token_valid: "valid_reload_token race_token"
  by code_simp

definition race_files :: "cell \<Rightarrow> cell \<Rightarrow> command list \<Rightarrow> managed" where
  "race_files cfg mark cmds = \<lparr>live_config = cfg, reload_marker = mark,
     service = \<lparr>marker = quiet Missing, issued = cmds\<rparr>\<rparr>"

definition race_start :: system where
  "race_start = \<lparr>files = race_files (quiet (Doc RNull)) (quiet Missing) [], loaded = Some (Doc RNull),
     writing = None, workers = {#}, used = {}\<rparr>"

definition race_end :: system where
  "race_end = \<lparr>files = race_files (quiet (Doc (RBool True))) (quiet Missing) [ScheduleReload],
     loaded = Some (Doc RNull), writing = None, workers = {#}, used = {race_token}\<rparr>"

lemma race_marks: "mark_reload_pending (\<lambda>_. False) race_token (race_files cfg (quiet Missing) cmds)
    = (None, race_files cfg (quiet (token_doc race_token)) cmds)"
  by (simp add: mark_reload_pending_def save_text_atomic_def write_atomic_def quiet_def race_files_def)

lemma race_schedules: "xray_reload_async (\<lambda>_ _. Exited 0) fails now True (race_files cfg (quiet (token_doc race_token)) cmds)
    = (True, Some race_token, race_files cfg (quiet (token_doc race_token)) (cmds @ [ScheduleReload]))"
  using marker_token [OF race_token_valid] race_token_valid
  by (simp add: xray_reload_async_def reload_async_def race_files_def quiet_def issue_def token_doc_def)

lemma race_saves: "xray_save_config (\<lambda>_. False) (Some True) (JBool True) (quiet (Doc RNull)) = (None, quiet (Doc (RBool True)))"
  by (simp add: xray_save_config_def quiet_def raw_of_json.simps Let_def)

lemma race_clears: "clear_reload_pending None (\<lambda>_. False) (Some race_token) (race_files cfg (quiet (token_doc race_token)) cmds)
    = (None, race_files cfg (quiet Missing) cmds)"
  using marker_token [OF race_token_valid]
  by (simp add: clear_reload_pending_def race_files_def quiet_def)

text \<open>
  C40. Scheduling in the middle of a write can lose a reload. While one writer is between its token and
  the new file, another process schedules a reload: it reads the token of the unfinished write, its
  worker restarts the service on the old file, and after the write acknowledges the token. No token
  and no worker is left, no later scheduling does anything, and the service keeps the credentials of
  the old file.
\<close>

theorem reload_can_be_lost:
  "settled race_start \<and> reload_run False race_start race_end
   \<and> loaded race_end \<noteq> Some (seen (live_config (files race_end)))
   \<and> workers race_end = {#} \<and> writing race_end = None
   \<and> fst (xray_reload_async run fails now True (files race_end)) = False"
proof -
  let ?f = "race_files (quiet (Doc RNull)) (quiet (token_doc race_token))"
  define s1 where "s1 = race_start\<lparr>files := ?f [], used := {race_token}, writing := Some (JBool True)\<rparr>"
  define s2 where "s2 = s1\<lparr>files := ?f [ScheduleReload], workers := {#(False, race_token)#}\<rparr>"
  define s3 where "s3 = s2\<lparr>loaded := Some (Doc RNull), workers := {#(True, race_token)#}\<rparr>"
  define s4 where "s4 = s3\<lparr>files := race_files (quiet (Doc (RBool True))) (quiet (token_doc race_token)) [ScheduleReload],
    writing := None\<rparr>"
  have 1: "reload_step False race_start s1"
    using writer_marks [of race_start race_token "\<lambda>_. False" None "?f []" False "JBool True"] race_token_valid
    by (simp add: race_start_def s1_def race_marks)
  have 2: "reload_step False s1 s2"
    using scheduled [of False s1 "\<lambda>_ _. Exited 0" "\<lambda>_. False" "''t''" race_token "?f [ScheduleReload]"]
    by (simp add: race_start_def s1_def s2_def race_schedules)
  have 3: "reload_step False s2 s3"
    using restarted [of race_token s2 False]
    by (simp add: race_start_def s1_def s2_def s3_def race_files_def quiet_def)
  have 4: "reload_step False s3 s4"
    using writer_saves [of s3 "JBool True" "\<lambda>_. False" "Some True" None "quiet (Doc (RBool True))" False]
    by (simp add: race_start_def s1_def s2_def s3_def s4_def race_files_def race_saves)
  have 5: "reload_step False s4 race_end"
    using acknowledged [of race_token s4 "\<lambda>_. False" None "files race_end" False]
    by (simp add: race_start_def s1_def s2_def s3_def s4_def race_end_def race_clears)
  have "reload_run False race_start race_end"
    using 1 2 3 4 5 by (meson rtranclp.rtrancl_into_rtrancl rtranclp.rtrancl_refl)
  moreover have "settled race_start"
    by (simp add: settled_def race_start_def race_files_def quiet_def)
  ultimately show ?thesis
    by (simp add: race_end_def race_files_def quiet_def xray_reload_async_def reload_async_def)
qed

definition calm_end :: system where
  "calm_end = \<lparr>files = race_files (quiet (Doc (RBool True))) (quiet Missing) [ScheduleReload],
     loaded = Some (Doc (RBool True)), writing = None, workers = {#}, used = {race_token}\<rparr>"

text \<open>The same operations in the right order.\<close>

theorem no_lost_reload_witness: "Doc (RBool True) = seen (live_config (files calm_end))"
proof (rule no_lost_reload)
  let ?old = "race_files (quiet (Doc RNull)) (quiet (token_doc race_token))"
  let ?new = "race_files (quiet (Doc (RBool True))) (quiet (token_doc race_token))"
  define s1 where "s1 = race_start\<lparr>files := ?old [], used := {race_token}, writing := Some (JBool True)\<rparr>"
  define s2 where "s2 = s1\<lparr>files := ?new [], writing := None\<rparr>"
  define s3 where "s3 = s2\<lparr>files := ?new [ScheduleReload], workers := {#(False, race_token)#}\<rparr>"
  define s4 where "s4 = s3\<lparr>loaded := Some (Doc (RBool True)), workers := {#(True, race_token)#}\<rparr>"
  have 1: "reload_step True race_start s1"
    using writer_marks [of race_start race_token "\<lambda>_. False" None "?old []" True "JBool True"] race_token_valid
    by (simp add: race_start_def s1_def race_marks)
  have 2: "reload_step True s1 s2"
    using writer_saves [of s1 "JBool True" "\<lambda>_. False" "Some True" None "quiet (Doc (RBool True))" True]
    by (simp add: race_start_def s1_def s2_def race_files_def race_saves)
  have 3: "reload_step True s2 s3"
    using scheduled [of True s2 "\<lambda>_ _. Exited 0" "\<lambda>_. False" "''t''" race_token "?new [ScheduleReload]"]
    by (simp add: race_start_def s1_def s2_def s3_def race_schedules)
  have 4: "reload_step True s3 s4"
    using restarted [of race_token s3 True]
    by (simp add: race_start_def s1_def s2_def s3_def s4_def race_files_def quiet_def)
  have 5: "reload_step True s4 calm_end"
    using acknowledged [of race_token s4 "\<lambda>_. False" None "files calm_end" True]
    by (simp add: race_start_def s1_def s2_def s3_def s4_def calm_end_def race_clears)
  show "reload_run True race_start calm_end"
    using 1 2 3 4 5 by (meson rtranclp.rtrancl_into_rtrancl rtranclp.rtrancl_refl)
  show "settled race_start" by (simp add: settled_def race_start_def race_files_def quiet_def)
qed (simp_all add: calm_end_def race_files_def quiet_def)

end
