(* ===== verification/TuicConfig.thy ===== *)
theory TuicConfig
  imports XrayConfig
begin

text \<open>
  The user map of the TUIC proxy: \<^verbatim>\<open>hysteria/tuic_config.py\<close>. Its reload lifecycle is the shared one of
  \<^verbatim>\<open>ReloadMarker\<close>. The state is the proxy's files and service, and the file of the locked user's
  password. \<open>str_of\<close> is \<^verbatim>\<open>str\<close> on a value that is not a string; \<open>fresh\<close> is the generated password.
\<close>

definition LOCKED_USER_UUID :: string where
  "LOCKED_USER_UUID = ''00000000-0000-4000-8000-000000000000''"

definition base_config :: "json dict" where
  "base_config =
     [(''server'', JStr ''[::]:9443''),
      (''users'', JObj []),
      (''certificate'', JStr ''/root/hysteria/server.crt''),
      (''private_key'', JStr ''/root/hysteria/server.key''),
      (''congestion_control'', JStr ''bbr''),
      (''alpn'', JList [JStr ''h3'']),
      (''udp_relay_ipv6'', JBool False),
      (''zero_rtt_handshake'', JBool False),
      (''dual_stack'', JBool True),
      (''auth_timeout'', JStr ''3s''),
      (''task_negotiation_timeout'', JStr ''3s''),
      (''max_idle_time'', JStr ''30s''),
      (''max_external_packet_size'', JInt 1500),
      (''send_window'', JInt 33554432),
      (''receive_window'', JInt 16777216),
      (''gc_interval'', JStr ''3s''),
      (''gc_lifetime'', JStr ''15s''),
      (''log_level'', JStr ''warn'')]"

definition load_runtime_config :: "jfile \<Rightarrow> json dict option res" where
  "load_runtime_config f = (case f of
      Missing \<Rightarrow> Inr None
    | Doc r \<Rightarrow> (case json_of_raw r of JObj d \<Rightarrow> Inr (Some d) | _ \<Rightarrow> Inl InvalidJsonState)
    | _ \<Rightarrow> Inl InvalidJsonState)"

text \<open>\<^verbatim>\<open>str(value or '').strip()\<close>.\<close>

definition stripped_text :: "(json \<Rightarrow> string) \<Rightarrow> json \<Rightarrow> string" where
  "stripped_text str_of v =
     (if \<not> truthy v then [] else py_strip (case v of JStr s \<Rightarrow> s | _ \<Rightarrow> str_of v))"

definition tuic_save_config :: "faults \<Rightarrow> json \<Rightarrow> cell \<Rightarrow> exc option \<times> cell" where
  "tuic_save_config fails cfg c = (case save_text_atomic fails (Doc (raw_of_json cfg)) c of
      (Some e, c') \<Rightarrow> (Some e, c')
    | (None, c') \<Rightarrow> if fails Chmod then (Some OSError, c') else (None, c'))"

definition locked_user_password ::
  "(json \<Rightarrow> string) \<Rightarrow> exc option \<Rightarrow> faults \<Rightarrow> string \<Rightarrow> cell \<Rightarrow> string res \<times> cell" where
  "locked_user_password str_of lock fails fresh secret = (case lock of
      Some e \<Rightarrow> (Inl e, secret)
    | None \<Rightarrow>
        (let data = load_json (seen secret) (JObj []) in
         if truthy data \<and> \<not> is_obj data then (Inl AttributeError, secret)
         else let password = stripped_text str_of (dget (obj_of data) ''password'' JNull) in
         if password \<noteq> [] then (Inr password, secret)
         else (case tuic_save_config fails (JObj [(''password'', JStr fresh)]) secret of
             (Some e, c) \<Rightarrow> (Inl e, c)
           | (None, c) \<Rightarrow> (Inr fresh, c))))"

definition ensure_tuic_accepts_config ::
  "(json \<Rightarrow> string) \<Rightarrow> exc option \<Rightarrow> faults \<Rightarrow> string \<Rightarrow> json dict \<Rightarrow> cell \<Rightarrow> json dict res \<times> cell" where
  "ensure_tuic_accepts_config str_of lock fails fresh users secret =
     (if users \<noteq> [] then (Inr users, secret)
      else (case locked_user_password str_of lock fails fresh secret of
          (Inl e, c) \<Rightarrow> (Inl e, c)
        | (Inr password, c) \<Rightarrow> (Inr [(LOCKED_USER_UUID, JStr password)], c)))"

definition credential_text :: "string \<Rightarrow> string \<Rightarrow> json" where
  "credential_text username token = JStr (username @ '':'' @ token)"

text \<open>The entry a user of \<^verbatim>\<open>users.json\<close> gets in the user map, if any.\<close>

definition user_entry :: "(json \<Rightarrow> string) \<Rightarrow> string \<times> json \<Rightarrow> (string \<times> json) option" where
  "user_entry str_of kv = (case snd kv of
      JObj d \<Rightarrow>
        if truthy (dget d ''disabled'' JNull) \<or> \<not> tuic_enabled (snd kv) then None
        else (let uid = stripped_text str_of (dget d ''vless_uuid'' JNull);
                  token = stripped_text str_of (dget d ''sub_token'' JNull) in
              if uid \<noteq> [] \<and> token \<noteq> [] then Some (uid, credential_text (fst kv) token) else None)
    | _ \<Rightarrow> None)"

definition users_map :: "(string \<times> json) list \<Rightarrow> json dict" where
  "users_map entries = foldl (\<lambda>d (uid, text). AList.update uid text d) [] entries"

definition render_from_users where
  "render_from_users str_of lock fails fresh users secret =
     ensure_tuic_accepts_config str_of lock fails fresh
       (users_map (List.map_filter (user_entry str_of) (sort_key fst users))) secret"

definition plan_entry :: "(json \<Rightarrow> string) \<Rightarrow> json dict \<Rightarrow> string \<times> string option \<Rightarrow> (string \<times> json) option" where
  "plan_entry str_of users pu =
     (let uid = py_strip (case snd pu of None \<Rightarrow> [] | Some t \<Rightarrow> t) in
      case map_of users (fst pu) of
        Some (JObj d) \<Rightarrow>
          if uid = [] \<or> \<not> tuic_enabled (JObj d) then None
          else (let token = stripped_text str_of (dget d ''sub_token'' JNull) in
                if token \<noteq> [] then Some (uid, credential_text (fst pu) token) else None)
      | _ \<Rightarrow> None)"

definition render_from_user_plan where
  "render_from_user_plan str_of lock fails fresh users plan secret =
     ensure_tuic_accepts_config str_of lock fails fresh
       (users_map (List.map_filter (plan_entry str_of users) (sort_key fst plan))) secret"

text \<open>The locked part of \<^verbatim>\<open>sync_all\<close> and \<^verbatim>\<open>sync_user_plan\<close>, for a rendered user map.\<close>

definition desired_config :: "json dict option \<Rightarrow> json dict \<Rightarrow> json dict" where
  "desired_config current users = AList.update ''users'' (JObj users)
     (case current of None \<Rightarrow> base_config
      | Some d \<Rightarrow> foldl (\<lambda>acc (k, v). AList.update k v acc) base_config d)"

definition replace_users ::
  "exc option \<Rightarrow> faults \<Rightarrow> faults \<Rightarrow> string \<Rightarrow> json dict \<Rightarrow> managed \<Rightarrow> bool res \<times> managed" where
  "replace_users lock mark_fails save_fails token users m = (case lock of
      Some e \<Rightarrow> (Inl e, m)
    | None \<Rightarrow> (case load_runtime_config (seen (live_config m)) of
        Inl e \<Rightarrow> (Inl e, m)
      | Inr current \<Rightarrow>
          (let desired = desired_config current users in
           if (case current of None \<Rightarrow> False | Some d \<Rightarrow> py_eq (JObj d) (JObj desired))
           then (Inr (has_reload_pending m), m)
           else (case mark_reload_pending mark_fails token m of
               (Some e, m1) \<Rightarrow> (Inl e, m1)
             | (None, m1) \<Rightarrow> (case tuic_save_config save_fails (JObj desired) (live_config m1) of
                 (Some e, c) \<Rightarrow> (Inl e, m1\<lparr>live_config := c\<rparr>)
               | (None, c) \<Rightarrow> (Inr True, m1\<lparr>live_config := c\<rparr>))))))"

record tuic_io =
  io_str :: "json \<Rightarrow> string"
  io_secret_lock :: "exc option"
  io_secret_faults :: faults
  io_fresh :: string
  io_lock :: "exc option"
  io_mark_faults :: faults
  io_save_faults :: faults
  io_token :: string

definition sync_all :: "tuic_io \<Rightarrow> jfile \<Rightarrow> json dict option \<Rightarrow> managed \<times> cell \<Rightarrow> bool res \<times> managed \<times> cell" where
  "sync_all x users_file users s = (case s of (m, secret) \<Rightarrow>
     (case (case users of Some u \<Rightarrow> Inr u | None \<Rightarrow> load_dict users_file True) of
        Inl e \<Rightarrow> (Inl e, m, secret)
      | Inr us \<Rightarrow>
          (case render_from_users (io_str x) (io_secret_lock x) (io_secret_faults x) (io_fresh x) us secret of
             (Inl e, c) \<Rightarrow> (Inl e, m, c)
           | (Inr rendered, c) \<Rightarrow>
               (let (r, m') = replace_users (io_lock x) (io_mark_faults x) (io_save_faults x) (io_token x) rendered m
                in (r, m', c)))))"

definition sync_user_plan :: "tuic_io \<Rightarrow> json dict \<Rightarrow> plan \<Rightarrow> managed \<times> cell \<Rightarrow> bool res \<times> managed \<times> cell" where
  "sync_user_plan x users plan s = (case s of (m, secret) \<Rightarrow>
     (case render_from_user_plan (io_str x) (io_secret_lock x) (io_secret_faults x) (io_fresh x) users plan secret of
        (Inl e, c) \<Rightarrow> (Inl e, m, c)
      | (Inr rendered, c) \<Rightarrow>
          (let (r, m') = replace_users (io_lock x) (io_mark_faults x) (io_save_faults x) (io_token x) rendered m
           in (r, m', c))))"

definition tuic_run_reload_worker where
  "tuic_run_reload_worker run lock fails now live expected_token =
     run_reload_worker run lock fails TUIC_SERVICE 3 now live expected_token"

definition tuic_reload_async where
  "tuic_reload_async run fails now live = reload_async run fails TUIC_SERVICE now live"

definition tuic_main where
  "tuic_main worker args m = worker_main worker args m"

section \<open>The user map of a plan\<close>

lemma users_map_in: "map_of (users_map es) uid = Some v \<Longrightarrow> (uid, v) \<in> set es"
  using set_dict_of_pairs [of es] by (auto simp: users_map_def dict_of_pairs_def dest: map_of_SomeD)

lemma users_map_wf: "wf_dict (users_map es)"
  using wf_dict_of_pairs [of es] by (simp add: users_map_def dict_of_pairs_def)

lemma plan_entry_Some:
  assumes "plan_entry str_of users (username, u) = Some (uid, v)"
  shows "\<exists>t d. u = Some t \<and> uid = py_strip t \<and> map_of users username = Some (JObj d) \<and> tuic_enabled (JObj d)
    \<and> v = credential_text username (stripped_text str_of (dget d ''sub_token'' JNull))
    \<and> stripped_text str_of (dget d ''sub_token'' JNull) \<noteq> []"
proof -
  from assms obtain d where d: "map_of users username = Some (JObj d)"
    by (auto simp: plan_entry_def Let_def split: option.splits json.splits)
  show ?thesis
  proof (cases u)
    case None
    with assms d show ?thesis by (simp add: plan_entry_def Let_def py_strip_def strip_with_def)
  next
    case (Some t)
    with assms d show ?thesis by (auto simp: plan_entry_def Let_def split: if_splits)
  qed
qed

text \<open>Who a user map may name: an enabled user of the plan with its token, or the locked user.\<close>

definition entry_allowed :: "(json \<Rightarrow> string) \<Rightarrow> json dict \<Rightarrow> plan \<Rightarrow> string \<Rightarrow> json \<Rightarrow> bool" where
  "entry_allowed str_of users plan uid v \<longleftrightarrow> (\<exists>username t d. (username, Some t) \<in> set plan \<and> uid = py_strip t
     \<and> map_of users username = Some (JObj d) \<and> tuic_enabled (JObj d)
     \<and> v = credential_text username (stripped_text str_of (dget d ''sub_token'' JNull))
     \<and> stripped_text str_of (dget d ''sub_token'' JNull) \<noteq> [])"

lemma render_plan_allowed:
  assumes "render_from_user_plan str_of lock fails fresh users plan secret = (Inr us, c)"
  shows "wf_dict us \<and> us \<noteq> [] \<and> (\<forall>uid v. map_of us uid = Some v \<longrightarrow> (\<exists>t. v = JStr t)
     \<and> (entry_allowed str_of users plan uid v \<or> uid = LOCKED_USER_UUID \<and> length us = 1))"
proof -
  let ?es = "List.map_filter (plan_entry str_of users) (sort_key fst plan)"
  show ?thesis
  proof (cases "users_map ?es = []")
    case True
    with assms obtain p where "us = [(LOCKED_USER_UUID, JStr p)]"
      by (auto simp: render_from_user_plan_def ensure_tuic_accepts_config_def split: prod.splits sum.splits)
    then show ?thesis by (simp add: wf_dict_def)
  next
    case False
    with assms have us: "us = users_map ?es"
      by (simp add: render_from_user_plan_def ensure_tuic_accepts_config_def)
    have "(\<exists>t. v = JStr t) \<and> entry_allowed str_of users plan uid v" if "map_of us uid = Some v" for uid v
    proof -
      from users_map_in that us have "(uid, v) \<in> set ?es" by blast
      then obtain pu where "pu \<in> set plan" "plan_entry str_of users pu = Some (uid, v)"
        by (auto simp: List.map_filter_def)
      moreover obtain username u where "pu = (username, u)" by fastforce
      ultimately have "(username, u) \<in> set plan" "plan_entry str_of users (username, u) = Some (uid, v)" by auto
      with plan_entry_Some [OF this(2)] show ?thesis unfolding entry_allowed_def credential_text_def by blast
    qed
    then show ?thesis using us False users_map_wf [of ?es] by simp
  qed
qed

section \<open>The file\<close>

lemma py_eq_lookup:
  assumes "py_eq (JObj d) (JObj d')" and "wf_dict d" and "wf_dict d'" and "map_of d' k = Some v'"
  shows "\<exists>v. map_of d k = Some v \<and> py_eq v v'"
proof -
  from assms(1) have len: "length d = length d'"
    and sub: "\<And>kv. kv \<in> set d \<Longrightarrow> \<exists>v. map_of d' (fst kv) = Some v \<and> py_eq (snd kv) v"
    unfolding py_eq_obj by (auto split: option.splits)
  have "fst ` set d \<subseteq> fst ` set d'"
  proof
    fix x assume "x \<in> fst ` set d"
    then obtain kv where "kv \<in> set d" "x = fst kv" by auto
    with sub obtain v where "map_of d' x = Some v" by blast
    then show "x \<in> fst ` set d'" by (force dest: map_of_SomeD)
  qed
  moreover have "card (fst ` set d) = card (fst ` set d')"
    using assms(2,3) len unfolding wf_dict_def by (metis distinct_card length_map set_map)
  ultimately have "fst ` set d = fst ` set d'" by (intro card_subset_eq) simp_all
  moreover have "k \<in> fst ` set d'" using map_of_SomeD [OF assms(4)] by force
  ultimately have "k \<in> fst ` set d" by simp
  then obtain v where v: "(k, v) \<in> set d" by auto
  with sub [OF v] assms(4) have "py_eq v v'" by simp
  with v assms(2) show ?thesis by (auto simp: map_of_wf)
qed

lemma py_eq_strings:
  assumes e: "py_eq (JObj d) (JObj d')" and wf: "wf_dict d" "wf_dict d'"
    and str: "\<And>k v. map_of d' k = Some v \<Longrightarrow> \<exists>t. v = JStr t"
  shows "map_of d k = map_of d' k"
proof (cases "map_of d' k")
  case (Some v')
  from py_eq_lookup [OF e wf Some] str [OF Some] Some show ?thesis by auto
next
  case None
  have "map_of d k = None"
  proof (rule ccontr)
    assume "map_of d k \<noteq> None"
    then obtain v where "(k, v) \<in> set d" by (auto dest: map_of_SomeD)
    with e None show False unfolding py_eq_obj by (auto dest!: bspec)
  qed
  with None show ?thesis by simp
qed

lemma runtime_wf: "load_runtime_config f = Inr (Some d) \<Longrightarrow> wf_json (JObj d)"
proof -
  assume "load_runtime_config f = Inr (Some d)"
  then obtain r where "json_of_raw r = JObj d"
    by (auto simp: load_runtime_config_def split: jfile.splits json.splits)
  with wf_json_of_raw [of r] show ?thesis by simp
qed

lemma wf_updates:
  "wf_json (JObj acc) \<Longrightarrow> \<forall>kv \<in> set d. wf_json (snd kv) \<Longrightarrow>
     wf_json (JObj (foldl (\<lambda>acc (k, v). AList.update k v acc) acc d))"
proof (induction d arbitrary: acc)
  case (Cons kv d)
  obtain k v where kv: "kv = (k, v)" by fastforce
  have "wf_json (JObj (AList.update k v acc))"
    using Cons.prems kv by (intro wf_json_update) simp_all
  with Cons.IH Cons.prems(2) show ?case by (simp add: kv del: wf_json.simps)
qed simp

lemma wf_base: "wf_json (JObj base_config)"
  by (simp add: base_config_def wf_dict_def)

lemma wf_desired_config:
  assumes "\<And>d. current = Some d \<Longrightarrow> wf_json (JObj d)" and "wf_json (JObj users)"
  shows "wf_json (JObj (desired_config current users))"
proof (cases current)
  case None
  with wf_json_update [OF wf_base assms(2)] show ?thesis by (simp add: desired_config_def del: wf_json.simps)
next
  case (Some d)
  with assms(1) have "\<forall>kv \<in> set d. wf_json (snd kv)" by simp
  from wf_json_update [OF wf_updates [OF wf_base this] assms(2)] Some show ?thesis
    by (simp add: desired_config_def del: wf_json.simps)
qed

lemma tuic_save_success:
  "tuic_save_config fails cfg c = (None, c') \<Longrightarrow> seen c' = Doc (raw_of_json cfg)"
  by (auto simp: tuic_save_config_def save_text_atomic_def write_atomic_def Let_def
      split: prod.splits option.splits if_splits)

lemma replace_users_file:
  assumes r: "replace_users lock mark_fails save_fails token users m = (Inr b, m')" and wf: "wf_json (JObj users)"
    and str: "\<And>k v. map_of users k = Some v \<Longrightarrow> \<exists>t. v = JStr t"
  shows "\<exists>cfg us. load_runtime_config (seen (live_config m')) = Inr (Some cfg)
    \<and> map_of cfg ''users'' = Some (JObj us) \<and> (\<forall>uid. map_of us uid = map_of users uid)"
proof -
  from r obtain current where cur: "load_runtime_config (seen (live_config m)) = Inr current"
    by (auto simp: replace_users_def split: option.splits sum.splits)
  let ?want = "desired_config current users"
  have want: "map_of ?want ''users'' = Some (JObj users)" by (simp add: desired_config_def)
  have wfc: "wf_json (JObj d)" if "current = Some d" for d using runtime_wf cur that by blast
  then have wfw: "wf_json (JObj ?want)" using wf_desired_config [OF _ wf, of current] by blast
  show ?thesis
  proof (cases "case current of None \<Rightarrow> False | Some d \<Rightarrow> py_eq (JObj d) (JObj ?want)")
    case True
    then obtain d where d: "current = Some d" "py_eq (JObj d) (JObj ?want)" by (auto split: option.splits)
    from r cur True have m': "m' = m" by (auto simp: replace_users_def Let_def split: option.splits)
    from wfc [OF d(1)] wfw have wd: "wf_dict d" "wf_dict ?want" by simp_all
    from py_eq_lookup [OF d(2) wd want] obtain v where v: "map_of d ''users'' = Some v" "py_eq v (JObj users)" by blast
    from py_eq_obj_cases [OF v(2)] obtain us where us: "v = JObj us" by blast
    have "wf_json (JObj us)" using wf_json_lookup [OF wfc [OF d(1)] v(1)] us by simp
    then have "map_of us uid = map_of users uid" for uid
      using v(2) us wf by (intro py_eq_strings str) simp_all
    with cur d v us m' show ?thesis by auto
  next
    case False
    with r cur obtain m1 c where mk: "mark_reload_pending mark_fails token m = (None, m1)"
      and sv: "tuic_save_config save_fails (JObj ?want) (live_config m1) = (None, c)" and m': "m' = m1\<lparr>live_config := c\<rparr>"
      by (auto simp: replace_users_def Let_def split: option.splits prod.splits if_splits)
    have "seen (live_config m') = Doc (raw_of_json (JObj ?want))"
      using tuic_save_success [OF sv] m' by simp
    then have "load_runtime_config (seen (live_config m')) = Inr (Some ?want)"
      using json_of_raw_of_json [OF wfw] by (simp add: load_runtime_config_def del: json_of_raw.simps)
    with want show ?thesis by blast
  qed
qed

lemma tuic_plan_file:
  assumes "sync_user_plan x users plan (m, secret) = (Inr b, m', secret')"
  shows "\<exists>cfg us. load_runtime_config (seen (live_config m')) = Inr (Some cfg)
    \<and> map_of cfg ''users'' = Some (JObj us) \<and> us \<noteq> []
    \<and> (\<forall>uid v. map_of us uid = Some v \<longrightarrow> entry_allowed (io_str x) users plan uid v
         \<or> uid = LOCKED_USER_UUID \<and> (\<forall>u. map_of us u \<noteq> None \<longrightarrow> u = LOCKED_USER_UUID))"
proof -
  from assms obtain us0 c where r: "render_from_user_plan (io_str x) (io_secret_lock x) (io_secret_faults x)
      (io_fresh x) users plan secret = (Inr us0, c)"
    and p: "replace_users (io_lock x) (io_mark_faults x) (io_save_faults x) (io_token x) us0 m = (Inr b, m')"
    by (auto simp: sync_user_plan_def split: prod.splits sum.splits)
  note a = render_plan_allowed [OF r]
  have str: "\<exists>t. v = JStr t" if "map_of us0 k = Some v" for k v using a that by blast
  have "wf_json (snd kv)" if "kv \<in> set us0" for kv
    using a that str [of "fst kv" "snd kv"] by (auto simp: map_of_wf)
  with a have "wf_json (JObj us0)" by simp
  from replace_users_file [OF p this] str obtain cfg us where f:
    "load_runtime_config (seen (live_config m')) = Inr (Some cfg)" "map_of cfg ''users'' = Some (JObj us)"
    "\<forall>uid. map_of us uid = map_of us0 uid" by blast
  have ne: "us \<noteq> []"
  proof
    assume "us = []"
    moreover have "map_of us0 (fst (hd us0)) \<noteq> None" using a by (cases us0) auto
    ultimately show False using f(3) by auto
  qed
  have only: "u = uid" if "length us0 = 1" "map_of us0 uid = Some v" "map_of us0 u = Some w" for uid u v w
    using that by (cases us0) (auto split: if_splits)
  have "entry_allowed (io_str x) users plan uid v
         \<or> uid = LOCKED_USER_UUID \<and> (\<forall>u. map_of us u \<noteq> None \<longrightarrow> u = LOCKED_USER_UUID)"
    if "map_of us uid = Some v" for uid v
  proof -
    from that f(3) have v: "map_of us0 uid = Some v" by simp
    with a have "entry_allowed (io_str x) users plan uid v \<or> uid = LOCKED_USER_UUID \<and> length us0 = 1" by blast
    then show ?thesis
    proof
      assume "uid = LOCKED_USER_UUID \<and> length us0 = 1"
      with only [OF _ v] f(3) show ?thesis by auto
    qed simp
  qed
  with f ne show ?thesis by blast
qed

text \<open>
  C25. Revocation by plan reaches TUIC. When a plan has been applied, the user map in the configuration
  file names only users whom the plan names and who are enabled, with their current token, or else
  the locked user alone: nobody revoked, disabled or without a token can connect.
\<close>

theorem tuic_plan_applied:
  assumes "sync_user_plan x users plan (m, secret) = (Inr b, m', secret')"
  shows "\<exists>cfg us. load_runtime_config (seen (live_config m')) = Inr (Some cfg)
    \<and> map_of cfg ''users'' = Some (JObj us) \<and> us \<noteq> []
    \<and> (\<forall>uid v. map_of us uid = Some v \<longrightarrow> entry_allowed (io_str x) users plan uid v
         \<or> uid = LOCKED_USER_UUID \<and> (\<forall>u. map_of us u \<noteq> None \<longrightarrow> u = LOCKED_USER_UUID))"
  using assms by (rule tuic_plan_file)

section \<open>The property at a concrete input\<close>

definition demo_io :: tuic_io where
  "demo_io = \<lparr>io_str = (\<lambda>_. ''''), io_secret_lock = None, io_secret_faults = (\<lambda>_. False), io_fresh = ''pw'',
     io_lock = None, io_mark_faults = (\<lambda>_. False), io_save_faults = (\<lambda>_. False), io_token = ''t''\<rparr>"

definition demo_tuic_users :: "json dict" where
  "demo_tuic_users = [(''ann'', JObj [(''sub_token'', JStr ''tok'')]), (''eve'', JObj [(''sub_token'', JStr ''x'')])]"

lemma demo_rendered:
  "render_from_user_plan (io_str demo_io) (io_secret_lock demo_io) (io_secret_faults demo_io) (io_fresh demo_io)
     demo_tuic_users [(''ann'', Some ''u1''), (''eve'', None)] secret
   = (Inr [(''u1'', JStr ''ann:tok'')], secret)"
  by (simp add: render_from_user_plan_def plan_entry_def demo_tuic_users_def List.map_filter_def
      tuic_enabled_def is_metered_def dget_def stripped_text_def py_strip_def strip_with_def py_space_def users_map_def
      credential_text_def ensure_tuic_accepts_config_def)

theorem tuic_plan_applied_witness:
  "\<exists>(m' :: managed) cfg us. load_runtime_config (seen (live_config m')) = Inr (Some cfg) \<and> map_of cfg ''users'' = Some (JObj us) \<and> us \<noteq> []"
proof -
  obtain m' where m': "replace_users (io_lock demo_io) (io_mark_faults demo_io) (io_save_faults demo_io) (io_token demo_io)
      [(''u1'', JStr ''ann:tok'')] (demo_managed Missing Missing) = (Inr True, m')"
    by (simp add: replace_users_def demo_io_def demo_managed_def quiet_def load_runtime_config_def mark_reload_pending_def
        save_text_atomic_def write_atomic_def tuic_save_config_def Let_def)
  have "sync_user_plan demo_io demo_tuic_users [(''ann'', Some ''u1''), (''eve'', None)] (demo_managed Missing Missing, quiet Missing)
      = (Inr True, m', quiet Missing)"
    by (simp add: sync_user_plan_def demo_rendered m')
  from tuic_plan_applied [OF this] obtain cfg us where
    "load_runtime_config (seen (live_config m')) = Inr (Some cfg)" "map_of cfg ''users'' = Some (JObj us)" "us \<noteq> []"
    by (elim exE conjE)
  then show ?thesis by (intro exI conjI)
qed

end
