(* ===== verification/UsageLedger.thy ===== *)
theory UsageLedger
  imports UserCompat Cycle StateStore
begin

text \<open>
  The usage ledgers of \<^verbatim>\<open>hysteria/traffic_limiter.py\<close>: validation, normalised entries, the daily, hourly
  and per-cycle accumulation, pruning, and the usage of a cycle. Traffic that has been collected is a
  dictionary of pairs \<open>(tx, rx)\<close> of integers.
\<close>

section \<open>Validation\<close>

definition limiter_integer :: "json \<Rightarrow> int res" where
  "limiter_integer value = non_negative_integer InvalidJsonState ValueError value"

definition validate_usage_entry :: "json \<Rightarrow> unit res" where
  "validate_usage_entry entry = (case entry of
      JObj d \<Rightarrow>
        if \<not> set (dkeys d) \<subseteq> {''tx'', ''rx'', ''total''} then Inl InvalidJsonState
        else rbind (limiter_integer (dget d ''tx'' (JInt 0))) (\<lambda>tx.
          rbind (limiter_integer (dget d ''rx'' (JInt 0))) (\<lambda>rx.
          rbind (limiter_integer (dget d ''total'' (JInt 0))) (\<lambda>total.
            if total \<noteq> tx + rx then Inl InvalidJsonState else Inr ())))
    | _ \<Rightarrow> rbind (limiter_integer entry) (\<lambda>_. Inr ()))"

text \<open>The patterns of the bucket keys, each with the strptime check.\<close>

definition CYCLE_KEY :: "string \<Rightarrow> bool" where
  "CYCLE_KEY s \<longleftrightarrow> length s = 7 \<and> s ! 4 = CHR ''-'' \<and> (\<forall>i \<in> {0, 1, 2, 3, 5, 6}. is_digit (s ! i))
     \<and> strptime_ymd (s @ ''-01'') \<noteq> None"

definition DAY_KEY :: "string \<Rightarrow> bool" where
  "DAY_KEY s \<longleftrightarrow> length s = 10 \<and> s ! 4 = CHR ''-'' \<and> s ! 7 = CHR ''-''
     \<and> (\<forall>i \<in> {0, 1, 2, 3, 5, 6, 8, 9}. is_digit (s ! i)) \<and> strptime_ymd s \<noteq> None"

definition validate_usage_ledger :: "bool \<Rightarrow> json dict \<Rightarrow> unit res" where
  "validate_usage_ledger daily data = check_all (\<lambda>(bucket, rows).
     if \<not> (if daily then DAY_KEY bucket else CYCLE_KEY bucket) then Inl InvalidJsonState
     else (case rows of
         JObj r \<Rightarrow> check_all (\<lambda>(username, entry).
           if username = [] then Inl InvalidJsonState else validate_usage_entry entry) r
       | _ \<Rightarrow> Inl InvalidJsonState)) data"

definition check_integer_fields :: "json dict \<Rightarrow> unit res" where
  "check_integer_fields cfg = check_all (\<lambda>f. case map_of cfg f of
      None \<Rightarrow> Inr () | Some v \<Rightarrow> rbind (limiter_integer v) (\<lambda>_. Inr ()))
     [''monthly_quota_bytes'', ''quota_extra_bytes'']"

text \<open>
  \<^verbatim>\<open>str(cfg.get('vless_uuid') or '').strip()\<close> of a configuration that has been checked: the field is
  absent, null or a string.
\<close>

definition vless_text :: "json dict \<Rightarrow> string" where
  "vless_text cfg = (case dget cfg ''vless_uuid'' JNull of JStr s \<Rightarrow> py_strip s | _ \<Rightarrow> [])"

fun validate_users_from :: "iso_parser \<Rightarrow> int list \<Rightarrow> json dict \<Rightarrow> unit res" where
  "validate_users_from isodt claimed [] = Inr ()"
| "validate_users_from isodt claimed ((username, cfg) # rest) =
     (if \<not> valid_username username then Inl InvalidJsonState
      else case cfg of
        JObj d \<Rightarrow> rbind (authorization_config_error isodt cfg) (\<lambda>e.
          if e \<noteq> None then Inl InvalidJsonState
          else if vless_text d = [] then rbind (check_integer_fields d) (\<lambda>_. validate_users_from isodt claimed rest)
          else (case uuid_value (vless_text d) of
              None \<Rightarrow> Inl InvalidJsonState
            | Some n \<Rightarrow>
                if n \<in> set claimed then Inl InvalidJsonState
                else rbind (check_integer_fields d) (\<lambda>_. validate_users_from isodt (n # claimed) rest)))
      | _ \<Rightarrow> Inl InvalidJsonState)"

definition validate_users :: "iso_parser \<Rightarrow> json dict \<Rightarrow> unit res" where
  "validate_users isodt data = validate_users_from isodt [] data"

definition check_meta_field :: "json dict \<Rightarrow> string \<Rightarrow> int \<Rightarrow> int \<Rightarrow> unit res" where
  "check_meta_field data f lo hi = (case map_of data f of
      None \<Rightarrow> Inr ()
    | Some v \<Rightarrow> rbind (limiter_integer v) (\<lambda>n. if lo \<le> n \<and> n \<le> hi then Inr () else Inl InvalidJsonState))"

definition limiter_validate_meta :: "json dict \<Rightarrow> unit res" where
  "limiter_validate_meta data =
     rbind (check_meta_field data ''settlement_day'' 1 28) (\<lambda>_.
     rbind (check_meta_field data ''cycle_length_days'' CYCLE_LENGTH_MIN CYCLE_LENGTH_MAX) (\<lambda>_.
       let anchor = dget data ''cycle_anchor_date'' JNull in
       if none_or_empty anchor then Inr ()
       else case anchor of
         JStr s \<Rightarrow> if strptime_ymd s = None then Inl InvalidJsonState else Inr ()
       | _ \<Rightarrow> Inl InvalidJsonState))"

definition validate_reset_state :: "json dict \<Rightarrow> unit res" where
  "validate_reset_state data = check_all (\<lambda>f. case map_of data f of
      Some v \<Rightarrow> if v = JNull \<or> is_str v then Inr () else Inl InvalidJsonState
    | None \<Rightarrow> Inr ()) [''last_reset_month'', ''last_reset_time'']"

section \<open>Entries\<close>

record usage =
  tx :: int
  rx :: int
  total :: int

definition zero_usage :: usage where "zero_usage = \<lparr>tx = 0, rx = 0, total = 0\<rparr>"

text \<open>\<^verbatim>\<open>int(entry or 0)\<close>.\<close>

definition int_or_zero :: "json \<Rightarrow> int res" where
  "int_or_zero entry = (if truthy entry then py_int entry else Inr 0)"

definition normalize_usage_entry :: "json \<Rightarrow> usage res" where
  "normalize_usage_entry entry = (case entry of
      JObj d \<Rightarrow>
        rbind (py_int (dget d ''tx'' (JInt 0))) (\<lambda>t.
        rbind (py_int (dget d ''rx'' (JInt 0))) (\<lambda>r.
        rbind (py_int (dget d ''total'' (JInt (t + r)))) (\<lambda>s. Inr \<lparr>tx = t, rx = r, total = s\<rparr>)))
    | _ \<Rightarrow> rbind (int_or_zero entry) (\<lambda>s. Inr \<lparr>tx = 0, rx = s, total = s\<rparr>))"

definition usage_json :: "usage \<Rightarrow> json" where
  "usage_json u = JObj [(''tx'', JInt (tx u)), (''rx'', JInt (rx u)), (''total'', JInt (total u))]"

definition add_traffic :: "usage \<Rightarrow> int \<Rightarrow> int \<Rightarrow> usage" where
  "add_traffic u t r = \<lparr>tx = tx u + t, rx = rx u + r, total = total u + (t + r)\<rparr>"

type_synonym traffic = "(string \<times> int \<times> int) list"

definition merge_traffic :: "traffic \<Rightarrow> traffic \<Rightarrow> traffic" where
  "merge_traffic dst src = foldl (\<lambda>d (uid, t, r). case map_of d uid of
      None \<Rightarrow> AList.update uid (t, r) d
    | Some (t0, r0) \<Rightarrow> AList.update uid (t0 + t, r0 + r) d) dst src"

definition traffic_totals :: "traffic \<Rightarrow> usage" where
  "traffic_totals traffic = foldl (\<lambda>u (uid, t, r). add_traffic u t r) zero_usage traffic"

text \<open>A bucket of a ledger gets the traffic of every user.\<close>

definition add_to_rows :: "traffic \<Rightarrow> json dict \<Rightarrow> json dict res" where
  "add_to_rows traffic rows = fold_res (\<lambda>(uid, t, r) rows.
     rbind (normalize_usage_entry (dget rows uid (JInt 0))) (\<lambda>cur.
       Inr (AList.update uid (usage_json (add_traffic cur t r)) rows))) traffic rows"

text \<open>\<^verbatim>\<open>ledger.setdefault(key, {})\<close>, then the traffic into that bucket.\<close>

definition add_to_bucket :: "string \<Rightarrow> traffic \<Rightarrow> json dict \<Rightarrow> json dict res" where
  "add_to_bucket key traffic ledger = (case dget ledger key (JObj []) of
      JObj rows \<Rightarrow> rbind (add_to_rows traffic rows) (\<lambda>rows'. Inr (AList.update key (JObj rows') ledger))
    | v \<Rightarrow> if traffic = [] then Inr ledger else Inl AttributeError)"

section \<open>Pruning\<close>

definition DAILY_RETENTION_DAYS :: int where "DAILY_RETENTION_DAYS = CYCLE_LENGTH_MAX + 2"
definition HOURLY_RETENTION_HOURS :: int where "HOURLY_RETENTION_HOURS = 168"

definition prune_daily :: "json dict \<Rightarrow> date \<Rightarrow> json dict" where
  "prune_daily daily today = (let cutoff = date_key (add_days today (- (DAILY_RETENTION_DAYS - 1)))
     in filter (\<lambda>(k, v). \<not> k < cutoff) daily)"

definition prune_hourly :: "json dict \<Rightarrow> datetime \<Rightarrow> json dict" where
  "prune_hourly hourly now = (let cutoff = hour_key (minus_hours now (HOURLY_RETENTION_HOURS - 1))
     in filter (\<lambda>(k, v). \<not> k < cutoff) hourly)"

section \<open>Accumulation\<close>

definition accumulated_daily :: "traffic \<Rightarrow> datetime \<Rightarrow> json dict \<Rightarrow> json dict res" where
  "accumulated_daily traffic now daily =
     rbind (add_to_bucket (date_key (dt_date now)) traffic daily) (\<lambda>d. Inr (prune_daily d (dt_date now)))"

text \<open>
  The operations on the files: they return the ledger when it is saved. \<open>given\<close> is the already loaded
  and validated ledger of the caller, if any.
\<close>

definition accumulate_daily ::
  "faults \<Rightarrow> traffic \<Rightarrow> datetime \<Rightarrow> json dict option \<Rightarrow> cell \<Rightarrow> json dict res \<times> cell" where
  "accumulate_daily fails traffic now given c =
     (case rbind (case given of
          Some d \<Rightarrow> Inr d
        | None \<Rightarrow> rbind (load_dict (seen c) True) (\<lambda>d. rbind (validate_usage_ledger True d) (\<lambda>_. Inr d)))
        (accumulated_daily traffic now) of
        Inl e \<Rightarrow> (Inl e, c)
      | Inr daily \<Rightarrow> (case save_json fails (JObj daily) c of
          (Some e, c') \<Rightarrow> (Inl e, c')
        | (None, c') \<Rightarrow> (Inr daily, c')))"

definition accumulate_hourly :: "faults \<Rightarrow> traffic \<Rightarrow> datetime \<Rightarrow> cell \<Rightarrow> unit res \<times> cell" where
  "accumulate_hourly fails traffic now c =
     (case rbind (load_dict (seen c) False) (\<lambda>h. rbind (add_to_bucket (hour_key now) traffic h)
        (\<lambda>h'. Inr (prune_hourly h' now))) of
        Inl e \<Rightarrow> (Inl e, c)
      | Inr hourly \<Rightarrow> (case save_json fails (JObj hourly) c of
          (Some e, c') \<Rightarrow> (Inl e, c')
        | (None, c') \<Rightarrow> (Inr (), c')))"

text \<open>One row per protocol, with the totals of its traffic; a protocol without traffic gets no row.\<close>

definition accumulate_protocol_hourly ::
  "faults \<Rightarrow> (string \<times> traffic) list \<Rightarrow> datetime \<Rightarrow> cell \<Rightarrow> json dict res \<times> cell" where
  "accumulate_protocol_hourly fails protocol_traffic now c =
     (let deltas = map (\<lambda>(proto, traffic). (proto, tx (traffic_totals traffic), rx (traffic_totals traffic)))
            (filter (\<lambda>(proto, traffic). traffic \<noteq> []) protocol_traffic)
      in case rbind (load_dict (seen c) False) (\<lambda>h. rbind (add_to_bucket (hour_key now) deltas h)
        (\<lambda>h'. Inr (prune_hourly h' now))) of
        Inl e \<Rightarrow> (Inl e, c)
      | Inr hourly \<Rightarrow> (case save_json fails (JObj hourly) c of
          (Some e, c') \<Rightarrow> (Inl e, c')
        | (None, c') \<Rightarrow> (Inr hourly, c')))"

section \<open>The usage of a cycle\<close>

definition entry_total :: "json option \<Rightarrow> int res" where
  "entry_total entry = (case entry of
      Some (JObj d) \<Rightarrow> py_int (dget d ''total'' (JInt 0))
    | Some v \<Rightarrow> int_or_zero v
    | None \<Rightarrow> Inr 0)"

definition row_of :: "json dict \<Rightarrow> string \<Rightarrow> string \<Rightarrow> json option res" where
  "row_of daily uid dk = (case dget daily dk JNull of
      JObj rows \<Rightarrow> Inr (map_of rows uid)
    | v \<Rightarrow> if truthy v then Inl AttributeError else Inr None)"

definition raw_on :: "json dict \<Rightarrow> string \<Rightarrow> string \<Rightarrow> int res" where
  "raw_on daily uid dk = rbind (row_of daily uid dk) entry_total"

definition cycle_used_raw_for ::
  "string \<Rightarrow> json dict \<Rightarrow> datetime \<Rightarrow> int option \<Rightarrow> json dict \<Rightarrow> int res" where
  "cycle_used_raw_for uid daily now day meta =
     rbind (cycle_days now day JNull None meta) (\<lambda>days.
     rbind (collect (raw_on daily uid) days) (\<lambda>totals. Inr (sum_list totals)))"

definition billing_month_key :: "datetime \<Rightarrow> int \<Rightarrow> string" where
  "billing_month_key now day = billing_cycle_key now day"

section \<open>Resuming and resetting\<close>

definition resume_user :: "iso_parser \<Rightarrow> datetime \<Rightarrow> json \<Rightarrow> json \<times> bool" where
  "resume_user isodt now cfg = (case cfg of
      JObj d \<Rightarrow>
        if truthy (dget d ''disabled'' JNull) \<and> temporary_disable_expired isodt cfg now
        then (JObj (AList.delete ''disabled_until'' (AList.update ''disabled'' (JBool False) d)), True)
        else (cfg, False)
    | _ \<Rightarrow> (cfg, False))"

definition resume_expired_temporary_disables ::
  "iso_parser \<Rightarrow> faults \<Rightarrow> json dict \<Rightarrow> datetime \<Rightarrow> cell \<Rightarrow> bool res \<times> cell" where
  "resume_expired_temporary_disables isodt fails users now c =
     (let resumed = map (\<lambda>(uid, cfg). (uid, resume_user isodt now cfg)) users;
          changed = (\<exists>r \<in> set resumed. snd (snd r))
      in if \<not> changed then (Inr False, c)
         else (case save_json fails (JObj (map (\<lambda>(uid, cfg, ch). (uid, cfg)) resumed)) c of
             (Some e, c') \<Rightarrow> (Inl e, c')
           | (None, c') \<Rightarrow> (Inr True, c')))"

text \<open>
  The reset of the settlement day: every user's row of the month becomes zero. It returns the ledger
  in memory and the two files; \<open>stamp\<close> is the time as text. The log line that follows is best effort.
\<close>

definition zero_rows :: "json dict \<Rightarrow> json dict \<Rightarrow> json dict res" where
  "zero_rows users rows = fold_res (\<lambda>uid rows.
     rbind (normalize_usage_entry (dget rows uid (JInt 0))) (\<lambda>_.
       Inr (AList.update uid (usage_json zero_usage) rows))) (dkeys users) rows"

definition maybe_reset_all_usage_on_day_21 ::
  "faults \<Rightarrow> faults \<Rightarrow> string \<Rightarrow> datetime \<Rightarrow> json dict \<Rightarrow> json dict \<Rightarrow> string \<Rightarrow> int \<Rightarrow> cell \<Rightarrow> cell
   \<Rightarrow> json dict res \<times> cell \<times> cell" where
  "maybe_reset_all_usage_on_day_21 usage_fails reset_fails stamp now users usage month d usage_cell reset_cell =
     (if dy (dt_date now) \<noteq> d then (Inr usage, usage_cell, reset_cell)
      else case rbind (load_dict (seen reset_cell) True) (\<lambda>s. rbind (validate_reset_state s) (\<lambda>_. Inr s)) of
        Inl e \<Rightarrow> (Inl e, usage_cell, reset_cell)
      | Inr reset_state \<Rightarrow>
          if dget reset_state ''last_reset_month'' JNull = JStr month then (Inr usage, usage_cell, reset_cell)
          else (case dget usage month (JObj []) of
              JObj rows \<Rightarrow> (case zero_rows users rows of
                  Inl e \<Rightarrow> (Inl e, usage_cell, reset_cell)
                | Inr rows' \<Rightarrow>
                    (let usage' = AList.update month (JObj rows') usage in
                     case save_json usage_fails (JObj usage') usage_cell of
                       (Some e, uc) \<Rightarrow> (Inl e, uc, reset_cell)
                     | (None, uc) \<Rightarrow> (case save_json reset_fails
                           (JObj [(''last_reset_month'', JStr month), (''last_reset_time'', JStr stamp)]) reset_cell of
                         (Some e, rc) \<Rightarrow> (Inl e, uc, rc)
                       | (None, rc) \<Rightarrow> (Inr usage', uc, rc))))
            | _ \<Rightarrow> (Inl AttributeError, usage_cell, reset_cell)))"

section \<open>Entries of a valid ledger\<close>

lemma limiter_py_int: "limiter_integer v = Inr n \<Longrightarrow> py_int v = Inr n"
  unfolding limiter_integer_def by (rule non_negative_integer_py_int)

lemma limiter_nonneg: "limiter_integer v = Inr n \<Longrightarrow> 0 \<le> n"
  unfolding limiter_integer_def by (rule non_negative_integer_nonneg)

lemma py_strip_Nil [simp]: "py_strip [] = []"
  by (simp add: py_strip_def strip_with_def)

definition usage_ok :: "usage \<Rightarrow> bool" where
  "usage_ok u \<longleftrightarrow> 0 \<le> tx u \<and> 0 \<le> rx u \<and> total u = tx u + rx u"

text \<open>The two readings of a valid entry, for adding to it and for the quota, agree.\<close>

lemma valid_entry_obj:
  assumes "validate_usage_entry (JObj d) = Inr ()"
  shows "\<exists>u. normalize_usage_entry (JObj d) = Inr u \<and> entry_total (Some (JObj d)) = Inr (total u) \<and> usage_ok u"
proof -
  from assms obtain t r s where v: "limiter_integer (dget d ''tx'' (JInt 0)) = Inr t"
    "limiter_integer (dget d ''rx'' (JInt 0)) = Inr r" "limiter_integer (dget d ''total'' (JInt 0)) = Inr s" "s = t + r"
    by (auto simp: validate_usage_entry_def rbind_eq_Inr split: if_splits)
  have "py_int (dget d ''total'' (JInt (t + r))) = Inr s"
  proof (cases "map_of d ''total''")
    case None
    with v(3,4) show ?thesis using limiter_py_int [OF v(3)] by (simp add: dget_def)
  next
    case (Some x)
    with limiter_py_int [OF v(3)] show ?thesis by (simp add: dget_def)
  qed
  with limiter_py_int [OF v(1)] limiter_py_int [OF v(2)] limiter_py_int [OF v(3)] limiter_nonneg [OF v(1)] limiter_nonneg [OF v(2)]
    v(4)
  show ?thesis by (simp add: normalize_usage_entry_def entry_total_def usage_ok_def)
qed

lemma valid_entry:
  assumes "validate_usage_entry e = Inr ()"
  shows "\<exists>u. normalize_usage_entry e = Inr u \<and> entry_total (Some e) = Inr (total u) \<and> usage_ok u"
proof (cases "is_obj e")
  case True
  with valid_entry_obj assms show ?thesis by (auto simp: is_obj_conv)
next
  case False
  with assms obtain n where n: "limiter_integer e = Inr n"
    by (cases e) (auto simp: validate_usage_entry_def rbind_eq_Inr is_obj_def)
  have "int_or_zero e = Inr n"
    using n limiter_py_int [OF n]
    by (cases e) (auto simp: int_or_zero_def limiter_integer_def non_negative_integer_def Let_def split: if_splits)
  with False limiter_nonneg [OF n] show ?thesis
    by (cases e) (simp_all add: normalize_usage_entry_def entry_total_def is_obj_def usage_ok_def)
qed

lemma usage_json_total: "entry_total (Some (usage_json u)) = Inr (total u)"
  by (simp add: entry_total_def usage_json_def dget_def)

definition row_valid :: "json dict \<Rightarrow> bool" where
  "row_valid rows \<longleftrightarrow> wf_dict rows \<and> (\<forall>k v. map_of rows k = Some v \<longrightarrow> k \<noteq> [] \<and> validate_usage_entry v = Inr ())"

lemma add_to_rows_other:
  "add_to_rows traffic rows = Inr rows' \<Longrightarrow> uid \<notin> fst ` set traffic \<Longrightarrow> map_of rows' uid = map_of rows uid"
proof (induction traffic arbitrary: rows)
  case (Cons x xs)
  obtain i t r where x: "x = (i, t, r)" by (cases x)
  from Cons.prems(1) obtain cur where
    "fold_res (\<lambda>(uid, t, r) rows. rbind (normalize_usage_entry (dget rows uid (JInt 0))) (\<lambda>cur.
       Inr (AList.update uid (usage_json (add_traffic cur t r)) rows))) xs
     (AList.update i (usage_json (add_traffic cur t r)) rows) = Inr rows'"
    by (auto simp: add_to_rows_def x rbind_eq_Inr)
  with Cons.IH [of "AList.update i (usage_json (add_traffic cur t r)) rows"] Cons.prems(2) x show ?case
    by (simp add: add_to_rows_def)
qed (simp add: add_to_rows_def)

lemma add_to_rows_in:
  assumes "add_to_rows traffic rows = Inr rows'" and "distinct (map fst traffic)" and "(uid, t, r) \<in> set traffic"
  shows "\<exists>cur. normalize_usage_entry (dget rows uid (JInt 0)) = Inr cur
    \<and> map_of rows' uid = Some (usage_json (add_traffic cur t r))"
  using assms
proof (induction traffic arbitrary: rows)
  case (Cons x xs)
  obtain i t' r' where x: "x = (i, t', r')" by (cases x)
  from Cons.prems(1) obtain cur where cur: "normalize_usage_entry (dget rows i (JInt 0)) = Inr cur"
    and rest: "add_to_rows xs (AList.update i (usage_json (add_traffic cur t' r')) rows) = Inr rows'"
    by (auto simp: add_to_rows_def x rbind_eq_Inr)
  show ?case
  proof (cases "(uid, t, r) = x")
    case True
    with Cons.prems(2) x have "uid \<notin> fst ` set xs" by auto
    with add_to_rows_other [OF rest this] cur True x show ?thesis by simp
  next
    case False
    with Cons.prems(3) have "(uid, t, r) \<in> set xs" by simp
    with Cons.IH [OF rest _ this] Cons.prems(2) x have "\<exists>cur'. normalize_usage_entry
        (dget (AList.update i (usage_json (add_traffic cur t' r')) rows) uid (JInt 0)) = Inr cur'
      \<and> map_of rows' uid = Some (usage_json (add_traffic cur' t r))" by simp
    moreover have "uid \<noteq> i" using \<open>(uid, t, r) \<in> set xs\<close> Cons.prems(2) x by force
    ultimately show ?thesis by simp
  qed
qed simp

definition delta :: "traffic \<Rightarrow> string \<Rightarrow> int" where
  "delta traffic uid = (case map_of traffic uid of None \<Rightarrow> 0 | Some (t, r) \<Rightarrow> t + r)"

text \<open>The total of every user in the bucket grows by exactly its traffic.\<close>

lemma add_to_rows_total:
  assumes a: "add_to_rows traffic rows = Inr rows'" and d: "distinct (map fst traffic)" and v: "row_valid rows"
  shows "\<exists>n. entry_total (map_of rows uid) = Inr n \<and> entry_total (map_of rows' uid) = Inr (n + delta traffic uid)"
proof -
  have old: "\<exists>u. normalize_usage_entry (dget rows uid (JInt 0)) = Inr u \<and> entry_total (map_of rows uid) = Inr (total u)"
  proof (cases "map_of rows uid")
    case None
    then show ?thesis by (simp add: dget_def normalize_usage_entry_def int_or_zero_def entry_total_def)
  next
    case (Some e)
    with v have "validate_usage_entry e = Inr ()" by (auto simp: row_valid_def)
    from valid_entry [OF this] Some show ?thesis by (auto simp: dget_def)
  qed
  show ?thesis
  proof (cases "map_of traffic uid")
    case None
    then have "uid \<notin> fst ` set traffic" by (simp add: map_of_eq_None_iff)
    from add_to_rows_other [OF a this] old None show ?thesis by (auto simp: delta_def)
  next
    case (Some tr)
    obtain t r where tr: "tr = (t, r)" by fastforce
    with Some have "(uid, t, r) \<in> set traffic" by (auto dest: map_of_SomeD)
    from add_to_rows_in [OF a d this] old Some tr show ?thesis
      by (auto simp: delta_def usage_json_total add_traffic_def)
  qed
qed

section \<open>Pruning keeps the cycle\<close>

lemma dates_near:
  assumes "wf_date d" and "wf_date today" and "1001 \<le> yr today" and "yr today \<le> 9999" and "d \<le> today"
    and "diff_days today d < 100"
  shows "key_date d"
proof -
  have first: "toordinal (YMD 1001 1 1) = toordinal (YMD 1000 1 1) + 365"
    by (simp add: days_before_year_def days_before_month_def)
  have w: "wf_date (YMD 1001 1 1)" "wf_date (YMD 1000 1 1)" by (simp_all add: days_in_month_def)
  have "YMD 1001 1 1 \<le> today" using assms(2,3) by (cases today) (auto simp: less_eq_date_def)
  then have "toordinal (YMD 1001 1 1) \<le> toordinal today" using assms(2) w by (simp add: toordinal_le_iff del: toordinal.simps)
  then have "toordinal (YMD 1000 1 1) \<le> toordinal d" using assms(6) first unfolding diff_days_def by linarith
  then have "YMD 1000 1 1 \<le> d" using assms(1) w by (simp add: toordinal_le_iff del: toordinal.simps)
  then have "1000 \<le> yr d" by (cases d) (auto simp: less_eq_date_def)
  moreover have "yr d \<le> 9999" using assms(4,5) by (cases d; cases today) (auto simp: less_eq_date_def)
  ultimately show ?thesis using assms(1) by (simp add: key_date_def)
qed

lemma prune_daily_keeps:
  assumes d: "wf_date d" and today: "wf_date today" "1001 \<le> yr today" "yr today \<le> 9999"
    and near: "d \<le> today" "diff_days today d < 90" and wf: "wf_dict daily"
  shows "map_of (prune_daily daily today) (date_key d) = map_of daily (date_key d)"
proof -
  let ?c = "add_days today (- 91)"
  have "YMD 1001 1 1 \<le> today" using today by (cases today) (auto simp: less_eq_date_def)
  then have "toordinal (YMD 1001 1 1) \<le> toordinal today"
    using today(1) by (simp add: toordinal_le_iff days_in_month_def del: toordinal.simps)
  moreover have "100 < toordinal (YMD 1001 1 1)" by (simp add: days_before_year_def days_before_month_def)
  ultimately have pos: "0 < toordinal today + (- 91)" by linarith
  from add_days_spec [OF today(1) pos] have c: "wf_date ?c" "toordinal ?c = toordinal today - 91" by simp_all
  have "?c \<le> today" using c today(1) by (simp add: toordinal_le_iff [symmetric] del: toordinal.simps)
  moreover have "diff_days today ?c < 100" using c(2) by (simp add: diff_days_def)
  ultimately have kc: "key_date ?c" using dates_near [OF c(1) today(1,2,3)] by blast
  have kd: "key_date d" using dates_near [OF d today(1,2,3) near(1)] near(2) by simp
  have "toordinal ?c < toordinal d" using near(2) c(2) by (simp add: diff_days_def)
  then have "?c < d" using c(1) d by (simp add: toordinal_less_iff)
  then have "\<not> date_key d < date_key ?c" using date_key_less [OF kd kc] by simp
  then show ?thesis
    by (simp add: prune_daily_def DAILY_RETENTION_DAYS_def CYCLE_LENGTH_MAX_def map_of_filter_wf [OF wf]
        split: option.splits)
qed

lemma cycle_keys_near:
  assumes now: "wf_date (dt_date now)" "1001 \<le> yr (dt_date now)" "yr (dt_date now) \<le> 9999"
    and days: "cycle_days now day len None meta = Inr ks"
  shows "distinct ks"
    and "k \<in> set ks \<Longrightarrow> \<exists>d. k = date_key d \<and> wf_date d \<and> d \<le> dt_date now \<and> diff_days (dt_date now) d < 90"
proof -
  from cycle_days_dates [OF now(1) days] now(2) obtain ds where ks: "ks = map date_key ds" "distinct ds"
    and near: "\<And>d. d \<in> set ds \<Longrightarrow> wf_date d \<and> d \<le> dt_date now \<and> diff_days (dt_date now) d < 90" by auto
  have "key_date d" if "d \<in> set ds" for d
    using near [OF that] dates_near [OF _ now] by auto
  then have "inj_on date_key (set ds)" by (meson date_key_inj inj_onI)
  with ks show "distinct ks" by (simp add: distinct_map)
  from ks(1) near show "k \<in> set ks \<Longrightarrow> \<exists>d. k = date_key d \<and> wf_date d \<and> d \<le> dt_date now \<and> diff_days (dt_date now) d < 90"
    by auto
qed

section \<open>Ledgers stay valid and conserve traffic\<close>

lemma usage_json_valid: "usage_ok u \<Longrightarrow> validate_usage_entry (usage_json u) = Inr ()"
  by (simp add: validate_usage_entry_def usage_json_def usage_ok_def dget_def limiter_integer_def
      non_negative_integer_def dkeys_def)

lemma usage_ok_add: "usage_ok u \<Longrightarrow> 0 \<le> t \<Longrightarrow> 0 \<le> r \<Longrightarrow> usage_ok (add_traffic u t r)"
  by (simp add: usage_ok_def add_traffic_def)

definition traffic_ok :: "traffic \<Rightarrow> bool" where
  "traffic_ok traffic \<longleftrightarrow> (\<forall>(uid, t, r) \<in> set traffic. uid \<noteq> [] \<and> 0 \<le> t \<and> 0 \<le> r)"

lemma row_valid_lookup:
  assumes "row_valid rows"
  shows "\<exists>u. normalize_usage_entry (dget rows uid (JInt 0)) = Inr u \<and> entry_total (map_of rows uid) = Inr (total u) \<and> usage_ok u"
proof (cases "map_of rows uid")
  case None
  then show ?thesis
    by (simp add: dget_def normalize_usage_entry_def int_or_zero_def entry_total_def usage_ok_def)
next
  case (Some e)
  with assms have "validate_usage_entry e = Inr ()" by (auto simp: row_valid_def)
  from valid_entry [OF this] Some show ?thesis by (auto simp: dget_def)
qed

lemma add_to_rows_valid:
  "row_valid rows \<Longrightarrow> traffic_ok traffic \<Longrightarrow> \<exists>rows'. add_to_rows traffic rows = Inr rows' \<and> row_valid rows'"
proof (induction traffic arbitrary: rows)
  case (Cons x xs)
  obtain i t r where x: "x = (i, t, r)" by (cases x)
  from row_valid_lookup [OF Cons.prems(1)] obtain u where
    u: "normalize_usage_entry (dget rows i (JInt 0)) = Inr u" "usage_ok u" by blast
  from Cons.prems(2) x have p: "i \<noteq> []" "0 \<le> t" "0 \<le> r" "traffic_ok xs" by (simp_all add: traffic_ok_def)
  have "row_valid (AList.update i (usage_json (add_traffic u t r)) rows)"
    using Cons.prems(1) usage_json_valid [OF usage_ok_add [OF u(2) p(2,3)]] p(1)
    by (simp add: row_valid_def)
  from Cons.IH [OF this p(4)] u(1) show ?case by (simp add: add_to_rows_def x)
qed (simp add: add_to_rows_def)

definition ledger_valid :: "json dict \<Rightarrow> bool" where
  "ledger_valid daily \<longleftrightarrow> wf_dict daily
     \<and> (\<forall>k v. map_of daily k = Some v \<longrightarrow> DAY_KEY k \<and> (\<exists>rows. v = JObj rows \<and> row_valid rows))"

lemma rows_check:
  assumes "wf_dict r"
  shows "check_all (\<lambda>(username, entry).
      if username = [] then Inl InvalidJsonState else validate_usage_entry entry) r = Inr () \<longleftrightarrow> row_valid r"
  using assms by (auto simp: check_all_Inr row_valid_def map_of_wf split: if_splits)

lemma ledger_valid_iff:
  assumes "wf_json (JObj daily)"
  shows "validate_usage_ledger True daily = Inr () \<longleftrightarrow> ledger_valid daily"
proof -
  have wf: "wf_dict daily" and sub: "\<And>k r. (k, JObj r) \<in> set daily \<Longrightarrow> wf_dict r"
    using assms by force+
  have "validate_usage_ledger True daily = Inr () \<longleftrightarrow> (\<forall>kv \<in> set daily. DAY_KEY (fst kv)
      \<and> (\<exists>r. snd kv = JObj r \<and> row_valid r))"
    unfolding validate_usage_ledger_def check_all_Inr
    by (rule ball_cong) (auto simp: rows_check [OF sub] split: json.splits if_splits)
  also have "\<dots> \<longleftrightarrow> ledger_valid daily" using wf by (auto simp: ledger_valid_def map_of_wf)
  finally show ?thesis .
qed

lemma ledger_valid_accepted:
  assumes "ledger_valid daily"
  shows "validate_usage_ledger True daily = Inr ()"
proof -
  have rows: "check_all (\<lambda>(username, entry).
      if username = [] then Inl InvalidJsonState else validate_usage_entry entry) r = Inr ()" if "row_valid r" for r
    using that rows_check [of r] by (simp add: row_valid_def)
  have "\<exists>r. v = JObj r \<and> DAY_KEY k \<and> row_valid r" if "(k, v) \<in> set daily" for k v
    using assms that by (auto simp: ledger_valid_def map_of_wf)
  with rows show ?thesis by (fastforce simp: validate_usage_ledger_def check_all_Inr [of _ daily])
qed

lemma date_key_DAY_KEY: "key_date d \<Longrightarrow> DAY_KEY (date_key d)"
  using date_key_text [of d] by (simp add: DAY_KEY_def)

lemma ledger_valid_bucket:
  assumes "ledger_valid daily"
  shows "\<exists>rows. dget daily k (JObj []) = JObj rows \<and> row_valid rows"
  using assms by (cases "map_of daily k") (auto simp: ledger_valid_def dget_def row_valid_def)

lemma raw_on_bucket:
  assumes "dget daily k (JObj []) = JObj rows"
  shows "raw_on daily uid k = entry_total (map_of rows uid)"
  using assms by (cases "map_of daily k") (simp_all add: raw_on_def row_of_def dget_def entry_total_def)

text \<open>One collection of traffic: the ledger stays valid, the day's totals grow by it, the other days stay.\<close>

lemma accumulated_daily_spec:
  assumes valid: "ledger_valid daily" and traffic: "traffic_ok traffic" "distinct (map fst traffic)"
    and today: "wf_date (dt_date now)" "1001 \<le> yr (dt_date now)" "yr (dt_date now) \<le> 9999"
  shows "\<exists>daily'. accumulated_daily traffic now daily = Inr daily' \<and> ledger_valid daily'
    \<and> (\<forall>d uid. wf_date d \<longrightarrow> d \<le> dt_date now \<longrightarrow> diff_days (dt_date now) d < 90 \<longrightarrow>
        (\<exists>n. raw_on daily uid (date_key d) = Inr n \<and> raw_on daily' uid (date_key d)
           = Inr (n + (if d = dt_date now then delta traffic uid else 0))))"
proof -
  let ?k = "date_key (dt_date now)"
  from ledger_valid_bucket [OF valid] obtain rows where rows: "dget daily ?k (JObj []) = JObj rows" "row_valid rows"
    by blast
  from add_to_rows_valid [OF rows(2) traffic(1)] obtain rows' where
    r: "add_to_rows traffic rows = Inr rows'" "row_valid rows'" by blast
  let ?mid = "AList.update ?k (JObj rows') daily"
  let ?new = "prune_daily ?mid (dt_date now)"
  have key: "key_date (dt_date now)" using today by (simp add: key_date_def)
  have mid: "ledger_valid ?mid" using valid r(2) date_key_DAY_KEY [OF key] by (simp add: ledger_valid_def)
  then have wf: "wf_dict ?mid" by (simp add: ledger_valid_def)
  have new: "ledger_valid ?new"
    using mid unfolding ledger_valid_def prune_daily_def Let_def
    by (auto simp: map_of_filter_wf [OF wf] split: option.splits if_splits)
  have eq: "accumulated_daily traffic now daily = Inr ?new"
    by (simp add: accumulated_daily_def add_to_bucket_def rows(1) r(1))
  have "\<exists>n. raw_on daily uid (date_key d) = Inr n \<and> raw_on ?new uid (date_key d)
      = Inr (n + (if d = dt_date now then delta traffic uid else 0))"
    if d: "wf_date d" "d \<le> dt_date now" "diff_days (dt_date now) d < 90" for d uid
  proof -
    have same: "map_of ?new (date_key d) = map_of ?mid (date_key d)"
      by (rule prune_daily_keeps [OF d(1) today d(2,3) wf])
    show ?thesis
    proof (cases "d = dt_date now")
      case True
      have "dget ?new (date_key d) (JObj []) = JObj rows'" using same True by (simp add: dget_def)
      from raw_on_bucket [OF this] raw_on_bucket [OF rows(1)] add_to_rows_total [OF r(1) traffic(2) rows(2)] True
      show ?thesis by auto
    next
      case False
      have "key_date d" using dates_near [OF d(1) today d(2)] d(3) by simp
      with False key have ne: "date_key d \<noteq> ?k" by (simp add: date_key_inj)
      from ledger_valid_bucket [OF valid] obtain rs where rs: "dget daily (date_key d) (JObj []) = JObj rs" "row_valid rs"
        by blast
      have "dget ?new (date_key d) (JObj []) = JObj rs" using rs(1) same ne by (simp add: dget_def)
      from raw_on_bucket [OF this] raw_on_bucket [OF rs(1)] row_valid_lookup [OF rs(2), of uid] False
      show ?thesis by auto
    qed
  qed
  with eq new show ?thesis by blast
qed

lemma collect_delta:
  assumes "distinct ks" and "\<And>k. k \<in> set ks \<Longrightarrow> \<exists>n :: int. f k = Inr n \<and> g k = Inr (n + (if k = k0 then c else 0))"
  shows "\<exists>ns. collect f ks = Inr ns \<and> (\<exists>ms. collect g ks = Inr ms
    \<and> sum_list ms = sum_list ns + (if k0 \<in> set ks then c else 0))"
  using assms
proof (induction ks)
  case (Cons k ks)
  from Cons obtain ns ms where "collect f ks = Inr ns" "collect g ks = Inr ms"
    "sum_list ms = sum_list ns + (if k0 \<in> set ks then c else 0)" by auto
  moreover from Cons.prems obtain n where "f k = Inr n" "g k = Inr (n + (if k = k0 then c else 0))"
    by fastforce
  ultimately show ?case using Cons.prems(1) by auto
qed simp

text \<open>
  C6. A collection of traffic is counted exactly once. On a ledger that validates, the accumulation
  succeeds and leaves a ledger that validates; and for every user the usage of the current cycle,
  the number the quota is compared with, grows by exactly the user's traffic in the collection. In
  particular pruning never drops a day of the cycle, however long the cycle is configured.
\<close>

theorem usage_conserved:
  assumes valid: "wf_json (JObj daily)" "validate_usage_ledger True daily = Inr ()"
    and traffic: "traffic_ok traffic" "distinct (map fst traffic)"
    and today: "wf_date (dt_date now)" "1001 \<le> yr (dt_date now)" "yr (dt_date now) \<le> 9999"
    and days: "cycle_days now day JNull None meta = Inr days" "date_key (dt_date now) \<in> set days"
  shows "\<exists>daily'. accumulated_daily traffic now daily = Inr daily'
    \<and> validate_usage_ledger True daily' = Inr ()
    \<and> (\<forall>uid. \<exists>used. cycle_used_raw_for uid daily now day meta = Inr used
         \<and> cycle_used_raw_for uid daily' now day meta = Inr (used + delta traffic uid))"
proof -
  have "ledger_valid daily" using valid ledger_valid_iff by blast
  from accumulated_daily_spec [OF this traffic today] obtain daily' where
    acc: "accumulated_daily traffic now daily = Inr daily'" "ledger_valid daily'"
    and raw: "\<And>d uid. wf_date d \<Longrightarrow> d \<le> dt_date now \<Longrightarrow> diff_days (dt_date now) d < 90 \<Longrightarrow>
        \<exists>n. raw_on daily uid (date_key d) = Inr n \<and> raw_on daily' uid (date_key d)
           = Inr (n + (if d = dt_date now then delta traffic uid else 0))" by blast
  have key: "date_key d = date_key (dt_date now) \<longleftrightarrow> d = dt_date now"
    if "wf_date d" "d \<le> dt_date now" "diff_days (dt_date now) d < 90" for d
    using dates_near [OF that(1) today that(2)] that(3) today by (intro date_key_inj) (simp_all add: key_date_def)
  have "\<exists>used. cycle_used_raw_for uid daily now day meta = Inr used
         \<and> cycle_used_raw_for uid daily' now day meta = Inr (used + delta traffic uid)" for uid
  proof -
    have "\<exists>n. raw_on daily uid k = Inr n \<and> raw_on daily' uid k
        = Inr (n + (if k = date_key (dt_date now) then delta traffic uid else 0))" if "k \<in> set days" for k
    proof -
      from cycle_keys_near(2) [OF today days(1) that] obtain d where
        d: "k = date_key d" "wf_date d" "d \<le> dt_date now" "diff_days (dt_date now) d < 90" by blast
      from raw [OF d(2,3,4)] show ?thesis by (simp add: d(1) key [OF d(2,3,4)])
    qed
    from collect_delta [OF cycle_keys_near(1) [OF today days(1)] this]
    show ?thesis using days by (auto simp: cycle_used_raw_for_def)
  qed
  moreover have "validate_usage_ledger True daily' = Inr ()" using acc(2) by (rule ledger_valid_accepted)
  ultimately show ?thesis using acc by blast
qed


text \<open>On the fifth of a month, with a valid ledger of two days and traffic of a known and a new user.\<close>

theorem usage_conserved_witness:
  "\<exists>daily'. accumulated_daily [(''ann'', 5, 7), (''bob'', 1, 2)] (DT (YMD 2026 5 5) 0 None)
       [(''2026-05-04'', JObj [(''ann'', JObj [(''tx'', JInt 1), (''rx'', JInt 2), (''total'', JInt 3)])]),
        (''2026-05-05'', JObj [(''ann'', JInt 4)])] = Inr daily'
    \<and> cycle_used_raw_for ''ann'' daily' (DT (YMD 2026 5 5) 0 None) (Some 4) [] = Inr 19
    \<and> cycle_used_raw_for ''bob'' daily' (DT (YMD 2026 5 5) 0 None) (Some 4) [] = Inr 3"
proof -
  let ?now = "DT (YMD 2026 5 5) 0 None"
  let ?daily = "[(''2026-05-04'', JObj [(''ann'', JObj [(''tx'', JInt 1), (''rx'', JInt 2), (''total'', JInt 3)])]),
        (''2026-05-05'', JObj [(''ann'', JInt 4)])]"
  have days: "cycle_days ?now (Some 4) JNull None [] = Inr [''2026-05-04'', ''2026-05-05'']" by (simp add: py_eval)
  have valid: "validate_usage_ledger True ?daily = Inr ()" by code_simp
  have wf: "wf_json (JObj ?daily)" by code_simp
  have today: "date_key (dt_date ?now) \<in> set [''2026-05-04'', ''2026-05-05'']" by code_simp
  have old: "cycle_used_raw_for ''ann'' ?daily ?now (Some 4) [] = Inr 7"
    "cycle_used_raw_for ''bob'' ?daily ?now (Some 4) [] = Inr 0"
    unfolding cycle_used_raw_for_def days by code_simp+
  have "delta [(''ann'', 5, 7), (''bob'', 1, 2)] ''ann'' = 12" "delta [(''ann'', 5, 7), (''bob'', 1, 2)] ''bob'' = 3"
    by (simp_all add: delta_def)
  note delta = this
  have t: "traffic_ok [(''ann'', 5, 7), (''bob'', 1, 2)]" "distinct (map fst [(''ann'', 5 :: int, 7 :: int), (''bob'', 1, 2)])"
    by (simp_all add: traffic_ok_def)
  have n: "wf_date (dt_date ?now)" "1001 \<le> yr (dt_date ?now)" "yr (dt_date ?now) \<le> 9999"
    by (simp_all add: days_in_month_def)
  from usage_conserved [OF wf valid t n days today] obtain daily' where
    acc: "accumulated_daily [(''ann'', 5, 7), (''bob'', 1, 2)] ?now ?daily = Inr daily'"
    and all: "\<And>uid. \<exists>used. cycle_used_raw_for uid ?daily ?now (Some 4) [] = Inr used
      \<and> cycle_used_raw_for uid daily' ?now (Some 4) [] = Inr (used + delta [(''ann'', 5, 7), (''bob'', 1, 2)] uid)"
    by blast
  have "cycle_used_raw_for ''ann'' daily' ?now (Some 4) [] = Inr 19"
    using all [of "''ann''"] unfolding old(1) delta(1) by auto
  moreover have "cycle_used_raw_for ''bob'' daily' ?now (Some 4) [] = Inr 3"
    using all [of "''bob''"] unfolding old(2) delta(2) by auto
  ultimately show ?thesis using acc by blast
qed

end
