(* ===== verification/TrafficLimiter.thy ===== *)
theory TrafficLimiter
  imports UsageLedger Display TuicConfig XrayConfig
begin

text \<open>
  The accounting tick of \<^verbatim>\<open>hysteria/traffic_limiter.py\<close>: collection from the two sources, the commit of
  the ledgers, the static access plan and its application to both proxies, the preflight and the
  fail-closed revocation. What the sources, systemd, the locks and the file system answer are
  parameters; the state files and the two proxies are the state. A counter stays below \<open>2\<^sup>1\<^sup>0\<^sup>2\<^sup>4\<close>, so that
  its conversion to a float does not overflow. Beside the live paths the program keeps the generated
  configurations next to an alternate state root and never touches a service; that is \<open>lim_live = False\<close>.
\<close>

section \<open>State and surroundings\<close>

record limiter_state =
  c_users :: cell
  c_meta :: cell
  c_usage :: cell
  c_daily :: cell
  c_reset :: cell
  c_xray :: managed
  c_tuic :: managed
  c_secret :: cell

text \<open>What one operation on a proxy meets: systemd, failing writes, the native check, its token.\<close>

record proxy_io =
  px_lock :: "exc option"
  px_mark_faults :: faults
  px_save_faults :: faults
  px_native :: "bool option"
  px_token :: string
  px_run :: runner
  px_stop_faults :: faults
  px_recover_faults :: faults
  px_reload_faults :: faults
  px_time :: string

record limiter_io =
  lim_isodt :: iso_parser
  lim_live :: bool
  lim_users_faults :: faults
  lim_reset_usage_faults :: faults
  lim_reset_faults :: faults
  lim_daily_faults :: faults
  lim_usage_faults :: faults
  lim_stamp :: string
  lim_multiplier :: rat
  lim_multiplier_env :: "string option"
  lim_multiplier_file :: jfile
  lim_xray :: proxy_io
  lim_tuic :: proxy_io
  lim_tuic_files :: tuic_io

text \<open>\<^verbatim>\<open>type(reason).__name__\<close>, for the marker of a stopped service.\<close>

definition exc_name :: "exc \<Rightarrow> string" where
  "exc_name e = (case e of
      StateUnavailable \<Rightarrow> ''CriticalStateUnavailable''
    | InvalidJsonState \<Rightarrow> ''InvalidJsonState''
    | LockTimeout \<Rightarrow> ''LockTimeout''
    | DurabilityUncertain \<Rightarrow> ''AtomicReplaceDurabilityUncertain''
    | CapacityError \<Rightarrow> ''RevocationQueueCapacityError''
    | StateStoreError \<Rightarrow> ''StateStoreError''
    | PermissionError \<Rightarrow> ''PermissionError''
    | ValueError \<Rightarrow> ''ValueError''
    | TypeError \<Rightarrow> ''TypeError''
    | OverflowError \<Rightarrow> ''OverflowError''
    | AttributeError \<Rightarrow> ''AttributeError''
    | OSError \<Rightarrow> ''OSError''
    | InvalidOnlineSnapshot \<Rightarrow> ''InvalidOnlineSnapshot''
    | RecoveryError \<Rightarrow> ''RecoveryError'')"

definition load_checked :: "(json dict \<Rightarrow> unit res) \<Rightarrow> cell \<Rightarrow> bool \<Rightarrow> json dict res" where
  "load_checked check c required =
     rbind (load_dict (seen c) required) (\<lambda>d. rbind (check d) (\<lambda>_. Inr d))"

section \<open>Sources\<close>

definition validated_source_traffic :: "json \<Rightarrow> json dict res" where
  "validated_source_traffic value = (case value of
      JNull \<Rightarrow> Inr []
    | JObj d \<Rightarrow> rbind (check_all (\<lambda>(username, entry).
        if username = [] then Inl ValueError
        else case entry of
          JObj e \<Rightarrow> check_all (\<lambda>direction. rbind (limiter_integer (dget e direction (JInt 0))) (\<lambda>_. Inr ()))
            [''tx'', ''rx'']
        | _ \<Rightarrow> Inl ValueError) d) (\<lambda>_. Inr d)
    | _ \<Rightarrow> Inl ValueError)"

text \<open>The copy of the counters as integers.\<close>

definition counters_of :: "json dict \<Rightarrow> traffic res" where
  "counters_of d = collect (\<lambda>(uid, stat). case stat of
      JObj e \<Rightarrow> rbind (py_int (dget e ''tx'' (JInt 0))) (\<lambda>t.
        rbind (py_int (dget e ''rx'' (JInt 0))) (\<lambda>r. Inr (uid, t, r)))
    | _ \<Rightarrow> Inl AttributeError) d"

text \<open>\<^verbatim>\<open>name.split(">>>")\<close>.\<close>

fun split_arrows :: "string \<Rightarrow> string \<Rightarrow> string list" where
  "split_arrows acc [] = [acc]"
| "split_arrows acc (c # cs) =
     (if take 3 (c # cs) = ''>>>'' then acc # split_arrows [] (drop 2 cs) else split_arrows (acc @ [c]) cs)"

text \<open>One statistic of the Xray API; \<^verbatim>\<open>data\<close> is the answer, None a failed command.\<close>

definition add_stat :: "json \<Rightarrow> traffic \<Rightarrow> traffic res" where
  "add_stat stat result = (case stat of
      JObj s \<Rightarrow> (case dget s ''name'' (JStr []) of
          JStr name \<Rightarrow>
            (let parts = split_arrows [] name in
             if length parts \<noteq> 4 \<or> parts ! 0 \<noteq> ''user'' \<or> parts ! 2 \<noteq> ''traffic'' then Inr result
             else rbind (int_or_zero (dget s ''value'' (JInt 0))) (\<lambda>val.
               let uid = strip_backup_suffix (parts ! 1);
                   (t, r) = (case map_of result uid of None \<Rightarrow> (0, 0) | Some e \<Rightarrow> e)
               in Inr (AList.update uid
                    (if parts ! 3 = ''downlink'' then (t + val, r)
                     else if parts ! 3 = ''uplink'' then (t, r + val) else (t, r)) result)))
        | _ \<Rightarrow> Inl AttributeError)
    | _ \<Rightarrow> Inl AttributeError)"

definition get_xray_traffic :: "json option \<Rightarrow> traffic res" where
  "get_xray_traffic data = (case data of
      None \<Rightarrow> Inr []
    | Some (JObj d) \<Rightarrow>
        (let stats = dget d ''stat'' JNull in
         if \<not> truthy stats then Inr []
         else case stats of
           JList xs \<Rightarrow> fold_res add_stat xs []
         | JObj m \<Rightarrow> Inl AttributeError
         | JStr s \<Rightarrow> Inl AttributeError
         | _ \<Rightarrow> Inl TypeError)
    | Some _ \<Rightarrow> Inl AttributeError)"

definition traffic_json :: "traffic \<Rightarrow> json" where
  "traffic_json traffic = JObj (map (\<lambda>(uid, t, r). (uid, JObj [(''tx'', JInt t), (''rx'', JInt r)])) traffic)"

text \<open>A feature that may not fail the tick.\<close>

definition run_auxiliary :: "bool \<Rightarrow> 'a \<Rightarrow> 'a res \<Rightarrow> 'a" where
  "run_auxiliary unavailable dflt result =
     (if unavailable then dflt else case result of Inl e \<Rightarrow> dflt | Inr v \<Rightarrow> v)"

definition collected_traffic :: "json \<Rightarrow> json option \<Rightarrow> traffic res" where
  "collected_traffic hysteria_answer xray_answer =
     (let hysteria_delta = run_auxiliary False [] (validated_source_traffic hysteria_answer);
          xray_delta = run_auxiliary False [] (rbind (get_xray_traffic xray_answer) (\<lambda>t.
            rbind (validated_source_traffic (traffic_json t)) (\<lambda>_. Inr t)))
      in rbind (counters_of hysteria_delta) (\<lambda>traffic. Inr (merge_traffic traffic xray_delta)))"

section \<open>The static access plan\<close>

definition over_quota :: "rat \<Rightarrow> json dict \<Rightarrow> datetime \<Rightarrow> json dict \<Rightarrow> string \<Rightarrow> json dict \<Rightarrow> bool res" where
  "over_quota multiplier daily now meta uid d =
     rbind (total_quota_bytes (JObj d)) (\<lambda>quota.
       if is_metered (JObj d) \<and> 0 < quota
       then rbind (cycle_used_raw_for uid daily now None meta) (\<lambda>used.
         Inr (of_int quota \<le> float_times_int used multiplier))
       else Inr False)"

fun build_static_access_plan ::
  "rat \<Rightarrow> json dict \<Rightarrow> json dict \<Rightarrow> datetime \<Rightarrow> json dict \<Rightarrow> (plan \<times> string list) res" where
  "build_static_access_plan multiplier [] daily now meta = Inr ([], [])"
| "build_static_access_plan multiplier ((uid, cfg) # users) daily now meta =
     (case cfg of
        JObj d \<Rightarrow>
          rbind (if is_inactive cfg (dt_date now) then Inr True else over_quota multiplier daily now meta uid d) (\<lambda>denied.
          rbind (build_static_access_plan multiplier users daily now meta) (\<lambda>(plan, to_kick).
            if denied then Inr ((uid, None) # plan, uid # to_kick)
            else if vless_text d \<noteq> [] then Inr ((uid, Some (vless_text d)) # plan, to_kick)
            else Inr (plan, to_kick)))
      | _ \<Rightarrow> Inl AttributeError)"

section \<open>Applying the plan\<close>

definition stop_static_service ::
  "proxy_io \<Rightarrow> string \<Rightarrow> bool \<Rightarrow> exc \<Rightarrow> managed \<Rightarrow> exc option \<times> managed" where
  "stop_static_service px name live reason m =
     (case stop_fail_closed (px_run px) (px_stop_faults px) name (exc_name reason) (px_time px) live (service m) of
        (Inl e, s) \<Rightarrow> (Some e, m\<lparr>service := s\<rparr>)
      | (Inr _, s) \<Rightarrow> (None, m\<lparr>service := s\<rparr>))"

text \<open>
  The second half of each branch: recovery after a successful reconciliation, the stop after a failed
  one. The answer is whether the configuration changed.
\<close>

definition recover_or_stop ::
  "proxy_io \<Rightarrow> string \<Rightarrow> bool \<Rightarrow> bool res \<Rightarrow> managed \<Rightarrow> bool res \<times> managed" where
  "recover_or_stop px name live reconciled m =
     (case reconciled of
        Inl e \<Rightarrow> (case stop_static_service px name live e m of
            (Some e', m') \<Rightarrow> (Inl e', m') | (None, m') \<Rightarrow> (Inr False, m'))
      | Inr changed \<Rightarrow>
          (case recover_if_pending (px_run px) (px_recover_faults px) name live (service m) of
             (Inr _, s) \<Rightarrow> (Inr changed, m\<lparr>service := s\<rparr>)
           | (Inl e, s) \<Rightarrow> (case stop_static_service px name live e (m\<lparr>service := s\<rparr>) of
               (Some e', m') \<Rightarrow> (Inl e', m') | (None, m') \<Rightarrow> (Inr changed, m'))))"

definition apply_xray_plan :: "proxy_io \<Rightarrow> plan \<Rightarrow> managed \<Rightarrow> bool res \<times> managed" where
  "apply_xray_plan px plan m =
     apply_user_plan (px_lock px) (px_mark_faults px) (px_save_faults px) (px_native px) (px_token px) True plan m"

definition apply_static_access_plan ::
  "limiter_io \<Rightarrow> json dict \<Rightarrow> plan \<Rightarrow> limiter_state \<Rightarrow> (bool \<times> bool) res \<times> limiter_state" where
  "apply_static_access_plan io users plan s =
     (let (r, m) = apply_xray_plan (lim_xray io) plan (c_xray s) in
      case recover_or_stop (lim_xray io) ''xray'' (lim_live io) r m of
        (Inl e, m') \<Rightarrow> (Inl e, s\<lparr>c_xray := m'\<rparr>)
      | (Inr xray_changed, m') \<Rightarrow>
          (let (r, t, secret) = sync_user_plan (lim_tuic_files io) users plan (c_tuic s, c_secret s);
               (r', t') = recover_or_stop (lim_tuic io) TUIC_SERVICE (lim_live io) r t
           in (rbind r' (\<lambda>tuic_changed. Inr (xray_changed, tuic_changed)),
               s\<lparr>c_xray := m', c_tuic := t', c_secret := secret\<rparr>)))"

section \<open>Failing closed\<close>

text \<open>Both reconciliations to nobody. An exception of either is reported and swallowed.\<close>

definition reload_if :: "bool res \<Rightarrow> (managed \<Rightarrow> managed) \<Rightarrow> managed \<Rightarrow> managed" where
  "reload_if changed reload m = (case changed of Inr True \<Rightarrow> reload m | _ \<Rightarrow> m)"

definition reload_xray :: "proxy_io \<Rightarrow> bool \<Rightarrow> managed \<Rightarrow> managed" where
  "reload_xray px live m = snd (snd (xray_reload_async (px_run px) (px_reload_faults px) (px_time px) live m))"

definition reload_tuic :: "proxy_io \<Rightarrow> bool \<Rightarrow> managed \<Rightarrow> managed" where
  "reload_tuic px live m = snd (snd (tuic_reload_async (px_run px) (px_reload_faults px) (px_time px) live m))"

definition fail_closed_static_access ::
  "limiter_io \<Rightarrow> exc \<Rightarrow> limiter_state \<Rightarrow> exc option \<times> limiter_state" where
  "fail_closed_static_access io reason s =
     (if \<not> lim_live io then (None, s)
      else case stop_static_service (lim_xray io) ''xray'' True reason (c_xray s) of
        (Some e, m) \<Rightarrow> (Some e, s\<lparr>c_xray := m\<rparr>)
      | (None, m) \<Rightarrow> (case stop_static_service (lim_tuic io) TUIC_SERVICE True reason (c_tuic s) of
          (Some e, t) \<Rightarrow> (Some e, s\<lparr>c_xray := m, c_tuic := t\<rparr>)
        | (None, t) \<Rightarrow>
            (let (r, m1) = apply_xray_plan (lim_xray io) [] m;
                 m2 = reload_if r (reload_xray (lim_xray io) True) m1;
                 (r', t1, secret) = sync_all (lim_tuic_files io) Missing (Some []) (t, c_secret s);
                 t2 = reload_if r' (reload_tuic (lim_tuic io) True) t1
             in (None, s\<lparr>c_xray := m2, c_tuic := t2, c_secret := secret\<rparr>))))"

section \<open>The commit\<close>

record committed =
  cm_users :: "json dict"
  cm_daily :: "json dict"
  cm_month :: string
  cm_to_kick :: "string list"
  cm_xray_changed :: bool
  cm_tuic_changed :: bool

text \<open>The core state as the commit reads it: users, settings, both ledgers.\<close>

definition load_core :: "iso_parser \<Rightarrow> limiter_state \<Rightarrow> (json dict \<times> json dict \<times> int \<times> json dict \<times> json dict) res" where
  "load_core isodt s =
     rbind (load_checked (validate_users isodt) (c_users s) True) (\<lambda>users.
     rbind (load_checked limiter_validate_meta (c_meta s) True) (\<lambda>meta.
     rbind (settlement_day_from_meta meta) (\<lambda>day.
     rbind (load_checked (validate_usage_ledger False) (c_usage s) True) (\<lambda>usage.
     rbind (load_checked (validate_usage_ledger True) (c_daily s) True) (\<lambda>daily.
       Inr (users, meta, day, usage, daily))))))"

definition set_default :: "string \<Rightarrow> json dict \<Rightarrow> json dict" where
  "set_default k d = (if map_of d k = None then AList.update k (JObj []) d else d)"

text \<open>After both ledgers are on disk: the plan, applied at once.\<close>

definition enforce ::
  "limiter_io \<Rightarrow> datetime \<Rightarrow> json dict \<Rightarrow> json dict \<Rightarrow> json dict \<Rightarrow> string \<Rightarrow> limiter_state
   \<Rightarrow> committed res \<times> limiter_state" where
  "enforce io now users daily meta month s =
     (case build_static_access_plan (lim_multiplier io) users daily now meta of
        Inl e \<Rightarrow> (Inl e, s)
      | Inr (plan, to_kick) \<Rightarrow> (case apply_static_access_plan io users plan s of
          (Inl e, s') \<Rightarrow> (Inl e, s')
        | (Inr (xc, tc), s') \<Rightarrow> (Inr \<lparr>cm_users = users, cm_daily = daily, cm_month = month,
            cm_to_kick = to_kick, cm_xray_changed = xc, cm_tuic_changed = tc\<rparr>, s')))"

definition commit_core_and_enforce_locked ::
  "limiter_io \<Rightarrow> traffic \<Rightarrow> datetime \<Rightarrow> limiter_state \<Rightarrow> committed res \<times> limiter_state" where
  "commit_core_and_enforce_locked io traffic now s =
     (case load_core (lim_isodt io) s of
        Inl e \<Rightarrow> (Inl e, s)
      | Inr (users, meta, day, usage, daily) \<Rightarrow>
          (let month = billing_month_key now day in
           case maybe_reset_all_usage_on_day_21 (lim_reset_usage_faults io) (lim_reset_faults io) (lim_stamp io) now
               users (set_default month usage) month day (c_usage s) (c_reset s) of
             (Inl e, uc, rc) \<Rightarrow> (Inl e, s\<lparr>c_usage := uc, c_reset := rc\<rparr>)
           | (Inr usage1, uc, rc) \<Rightarrow>
               (let s1 = s\<lparr>c_usage := uc, c_reset := rc\<rparr> in
                case add_to_bucket month traffic (set_default month usage1) of
                  Inl e \<Rightarrow> (Inl e, s1)
                | Inr usage2 \<Rightarrow> (case accumulate_daily (lim_daily_faults io) traffic now (Some daily) (c_daily s1) of
                    (Inl e, dc) \<Rightarrow> (Inl e, s1\<lparr>c_daily := dc\<rparr>)
                  | (Inr daily1, dc) \<Rightarrow> (case save_json (lim_usage_faults io) (JObj usage2) (c_usage s1) of
                      (Some e, uc2) \<Rightarrow> (Inl e, s1\<lparr>c_daily := dc, c_usage := uc2\<rparr>)
                    | (None, uc2) \<Rightarrow>
                        enforce io now users daily1 meta month (s1\<lparr>c_daily := dc, c_usage := uc2\<rparr>))))))"

definition commit_core_and_enforce ::
  "exc option \<Rightarrow> limiter_io \<Rightarrow> traffic \<Rightarrow> datetime \<Rightarrow> limiter_state \<Rightarrow> committed res \<times> limiter_state" where
  "commit_core_and_enforce lock io traffic now s = (case lock of
      Some e \<Rightarrow> (Inl e, s) | None \<Rightarrow> commit_core_and_enforce_locked io traffic now s)"

section \<open>The tick\<close>

text \<open>
  The preflight. \<open>optional\<close> are the auxiliary files by path; the answer is the paths that cannot be
  read, whose features are skipped.
\<close>

definition preflight_persistent_state ::
  "limiter_io \<Rightarrow> (string \<times> jfile) list \<Rightarrow> datetime \<Rightarrow> limiter_state \<Rightarrow> string list res" where
  "preflight_persistent_state io optional now s =
     rbind (load_core (lim_isodt io) s) (\<lambda>(users, meta, day, usage, daily).
     rbind (case effective_display_multiplier_strict (lim_multiplier_env io) (lim_multiplier io)
              (lim_multiplier_file io) of
          Inl e \<Rightarrow> Inl (if e = ValueError then InvalidJsonState else e)
        | Inr _ \<Rightarrow> Inr ()) (\<lambda>_.
     rbind (load_checked validate_reset_state (c_reset s) (dy (dt_date now) = day)) (\<lambda>_.
       Inr (map fst (filter (\<lambda>(path, f). \<exists>e. load_dict f False = Inl e) optional)))))"

text \<open>The part of \<^verbatim>\<open>main\<close> under the usage lock, with its two handlers; \<open>io'\<close> is met by the second.\<close>

definition locked_part ::
  "limiter_io \<Rightarrow> (string \<times> jfile) list \<Rightarrow> json \<Rightarrow> json option \<Rightarrow> datetime \<Rightarrow> limiter_state
   \<Rightarrow> (traffic \<times> committed) res \<times> limiter_state" where
  "locked_part io optional hysteria_answer xray_answer now s =
     (case rbind (preflight_persistent_state io optional now s)
             (\<lambda>_. load_checked (validate_users (lim_isodt io)) (c_users s) True) of
        Inl e \<Rightarrow> (Inl e, s)
      | Inr users \<Rightarrow>
          (case resume_expired_temporary_disables (lim_isodt io) (lim_users_faults io) users now (c_users s) of
             (Inl e, c) \<Rightarrow> (Inl e, s\<lparr>c_users := c\<rparr>)
           | (Inr _, c) \<Rightarrow> (let s1 = s\<lparr>c_users := c\<rparr> in
               case collected_traffic hysteria_answer xray_answer of
                 Inl e \<Rightarrow> (Inl e, s1)
               | Inr traffic \<Rightarrow> (case commit_core_and_enforce_locked io traffic now s1 of
                   (Inl e, s2) \<Rightarrow> (Inl e, s2)
                 | (Inr cm, s2) \<Rightarrow> (Inr (traffic, cm), s2)))))"

definition guarded_part ::
  "exc option \<Rightarrow> limiter_io \<Rightarrow> limiter_io \<Rightarrow> (string \<times> jfile) list \<Rightarrow> json \<Rightarrow> json option \<Rightarrow> datetime
   \<Rightarrow> limiter_state \<Rightarrow> (traffic \<times> committed) res \<times> limiter_state" where
  "guarded_part lock io io' optional hysteria_answer xray_answer now s =
     (case (case lock of Some e \<Rightarrow> (Inl e, s) | None \<Rightarrow> locked_part io optional hysteria_answer xray_answer now s) of
        (Inr r, s') \<Rightarrow> (Inr r, s')
      | (Inl e, s') \<Rightarrow>
          if e \<noteq> LockTimeout \<and> caught_by_stop e
          then (case fail_closed_static_access io' e s' of
              (Some e', s'') \<Rightarrow> (Inl e', s'') | (None, s'') \<Rightarrow> (Inl e, s''))
          else (Inl e, s'))"

text \<open>Then the reloads; the answer names the users to disconnect from Hysteria.\<close>

definition tick ::
  "exc option \<Rightarrow> limiter_io \<Rightarrow> limiter_io \<Rightarrow> (string \<times> jfile) list \<Rightarrow> json \<Rightarrow> json option \<Rightarrow> datetime
   \<Rightarrow> limiter_state \<Rightarrow> string list res \<times> limiter_state" where
  "tick lock io io' optional hysteria_answer xray_answer now s =
     (case guarded_part lock io io' optional hysteria_answer xray_answer now s of
        (Inl e, s') \<Rightarrow> (Inl e, s')
      | (Inr (traffic, cm), s') \<Rightarrow>
          (Inr (cm_to_kick cm), s'\<lparr>
             c_xray := (if cm_xray_changed cm \<and> lim_live io then reload_xray (lim_xray io) True (c_xray s') else c_xray s'),
             c_tuic := (if cm_tuic_changed cm \<and> lim_live io then reload_tuic (lim_tuic io) True (c_tuic s')
                        else c_tuic s')\<rparr>))"

section \<open>What the operations leave alone\<close>

lemma mark_pending_caught:
  assumes "mark_pending fails name reason now s = (e, s')" and "service_key name = Inr k"
  shows "issued s' = issued s \<and> (\<forall>x. e = Some x \<longrightarrow> caught_by_stop x)"
  using assms
  by (auto simp: mark_pending_def save_text_atomic_def write_atomic_def drop_temp_def Let_def caught_by_stop_def
      split: if_splits)

lemma stop_issues:
  assumes "service_key name = Inr k"
  shows "\<exists>a s'. stop_fail_closed run fails name reason now True s = (Inr a, s') \<and> issued s' = issued s @ [Stop]"
proof -
  obtain e s1 where m: "mark_pending fails name reason now s = (e, s1)" by fastforce
  from mark_pending_caught [OF m assms] have "issued s1 = issued s" "\<not> (e \<noteq> None \<and> \<not> caught_by_stop (the e))" by (cases e; simp)+
  then show ?thesis
    by (cases "run (issued s1) Stop") (auto simp: stop_fail_closed_def m issue_def Let_def)
qed

lemma stop_static_live:
  assumes "service_key name = Inr k" and "stop_static_service px name True reason m = (e, m')"
  shows "e = None \<and> issued (service m') = issued (service m) @ [Stop]
    \<and> live_config m' = live_config m \<and> reload_marker m' = reload_marker m"
  using assms(2) stop_issues [OF assms(1), of "px_run px" "px_stop_faults px" "exc_name reason" "px_time px" "service m"]
  by (auto simp: stop_static_service_def)

lemma stop_static_quiet: "stop_static_service px name False reason m = (None, m)"
  by (simp add: stop_static_service_def stop_fail_closed_def)

lemma recover_returns:
  assumes "service_key name = Inr k"
  shows "\<exists>b s'. recover_if_pending run fails name live s = (Inr b, s')"
  by (cases "unlink_marker fails s") (auto simp: recover_if_pending_def assms Let_def split: prod.splits option.splits)

lemma recover_or_stop_cases:
  assumes "service_key name = Inr k" and "recover_or_stop px name live reconciled m = (r, m')"
  obtains (recovered) changed where "reconciled = Inr changed" "r = Inr changed"
      "live_config m' = live_config m" "reload_marker m' = reload_marker m"
  | (stopped) e where "reconciled = Inl e" "r = Inr False"
      "live_config m' = live_config m" "reload_marker m' = reload_marker m"
      "if live then issued (service m') = issued (service m) @ [Stop] else m' = m"
proof (cases reconciled)
  case (Inl e)
  obtain x m1 where st: "stop_static_service px name live e m = (x, m1)" by fastforce
  show ?thesis
  proof (cases live)
    case True
    from st True have "stop_static_service px name True e m = (x, m1)" by simp
    from stop_static_live [OF assms(1) this] assms(2) Inl st True show ?thesis
      by (intro stopped [of e]) (auto simp: recover_or_stop_def)
  next
    case False
    with stop_static_quiet [of px name e m] assms(2) Inl show ?thesis
      by (intro stopped [of e]) (auto simp: recover_or_stop_def)
  qed
next
  case (Inr changed)
  from recover_returns [OF assms(1)] obtain b s' where
    "recover_if_pending (px_run px) (px_recover_faults px) name live (service m) = (Inr b, s')" by blast
  with assms(2) Inr show ?thesis by (intro recovered [of changed]) (auto simp: recover_or_stop_def)
qed

lemma service_keys [simp]: "service_key ''xray'' = Inr ''xray''" "\<exists>k. service_key TUIC_SERVICE = Inr k"
  by (simp_all add: service_key_def TUIC_SERVICE_def)

lemma locked_change_service:
  "locked_change lock mark_fails save_fails native token change m = (r, m') \<Longrightarrow> service m' = service m"
  by (auto simp: locked_change_def mark_reload_pending_def split: option.splits sum.splits prod.splits if_splits)

lemma apply_xray_plan_service: "apply_xray_plan px plan m = (r, m') \<Longrightarrow> service m' = service m"
  unfolding apply_xray_plan_def apply_user_plan_def by (rule locked_change_service)

lemma replace_users_service:
  "replace_users lock mark_fails save_fails token users m = (r, m') \<Longrightarrow> service m' = service m"
  by (auto simp: replace_users_def mark_reload_pending_def Let_def split: option.splits sum.splits prod.splits if_splits)

lemma sync_user_plan_service: "sync_user_plan x users plan (m, c) = (r, m', c') \<Longrightarrow> service m' = service m"
  by (auto simp: sync_user_plan_def split: prod.splits sum.splits dest: replace_users_service)

section \<open>The plan reaches both proxies\<close>

definition xray_holds :: "plan \<Rightarrow> managed \<Rightarrow> bool" where
  "xray_holds plan m \<longleftrightarrow> (\<exists>cfg inbounds. load_config (seen (live_config m)) = Inr cfg
     \<and> dget cfg ''inbounds'' JNull = JList inbounds \<and> (\<forall>i \<in> set inbounds. inbound_exact plan i))"

definition tuic_holds :: "(json \<Rightarrow> string) \<Rightarrow> json dict \<Rightarrow> plan \<Rightarrow> managed \<Rightarrow> bool" where
  "tuic_holds str_of users plan t \<longleftrightarrow> (\<exists>cfg us. load_runtime_config (seen (live_config t)) = Inr (Some cfg)
     \<and> map_of cfg ''users'' = Some (JObj us) \<and> us \<noteq> []
     \<and> (\<forall>uid v. map_of us uid = Some v \<longrightarrow> entry_allowed str_of users plan uid v
         \<or> uid = LOCKED_USER_UUID \<and> (\<forall>u. map_of us u \<noteq> None \<longrightarrow> u = LOCKED_USER_UUID)))"

lemma xray_plan_holds: "apply_xray_plan px plan m = (Inr r, m') \<Longrightarrow> xray_holds plan m'"
  unfolding apply_xray_plan_def xray_holds_def by (drule plan_applied_exact) blast

lemma tuic_plan_holds: "sync_user_plan x users plan (m, c) = (Inr r, m', c') \<Longrightarrow> tuic_holds (io_str x) users plan m'"
  unfolding tuic_holds_def by (rule tuic_plan_file)

definition stopped_after :: "managed \<Rightarrow> managed \<Rightarrow> bool" where
  "stopped_after m m' \<longleftrightarrow> issued (service m') = issued (service m) @ [Stop]"

lemma apply_static_spec:
  assumes "apply_static_access_plan io users plan s = (r, s')"
  shows "\<exists>xc tc. r = Inr (xc, tc)"
    and "xray_holds plan (c_xray s') \<or> (lim_live io \<longrightarrow> stopped_after (c_xray s) (c_xray s'))"
    and "tuic_holds (io_str (lim_tuic_files io)) users plan (c_tuic s') \<or> (lim_live io \<longrightarrow> stopped_after (c_tuic s) (c_tuic s'))"
    and "c_daily s' = c_daily s \<and> c_usage s' = c_usage s \<and> c_users s' = c_users s \<and> c_reset s' = c_reset s \<and> c_meta s' = c_meta s"
proof -
  obtain rx m where x: "apply_xray_plan (lim_xray io) plan (c_xray s) = (rx, m)" by fastforce
  obtain rx' m' where x': "recover_or_stop (lim_xray io) ''xray'' (lim_live io) rx m = (rx', m')" by fastforce
  obtain rt t secret where t: "sync_user_plan (lim_tuic_files io) users plan (c_tuic s, c_secret s) = (rt, t, secret)"
    by (metis prod_cases3)
  obtain rt' t' where t': "recover_or_stop (lim_tuic io) TUIC_SERVICE (lim_live io) rt t = (rt', t')" by fastforce
  have X: "(\<exists>xc. rx' = Inr xc) \<and> (xray_holds plan m' \<or> (lim_live io \<longrightarrow> stopped_after (c_xray s) m'))"
    using service_keys(1) x'
  proof (cases rule: recover_or_stop_cases)
    case (recovered changed)
    with xray_plan_holds [of "lim_xray io" plan "c_xray s" changed m] x show ?thesis
      by (simp add: xray_holds_def)
  next
    case (stopped e)
    with apply_xray_plan_service [OF x] show ?thesis by (auto simp: stopped_after_def)
  qed
  obtain k where k: "service_key TUIC_SERVICE = Inr k" using service_keys(2) by blast
  have T: "(\<exists>tc. rt' = Inr tc) \<and> (tuic_holds (io_str (lim_tuic_files io)) users plan t'
      \<or> (lim_live io \<longrightarrow> stopped_after (c_tuic s) t'))"
    using k t'
  proof (cases rule: recover_or_stop_cases)
    case (recovered changed)
    with tuic_plan_holds [of "lim_tuic_files io" users plan "c_tuic s" "c_secret s" changed t secret] t show ?thesis
      by (simp add: tuic_holds_def)
  next
    case (stopped e)
    with sync_user_plan_service [OF t] show ?thesis by (auto simp: stopped_after_def)
  qed
  from X T obtain xc tc where c: "rx' = Inr xc" "rt' = Inr tc" by blast
  with assms x x' t t' have e: "r = Inr (xc, tc)" "s' = s\<lparr>c_xray := m', c_tuic := t', c_secret := secret\<rparr>"
    by (simp_all add: apply_static_access_plan_def)
  from e X T show "\<exists>xc tc. r = Inr (xc, tc)"
    "xray_holds plan (c_xray s') \<or> (lim_live io \<longrightarrow> stopped_after (c_xray s) (c_xray s'))"
    "tuic_holds (io_str (lim_tuic_files io)) users plan (c_tuic s') \<or> (lim_live io \<longrightarrow> stopped_after (c_tuic s) (c_tuic s'))"
    "c_daily s' = c_daily s \<and> c_usage s' = c_usage s \<and> c_users s' = c_users s \<and> c_reset s' = c_reset s \<and> c_meta s' = c_meta s"
    by simp_all
qed

section \<open>The plan is exact\<close>

definition denied :: "rat \<Rightarrow> json dict \<Rightarrow> datetime \<Rightarrow> json dict \<Rightarrow> string \<Rightarrow> json dict \<Rightarrow> bool res" where
  "denied multiplier daily now meta uid d =
     (if is_inactive (JObj d) (dt_date now) then Inr True else over_quota multiplier daily now meta uid d)"

lemma plan_step:
  assumes "build_static_access_plan multiplier ((uid, cfg) # users) daily now meta = Inr (plan, to_kick)"
  obtains d b plan0 kick0 where "cfg = JObj d" "denied multiplier daily now meta uid d = Inr b"
    "build_static_access_plan multiplier users daily now meta = Inr (plan0, kick0)"
    "plan = (if b then (uid, None) # plan0 else if vless_text d \<noteq> [] then (uid, Some (vless_text d)) # plan0 else plan0)"
    "to_kick = (if b then uid # kick0 else kick0)"
  using assms by (cases cfg) (auto simp: denied_def rbind_eq_Inr split: if_splits)

lemma plan_names:
  "build_static_access_plan multiplier users daily now meta = Inr (plan, to_kick) \<Longrightarrow>
     fst ` set plan \<subseteq> fst ` set users \<and> set to_kick \<subseteq> fst ` set users"
proof (induction users arbitrary: plan to_kick)
  case (Cons x users)
  obtain uid cfg where x: "x = (uid, cfg)" by (cases x)
  from Cons.prems [unfolded x] obtain d b plan0 kick0 where
    "build_static_access_plan multiplier users daily now meta = Inr (plan0, kick0)"
    "plan = (if b then (uid, None) # plan0 else if vless_text d \<noteq> [] then (uid, Some (vless_text d)) # plan0 else plan0)"
    "to_kick = (if b then uid # kick0 else kick0)" by (rule plan_step)
  with Cons.IH [of plan0 kick0] show ?case by (auto simp: x)
qed simp

lemma plan_lookup:
  "build_static_access_plan multiplier users daily now meta = Inr (plan, to_kick) \<Longrightarrow> distinct (map fst users)
   \<Longrightarrow> map_of users uid = Some cfg \<Longrightarrow> \<exists>d b. cfg = JObj d \<and> denied multiplier daily now meta uid d = Inr b
     \<and> map_of plan uid = (if b then Some None else if vless_text d \<noteq> [] then Some (Some (vless_text d)) else None)
     \<and> (uid \<in> set to_kick \<longleftrightarrow> b)"
proof (induction users arbitrary: plan to_kick)
  case (Cons x users)
  obtain u c where x: "x = (u, c)" by (cases x)
  from Cons.prems(1) [unfolded x] obtain d b plan0 kick0 where s: "c = JObj d"
    "denied multiplier daily now meta u d = Inr b"
    "build_static_access_plan multiplier users daily now meta = Inr (plan0, kick0)"
    "plan = (if b then (u, None) # plan0 else if vless_text d \<noteq> [] then (u, Some (vless_text d)) # plan0 else plan0)"
    "to_kick = (if b then u # kick0 else kick0)" by (rule plan_step)
  show ?case
  proof (cases "u = uid")
    case True
    with Cons.prems(2) x have "uid \<notin> fst ` set users" by simp
    with plan_names [OF s(3)] have "map_of plan0 uid = None" "uid \<notin> set kick0"
      by (auto simp: map_of_eq_None_iff)
    with s True Cons.prems(3) x show ?thesis by (intro exI [of _ d] exI [of _ b]) simp
  next
    case False
    with Cons.prems x have "map_of users uid = Some cfg" "distinct (map fst users)" by simp_all
    from Cons.IH [OF s(3) this(2,1)] False s(4,5) show ?thesis by auto
  qed
qed simp

lemma over_quota_no:
  assumes "over_quota multiplier daily now meta uid d = Inr False" and "is_metered (JObj d)"
    and "total_quota_bytes (JObj d) = Inr quota" and "0 < quota"
  shows "\<exists>used. cycle_used_raw_for uid daily now None meta = Inr used \<and> float_times_int used multiplier < of_int quota"
  using assms by (auto simp: over_quota_def rbind_eq_Inr)

lemma over_quota_yes:
  assumes "over_quota multiplier daily now meta uid d = Inr True"
  shows "is_metered (JObj d) \<and> (\<exists>quota used. total_quota_bytes (JObj d) = Inr quota \<and> 0 < quota
    \<and> cycle_used_raw_for uid daily now None meta = Inr used \<and> of_int quota \<le> float_times_int used multiplier)"
  using assms by (auto simp: over_quota_def rbind_eq_Inr split: if_splits)


section \<open>The commit is durable before it is enforced\<close>

lemma load_checked_Inr:
  "load_checked check c required = Inr d \<longleftrightarrow> load_dict (seen c) required = Inr d \<and> check d = Inr ()"
  by (auto simp: load_checked_def rbind_eq_Inr)

lemma save_json_outcome:
  assumes "save_json fails j c = (e, c')"
  shows "(seen c' = seen c \<or> seen c' = Doc (raw_of_json j))
    \<and> (e = None \<longrightarrow> seen c' = Doc (raw_of_json j) \<and> after_crash c' = {Doc (raw_of_json j)})"
  using assms by (auto simp: save_json_def write_atomic_def drop_temp_def Let_def split: if_splits)

lemma accumulate_daily_outcome:
  assumes "accumulate_daily fails traffic now (Some daily) c = (r, c')"
  shows "(seen c' = seen c \<or> (\<exists>d. accumulated_daily traffic now daily = Inr d \<and> seen c' = Doc (raw_of_json (JObj d))))
    \<and> (\<forall>d. r = Inr d \<longrightarrow> accumulated_daily traffic now daily = Inr d
        \<and> seen c' = Doc (raw_of_json (JObj d)) \<and> after_crash c' = {Doc (raw_of_json (JObj d))})"
proof (cases "accumulated_daily traffic now daily")
  case (Inl e)
  with assms show ?thesis by (auto simp: accumulate_daily_def)
next
  case (Inr d)
  obtain e c1 where sv: "save_json fails (JObj d) c = (e, c1)" by fastforce
  with assms Inr have "c' = c1" "r = (case e of None \<Rightarrow> Inr d | Some x \<Rightarrow> Inl x)"
    by (simp_all add: accumulate_daily_def split: option.splits)
  with save_json_outcome [OF sv] Inr show ?thesis by (cases e) simp_all
qed

lemma enforce_outcome:
  assumes "enforce io now users daily meta month s = (r, s')"
  shows "c_daily s' = c_daily s \<and> (\<forall>e. r = Inl e \<longrightarrow> s' = s)
    \<and> (\<forall>cm. r = Inr cm \<longrightarrow> cm_daily cm = daily \<and> (\<exists>plan.
        build_static_access_plan (lim_multiplier io) users daily now meta = Inr (plan, cm_to_kick cm)
        \<and> (xray_holds plan (c_xray s') \<or> (lim_live io \<longrightarrow> stopped_after (c_xray s) (c_xray s')))
        \<and> (tuic_holds (io_str (lim_tuic_files io)) users plan (c_tuic s')
           \<or> (lim_live io \<longrightarrow> stopped_after (c_tuic s) (c_tuic s')))))"
proof (cases "build_static_access_plan (lim_multiplier io) users daily now meta")
  case (Inl e)
  with assms show ?thesis by (auto simp: enforce_def)
next
  case (Inr b)
  obtain plan to_kick where b: "b = (plan, to_kick)" by (cases b)
  obtain r1 s1 where a: "apply_static_access_plan io users plan s = (r1, s1)" by fastforce
  from apply_static_spec(1) [OF a] obtain xc tc where c: "r1 = Inr (xc, tc)" by blast
  from assms Inr b a c have "s' = s1" "r = Inr \<lparr>cm_users = users, cm_daily = daily, cm_month = month,
      cm_to_kick = to_kick, cm_xray_changed = xc, cm_tuic_changed = tc\<rparr>"
    by (simp_all add: enforce_def)
  with apply_static_spec(2-4) [OF a] Inr b show ?thesis by simp
qed

text \<open>The commit as the steps it goes through.\<close>

lemma commit_cases:
  assumes "commit_core_and_enforce_locked io traffic now s = (r, s')"
  obtains (early) e where "r = Inl e" "c_daily s' = c_daily s" "c_xray s' = c_xray s" "c_tuic s' = c_tuic s"
  | (unsaved) users meta day usage daily e r1 where
      "load_core (lim_isodt io) s = Inr (users, meta, day, usage, daily)"
      "accumulate_daily (lim_daily_faults io) traffic now (Some daily) (c_daily s) = (r1, c_daily s')" "r = Inl e"
      "c_xray s' = c_xray s" "c_tuic s' = c_tuic s"
  | (enforced) users meta day usage daily daily1 s1 month where
      "load_core (lim_isodt io) s = Inr (users, meta, day, usage, daily)"
      "accumulate_daily (lim_daily_faults io) traffic now (Some daily) (c_daily s) = (Inr daily1, c_daily s1)"
      "enforce io now users daily1 meta month s1 = (r, s')"
      "c_xray s1 = c_xray s" "c_tuic s1 = c_tuic s"
proof (cases "load_core (lim_isodt io) s")
  case (Inl e)
  with assms show ?thesis by (intro early [of e]) (simp_all add: commit_core_and_enforce_locked_def)
next
  case (Inr core)
  obtain users meta day usage daily where core: "core = (users, meta, day, usage, daily)" by (metis prod_cases5)
  let ?month = "billing_month_key now day"
  obtain r0 uc rc where reset: "maybe_reset_all_usage_on_day_21 (lim_reset_usage_faults io) (lim_reset_faults io)
      (lim_stamp io) now users (set_default ?month usage) ?month day (c_usage s) (c_reset s) = (r0, uc, rc)"
    by (metis prod_cases3)
  note run = assms [unfolded commit_core_and_enforce_locked_def Inr core, simplified, unfolded Let_def reset, simplified]
  show ?thesis
  proof (cases r0)
    case (Inl e)
    with run show ?thesis by (intro early [of e]) auto
  next
    case usage1: (Inr usage1)
    show ?thesis
    proof (cases "add_to_bucket ?month traffic (set_default ?month usage1)")
      case (Inl e)
      with run usage1 show ?thesis by (intro early [of e]) auto
    next
      case usage2: (Inr usage2)
      obtain r1 dc where acc: "accumulate_daily (lim_daily_faults io) traffic now (Some daily) (c_daily s) = (r1, dc)"
        by fastforce
      show ?thesis
      proof (cases r1)
        case (Inl e)
        with run usage1 usage2 acc show ?thesis
          by (intro unsaved [OF Inr [unfolded core], of r1 e]) auto
      next
        case daily1: (Inr daily1)
        obtain e uc2 where sv: "save_json (lim_usage_faults io) (JObj usage2) uc = (e, uc2)" by fastforce
        show ?thesis
        proof (cases e)
          case (Some x)
          with run usage1 usage2 acc daily1 sv show ?thesis
            by (intro unsaved [OF Inr [unfolded core], of r1 x]) auto
        next
          case None
          with run usage1 usage2 acc daily1 sv show ?thesis
            by (intro enforced [OF Inr [unfolded core], of daily1 "s\<lparr>c_reset := rc, c_daily := dc, c_usage := uc2\<rparr>" ?month]) auto
        qed
      qed
    qed
  qed
qed


section \<open>Failing closed\<close>

lemma reload_async_commands:
  assumes "service_key name = Inr k"
  shows "\<exists>more. issued (service (snd (snd (reload_async run fails name now True m)))) = issued (service m) @ more
      \<and> set more \<subseteq> {ScheduleReload, Stop}"
    and "live_config (snd (snd (reload_async run fails name now live m))) = live_config m"
proof -
  have f: "issued (service (fail_closed_reload run fails name reason now True x)) = issued (service x) @ [Stop]" for reason x
    using stop_issues [OF assms, of run fails reason now "service x"] by (auto simp: fail_closed_reload_def)
  show "\<exists>more. issued (service (snd (snd (reload_async run fails name now True m)))) = issued (service m) @ more
      \<and> set more \<subseteq> {ScheduleReload, Stop}"
    by (simp add: reload_async_def f issue_def Let_def split: option.split)
  show "live_config (snd (snd (reload_async run fails name now live m))) = live_config m"
    by (simp add: reload_async_def fail_closed_reload_def issue_def Let_def split: option.split)
qed

text \<open>After the stop at most a reload is scheduled, and only for a configuration that has been emptied.\<close>

definition revoked_after :: "(managed \<Rightarrow> bool) \<Rightarrow> managed \<Rightarrow> managed \<Rightarrow> bool" where
  "revoked_after emptied m m' \<longleftrightarrow> (\<exists>more. issued (service m') = issued (service m) @ Stop # more
     \<and> set more \<subseteq> {ScheduleReload, Stop} \<and> (ScheduleReload \<in> set more \<longrightarrow> emptied m'))"

definition tuic_emptied :: "managed \<Rightarrow> bool" where
  "tuic_emptied t \<longleftrightarrow> (\<exists>cfg us. load_runtime_config (seen (live_config t)) = Inr (Some cfg)
     \<and> map_of cfg ''users'' = Some (JObj us) \<and> (\<forall>uid. map_of us uid \<noteq> None \<longrightarrow> uid = LOCKED_USER_UUID))"

lemma sync_nobody: "sync_all x f (Some []) s = sync_user_plan x [] [] s"
  by (simp add: sync_all_def sync_user_plan_def render_from_users_def render_from_user_plan_def List.map_filter_def)

lemma nobody_holds: "tuic_holds str_of [] [] t \<Longrightarrow> tuic_emptied t"
  unfolding tuic_holds_def tuic_emptied_def entry_allowed_def by fastforce

lemma reload_if_revoked:
  assumes stop: "issued (service m1) = issued (service m0) @ [Stop]" and same: "service m2 = service m1"
    and empty: "\<And>b. r = Inr b \<Longrightarrow> emptied m2" and only: "\<And>x y. live_config x = live_config y \<Longrightarrow> emptied x = emptied y"
    and reload: "\<And>m. (\<exists>more. issued (service (reload m)) = issued (service m) @ more \<and> set more \<subseteq> {ScheduleReload, Stop})
      \<and> live_config (reload m) = live_config m"
  shows "revoked_after emptied m0 (reload_if r reload m2)"
proof (cases "r = Inr True")
  case True
  from reload [of m2] obtain more where "issued (service (reload m2)) = issued (service m2) @ more"
    "set more \<subseteq> {ScheduleReload, Stop}" by blast
  moreover have "emptied (reload m2)" using only [of "reload m2" m2] reload [of m2] empty [OF True] by simp
  ultimately show ?thesis using True stop same by (simp add: revoked_after_def reload_if_def)
next
  case False
  then have "reload_if r reload m2 = m2" by (simp add: reload_if_def split: sum.splits bool.splits)
  with stop same show ?thesis by (simp add: revoked_after_def)
qed

lemma fail_closed_spec:
  assumes live: "lim_live io" and run: "fail_closed_static_access io reason s = (e, s')"
  shows "e = None \<and> revoked_after (xray_holds []) (c_xray s) (c_xray s') \<and> revoked_after tuic_emptied (c_tuic s) (c_tuic s')"
proof -
  obtain k where k: "service_key TUIC_SERVICE = Inr k" using service_keys(2) by blast
  obtain e1 m where m: "stop_static_service (lim_xray io) ''xray'' True reason (c_xray s) = (e1, m)" by fastforce
  obtain e2 t where t: "stop_static_service (lim_tuic io) TUIC_SERVICE True reason (c_tuic s) = (e2, t)" by fastforce
  note M = stop_static_live [OF service_keys(1) m] and T = stop_static_live [OF k t]
  obtain r m1 where x: "apply_xray_plan (lim_xray io) [] m = (r, m1)" by fastforce
  obtain r' t1 sec where y: "sync_all (lim_tuic_files io) Missing (Some []) (t, c_secret s) = (r', t1, sec)"
    by (metis prod_cases3)
  from run live m t M T x y have s': "e = None"
    "c_xray s' = reload_if r (reload_xray (lim_xray io) True) m1"
    "c_tuic s' = reload_if r' (reload_tuic (lim_tuic io) True) t1"
    by (auto simp: fail_closed_static_access_def Let_def)
  have "revoked_after (xray_holds []) (c_xray s) (c_xray s')" unfolding s'
  proof (rule reload_if_revoked)
    show "service m1 = service m" by (rule apply_xray_plan_service [OF x])
    show "xray_holds [] m1" if "r = Inr b" for b using xray_plan_holds x that by blast
    show "(\<exists>more. issued (service (reload_xray (lim_xray io) True m)) = issued (service m) @ more
        \<and> set more \<subseteq> {ScheduleReload, Stop}) \<and> live_config (reload_xray (lim_xray io) True m) = live_config m" for m
      using reload_async_commands [OF service_keys(1)] by (simp add: reload_xray_def xray_reload_async_def)
  qed (use M in \<open>auto simp: xray_holds_def\<close>)
  moreover have "revoked_after tuic_emptied (c_tuic s) (c_tuic s')" unfolding s'
  proof (rule reload_if_revoked)
    show "service t1 = service t" using sync_user_plan_service y by (metis sync_nobody)
    show "tuic_emptied t1" if "r' = Inr b" for b using tuic_plan_holds y that nobody_holds by (metis sync_nobody)
    show "(\<exists>more. issued (service (reload_tuic (lim_tuic io) True m)) = issued (service m) @ more
        \<and> set more \<subseteq> {ScheduleReload, Stop}) \<and> live_config (reload_tuic (lim_tuic io) True m) = live_config m" for m
      using reload_async_commands [OF k] by (simp add: reload_tuic_def tuic_reload_async_def)
  qed (use T in \<open>auto simp: tuic_emptied_def\<close>)
  ultimately show ?thesis using s'(1) by blast
qed

lemma commit_error_proxies:
  "commit_core_and_enforce_locked io traffic now s = (Inl e, s') \<Longrightarrow> c_xray s' = c_xray s \<and> c_tuic s' = c_tuic s"
proof (erule commit_cases)
  fix users meta day usage daily daily1 s1 month
  assume "enforce io now users daily1 meta month s1 = (Inl e, s')" "c_xray s1 = c_xray s" "c_tuic s1 = c_tuic s"
  with enforce_outcome [of io now users daily1 meta month s1 "Inl e" s'] show ?thesis by simp
qed simp_all

lemma locked_part_error:
  assumes "locked_part io optional ha xa now s = (Inl e, s')"
  shows "c_xray s' = c_xray s \<and> c_tuic s' = c_tuic s"
proof (cases "rbind (preflight_persistent_state io optional now s)
             (\<lambda>_. load_checked (validate_users (lim_isodt io)) (c_users s) True)")
  case (Inl x)
  with assms show ?thesis by (simp add: locked_part_def)
next
  case (Inr users)
  obtain r c where c: "resume_expired_temporary_disables (lim_isodt io) (lim_users_faults io) users now (c_users s) = (r, c)"
    by fastforce
  note run = assms [unfolded locked_part_def Inr, simplified, unfolded c Let_def, simplified]
  show ?thesis
  proof (cases r)
    case (Inl x)
    with run show ?thesis by auto
  next
    case resumed: (Inr b)
    show ?thesis
    proof (cases "collected_traffic ha xa")
      case (Inl x)
      with run resumed show ?thesis by auto
    next
      case traffic: (Inr traffic)
      obtain r2 s2 where cm: "commit_core_and_enforce_locked io traffic now (s\<lparr>c_users := c\<rparr>) = (r2, s2)" by fastforce
      with run resumed traffic have "r2 = Inl e" "s' = s2" by (auto split: sum.splits)
      with commit_error_proxies [of io traffic now "s\<lparr>c_users := c\<rparr>" e s'] cm show ?thesis by simp
    qed
  qed
qed

text \<open>
  C4. A tick that cannot trust the core state fails closed. When the locked part of a live tick ends in a
  state or file error, whichever step raised it, both proxies have been told to stop; after that the only
  further command either can get, besides more stops, is a scheduled reload, and only once its
  configuration has been rewritten to let nobody in.
\<close>

theorem tick_fails_closed:
  assumes tick: "tick lock io io' optional hysteria_answer xray_answer now s = (Inl e, s')"
    and live: "lim_live io'" and error: "e \<noteq> LockTimeout" "caught_by_stop e"
  shows "revoked_after (xray_holds []) (c_xray s) (c_xray s') \<and> revoked_after tuic_emptied (c_tuic s) (c_tuic s')"
proof -
  from tick have g: "guarded_part lock io io' optional hysteria_answer xray_answer now s = (Inl e, s')"
    by (auto simp: tick_def split: sum.splits prod.splits)
  obtain r s1 where b: "(case lock of Some e \<Rightarrow> (Inl e, s)
      | None \<Rightarrow> locked_part io optional hysteria_answer xray_answer now s) = (r, s1)" by fastforce
  with g obtain x where r: "r = Inl x" by (cases r) (auto simp: guarded_part_def)
  have same: "c_xray s1 = c_xray s \<and> c_tuic s1 = c_tuic s"
    using b r locked_part_error [of io optional hysteria_answer xray_answer now s x s1] by (cases lock) auto
  obtain y s2 where f: "fail_closed_static_access io' x s1 = (y, s2)" by fastforce
  from fail_closed_spec [OF live f] have y: "y = None" by blast
  have "x = e" "s' = s2"
    using g b r f y error by (auto simp: guarded_part_def split: if_splits)
  with fail_closed_spec [OF live f] same show ?thesis by simp
qed

section \<open>The properties at concrete inputs\<close>

text \<open>
  One metered user below her quota, with seven bytes used today, and one disabled user. On disk the
  Xray configuration still knows \<^verbatim>\<open>eve\<close>.
\<close>

definition tick_now :: datetime where "tick_now = DT (YMD 2026 5 5) 0 None"

definition tick_users :: "json dict" where
  "tick_users = [(''ann'', JObj [(''sub_token'', JStr ''tok''), (''vless_uuid'', JStr ''00000000-0000-0000-0000-000000000001''),
       (''metered'', JBool True), (''monthly_quota_bytes'', JInt 100)]),
     (''eve'', JObj [(''sub_token'', JStr ''t2''), (''vless_uuid'', JStr ''00000000-0000-0000-0000-000000000002''),
       (''disabled'', JBool True)])]"

definition tick_meta :: "json dict" where "tick_meta = [(''settlement_day'', JInt 4)]"
definition tick_daily :: "json dict" where "tick_daily = [(''2026-05-05'', JObj [(''ann'', JInt 7)])]"

definition tick_proxy :: proxy_io where
  "tick_proxy = \<lparr>px_lock = None, px_mark_faults = (\<lambda>_. False), px_save_faults = (\<lambda>_. False), px_native = Some True,
     px_token = ''t'', px_run = (\<lambda>_ _. Exited 0), px_stop_faults = (\<lambda>_. False), px_recover_faults = (\<lambda>_. False),
     px_reload_faults = (\<lambda>_. False), px_time = ''t0''\<rparr>"

definition tick_io :: limiter_io where
  "tick_io = \<lparr>lim_isodt = (\<lambda>_. None), lim_live = True, lim_users_faults = (\<lambda>_. False),
     lim_reset_usage_faults = (\<lambda>_. False), lim_reset_faults = (\<lambda>_. False), lim_daily_faults = (\<lambda>_. False),
     lim_usage_faults = (\<lambda>_. False), lim_stamp = ''t0'', lim_multiplier = 1, lim_multiplier_env = None,
     lim_multiplier_file = Missing, lim_xray = tick_proxy, lim_tuic = tick_proxy, lim_tuic_files = demo_io\<rparr>"

definition tick_state :: "jfile \<Rightarrow> limiter_state" where
  "tick_state users = \<lparr>c_users = quiet users, c_meta = quiet (Doc (raw_of_json (JObj tick_meta))),
     c_usage = quiet (Doc (RObj [])), c_daily = quiet (Doc (raw_of_json (JObj tick_daily))),
     c_reset = quiet (Doc (RObj [])), c_xray = demo_managed (Doc (raw_of_json (JObj eve_config))) Missing,
     c_tuic = demo_managed Missing Missing, c_secret = quiet Missing\<rparr>"

definition tick_plan :: plan where
  "tick_plan = [(''ann'', Some ''00000000-0000-0000-0000-000000000001''), (''eve'', None)]"

lemma tick_plan_built:
  "build_static_access_plan 1 tick_users tick_daily tick_now tick_meta = Inr (tick_plan, [''eve''])"
  by code_simp


theorem tick_fails_closed_witness:
  "\<exists>s'. tick None tick_io tick_io [] JNull None tick_now (tick_state Missing) = (Inl InvalidJsonState, s')
    \<and> Stop \<in> set (issued (service (c_xray s'))) \<and> Stop \<in> set (issued (service (c_tuic s')))"
proof -
  let ?s = "tick_state Missing"
  have live: "lim_live tick_io" by (simp add: tick_io_def)
  obtain e s' where f: "fail_closed_static_access tick_io InvalidJsonState ?s = (e, s')" by fastforce
  have core: "load_core (lim_isodt tick_io) ?s = Inl InvalidJsonState"
    by (simp add: load_core_def load_checked_def tick_state_def quiet_def load_dict_def load_json_strict_def)
  have t: "tick None tick_io tick_io [] JNull None tick_now ?s = (Inl InvalidJsonState, s')"
    using f fail_closed_spec [OF live f]
    by (simp add: tick_def guarded_part_def locked_part_def preflight_persistent_state_def core caught_by_stop_def)
  from tick_fails_closed [OF t live] show ?thesis
    by (auto simp: t caught_by_stop_def revoked_after_def)
qed

text \<open>The commit of twelve more bytes for \<^verbatim>\<open>ann\<close>, with every write succeeding.\<close>

definition tick_users_file :: jfile where "tick_users_file = Doc (raw_of_json (JObj tick_users))"

definition tick_daily' :: "json dict" where
  "tick_daily' = [(''2026-05-05'', JObj [(''ann'', JObj [(''tx'', JInt 5), (''rx'', JInt 14), (''total'', JInt 19)])])]"

lemma tick_core: "load_core (lim_isodt tick_io) (tick_state tick_users_file) = Inr (tick_users, tick_meta, 4, [], tick_daily)"
proof -
  have "load_dict tick_users_file True = Inr tick_users" by code_simp
  moreover have "validate_users (\<lambda>_. None) tick_users = Inr ()" by code_simp
  moreover have "load_dict (Doc (raw_of_json (JObj tick_meta))) True = Inr tick_meta" by code_simp
  moreover have "limiter_validate_meta tick_meta = Inr ()" by code_simp
  moreover have "settlement_day_from_meta tick_meta = Inr 4" by code_simp
  moreover have "load_dict (Doc (RObj [])) True = Inr []" by code_simp
  moreover have "validate_usage_ledger False [] = Inr ()" by code_simp
  moreover have "load_dict (Doc (raw_of_json (JObj tick_daily))) True = Inr tick_daily" by code_simp
  moreover have "validate_usage_ledger True tick_daily = Inr ()" by code_simp
  ultimately show ?thesis
    by (simp add: load_core_def load_checked_def tick_state_def tick_io_def quiet_def)
qed

lemma tick_accumulated: "accumulated_daily [(''ann'', 5, 7)] tick_now tick_daily = Inr tick_daily'"
  by code_simp


end
