(* ===== verification/QuotaPaths.thy ===== *)
theory QuotaPaths
  imports AuthBackend TrafficLimiter
begin

text \<open>
  One quota, two tests: \<^verbatim>\<open>authenticate\<close> compares with decimal arithmetic on every connection,
  \<^verbatim>\<open>build_static_access_plan\<close> with binary floating point on every tick. This theory relates the two.
\<close>

section \<open>Both read the same usage\<close>

lemma auth_integer_limiter: "limiter_integer v = Inr n \<Longrightarrow> auth_integer v = Inr n"
  by (cases v) (auto simp: limiter_integer_def non_negative_integer_def Let_def split: if_splits option.splits)

lemma usage_total_valid:
  assumes "validate_usage_entry e = Inr ()"
  shows "usage_total e = entry_total (Some e)"
proof (cases e)
  case (JObj d)
  with assms obtain t r s where v: "set (dkeys d) \<subseteq> {''tx'', ''rx'', ''total''}"
    "limiter_integer (dget d ''tx'' (JInt 0)) = Inr t"
    "limiter_integer (dget d ''rx'' (JInt 0)) = Inr r" "limiter_integer (dget d ''total'' (JInt 0)) = Inr s" "s = t + r"
    by (auto simp: validate_usage_entry_def rbind_eq_Inr split: if_splits)
  have nn: "0 \<le> t" "0 \<le> r" using limiter_nonneg v by blast+
  have "auth_integer (dget d ''total'' (JInt (t + r))) = Inr s"
  proof (cases "map_of d ''total''")
    case None
    with v(5) nn show ?thesis by (simp add: dget_def non_negative_integer_def)
  next
    case (Some x)
    with auth_integer_limiter [OF v(4)] show ?thesis by (simp add: dget_def)
  qed
  with auth_integer_limiter [OF v(2)] auth_integer_limiter [OF v(3)] limiter_py_int [OF v(4)] v(1,5) JObj
  show ?thesis by (simp add: usage_total_def entry_total_def)
next
  case (JInt i)
  with assms show ?thesis
    by (auto simp: validate_usage_entry_def usage_total_def entry_total_def int_or_zero_def limiter_integer_def
        non_negative_integer_def rbind_eq_Inr split: if_splits)
next
  case (JStr t)
  with assms obtain n where n: "limiter_integer e = Inr n"
    by (auto simp: validate_usage_entry_def rbind_eq_Inr)
  from JStr n have "t \<noteq> []" by (auto simp: limiter_integer_def non_negative_integer_def)
  with JStr auth_integer_limiter [OF n] limiter_py_int [OF n] show ?thesis
    by (simp add: usage_total_def entry_total_def int_or_zero_def)
qed (use assms in \<open>auto simp: validate_usage_entry_def limiter_integer_def non_negative_integer_def rbind_eq_Inr\<close>)

lemma day_total_raw:
  assumes "ledger_valid daily"
  shows "day_total daily uid k = raw_on daily uid k"
proof (cases "map_of daily k")
  case None
  then show ?thesis
    by (simp add: day_total_def bucket_entry_def raw_on_def row_of_def dget_def usage_total_def entry_total_def
        non_negative_integer_def)
next
  case (Some v)
  with assms obtain rows where v: "v = JObj rows" "row_valid rows" by (auto simp: ledger_valid_def)
  have d: "dget daily k JNull = JObj rows" using Some v by (simp add: dget_def)
  show ?thesis
  proof (cases "map_of rows uid")
    case None
    with d show ?thesis
      by (simp add: day_total_def bucket_entry_def raw_on_def row_of_def usage_total_def entry_total_def
          non_negative_integer_def)
  next
    case (Some e)
    with v(2) have "validate_usage_entry e = Inr ()" by (auto simp: row_valid_def)
    from usage_total_valid [OF this] Some d show ?thesis
      by (simp add: day_total_def bucket_entry_def raw_on_def row_of_def)
  qed
qed

lemma raw_nonneg:
  assumes "ledger_valid daily" and "raw_on daily uid k = Inr n"
  shows "0 \<le> n"
proof -
  from ledger_valid_bucket [OF assms(1)] obtain rows where r: "dget daily k (JObj []) = JObj rows" "row_valid rows" by blast
  from raw_on_bucket [OF r(1)] row_valid_lookup [OF r(2), of uid] assms(2) show ?thesis
    by (auto simp: usage_ok_def)
qed

lemma collect_nonneg:
  "collect f ks = Inr ns \<Longrightarrow> (\<And>k n. k \<in> set ks \<Longrightarrow> f k = Inr n \<Longrightarrow> 0 \<le> (n :: int)) \<Longrightarrow> 0 \<le> sum_list ns"
proof (induction ks arbitrary: ns)
  case (Cons k ks)
  from Cons.prems(1) obtain n ms where "f k = Inr n" "collect f ks = Inr ms" "ns = n # ms" by (auto simp: rbind_eq_Inr)
  moreover have "0 \<le> sum_list ms" using Cons.prems(2) by (intro Cons.IH [OF \<open>collect f ks = Inr ms\<close>]) (meson list.set_intros(2))
  ultimately show ?case using Cons.prems(2) [of k n] by simp
qed simp

section \<open>Two roundings of one product\<close>

lemma roundings_decide:
  fixes f d p q :: rat
  assumes "\<bar>f - p\<bar> \<le> p / 2 ^ 51" and "\<bar>d - p\<bar> \<le> p / 2 ^ 51"
  shows "p * (1 + 1 / 2 ^ 51) < q \<Longrightarrow> f < q \<and> d < q" and "q \<le> p * (1 - 1 / 2 ^ 51) \<Longrightarrow> q \<le> f \<and> q \<le> d"
proof -
  have u: "f \<le> p + p / 2 ^ 51" "d \<le> p + p / 2 ^ 51" "p - p / 2 ^ 51 \<le> f" "p - p / 2 ^ 51 \<le> d"
    using assms unfolding abs_le_iff by linarith+
  show "p * (1 + 1 / 2 ^ 51) < q \<Longrightarrow> f < q \<and> d < q" using u(1,2) by (simp add: distrib_left)
  show "q \<le> p * (1 - 1 / 2 ^ 51) \<Longrightarrow> q \<le> f \<and> q \<le> d" using u(3,4) by (simp add: right_diff_distrib)
qed

text \<open>
  C37. The two quota tests agree outside a band of one part in \<open>2^51\<close>. On one valid ledger, with the
  same settings and a multiplier that is a double, whenever the billed usage (used bytes times the
  multiplier, exactly) is below the quota by more than that, a new connection passes the quota test and
  the static plan keeps the user; whenever it is above by more than that, both refuse. So Hysteria and
  the static proxies cut a user off at the same usage, up to rounding.
\<close>

theorem quota_tests_agree:
  assumes ledger: "wf_json (JObj daily)" "validate_usage_ledger True daily = Inr ()"
    and bill: "billing_state env = Inr (meta, daily, multiplier)"
    and user: "is_metered (JObj d)" "total_quota_bytes (JObj d) = Inr quota" "0 < quota"
    and used: "cycle_used_raw_for uid daily (billing_now env) None meta = Inr used"
    and double: "fl multiplier = multiplier" "0 \<le> multiplier"
  shows "(of_int used * multiplier * (1 + 1 / 2 ^ 51) < of_int quota \<longrightarrow>
        quota_step env d uid = Inr True \<and> over_quota multiplier daily (billing_now env) meta uid d = Inr False)
    \<and> (of_int quota \<le> of_int used * multiplier * (1 - 1 / 2 ^ 51) \<longrightarrow>
        quota_step env d uid = Inr False \<and> over_quota multiplier daily (billing_now env) meta uid d = Inr True)"
proof -
  have valid: "ledger_valid daily" using ledger ledger_valid_iff by blast
  have "day_total daily uid = raw_on daily uid" by (rule ext) (rule day_total_raw [OF valid])
  with used obtain days totals where t: "cycle_days (billing_now env) None JNull None meta = Inr days"
    "collect (day_total daily uid) days = Inr totals" "used = sum_list totals"
    by (auto simp: cycle_used_raw_for_def rbind_eq_Inr)
  have "0 \<le> sum_list totals"
    by (rule collect_nonneg [OF t(2)]) (use raw_nonneg [OF valid] \<open>day_total daily uid = raw_on daily uid\<close> in simp)
  with t(3) have nn: "0 \<le> used" by simp
  have q: "quota_step env d uid = Inr (\<not> of_int quota \<le> decimal_times used multiplier)"
    using user bill t by (simp add: quota_step_def)
  have o: "over_quota multiplier daily (billing_now env) meta uid d = Inr (of_int quota \<le> float_times_int used multiplier)"
    using user used by (simp add: over_quota_def)
  note R = roundings_decide [OF float_times_int_error [OF nn double(2)] decimal_times_error [OF nn double], of "of_int quota"]
  from R q o show ?thesis by (auto simp: not_le)
qed

section \<open>At the boundary\<close>

text \<open>Rounding of concrete values: the double nearest to 2.28 and its product with 25.\<close>

lemma round_half_even_near:
  assumes "of_int n - 1 / 2 < x" and "x < of_int n + 1 / 2"
  shows "round_half_even x = n"
proof -
  have "of_int (round_half_even x) - x \<le> 1 / 2" "x - of_int (round_half_even x) \<le> 1 / 2"
    using round_half_even_error [of x] by (simp_all only: abs_le_iff minus_diff_eq)
  with assms have "(of_int (round_half_even x) :: rat) < of_int (n + 1)" "(of_int (n - 1) :: rat) < of_int (round_half_even x)"
    by (simp_all only: of_int_add of_int_diff of_int_1)
  then show ?thesis by (simp only: of_int_less_iff)
qed

lemma round_sig_at:
  assumes "2 \<le> b" and "of_nat b powi e \<le> x" and "x < of_nat b powi (e + 1)" and "u = of_nat b powi (e - int k + 1)"
  shows "round_sig b k x = of_int (round_half_even (x / u)) * u"
proof -
  have "0 < x" using assms(1,2) by (meson less_le_trans of_nat_0_less_iff pos2 zero_less_power_int order_less_le_trans)
  then show ?thesis using expo_unique [OF assms(1-3)] assms(4) by (simp add: round_sig_def round_pos_def Let_def)
qed

definition double_2_28 :: rat where "double_2_28 = 5134103575202365 / 2251799813685248"

lemma double_2_28: "fl (57 / 25) = double_2_28" "fl double_2_28 = double_2_28"
proof -
  have "fl (57 / 25) = of_int (round_half_even ((57 / 25) / (1 / 2 ^ 51))) * (1 / 2 ^ 51)"
    by (rule round_sig_at [where e = 1]) (simp_all add: power_int_def power_one_over)
  then show "fl (57 / 25) = double_2_28"
    using round_half_even_near [of 5134103575202365 "57 / 25 * 2 ^ 51"] by (simp add: double_2_28_def)
  have "fl (of_int 5134103575202365 * 2 powi (- 51)) = of_int 5134103575202365 * 2 powi (- 51)"
    by (rule fl_dyadic) (simp add: power_int_def)
  then show "fl double_2_28 = double_2_28" by (simp add: double_2_28_def power_int_def power_one_over)
qed

lemma float_25: "float_times_int 25 double_2_28 < 57"
proof -
  have "fl (of_int 25 * 2 powi 0) = of_int 25 * 2 powi 0" by (rule fl_dyadic) (simp add: power_int_def)
  then have f: "fl 25 = 25" by simp
  have "fl (25 * double_2_28) = of_int (round_half_even ((25 * double_2_28) / (1 / 2 ^ 47))) * (1 / 2 ^ 47)"
    by (rule round_sig_at [where e = 5]) (simp_all add: power_int_def power_one_over double_2_28_def)
  moreover have "round_half_even ((25 * double_2_28) / (1 / 2 ^ 47)) = 8022036836253695"
    by (rule round_half_even_near) (simp_all add: double_2_28_def)
  ultimately show ?thesis using f by (simp add: float_times_int_def)
qed

lemma repr_2_28: "py_repr double_2_28 = 57 / 25"
proof -
  have r: "round_sig 10 n double_2_28 = of_int (round_half_even (double_2_28 / u)) * u"
    if "u = 10 powi (0 - int n + 1)" for n and u :: rat
    by (rule round_sig_at [where e = 0]) (simp_all add: double_2_28_def that)
  have r1: "round_sig 10 (Suc 0) double_2_28 = 2"
    using r [of 1 1] round_half_even_near [of 2 double_2_28] by (simp add: double_2_28_def)
  have r2: "round_sig 10 2 double_2_28 = 23 / 10"
    using r [of "1 / 10" 2] round_half_even_near [of 23 "double_2_28 * 10"] by (simp add: power_int_def double_2_28_def)
  have hundredth: "(1 / 10 :: rat) ^ 2 * 100 = 1" by (simp add: power2_eq_square)
  have r3: "round_sig 10 3 double_2_28 = 57 / 25"
    using r [of "1 / 100" 3] hundredth round_half_even_near [of 228 "double_2_28 * 100"]
    by (simp add: power_int_def double_2_28_def)
  have "fl (of_int 2 * 2 powi 0) = of_int 2 * 2 powi 0" by (rule fl_dyadic) (simp add: power_int_def)
  then have f1: "fl 2 \<noteq> double_2_28" by (simp add: double_2_28_def)
  have "fl (23 / 10) = of_int (round_half_even ((23 / 10) / (1 / 2 ^ 51))) * (1 / 2 ^ 51)"
    by (rule round_sig_at [where e = 1]) (simp_all add: power_int_def power_one_over)
  then have f2: "fl (23 / 10) \<noteq> double_2_28"
    using round_half_even_near [of 5179139571476070 "23 / 10 * 2 ^ 51"] by (simp add: double_2_28_def)
  have l: "[1..<18] = Suc 0 # 2 # 3 # [4..<18]" by (simp add: upt_rec)
  show ?thesis unfolding py_repr_def l by (simp add: r1 r2 r3 f1 f2 double_2_28)
qed

lemma decimal_25: "decimal_times 25 double_2_28 = 57"
proof -
  have "round_sig 10 28 57 = of_int (round_half_even (57 / (1 / 10 ^ 26))) * (1 / 10 ^ 26 :: rat)"
    by (rule round_sig_at [where e = 1]) (simp_all add: power_int_def power_one_over)
  moreover have "round_half_even (57 / (1 / 10 ^ 26)) = 57 * 10 ^ 26"
    by (rule round_half_even_near) simp_all
  ultimately show ?thesis by (simp add: decimal_times_def repr_2_28)
qed

text \<open>A metered user with a quota of 57 bytes has used 25, billed at 2.28: exactly her quota.\<close>

definition edge_user :: "json dict" where
  "edge_user = [(''metered'', JBool True), (''monthly_quota_bytes'', JInt 57)]"

definition edge_daily :: "json dict" where "edge_daily = [(''2026-05-20'', JObj [(''ann'', JInt 25)])]"
definition edge_meta :: "json dict" where "edge_meta = [(''cycle_anchor_date'', JStr ''2026-05-20'')]"

definition edge_env :: auth_env where
  "edge_env = demo_env\<lparr>daily_file := Doc (RObj [(''2026-05-20'', RObj [(''ann'', RInt 25)])]),
     multiplier_file := Doc (RObj [(''multiplier'', RFloat (Fin double_2_28))])\<rparr>"

lemma edge_billing: "billing_state edge_env = Inr (edge_meta, edge_daily, double_2_28)"
proof -
  have r: "in_range (Some (Fin double_2_28)) = Some double_2_28"
    using multiplier_min_bounds by (simp add: in_range_def DISPLAY_MULTIPLIER_MAX_def double_2_28_def)
  have k: "iso_date_key ''2026-05-20''" by (simp add: py_eval)
  have m: "effective_display_multiplier_strict None 1 (Doc (RObj [(''multiplier'', RFloat (Fin double_2_28))]))
      = Inr double_2_28"
    by (simp add: effective_display_multiplier_strict_def runtime_display_multiplier_strict_def dget_def
        dict_of_pairs_def parse_optional_display_multiplier_def float_of_text_def r)
  show ?thesis
    by (simp add: billing_state_def edge_env_def demo_env_def auth_load_json_def dict_of_pairs_def validate_meta_def
        check_setting_def dget_def none_or_empty_def k validate_daily_usage_def check_bucket_def usage_total_def
        non_negative_integer_def m edge_meta_def edge_daily_def)
qed

lemma edge_facts:
  "is_metered (JObj edge_user)" "total_quota_bytes (JObj edge_user) = Inr 57"
  "billing_now edge_env = DT (YMD 2026 5 20) 0 None"
  "wf_json (JObj edge_daily)" "validate_usage_ledger True edge_daily = Inr ()"
  "cycle_used_raw_for ''ann'' edge_daily (DT (YMD 2026 5 20) 0 None) None edge_meta = Inr 25"
proof -
  show "is_metered (JObj edge_user)" "total_quota_bytes (JObj edge_user) = Inr 57"
    by (simp_all add: edge_user_def py_eval)
  show "billing_now edge_env = DT (YMD 2026 5 20) 0 None" by (simp add: edge_env_def demo_env_def)
  show "wf_json (JObj edge_daily)" "validate_usage_ledger True edge_daily = Inr ()" by code_simp+
  show "cycle_used_raw_for ''ann'' edge_daily (DT (YMD 2026 5 20) 0 None) None edge_meta = Inr 25"
    unfolding cycle_used_raw_for_def edge_meta_def demo_days by code_simp
qed

text \<open>
  The two tests do disagree inside the band: with her quota used up to the byte, a new connection is
  refused, and the static plan still grants her credential.
\<close>

theorem quota_tests_disagree_at_boundary:
  "quota_step edge_env edge_user ''ann'' = Inr False
    \<and> over_quota double_2_28 edge_daily (billing_now edge_env) edge_meta ''ann'' edge_user = Inr False"
proof -
  have "day_total edge_daily ''ann'' ''2026-05-20'' = Inr 25" by code_simp
  then have "quota_step edge_env edge_user ''ann'' = Inr False"
    unfolding quota_step_def edge_billing edge_facts(3)
    by (simp add: edge_facts edge_meta_def demo_days decimal_25)
  moreover have "over_quota double_2_28 edge_daily (billing_now edge_env) edge_meta ''ann'' edge_user = Inr False"
    using float_25 by (simp add: over_quota_def edge_facts)
  ultimately show ?thesis by blast
qed

text \<open>One more byte of quota, and one byte less, are far enough from the boundary for both to agree.\<close>

theorem quota_tests_agree_witness:
  "quota_step edge_env [(''metered'', JBool True), (''monthly_quota_bytes'', JInt 58)] ''ann'' = Inr True
    \<and> quota_step edge_env [(''metered'', JBool True), (''monthly_quota_bytes'', JInt 56)] ''ann'' = Inr False"
proof -
  have u: "is_metered (JObj [(''metered'', JBool True), (''monthly_quota_bytes'', JInt n)])"
    "0 \<le> n \<Longrightarrow> total_quota_bytes (JObj [(''metered'', JBool True), (''monthly_quota_bytes'', JInt n)]) = Inr n" for n
    by (simp_all add: py_eval)
  have q: "total_quota_bytes (JObj [(''metered'', JBool True), (''monthly_quota_bytes'', JInt 58)]) = Inr 58"
    "total_quota_bytes (JObj [(''metered'', JBool True), (''monthly_quota_bytes'', JInt 56)]) = Inr 56"
    by (rule u(2), simp)+
  note used = edge_facts(6) [folded edge_facts(3)]
  note A = quota_tests_agree [OF edge_facts(4,5) edge_billing u(1) _ _ used double_2_28(2)]
  have "0 \<le> double_2_28" by (simp add: double_2_28_def)
  from A [OF q(1) _ this] A [OF q(2) _ this] show ?thesis by (simp add: double_2_28_def)
qed

end
