(* ===== verification/Passwords.thy ===== *)
theory Passwords
  imports Credentials
begin

text \<open>
  Password hashes of the panel (\<^verbatim>\<open>hysteria/subscription_service.py\<close>): how they are made and verified,
  and how that relates to the verifier of \<^verbatim>\<open>auth_backend.py\<close>, which reads the same hashes. PBKDF2 is
  the parameter \<open>kdf\<close>; the salt of a new hash is an argument.
\<close>

section \<open>Base64 without padding\<close>

definition b64url_alphabet :: string where "b64url_alphabet = b64_alphabet @ ''-_''"

definition b64_digit :: "nat \<Rightarrow> char" where "b64_digit n = b64url_alphabet ! n"

fun sextets :: "nat list \<Rightarrow> nat list" where
  "sextets [] = []"
| "sextets [a] = [a div 4, a mod 4 * 16]"
| "sextets [a, b] = [a div 4, a mod 4 * 16 + b div 16, b mod 16 * 4]"
| "sextets (a # b # c # rest) =
     (a div 4) # (a mod 4 * 16 + b div 16) # (b mod 16 * 4 + c div 64) # (c mod 64) # sextets rest"

definition b64url_nopad :: "nat list \<Rightarrow> string" where
  "b64url_nopad bytes = map b64_digit (sextets bytes)"

text \<open>
  \<^verbatim>\<open>base64.b64decode(s + padding, altchars=b"-_", validate=True)\<close>: letters of the alphabet (both
  spellings of the last two), then at most two padding signs that fill up the last group.
\<close>

definition b64decode_padded :: "string \<Rightarrow> nat list option" where
  "b64decode_padded s =
     (let t = s @ replicate (nat ((- int (length s)) mod 4)) (CHR ''='');
          letters = takeWhile (\<lambda>c. c \<noteq> CHR ''='') t;
          pads = dropWhile (\<lambda>c. c \<noteq> CHR ''='') t
      in if (\<forall>c \<in> set letters. c \<in> fst ` set b64_table) \<and> (\<forall>c \<in> set pads. c = CHR ''='')
            \<and> length pads \<le> 2 \<and> length t mod 4 = 0
         then b64_bytes (map (\<lambda>c. the (map_of b64_table c)) letters) else None)"

section \<open>Making and verifying a hash\<close>

definition PASSWORD_MIN_LENGTH :: nat where "PASSWORD_MIN_LENGTH = 8"
definition PASSWORD_MAX_LENGTH :: nat where "PASSWORD_MAX_LENGTH = 256"
definition PASSWORD_HASH_MAX_LENGTH :: nat where "PASSWORD_HASH_MAX_LENGTH = 512"

definition hash_secret :: "(string \<Rightarrow> nat list \<Rightarrow> int \<Rightarrow> nat list) \<Rightarrow> nat list \<Rightarrow> string \<Rightarrow> string" where
  "hash_secret kdf salt secret =
     ''pbkdf2_sha256$200000$'' @ b64url_nopad salt @ ''$'' @ b64url_nopad (kdf secret salt 200000)"

text \<open>\<^verbatim>\<open>stored_hash.split("$")\<close> into exactly four parts, the checks, the derivation.\<close>

definition verify_secret :: "(string \<Rightarrow> nat list \<Rightarrow> int \<Rightarrow> nat list) \<Rightarrow> string \<Rightarrow> string \<Rightarrow> bool" where
  "verify_secret kdf plain stored_hash =
     (if PASSWORD_MAX_LENGTH < length plain \<or> PASSWORD_HASH_MAX_LENGTH < length stored_hash then False
      else (case four_parts stored_hash of
          None \<Rightarrow> False
        | Some (algorithm, rounds_s, salt_b64, digest_b64) \<Rightarrow>
            if CHR ''$'' \<in> set digest_b64 then False
            else if algorithm \<noteq> ''pbkdf2_sha256'' \<or> rounds_s = [] \<or> \<not> (\<forall>c \<in> set rounds_s. is_digit c) then False
            else (let rounds = int (digits_val 10 rounds_s) in
              if \<not> (PBKDF2_ROUNDS_MIN \<le> rounds \<and> rounds \<le> PBKDF2_ROUNDS_MAX) then False
              else (case (b64decode_padded salt_b64, b64decode_padded digest_b64) of
                  (Some salt, Some expected) \<Rightarrow>
                    length salt = PBKDF2_SALT_BYTES \<and> length expected = PBKDF2_DIGEST_BYTES
                    \<and> kdf plain salt rounds = expected
                | _ \<Rightarrow> False))))"

text \<open>\<^verbatim>\<open>_safe_secret_equal\<close> of two values of \<^verbatim>\<open>str\<close> type or None.\<close>

definition safe_secret_equal :: "string \<Rightarrow> string \<Rightarrow> bool" where
  "safe_secret_equal supplied expected \<longleftrightarrow> supplied \<noteq> [] \<and> expected \<noteq> []
     \<and> length supplied \<le> PASSWORD_MAX_LENGTH \<and> length expected \<le> PASSWORD_MAX_LENGTH \<and> supplied = expected"

section \<open>Decoding what was encoded\<close>

lemma b64_digit_table:
  assumes "n < 64"
  shows "map_of b64_table (b64_digit n) = Some n" and "b64_digit n \<noteq> CHR ''$''" and "b64_digit n \<noteq> CHR ''=''"
proof -
  have "\<forall>n \<in> set [0..<64]. map_of b64_table (b64_digit n) = Some n \<and> b64_digit n \<noteq> CHR ''$'' \<and> b64_digit n \<noteq> CHR ''=''"
    by code_simp
  from bspec [OF this, of n] assms show "map_of b64_table (b64_digit n) = Some n" "b64_digit n \<noteq> CHR ''$''"
    "b64_digit n \<noteq> CHR ''=''" by simp_all
qed

lemma sextets_small: "(\<forall>b \<in> set bs. b < 256) \<Longrightarrow> \<forall>s \<in> set (sextets bs). s < 64"
  by (induction bs rule: sextets.induct) (auto simp: div_less_iff_less_mult)

lemma bytes_sextets: "(\<forall>b \<in> set bs. b < 256) \<Longrightarrow> b64_bytes (sextets bs) = Some bs"
proof (induction bs rule: sextets.induct)
  case (4 a b c rest)
  have q: "b mod 16 * 4 + c div 64 < 64" "(b mod 16 * 4 + c div 64) div 4 = b mod 16"
    "(b mod 16 * 4 + c div 64) mod 4 = c div 64" using 4 by auto
  have p: "(a mod 4 * 16 + b div 16) div 16 = a mod 4" "(a mod 4 * 16 + b div 16) mod 16 = b div 16" using 4 by auto
  show ?case using 4 p q by simp
qed auto

lemma b64_bytes_odd: "length xs mod 4 = 1 \<Longrightarrow> b64_bytes xs = None"
  by (induction xs rule: b64_bytes.induct) auto

lemma pad_count:
  fixes n :: nat
  shows "(n + nat ((- int n) mod 4)) mod 4 = 0" and "nat ((- int n) mod 4) \<le> 2 \<longleftrightarrow> n mod 4 \<noteq> 1"
proof -
  have "int (n + nat ((- int n) mod 4)) mod 4 = (int n + (- int n) mod 4) mod 4" by simp
  also have "\<dots> = 0" unfolding mod_add_right_eq by simp
  finally have "int (n + nat ((- int n) mod 4)) mod 4 = 0" .
  then show "(n + nat ((- int n) mod 4)) mod 4 = 0" by presburger
  show "nat ((- int n) mod 4) \<le> 2 \<longleftrightarrow> n mod 4 \<noteq> 1"
  proof -
    have m: "int n mod 4 = int (n mod 4)" by (simp add: zmod_int)
    have "n mod 4 = 0 \<or> n mod 4 = 1 \<or> n mod 4 = 2 \<or> n mod 4 = 3" by presburger
    then show ?thesis by (auto simp: zmod_zminus1_eq_if m)
  qed
qed

text \<open>Without a padding sign in the text, the padded decoder is the alphabet check and the groups.\<close>

lemma b64decode_no_pads:
  assumes "CHR ''='' \<notin> set s"
  shows "b64decode_padded s = (if \<forall>c \<in> set s. c \<in> fst ` set b64_table
    then b64_bytes (map (\<lambda>c. the (map_of b64_table c)) s) else None)"
proof -
  let ?k = "nat ((- int (length s)) mod 4)"
  have t: "takeWhile (\<lambda>c. c \<noteq> CHR ''='') (s @ replicate ?k (CHR ''='')) = s"
    "dropWhile (\<lambda>c. c \<noteq> CHR ''='') (s @ replicate ?k (CHR ''='')) = replicate ?k (CHR ''='')"
    using assms by (auto simp: takeWhile_append dropWhile_append dropWhile_replicate takeWhile_replicate
        takeWhile_eq_all_conv dropWhile_eq_Nil_conv)
  have l: "(length s + ?k) mod 4 = 0" by (rule pad_count)
  show ?thesis
  proof (cases "length s mod 4 = 1")
    case True
    then have "b64_bytes (map (\<lambda>c. the (map_of b64_table c)) s) = None" by (simp add: b64_bytes_odd)
    moreover have "\<not> ?k \<le> 2" using True pad_count(2) [of "length s"] by simp
    ultimately show ?thesis by (simp add: b64decode_padded_def Let_def t)
  next
    case False
    then have "?k \<le> 2" using pad_count(2) [of "length s"] by simp
    then show ?thesis using l by (simp add: b64decode_padded_def Let_def t)
  qed
qed

lemma b64url_nopad_letters:
  assumes "\<forall>b \<in> set bs. b < 256"
  shows "\<forall>c \<in> set (b64url_nopad bs). c \<in> fst ` set b64_table \<and> c \<noteq> CHR ''$'' \<and> c \<noteq> CHR ''=''"
    and "map (\<lambda>c. the (map_of b64_table c)) (b64url_nopad bs) = sextets bs"
proof -
  note small = sextets_small [OF assms]
  have "c \<in> fst ` set b64_table \<and> c \<noteq> CHR ''$'' \<and> c \<noteq> CHR ''=''" if "c \<in> set (b64url_nopad bs)" for c
  proof -
    from that small obtain n where "c = b64_digit n" "n < 64" by (auto simp: b64url_nopad_def)
    with b64_digit_table [of n] show ?thesis by (auto dest!: map_of_SomeD intro: rev_image_eqI)
  qed
  then show "\<forall>c \<in> set (b64url_nopad bs). c \<in> fst ` set b64_table \<and> c \<noteq> CHR ''$'' \<and> c \<noteq> CHR ''=''" by blast
  show "map (\<lambda>c. the (map_of b64_table c)) (b64url_nopad bs) = sextets bs"
    using small b64_digit_table(1) by (auto simp: b64url_nopad_def intro!: map_idI)
qed

lemma b64_roundtrip:
  assumes "\<forall>b \<in> set bs. b < 256"
  shows "b64decode_padded (b64url_nopad bs) = Some bs"
    and "bs \<noteq> [] \<Longrightarrow> length bs \<le> 96 \<Longrightarrow> b64url_decode_nopad (b64url_nopad bs) = Some bs"
proof -
  note L = b64url_nopad_letters [OF assms]
  have "CHR ''='' \<notin> set (b64url_nopad bs)" using L(1) by blast
  then show "b64decode_padded (b64url_nopad bs) = Some bs"
    using L by (simp add: b64decode_no_pads bytes_sextets [OF assms])
  have len: "length (sextets bs) \<le> 128 \<and> (bs \<noteq> [] \<longrightarrow> sextets bs \<noteq> [])" if "length bs \<le> 96"
  proof -
    have "3 * length (sextets bs) \<le> 4 * length bs + 2" by (induction bs rule: sextets.induct) auto
    moreover have "bs \<noteq> [] \<longrightarrow> sextets bs \<noteq> []" by (cases bs rule: sextets.cases) auto
    ultimately show ?thesis using that by auto
  qed
  show "b64url_decode_nopad (b64url_nopad bs) = Some bs" if "bs \<noteq> []" "length bs \<le> 96"
    using L that len bytes_sextets [OF assms] by (auto simp: b64url_decode_nopad_def b64url_nopad_def)
qed

section \<open>What a verifier accepts\<close>

lemma four_parts_build:
  assumes "CHR ''$'' \<notin> set a" "CHR ''$'' \<notin> set b" "CHR ''$'' \<notin> set c"
  shows "four_parts (a @ ''$'' @ b @ ''$'' @ c @ ''$'' @ d) = Some (a, b, c, d)"
proof -
  have "split_dollar (x @ CHR ''$'' # r) = (x, Some r)" if "CHR ''$'' \<notin> set x" for x r
    using that by (auto simp: split_dollar_def takeWhile_append dropWhile_append takeWhile_eq_all_conv dropWhile_eq_Nil_conv)
  with assms show ?thesis by (simp add: four_parts_def)
qed

lemma table_no_dollar: "CHR ''$'' \<notin> fst ` set b64_table"
  by code_simp

lemma hash_secret_verifies:
  assumes salt: "length salt = PBKDF2_SALT_BYTES" "\<forall>b \<in> set salt. b < 256"
    and kdf: "\<And>p s r. length (kdf p s r) = PBKDF2_DIGEST_BYTES \<and> (\<forall>b \<in> set (kdf p s r). b < 256)"
    and len: "length secret \<le> PASSWORD_MAX_LENGTH" "length other \<le> PASSWORD_MAX_LENGTH"
  shows "verify_secret kdf secret (hash_secret kdf salt secret)
    \<and> verify_password_hash kdf secret (hash_secret kdf salt secret)
    \<and> (verify_secret kdf other (hash_secret kdf salt secret) \<longleftrightarrow> kdf other salt 200000 = kdf secret salt 200000)
    \<and> (verify_password_hash kdf other (hash_secret kdf salt secret) \<longleftrightarrow> kdf other salt 200000 = kdf secret salt 200000)"
proof -
  let ?d = "kdf secret salt 200000"
  let ?h = "hash_secret kdf salt secret"
  note S = b64url_nopad_letters(1) [OF salt(2)] and D = b64url_nopad_letters(1) [OF conjunct2 [OF kdf]]
  have parts: "four_parts ?h = Some (''pbkdf2_sha256'', ''200000'', b64url_nopad salt, b64url_nopad ?d)"
    using four_parts_build [of "''pbkdf2_sha256''" "''200000''" "b64url_nopad salt" "b64url_nopad ?d"] S
    by (auto simp: hash_secret_def)
  have len3: "3 * length (b64url_nopad bs) \<le> 4 * length bs + 2" for bs
    unfolding b64url_nopad_def length_map by (induction bs rule: sextets.induct) auto
  have short: "length ?h \<le> 512"
    using len3 [of salt] len3 [of ?d] salt(1) kdf by (simp add: hash_secret_def PBKDF2_SALT_BYTES_def PBKDF2_DIGEST_BYTES_def)
  have dollar: "CHR ''$'' \<notin> set (b64url_nopad ?d)" using D by blast
  have rounds: "digits_val 10 ''200000'' = 200000" "\<forall>c \<in> set ''200000''. is_digit c"
    by (simp_all add: py_eval is_digit_def)
  have ne: "salt \<noteq> []" "?d \<noteq> []" "length salt \<le> 96" "length ?d \<le> 96"
    using salt(1) kdf [of secret salt 200000] by (auto simp: PBKDF2_SALT_BYTES_def PBKDF2_DIGEST_BYTES_def)
  note R = b64_roundtrip [OF salt(2)] b64_roundtrip [OF conjunct2 [OF kdf], of secret salt 200000]
  have v: "verify_secret kdf p ?h \<longleftrightarrow> kdf p salt 200000 = ?d" if "length p \<le> PASSWORD_MAX_LENGTH" for p
    using that short parts dollar rounds R salt(1) kdf [of secret salt 200000]
    by (simp add: verify_secret_def PASSWORD_HASH_MAX_LENGTH_def PBKDF2_ROUNDS_MIN_def PBKDF2_ROUNDS_MAX_def)
  have w: "verify_password_hash kdf p ?h \<longleftrightarrow> kdf p salt 200000 = ?d" if "length p \<le> PASSWORD_MAX_LENGTH" for p
    using that short parts dollar rounds R ne salt(1) kdf [of secret salt 200000]
    by (simp add: verify_password_hash_def bounded_utf8_def PASSWORD_MAX_LENGTH_def AUTH_SECRET_MAX_CHARS_def
        PASSWORD_HASH_MAX_CHARS_def PBKDF2_ROUNDS_MIN_def PBKDF2_ROUNDS_MAX_def)
  from v w len show ?thesis by blast
qed

text \<open>
  C30. What the panel hashes, both sides verify. For a password of at most 256 characters, any salt of
  sixteen bytes and any derivation function that returns thirty-two, the stored text is accepted with that
  password by the panel and by the authentication backend, and accepted with another password exactly
  when the derivation cannot tell the two apart.
\<close>

theorem password_roundtrip:
  assumes salt: "length salt = PBKDF2_SALT_BYTES" "\<forall>b \<in> set salt. b < 256"
    and kdf: "\<And>p s r. length (kdf p s r) = PBKDF2_DIGEST_BYTES \<and> (\<forall>b \<in> set (kdf p s r). b < 256)"
    and len: "length secret \<le> PASSWORD_MAX_LENGTH" "length other \<le> PASSWORD_MAX_LENGTH"
  shows "verify_secret kdf secret (hash_secret kdf salt secret)
    \<and> verify_password_hash kdf secret (hash_secret kdf salt secret)
    \<and> (verify_secret kdf other (hash_secret kdf salt secret) \<longleftrightarrow> kdf other salt 200000 = kdf secret salt 200000)
    \<and> (verify_password_hash kdf other (hash_secret kdf salt secret) \<longleftrightarrow> kdf other salt 200000 = kdf secret salt 200000)"
  by (rule hash_secret_verifies [OF assms])

text \<open>
  The two verifiers agree. On every password and every stored text without a padding sign, which
  is all the panel ever writes, the panel and the authentication backend give the same answer.
\<close>

theorem verifiers_agree:
  assumes "CHR ''='' \<notin> set stored"
  shows "verify_secret kdf plain stored \<longleftrightarrow> verify_password_hash kdf plain stored"
proof (cases "four_parts stored")
  case None
  then show ?thesis by (simp add: verify_secret_def verify_password_hash_def split: option.split)
next
  case (Some q)
  obtain a r s d where q: "q = (a, r, s, d)" by (metis prod_cases4)
  have sub: "set s \<subseteq> set stored" "set d \<subseteq> set stored"
    using Some q by (auto simp: four_parts_def split_dollar_def dest!: set_takeWhileD set_dropWhileD
        split: list.splits option.splits) (metis list.set_intros(2) set_dropWhileD)+
  have agree: "b64url_decode_nopad x = Some bs \<longleftrightarrow> b64decode_padded x = Some bs"
    if "set x \<subseteq> set stored" "length bs \<le> 96" "bs \<noteq> []" for x bs
  proof -
    have p: "b64decode_padded x = (if \<forall>c \<in> set x. c \<in> fst ` set b64_table
        then b64_bytes (map (\<lambda>c. the (map_of b64_table c)) x) else None)"
      using that(1) assms by (intro b64decode_no_pads) blast
    have "4 * length bs' + 2 \<ge> 3 * length xs" if "b64_bytes xs = Some bs'" for xs bs'
      using that by (induction xs arbitrary: bs' rule: b64_bytes.induct) auto
    from this [of "map (\<lambda>c. the (map_of b64_table c)) x" bs] that(2,3) show ?thesis
      unfolding p b64url_decode_nopad_def by auto
  qed
  have a16: "b64url_decode_nopad s = Some bs \<longleftrightarrow> b64decode_padded s = Some bs" if "length bs = PBKDF2_SALT_BYTES" for bs
    using agree [OF sub(1), of bs] that by (cases bs) (simp_all add: PBKDF2_SALT_BYTES_def)
  have a32: "b64url_decode_nopad d = Some bs \<longleftrightarrow> b64decode_padded d = Some bs" if "length bs = PBKDF2_DIGEST_BYTES" for bs
    using agree [OF sub(2), of bs] that by (cases bs) (simp_all add: PBKDF2_DIGEST_BYTES_def)
  have "(\<exists>salt expected. b64url_decode_nopad s = Some salt \<and> b64url_decode_nopad d = Some expected
        \<and> length salt = PBKDF2_SALT_BYTES \<and> length expected = PBKDF2_DIGEST_BYTES \<and> kdf plain salt n = expected)
      \<longleftrightarrow> (\<exists>salt expected. b64decode_padded s = Some salt \<and> b64decode_padded d = Some expected
        \<and> length salt = PBKDF2_SALT_BYTES \<and> length expected = PBKDF2_DIGEST_BYTES \<and> kdf plain salt n = expected)" for n
    using a16 a32 by blast
  note decode = this
  have either: "(case x of None \<Rightarrow> False | Some salt \<Rightarrow> (case y of None \<Rightarrow> False | Some expected \<Rightarrow> P salt expected))
      \<longleftrightarrow> (\<exists>salt expected. x = Some salt \<and> y = Some expected \<and> P salt expected)" for x y :: "nat list option" and P
    by (auto split: option.splits)
  have dollar: "b64url_decode_nopad d = None" if "CHR ''$'' \<in> set d"
    using that table_no_dollar by (auto simp: b64url_decode_nopad_def)
  show ?thesis
    unfolding verify_secret_def verify_password_hash_def bounded_utf8_def Some q Let_def
    using dollar decode
    by (simp add: either PASSWORD_MAX_LENGTH_def AUTH_SECRET_MAX_CHARS_def
        PASSWORD_HASH_MAX_LENGTH_def PASSWORD_HASH_MAX_CHARS_def)
qed


section \<open>The properties at concrete inputs\<close>

text \<open>A derivation that is not one: the digest of a password is its length, repeated.\<close>

definition toy_kdf :: "string \<Rightarrow> nat list \<Rightarrow> int \<Rightarrow> nat list" where
  "toy_kdf p salt rounds = replicate 32 (length p mod 256)"

theorem password_roundtrip_witness:
  "verify_password_hash toy_kdf ''secret'' (hash_secret toy_kdf (replicate 16 7) ''secret'')
    \<and> \<not> verify_secret toy_kdf ''wrong'' (hash_secret toy_kdf (replicate 16 7) ''secret'')"
  using password_roundtrip [of "replicate 16 7" toy_kdf "''secret''" "''wrong''"]
  by (simp add: toy_kdf_def PBKDF2_SALT_BYTES_def PBKDF2_DIGEST_BYTES_def PASSWORD_MAX_LENGTH_def)

theorem verifiers_agree_witness:
  "\<not> verify_secret toy_kdf ''x'' ''pbkdf2_sha256$200000$AAAA$BBBB''
    \<and> \<not> verify_password_hash toy_kdf ''x'' ''pbkdf2_sha256$200000$AAAA$BBBB''"
proof -
  have "\<not> verify_secret toy_kdf ''x'' ''pbkdf2_sha256$200000$AAAA$BBBB''"
    by (simp add: verify_secret_def PASSWORD_MAX_LENGTH_def PASSWORD_HASH_MAX_LENGTH_def four_parts_def split_dollar_def
        b64decode_padded_def PBKDF2_SALT_BYTES_def Let_def split: option.split)
  with verifiers_agree [of "''pbkdf2_sha256$200000$AAAA$BBBB''" toy_kdf "''x''"] show ?thesis by simp
qed

end
