(* ===== verification/Sessions.thy ===== *)
theory Sessions
  imports Passwords RevocationQueue "HOL-Library.Multiset"
begin

text \<open>
  Panel sessions of \<^verbatim>\<open>hysteria/subscription_service.py\<close>: the session files of the administrator and of
  the users, the operations on them, and the checks that turn a cookie into an identity. A new session
  identifier is an argument, the clock an integer, SHA-256 the parameter \<open>sha\<close>.
\<close>

section \<open>The file\<close>

definition SESSION_TTL :: int where "SESSION_TTL = 86400"
definition SESSION_MAX_PER_IDENTITY :: nat where "SESSION_MAX_PER_IDENTITY = 16"
definition SESSION_MAX_GLOBAL :: nat where "SESSION_MAX_GLOBAL = 2048"
definition USER_SESSION_PANEL_PASSWORD :: string where "USER_SESSION_PANEL_PASSWORD = ''panel_password''"
definition USER_SESSION_SUBSCRIPTION_TOKEN :: string where "USER_SESSION_SUBSCRIPTION_TOKEN = ''subscription_token''"

text \<open>Every failure to read a canonical file is a \<^verbatim>\<open>CriticalStateUnavailable\<close>.\<close>

definition critical :: "'a res \<Rightarrow> 'a res" where
  "critical r = (case r of Inl e \<Rightarrow> Inl StateUnavailable | Inr v \<Rightarrow> Inr v)"

definition load_critical :: "jfile \<Rightarrow> json dict res" where
  "load_critical f = critical (load_dict f True)"

lemma load_critical_Inr [simp]: "load_critical f = Inr d \<longleftrightarrow> load_dict f True = Inr d"
  by (simp add: load_critical_def critical_def split: sum.split)

lemma load_critical_Inl: "load_critical f = Inl e \<longleftrightarrow> e = StateUnavailable \<and> isl (load_dict f True)"
  by (cases "load_dict f True") (auto simp: load_critical_def critical_def)

declare critical_def [py_eval] load_critical_def [py_eval]

definition panel_save :: "faults \<Rightarrow> json dict \<Rightarrow> cell \<Rightarrow> exc option \<times> cell" where
  "panel_save fails d c = (case save_json fails (JObj d) c of
      (Some e, c') \<Rightarrow> (Some (if e = OSError then StateStoreError else e), c')
    | (None, c') \<Rightarrow> (None, c'))"

lemma panel_save_atomic: "atomic_put panel_save"
  unfolding atomic_put_def
proof (intro allI)
  fix fails d c
  obtain r c' where p: "save_json fails (JObj d) c = (r, c')" by fastforce
  then show "let (r, c') = panel_save fails d c; new = Doc (raw_of_json (JObj d)) in
     (r = None \<and> seen c' = new \<and> after_crash c' = {new})
     \<or> (r \<noteq> None \<and> seen c' = new \<and> after_crash c' \<subseteq> insert new (after_crash c))
     \<or> (r \<noteq> None \<and> seen c' = seen c \<and> after_crash c' = after_crash c)"
    by (rule save_json_cases) (auto simp: panel_save_def p Let_def)
qed

text \<open>The sessions that have not expired; \<^verbatim>\<open>int\<close> of an infinite float escapes.\<close>

fun alive_sessions :: "int \<Rightarrow> json dict \<Rightarrow> json dict res" where
  "alive_sessions now [] = Inr []"
| "alive_sessions now ((sid, info) # rest) = (case info of
      JObj d \<Rightarrow> (case py_int (dget d ''exp'' (JInt 0)) of
          Inl e \<Rightarrow> if e = TypeError \<or> e = ValueError then alive_sessions now rest else Inl e
        | Inr expires_at \<Rightarrow>
            if now < expires_at then rbind (alive_sessions now rest) (\<lambda>alive. Inr ((sid, info) # alive))
            else alive_sessions now rest)
    | _ \<Rightarrow> alive_sessions now rest)"

definition exp_of :: "json \<Rightarrow> int" where
  "exp_of info = (case info of JObj d \<Rightarrow> (case py_int (dget d ''exp'' (JInt 0)) of Inr n \<Rightarrow> n | Inl e \<Rightarrow> 0) | _ \<Rightarrow> 0)"

definition owned_by :: "string \<Rightarrow> string \<times> json \<Rightarrow> bool" where
  "owned_by username kv = (case snd kv of JObj d \<Rightarrow> dget d ''user'' JNull = JStr username | _ \<Rightarrow> False)"

text \<open>\<^verbatim>\<open>sorted(..., key=exp, reverse=True)\<close>, which keeps the order of equal keys.\<close>

definition newest_first :: "json dict \<Rightarrow> json dict" where
  "newest_first d = sort_key (\<lambda>kv. - exp_of (snd kv)) d"

definition session_info :: "string \<Rightarrow> int \<Rightarrow> string \<Rightarrow> string \<Rightarrow> json" where
  "session_info username now generation kind = JObj (
     [(''user'', JStr username), (''exp'', JInt (now + SESSION_TTL))]
     @ (if generation \<noteq> [] then [(''credential_generation'', JStr generation)] else [])
     @ (if kind \<noteq> [] then [(''credential_kind'', JStr kind)] else []))"

definition bounded_sessions :: "string \<Rightarrow> json dict \<Rightarrow> json dict" where
  "bounded_sessions username alive =
     (let keep_own = set (map fst (take (SESSION_MAX_PER_IDENTITY - 1) (newest_first (filter (owned_by username) alive))));
          alive' = filter (\<lambda>kv. \<not> owned_by username kv \<or> fst kv \<in> keep_own) alive
      in if SESSION_MAX_GLOBAL \<le> length alive' then take (SESSION_MAX_GLOBAL - 1) (newest_first alive') else alive')"

section \<open>The operations\<close>

datatype session_call =
    GetSessions int
  | CreateSession string int string string string
  | DeleteSession string int
  | DeleteSessionsFor string int
  | ReplaceSessions string bool int string string string

datatype session_answer = Sessions "json dict" | Minted string | Done

definition session_guard :: "session_call \<Rightarrow> session_answer res option" where
  "session_guard op = (case op of DeleteSession sid now \<Rightarrow> if sid = [] then Some (Inr Done) else None | _ \<Rightarrow> None)"

text \<open>Writes happen only when something changed.\<close>

definition if_changed :: "session_answer \<Rightarrow> json dict \<Rightarrow> json dict \<Rightarrow> session_answer res \<times> json dict option" where
  "if_changed answer sessions kept = (Inr answer, if kept \<noteq> sessions then Some kept else None)"

definition session_body :: "session_call \<Rightarrow> json dict \<Rightarrow> session_answer res \<times> json dict option" where
  "session_body op sessions = (case op of
      GetSessions now \<Rightarrow> (case alive_sessions now sessions of
          Inl e \<Rightarrow> (Inl e, None)
        | Inr alive \<Rightarrow> if_changed (Sessions alive) sessions alive)
    | CreateSession username now generation kind sid \<Rightarrow> (case alive_sessions now sessions of
          Inl e \<Rightarrow> (Inl e, None)
        | Inr alive \<Rightarrow> (Inr (Minted sid),
            Some (AList.update sid (session_info username now generation kind) (bounded_sessions username alive))))
    | DeleteSession sid now \<Rightarrow> (case alive_sessions now sessions of
          Inl e \<Rightarrow> (Inl e, None)
        | Inr alive \<Rightarrow> if_changed Done sessions (AList.delete sid alive))
    | DeleteSessionsFor username now \<Rightarrow> (case alive_sessions now sessions of
          Inl e \<Rightarrow> (Inl e, None)
        | Inr alive \<Rightarrow> if_changed Done sessions (filter (\<lambda>kv. \<not> owned_by username kv) alive))
    | ReplaceSessions username revoke_all now generation kind sid \<Rightarrow> (case alive_sessions now sessions of
          Inl e \<Rightarrow> (Inl e, None)
        | Inr alive \<Rightarrow> (Inr (Minted sid),
            Some (AList.update sid (session_info username now generation kind)
              (if revoke_all then [] else filter (\<lambda>kv. \<not> owned_by username kv) alive)))))"

definition session_op :: "exc option \<Rightarrow> faults \<Rightarrow> session_call \<Rightarrow> cell \<Rightarrow> session_answer res \<times> cell" where
  "session_op lock fails op c = (case session_guard op of
      Some a \<Rightarrow> (a, c)
    | None \<Rightarrow> transact panel_save lock (\<lambda>_. Inr ()) (session_body op) fails c)"

section \<open>From cookie to identity\<close>

definition credential_generation :: "(string \<Rightarrow> string) \<Rightarrow> string \<Rightarrow> string" where
  "credential_generation sha stored = (if stored = [] then [] else sha stored)"

text \<open>
  \<^verbatim>\<open>str(x or "")\<close> of a field that holds a string, or nothing; \<open>py_str\<close> stands for \<^verbatim>\<open>str\<close> of any other
  true value.
\<close>

definition text_or_empty :: "(json \<Rightarrow> string) \<Rightarrow> json \<Rightarrow> string" where
  "text_or_empty py_str v = (case v of JStr s \<Rightarrow> s | _ \<Rightarrow> if truthy v then py_str v else [])"

text \<open>
  \<open>Identity\<close> or a refusal, with whether the session is deleted. \<open>users\<close> is read only when the session
  names a generation.
\<close>

datatype session_check = Identity string string | Refused | RefusedAndDeleted

definition session_credential :: "string \<Rightarrow> json option \<Rightarrow> json" where
  "session_credential kind cfg = (case cfg of
      Some (JObj d) \<Rightarrow> if kind = USER_SESSION_SUBSCRIPTION_TOKEN then dget d ''sub_token'' JNull
        else dget d ''panel_pass_hash'' JNull
    | _ \<Rightarrow> JStr [])"

definition check_session ::
  "(json \<Rightarrow> string) \<Rightarrow> (string \<Rightarrow> string) \<Rightarrow> json dict \<Rightarrow> string \<Rightarrow> json dict res \<Rightarrow> session_check res" where
  "check_session py_str sha sessions sid users = (case map_of sessions sid of
      Some (JObj info) \<Rightarrow>
        (let username = text_or_empty py_str (dget info ''user'' JNull);
             kind0 = text_or_empty py_str (dget info ''credential_kind'' JNull);
             kind = (if kind0 = [] then USER_SESSION_PANEL_PASSWORD else kind0);
             generation = text_or_empty py_str (dget info ''credential_generation'' JNull)
         in if \<not> valid_username username then Inr RefusedAndDeleted
            else if kind \<notin> {USER_SESSION_PANEL_PASSWORD, USER_SESSION_SUBSCRIPTION_TOKEN} then Inr RefusedAndDeleted
            else if kind = USER_SESSION_SUBSCRIPTION_TOKEN \<and> generation = [] then Inr RefusedAndDeleted
            else if generation = [] then Inr (Identity username kind)
            else rbind users (\<lambda>us.
              let current = credential_generation sha
                    (text_or_empty py_str (session_credential kind (map_of us username)))
              in if current = [] then Inr RefusedAndDeleted
                 else rbind (compare_digest generation current) (\<lambda>same.
                   Inr (if same then Identity username kind else RefusedAndDeleted))))
    | _ \<Rightarrow> Inr Refused)"

definition get_logged_in_user_context ::
  "(json \<Rightarrow> string) \<Rightarrow> (string \<Rightarrow> string) \<Rightarrow> exc option \<Rightarrow> faults \<Rightarrow> exc option \<Rightarrow> faults \<Rightarrow> string \<Rightarrow> int \<Rightarrow> jfile \<Rightarrow> cell
   \<Rightarrow> (string \<times> string) res \<times> cell" where
  "get_logged_in_user_context py_str sha lock fails lock' fails' sid now users_file c =
     (case session_op lock fails (GetSessions now) c of
        (Inl e, c1) \<Rightarrow> (Inl e, c1)
      | (Inr (Sessions alive), c1) \<Rightarrow> (case check_session py_str sha alive sid (load_critical users_file) of
          Inl e \<Rightarrow> (Inl e, c1)
        | Inr (Identity username kind) \<Rightarrow> (Inr (username, kind), c1)
        | Inr Refused \<Rightarrow> (Inr ([], []), c1)
        | Inr RefusedAndDeleted \<Rightarrow> (case session_op lock' fails' (DeleteSession sid now) c1 of
            (Inl e, c2) \<Rightarrow> (Inl e, c2) | (Inr _, c2) \<Rightarrow> (Inr ([], []), c2)))
      | (Inr _, c1) \<Rightarrow> (Inr ([], []), c1))"

definition user_panel_access_error :: "json \<Rightarrow> string \<Rightarrow> date \<Rightarrow> string" where
  "user_panel_access_error cfg session_kind today = (case cfg of
      JObj d \<Rightarrow>
        if session_kind = USER_SESSION_PANEL_PASSWORD \<and> truthy (dget d ''panel_password_must_change'' JNull)
        then ''password_change_required''
        else if truthy (dget d ''disabled'' JNull) then ''disabled''
        else if is_expired cfg today then ''expired'' else []
    | _ \<Rightarrow> ''forbidden'')"


text \<open>The administrator: the token in the query, or a session bound to the current password.\<close>

definition is_logged_in ::
  "(json \<Rightarrow> string) \<Rightarrow> (string \<Rightarrow> string) \<Rightarrow> exc option \<Rightarrow> faults \<Rightarrow> exc option \<Rightarrow> faults \<Rightarrow> string \<Rightarrow> string \<Rightarrow> int
   \<Rightarrow> jfile \<Rightarrow> cell \<Rightarrow> bool res \<times> cell" where
  "is_logged_in py_str sha lock fails lock' fails' token sid now meta_file c =
     (case load_critical meta_file of
        Inl e \<Rightarrow> (Inl e, c)
      | Inr meta \<Rightarrow>
          if safe_secret_equal token (text_or_empty py_str (dget meta ''admin_token'' JNull)) then (Inr True, c)
          else (case session_op lock fails (GetSessions now) c of
              (Inl e, c1) \<Rightarrow> (Inl e, c1)
            | (Inr (Sessions alive), c1) \<Rightarrow> (case map_of alive sid of
                Some (JObj info) \<Rightarrow>
                  (let generation = text_or_empty py_str (dget info ''credential_generation'' JNull);
                       current = credential_generation sha (text_or_empty py_str (dget meta ''admin_pass_hash'' JNull))
                   in if generation = [] then (Inr True, c1)
                      else (case (if current = [] then Inr False else compare_digest generation current) of
                          Inl e \<Rightarrow> (Inl e, c1)
                        | Inr True \<Rightarrow> (Inr True, c1)
                        | Inr False \<Rightarrow> (case session_op lock' fails' (DeleteSession sid now) c1 of
                            (Inl e, c2) \<Rightarrow> (Inl e, c2) | (Inr _, c2) \<Rightarrow> (Inr False, c2))))
              | _ \<Rightarrow> (Inr False, c1))
            | (Inr _, c1) \<Rightarrow> (Inr False, c1)))"

text \<open>\<^verbatim>\<open>_change_admin_password\<close>: the settings file after it, under its lock.\<close>

definition change_admin_password ::
  "(json \<Rightarrow> string) \<Rightarrow> (string \<Rightarrow> nat list \<Rightarrow> int \<Rightarrow> nat list) \<Rightarrow> nat list \<Rightarrow> exc option \<Rightarrow> faults \<Rightarrow> string \<Rightarrow> string \<Rightarrow> string
   \<Rightarrow> cell \<Rightarrow> (string \<times> string) res \<times> cell" where
  "change_admin_password py_str kdf salt lock fails current new confirm c = (case lock of
      Some e \<Rightarrow> (Inl e, c)
    | None \<Rightarrow> (case load_critical (seen c) of
        Inl e \<Rightarrow> (Inl e, c)
      | Inr meta \<Rightarrow>
          (let stored_hash = text_or_empty py_str (dget meta ''admin_pass_hash'' JNull) in
           if \<not> (length current \<le> PASSWORD_MAX_LENGTH \<and> stored_hash \<noteq> [] \<and> verify_secret kdf current stored_hash)
           then (Inr (''password_wrong'', []), c)
           else if length new < PASSWORD_MIN_LENGTH then (Inr (''password_short'', []), c)
           else if PASSWORD_MAX_LENGTH < length new then (Inr (''password_long'', []), c)
           else if new \<noteq> confirm then (Inr (''password_mismatch'', []), c)
           else (let new_hash = hash_secret kdf salt new in
             case panel_save fails (AList.delete ''admin_pass'' (AList.update ''admin_pass_hash'' (JStr new_hash) meta)) c of
               (Some e, c') \<Rightarrow> (Inl e, c')
             | (None, c') \<Rightarrow> (Inr (''ok'', new_hash), c')))))"

section \<open>The file stays valid and bounded\<close>

lemma alive_sessions_spec:
  "alive_sessions now d = Inr alive \<Longrightarrow> alive = filter (\<lambda>kv. is_obj (snd kv) \<and>
     (\<exists>n. py_int (dget (obj_of (snd kv)) ''exp'' (JInt 0)) = Inr n \<and> now < n)) d"
proof (induction d arbitrary: alive)
  case (Cons x d)
  obtain sid info where x: "x = (sid, info)" by (cases x)
  show ?case
  proof (cases info)
    case (JObj o')
    with Cons x show ?thesis
      by (cases "py_int (dget o' ''exp'' (JInt 0))") (auto simp: is_obj_def obj_of_def rbind_eq_Inr split: if_splits)
  qed (use Cons x in \<open>auto simp: is_obj_def\<close>)
qed simp

lemma alive_subset:
  assumes "alive_sessions now d = Inr alive"
  shows "set alive \<subseteq> set d" and "wf_dict d \<Longrightarrow> wf_dict alive" and "length alive \<le> length d"
    and "length (filter P alive) \<le> length (filter P d)"
proof -
  obtain Q where Q: "alive = filter Q d" using alive_sessions_spec [OF assms] by blast
  show "set alive \<subseteq> set d" "wf_dict d \<Longrightarrow> wf_dict alive" "length alive \<le> length d" by (auto simp: Q)
  show "length (filter P alive) \<le> length (filter P d)"
    unfolding Q filter_filter by (induction d) auto
qed


lemma length_filter_mono: "(\<And>x. P x \<Longrightarrow> Q x) \<Longrightarrow> length (filter P xs) \<le> length (filter Q xs)"
  by (induction xs) auto

lemma count_take: "length (filter P (take n xs)) \<le> length (filter P xs)"
  by (metis append_take_drop_id filter_append le_add1 length_append)

lemma newest_first_facts:
  shows "set (newest_first d) = set d" and "length (newest_first d) = length d"
    and "length (filter P (newest_first d)) = length (filter P d)" and "wf_dict (newest_first d) \<longleftrightarrow> wf_dict d"
proof -
  have m: "mset (newest_first d) = mset d" by (simp add: newest_first_def)
  then show "set (newest_first d) = set d" "length (newest_first d) = length d" by (metis set_mset_mset, metis size_mset)
  show "length (filter P (newest_first d)) = length (filter P d)" using m by (metis mset_filter size_mset)
  have "mset (map fst (newest_first d)) = mset (map fst d)" using m by (metis mset_map)
  then show "wf_dict (newest_first d) \<longleftrightarrow> wf_dict d" unfolding wf_dict_def by (metis distinct_count_atmost_1 set_mset_mset)
qed

lemma count_keys:
  assumes "wf_dict d" and "finite K"
  shows "length (filter (\<lambda>kv. fst kv \<in> K) d) \<le> card K"
proof -
  let ?f = "filter (\<lambda>kv. fst kv \<in> K) d"
  have d: "distinct (map fst ?f)" using assms(1) unfolding wf_dict_def by (rule distinct_map_filter)
  have "length ?f = card (set (map fst ?f))" using distinct_card [OF d] by simp
  also have "\<dots> \<le> card K" by (rule card_mono [OF assms(2)]) auto
  finally show ?thesis .
qed

lemma count_update:
  "length (filter P (AList.update k v d)) \<le> length (filter P d) + (if P (k, v) then 1 else 0)"
  by (induction d) auto

lemma length_update_le: "length (AList.update k v d) \<le> Suc (length d)"
  using count_update [of "\<lambda>_. True" k v d] by simp

lemma bounded_sessions_spec:
  assumes wf: "wf_dict alive"
  shows "set (bounded_sessions username alive) \<subseteq> set alive" and "wf_dict (bounded_sessions username alive)"
    and "length (bounded_sessions username alive) < SESSION_MAX_GLOBAL"
    and "length (filter (owned_by username) (bounded_sessions username alive)) < SESSION_MAX_PER_IDENTITY"
    and "length (filter (owned_by u) (bounded_sessions username alive)) \<le> length (filter (owned_by u) alive)"
proof -
  define keep where "keep = set (map fst (take (SESSION_MAX_PER_IDENTITY - 1) (newest_first (filter (owned_by username) alive))))"
  define alive' where "alive' = filter (\<lambda>kv. \<not> owned_by username kv \<or> fst kv \<in> keep) alive"
  define final where "final = (if SESSION_MAX_GLOBAL \<le> length alive' then take (SESSION_MAX_GLOBAL - 1) (newest_first alive') else alive')"
  have b: "bounded_sessions username alive = final"
    by (simp add: bounded_sessions_def keep_def alive'_def final_def Let_def)
  have wf': "wf_dict alive'" using wf by (simp add: alive'_def)
  have sub: "set alive' \<subseteq> set alive" by (auto simp: alive'_def)
  have cnt: "length (filter P final) \<le> length (filter P alive')" for P
    using count_take [of P _ "newest_first alive'"] newest_first_facts(3) [of P alive'] by (simp add: final_def)
  show "set (bounded_sessions username alive) \<subseteq> set alive"
    using sub newest_first_facts(1) [of alive'] by (auto simp: b final_def dest: in_set_takeD)
  show "wf_dict (bounded_sessions username alive)"
    using wf' newest_first_facts(4) [of alive'] by (auto simp: b final_def wf_dict_def take_map distinct_take simp flip: take_map)
  show "length (bounded_sessions username alive) < SESSION_MAX_GLOBAL"
    by (simp add: b final_def SESSION_MAX_GLOBAL_def newest_first_facts(2))
  have "card keep \<le> SESSION_MAX_PER_IDENTITY - 1"
    unfolding keep_def by (rule le_trans [OF card_length]) simp
  moreover have "length (filter (owned_by username) alive') \<le> length (filter (\<lambda>kv. fst kv \<in> keep) alive)"
    unfolding alive'_def filter_filter by (rule length_filter_mono) auto
  moreover have "length (filter (\<lambda>kv. fst kv \<in> keep) alive) \<le> card keep"
    by (rule count_keys [OF wf]) (simp add: keep_def)
  ultimately show "length (filter (owned_by username) (bounded_sessions username alive)) < SESSION_MAX_PER_IDENTITY"
    using cnt [of "owned_by username"] by (simp add: b SESSION_MAX_PER_IDENTITY_def)
  have "length (filter (owned_by u) alive') \<le> length (filter (owned_by u) alive)"
    unfolding alive'_def filter_filter by (rule length_filter_mono) auto
  with cnt [of "owned_by u"] show "length (filter (owned_by u) (bounded_sessions username alive)) \<le> length (filter (owned_by u) alive)"
    by (simp add: b)
qed

definition per_identity :: "json dict \<Rightarrow> bool" where
  "per_identity d \<longleftrightarrow> (\<forall>u. length (filter (owned_by u) d) \<le> SESSION_MAX_PER_IDENTITY)"

text \<open>The one operation that adds a session without looking at the global bound.\<close>

definition partial_replace :: "session_call \<Rightarrow> bool" where
  "partial_replace op = (case op of ReplaceSessions u revoke_all now g k sid \<Rightarrow> \<not> revoke_all | _ \<Rightarrow> False)"

lemma session_body_shape:
  assumes "session_body op d = (r, Some d')"
  obtains (shrink) P now alive where "alive_sessions now d = Inr alive" "d' = filter P alive" "\<not> partial_replace op"
  | (create) u now g k sid alive where "alive_sessions now d = Inr alive" "op = CreateSession u now g k sid"
      "d' = AList.update sid (session_info u now g k) (bounded_sessions u alive)"
  | (replace) u revoke_all now g k sid alive where "alive_sessions now d = Inr alive"
      "op = ReplaceSessions u revoke_all now g k sid"
      "d' = AList.update sid (session_info u now g k) (if revoke_all then [] else filter (\<lambda>kv. \<not> owned_by u kv) alive)"
proof (cases op)
  case (GetSessions now)
  with assms obtain alive where "alive_sessions now d = Inr alive" "d' = filter (\<lambda>_. True) alive"
    by (auto simp: session_body_def if_changed_def split: sum.splits if_splits)
  with GetSessions show ?thesis by (intro shrink [of now alive "\<lambda>_. True"]) (simp_all add: partial_replace_def)
next
  case (CreateSession u now g k sid)
  with assms show ?thesis by (auto simp: session_body_def split: sum.splits intro: create)
next
  case (DeleteSession sid now)
  with assms obtain alive where "alive_sessions now d = Inr alive" "d' = filter (\<lambda>(k, v). sid \<noteq> k) alive"
    by (auto simp: session_body_def if_changed_def AList.delete_eq split: sum.splits if_splits)
  with DeleteSession show ?thesis by (intro shrink [of now alive "\<lambda>(k, v). sid \<noteq> k"]) (simp_all add: partial_replace_def)
next
  case (DeleteSessionsFor u now)
  with assms obtain alive where "alive_sessions now d = Inr alive" "d' = filter (\<lambda>kv. \<not> owned_by u kv) alive"
    by (auto simp: session_body_def if_changed_def split: sum.splits if_splits)
  with DeleteSessionsFor show ?thesis by (intro shrink [of now alive "\<lambda>kv. \<not> owned_by u kv"]) (simp_all add: partial_replace_def)
next
  case (ReplaceSessions u revoke_all now g k sid)
  with assms show ?thesis by (auto simp: session_body_def split: sum.splits intro: replace)
qed

lemma session_info_wf: "wf_json (session_info u n g k)"
  by (simp add: session_info_def wf_dict_def)

lemma owned_session_info: "owned_by u (sid, session_info v n g k) \<longleftrightarrow> u = v"
  by (auto simp: owned_by_def session_info_def dget_def)

lemma wf_json_sub:
  assumes "wf_json (JObj d)" and "set b \<subseteq> set d" and "wf_dict b"
  shows "wf_json (JObj b)"
  using assms by auto

lemma per_identity_add:
  assumes "\<And>u. length (filter (owned_by u) base) \<le> SESSION_MAX_PER_IDENTITY"
    and "length (filter (owned_by v) base) < SESSION_MAX_PER_IDENTITY"
  shows "per_identity (AList.update sid (session_info v n g k) base)"
  unfolding per_identity_def
proof
  fix u
  show "length (filter (owned_by u) (AList.update sid (session_info v n g k) base)) \<le> SESSION_MAX_PER_IDENTITY"
    using count_update [of "owned_by u" sid "session_info v n g k" base] assms(1) [of u] assms(2)
    by (cases "u = v") (simp_all add: owned_session_info)
qed

lemma session_body_ok:
  assumes wf: "wf_json (JObj d)" and each: "per_identity d" and b: "session_body op d = (r, Some d')"
  shows "wf_json (JObj d') \<and> per_identity d'
    \<and> (length d \<le> SESSION_MAX_GLOBAL \<and> \<not> partial_replace op \<longrightarrow> length d' \<le> SESSION_MAX_GLOBAL)"
proof -
  have wfd: "wf_dict d" using wf by simp
  have cnt: "length (filter (owned_by u) alive) \<le> SESSION_MAX_PER_IDENTITY"
    if "alive_sessions now d = Inr alive" for now alive u
    using alive_subset(4) [OF that, of "owned_by u"] each unfolding per_identity_def by (meson le_trans)
  from b show ?thesis
  proof (cases rule: session_body_shape)
    case (shrink P now alive)
    note A = alive_subset [OF shrink(1)]
    have "wf_json (JObj d')" using A(1,2) wfd by (intro wf_json_sub [OF wf]) (auto simp: shrink(2))
    moreover have "per_identity d'"
      unfolding per_identity_def shrink(2) filter_filter
      using length_filter_mono [of "\<lambda>x. P x \<and> owned_by u x" "owned_by u" alive for u] cnt [OF shrink(1)]
      by (meson le_trans)
    moreover have "length d' \<le> length d" unfolding shrink(2) by (rule le_trans [OF length_filter_le A(3)])
    ultimately show ?thesis by simp
  next
    case (create u now g k sid alive)
    note A = alive_subset [OF create(1)]
    have wfa: "wf_dict alive" using A(2) wfd .
    note B = bounded_sessions_spec [OF wfa]
    have "wf_json (JObj (bounded_sessions u alive))" using A(1) B(1,2) by (intro wf_json_sub [OF wf]) auto
    then have "wf_json (JObj d')" unfolding create(3) by (rule wf_json_update [OF _ session_info_wf])
    moreover have "per_identity d'" unfolding create(3)
      by (rule per_identity_add [OF _ B(4)]) (rule le_trans [OF B(5) cnt [OF create(1)]])
    moreover have "length d' \<le> SESSION_MAX_GLOBAL"
      using length_update_le [of sid "session_info u now g k" "bounded_sessions u alive"] B(3) [of u]
      by (simp add: create(3))
    ultimately show ?thesis by blast
  next
    case (replace u revoke_all now g k sid alive)
    note A = alive_subset [OF replace(1)]
    let ?base = "if revoke_all then [] else filter (\<lambda>kv. \<not> owned_by u kv) alive"
    have "wf_json (JObj ?base)" using A(1,2) wfd by (intro wf_json_sub [OF wf]) auto
    then have "wf_json (JObj d')" unfolding replace(3) by (rule wf_json_update [OF _ session_info_wf])
    moreover have "per_identity d'" unfolding replace(3)
    proof (rule per_identity_add)
      show "length (filter (owned_by v) ?base) \<le> SESSION_MAX_PER_IDENTITY" for v
      proof (cases revoke_all)
        case False
        have "length (filter (owned_by v) (filter (\<lambda>kv. \<not> owned_by u kv) alive)) \<le> length (filter (owned_by v) alive)"
          unfolding filter_filter by (rule length_filter_mono) simp
        with cnt [OF replace(1), of v] False show ?thesis by simp
      qed simp
      have "filter (owned_by u) (filter (\<lambda>kv. \<not> owned_by u kv) alive) = []" by simp
      then show "length (filter (owned_by u) ?base) < SESSION_MAX_PER_IDENTITY"
        by (simp add: SESSION_MAX_PER_IDENTITY_def)
    qed
    moreover have "length d' \<le> SESSION_MAX_GLOBAL" if "\<not> partial_replace op"
      using that by (simp add: replace(2,3) partial_replace_def SESSION_MAX_GLOBAL_def)
    ultimately show ?thesis by blast
  qed
qed

interpretation session_store: stored_ops session_op "\<lambda>op c. session_guard op" "\<lambda>_. Inr ()" session_body
  "\<lambda>_. True" panel_save per_identity
proof
  show "session_op lock fails op c = (a, c)" if "session_guard op = Some a" for lock fails op c a
    using that by (simp add: session_op_def)
  show "\<exists>q. transact panel_save lock (\<lambda>_. Inr ()) (session_body op) fails c = (q, c') \<and> (r = q \<or> isl r)"
    if "session_guard op = None" "session_op lock fails op c = (r, c')" for lock fails op c r c'
    using that by (simp add: session_op_def)
  show "atomic_put panel_save" by (rule panel_save_atomic)
  show "refused panel_save d' \<or> cell_ok (\<lambda>_. Inr ()) d' \<and> per_identity d'"
    if "cell_ok (\<lambda>_. Inr ()) d" "per_identity d" "session_body op d = (r, Some d')" for d op r d'
    using session_body_ok [OF _ that(2,3)] that(1) by (simp add: cell_ok_def del: wf_json.simps)
qed

lemma session_wf_empty: "cell_safe (\<lambda>_. Inr ()) P (quiet Missing) \<longleftrightarrow> P []"
  by (simp add: cell_safe_def quiet_def cell_load_def load_dict_def load_json_strict_def obj_of_def)

lemma get_sessions_reads:
  assumes "session_op lock fails (GetSessions now) c = (Inr a, c')"
  shows "\<exists>d alive. cell_load (\<lambda>_. Inr ()) (seen c) = Inr d \<and> alive_sessions now d = Inr alive \<and> a = Sessions alive"
proof -
  have t: "transact panel_save lock (\<lambda>_. Inr ()) (session_body (GetSessions now)) fails c = (Inr a, c')"
    using assms by (simp add: session_op_def session_guard_def)
  from transact_reads [OF t] obtain d where d: "cell_load (\<lambda>_. Inr ()) (seen c) = Inr d"
    and b: "fst (session_body (GetSessions now) d) = Inr a" by blast
  from b obtain alive where "alive_sessions now d = Inr alive" "a = Sessions alive"
    by (cases "alive_sessions now d") (auto simp: session_body_def if_changed_def)
  with d show ?thesis by blast
qed

lemma alive_lookup:
  assumes "alive_sessions now d = Inr alive" and "map_of alive sid = Some (JObj info)"
  shows "(sid, JObj info) \<in> set d \<and> (\<exists>n. py_int (dget info ''exp'' (JInt 0)) = Inr n \<and> now < n)"
  using map_of_SomeD [OF assms(2)] alive_sessions_spec [OF assms(1)] by (auto simp: obj_of_def)

lemma alive_keeps:
  assumes "alive_sessions now d = Inr alive" and "map_of d sid = Some info"
    and "is_obj info" and "py_int (dget (obj_of info) ''exp'' (JInt 0)) = Inr n" and "now < n"
  shows "map_of alive sid = Some info"
  using assms
proof (induction d arbitrary: alive)
  case (Cons x d)
  obtain k v where x: "x = (k, v)" by (cases x)
  show ?case
  proof (cases v)
    case (JObj o')
    with Cons x show ?thesis
      by (cases "py_int (dget o' ''exp'' (JInt 0))")
        (auto simp: obj_of_def is_obj_def rbind_eq_Inr split: if_splits)
  qed (use Cons x in \<open>auto simp: is_obj_def split: if_splits\<close>)
qed simp

lemma rbind_Inr_dest: "rbind x f = Inr y \<Longrightarrow> \<exists>v. x = Inr v \<and> f v = Inr y"
  by (cases x) simp_all

lemma check_session_identity:
  assumes "check_session py_str sha sessions sid users = Inr (Identity u k)"
  shows "\<exists>info. map_of sessions sid = Some (JObj info) \<and> valid_username u
    \<and> text_or_empty py_str (dget info ''user'' JNull) = u
    \<and> k \<in> {USER_SESSION_PANEL_PASSWORD, USER_SESSION_SUBSCRIPTION_TOKEN}
    \<and> (text_or_empty py_str (dget info ''credential_generation'' JNull) = [] \<and> k = USER_SESSION_PANEL_PASSWORD
       \<or> (\<exists>us. users = Inr us \<and> text_or_empty py_str (session_credential k (map_of us u)) \<noteq> []
          \<and> text_or_empty py_str (dget info ''credential_generation'' JNull)
              = sha (text_or_empty py_str (session_credential k (map_of us u)))))"
proof -
  from assms obtain info where i: "map_of sessions sid = Some (JObj info)"
    by (auto simp: check_session_def split: option.splits json.splits)
  let ?u = "text_or_empty py_str (dget info ''user'' JNull)"
  let ?k0 = "text_or_empty py_str (dget info ''credential_kind'' JNull)"
  let ?k = "if ?k0 = [] then USER_SESSION_PANEL_PASSWORD else ?k0"
  let ?g = "text_or_empty py_str (dget info ''credential_generation'' JNull)"
  note c = assms [unfolded check_session_def i option.case json.case Let_def]
  have v: "valid_username ?u" and k: "?k \<in> {USER_SESSION_PANEL_PASSWORD, USER_SESSION_SUBSCRIPTION_TOKEN}"
    and t: "\<not> (?k = USER_SESSION_SUBSCRIPTION_TOKEN \<and> ?g = [])"
    using c by (fastforce split: if_splits)+
  show ?thesis
  proof (cases "?g = []")
    case True
    with c v k t i show ?thesis by (auto simp del: insert_iff split: if_splits)
  next
    case False
    with c v k t obtain us where us: "users = Inr us"
      and c': "(let current = credential_generation sha (text_or_empty py_str (session_credential ?k (map_of us ?u)))
          in if current = [] then Inr RefusedAndDeleted
             else rbind (compare_digest ?g current) (\<lambda>same. Inr (if same then Identity ?u ?k else RefusedAndDeleted)))
        = Inr (Identity u k)"
      by (auto dest!: rbind_Inr_dest simp: Let_def simp del: insert_iff split: if_splits)
    let ?cred = "text_or_empty py_str (session_credential ?k (map_of us ?u))"
    from c' have ne: "?cred \<noteq> []" by (auto simp: credential_generation_def Let_def)
    from c' have same: "compare_digest ?g (credential_generation sha ?cred) = Inr True" and uk: "u = ?u" "k = ?k"
      by (auto simp: Let_def dest!: rbind_Inr_dest split: if_splits)
    have "?g = sha ?cred" using same ne by (auto simp: compare_digest_def credential_generation_def split: if_splits)
    with i v k us ne uk show ?thesis by blast
  qed
qed

lemma check_session_match:
  assumes "map_of sessions sid = Some (session_info u n g USER_SESSION_PANEL_PASSWORD)" and "valid_username u"
    and "g \<noteq> []" and "ascii_only g" and "users = Inr us"
    and "credential_generation sha (text_or_empty py_str (session_credential USER_SESSION_PANEL_PASSWORD (map_of us u))) = g"
  shows "check_session py_str sha sessions sid users = Inr (Identity u USER_SESSION_PANEL_PASSWORD)"
proof -
  have kind: "USER_SESSION_PANEL_PASSWORD \<noteq> []" "USER_SESSION_PANEL_PASSWORD \<noteq> USER_SESSION_SUBSCRIPTION_TOKEN"
    by (simp_all add: USER_SESSION_PANEL_PASSWORD_def USER_SESSION_SUBSCRIPTION_TOKEN_def)
  obtain info where i: "session_info u n g USER_SESSION_PANEL_PASSWORD = JObj info"
    and f: "text_or_empty py_str (dget info ''user'' JNull) = u"
      "text_or_empty py_str (dget info ''credential_kind'' JNull) = USER_SESSION_PANEL_PASSWORD"
      "text_or_empty py_str (dget info ''credential_generation'' JNull) = g"
    using assms(3) kind(1) by (simp add: session_info_def text_or_empty_def dget_def)
  show ?thesis
    unfolding check_session_def assms(1) i option.case json.case f Let_def assms(5)
    using assms(2,3,4,6) kind by (simp add: compare_digest_def)
qed

section \<open>Properties\<close>

definition adds_partially :: "session_call event \<Rightarrow> bool" where
  "adds_partially e = (case e of Op lock fails op \<Rightarrow> partial_replace op | Crash f \<Rightarrow> False)"

text \<open>
  The session file stays readable and bounded. After any history of operations from a fresh
  installation, failed locks and system calls and power losses included, the file and every content a
  power loss may bring back load, and hold at most 16 sessions of one identity; they hold at most 2048
  sessions altogether, unless sessions of one user were replaced, which does not look at that bound.
\<close>

theorem sessions_bounded:
  assumes "history session_op es (quiet Missing) c"
  shows "\<forall>f \<in> insert (seen c) (after_crash c). \<exists>d. cell_load (\<lambda>_. Inr ()) f = Inr d
     \<and> (\<forall>u. length (filter (owned_by u) d) \<le> SESSION_MAX_PER_IDENTITY)
     \<and> ((\<exists>e \<in> set es. adds_partially e) \<or> length d \<le> SESSION_MAX_GLOBAL)"
proof -
  let ?full = "\<forall>e \<in> set es. \<not> adds_partially e"
  let ?P = "\<lambda>es' d. per_identity d \<and> (?full \<longrightarrow> (\<forall>e \<in> set es'. \<not> adds_partially e) \<and> length d \<le> SESSION_MAX_GLOBAL)"
  have "cell_safe (\<lambda>_. Inr ()) (?P []) c"
    using assms
  proof (rule session_store.history_safe [where P = ?P])
    show "\<forall>e \<in> set es. event_ok (\<lambda>_. True) e" by (simp add: event_ok_def split: event.split)
    show "cell_safe (\<lambda>_. Inr ()) (?P es) (quiet Missing)" by (simp add: session_wf_empty per_identity_def)
    show "?P es' d'" if "cell_ok (\<lambda>_. Inr ()) d" "?P (Op lock fails op # es') d" "session_body op d = (r, Some d')"
      for lock fails op es' d r d'
    proof -
      have "wf_json (JObj d)" using that(1) by (simp add: cell_ok_def del: wf_json.simps)
      from session_body_ok [OF this _ that(3)] that(2) show ?thesis by (simp add: adds_partially_def del: wf_json.simps)
    qed
  qed auto
  then show ?thesis unfolding cell_safe_def per_identity_def by auto
qed

text \<open>Who may get a session from an operation.\<close>

definition mints :: "string \<Rightarrow> session_call event \<Rightarrow> bool" where
  "mints u e = (case e of Op lock fails op \<Rightarrow> (case op of CreateSession v now g k sid \<Rightarrow> v = u
      | ReplaceSessions v revoke_all now g k sid \<Rightarrow> v = u | _ \<Rightarrow> False) | Crash f \<Rightarrow> False)"

lemma no_session_step:
  assumes "session_body op d = (r, Some d')" and "wf_dict d" and none: "filter (owned_by u) d = []"
    and op: "\<not> mints u (Op lock fails op)"
  shows "filter (owned_by u) d' = []"
proof -
  have sub: "filter (owned_by u) alive = []" if "alive_sessions now d = Inr alive" for now alive
    using alive_subset(4) [OF that, of "owned_by u"] none by simp
  have add: "filter (owned_by u) (AList.update sid (session_info v now g k) base) = []"
    if "filter (owned_by u) base = []" "v \<noteq> u" for sid v now g k base
    using count_update [of "owned_by u" sid "session_info v now g k" base] that by (simp add: owned_session_info)
  from assms(1) show ?thesis
  proof (cases rule: session_body_shape)
    case (shrink P now alive)
    from sub [OF shrink(1)] show ?thesis unfolding shrink(2) by (auto simp: filter_empty_conv)
  next
    case (create v now g k sid alive)
    have wfa: "wf_dict alive" using alive_subset(2) [OF create(1)] assms(2) .
    have "filter (owned_by u) (bounded_sessions v alive) = []"
      using bounded_sessions_spec(1) [OF wfa, of v] sub [OF create(1)] by (auto simp: filter_empty_conv)
    then show ?thesis unfolding create(3) by (rule add) (use op create(2) in \<open>simp add: mints_def\<close>)
  next
    case (replace v revoke_all now g k sid alive)
    have "filter (owned_by u) (if revoke_all then [] else filter (\<lambda>kv. \<not> owned_by v kv) alive) = []"
      using sub [OF replace(1)] by (auto simp: filter_empty_conv)
    then show ?thesis unfolding replace(3) by (rule add) (use op replace(2) in \<open>simp add: mints_def\<close>)
  qed
qed



text \<open>
  The administrator's password changes only for whoever knows it. With no lock or system-call
  failure in the way, the change answers ok exactly when the present password verifies and the new one
  is acceptable and confirmed; the settings then hold a hash the new password verifies against and no
  plain password; on every other answer the settings are untouched.
\<close>

theorem admin_password_change:
  assumes "change_admin_password py_str kdf salt lock fails current new confirm c = (Inr (msg, h), c')"
    and salt: "length salt = PBKDF2_SALT_BYTES" "\<forall>b \<in> set salt. b < 256"
    and kdf: "\<And>p s r. length (kdf p s r) = PBKDF2_DIGEST_BYTES \<and> (\<forall>b \<in> set (kdf p s r). b < 256)"
  shows "\<exists>meta. load_critical (seen c) = Inr meta
    \<and> (msg = ''ok'' \<longleftrightarrow> length current \<le> PASSWORD_MAX_LENGTH
         \<and> verify_secret kdf current (text_or_empty py_str (dget meta ''admin_pass_hash'' JNull))
         \<and> text_or_empty py_str (dget meta ''admin_pass_hash'' JNull) \<noteq> []
         \<and> PASSWORD_MIN_LENGTH \<le> length new \<and> length new \<le> PASSWORD_MAX_LENGTH \<and> new = confirm)
    \<and> (msg = ''ok'' \<longrightarrow> verify_secret kdf new h \<and> after_crash c' = {seen c'}
         \<and> seen c' = Doc (raw_of_json (JObj (AList.delete ''admin_pass'' (AList.update ''admin_pass_hash'' (JStr h) meta)))))
    \<and> (msg \<noteq> ''ok'' \<longrightarrow> c' = c \<and> h = [])"
proof -
  have l: "lock = None" using assms(1) by (cases lock) (simp_all add: change_admin_password_def)
  from assms(1) l obtain meta where m: "load_critical (seen c) = Inr meta"
    by (cases "load_critical (seen c)") (simp_all add: change_admin_password_def)
  let ?stored = "text_or_empty py_str (dget meta ''admin_pass_hash'' JNull)"
  let ?ok = "length current \<le> PASSWORD_MAX_LENGTH \<and> ?stored \<noteq> [] \<and> verify_secret kdf current ?stored"
  let ?good = "PASSWORD_MIN_LENGTH \<le> length new \<and> length new \<le> PASSWORD_MAX_LENGTH \<and> new = confirm"
  let ?new = "AList.delete ''admin_pass'' (AList.update ''admin_pass_hash'' (JStr (hash_secret kdf salt new)) meta)"
  note run = assms(1) [unfolded change_admin_password_def l option.case m sum.case Let_def]
  show ?thesis
  proof (cases "?ok \<and> ?good")
    case False
    with run have "msg \<noteq> ''ok'' \<and> c' = c \<and> h = []" by (auto split: if_splits)
    with False m show ?thesis by blast
  next
    case True
    obtain e c1 where p: "panel_save fails ?new c = (e, c1)" by fastforce
    with run True have e: "e = None" by (cases e) auto
    with run True p have r: "msg = ''ok''" "h = hash_secret kdf salt new" "c' = c1" by auto
    have "verify_secret kdf new h"
      unfolding r(2) using hash_secret_verifies [of salt kdf new new, OF salt kdf] True by blast
    moreover have "seen c' = Doc (raw_of_json (JObj ?new)) \<and> after_crash c' = {seen c'}"
      using panel_save_atomic p by (rule atomic_put_cases) (simp_all add: e r(3))
    ultimately show ?thesis using True m r by auto
  qed
qed

section \<open>Witnesses\<close>

definition demo_info :: json where "demo_info = session_info ''bob'' 1000 ''d1'' USER_SESSION_PANEL_PASSWORD"

definition demo_session_cell :: cell where
  "demo_session_cell = quiet (Doc (raw_of_json (JObj [(''s1'', demo_info)])))"

definition demo_users_file :: jfile where
  "demo_users_file = Doc (raw_of_json (JObj [(''bob'', JObj [(''panel_pass_hash'', JStr ''h'')])]))"

lemmas session_eval = session_op_def session_guard_def session_body_def if_changed_def bounded_sessions_def
  newest_first_def session_info_def owned_by_def exp_of_def panel_save_def SESSION_TTL_def
  SESSION_MAX_PER_IDENTITY_def SESSION_MAX_GLOBAL_def USER_SESSION_PANEL_PASSWORD_def
  USER_SESSION_SUBSCRIPTION_TOKEN_def

lemma demo_session_load: "cell_load (\<lambda>_. Inr ()) (seen demo_session_cell) = Inr [(''s1'', demo_info)]"
  by (simp add: demo_session_cell_def demo_info_def session_eval py_eval)

lemma demo_create_session:
  "session_op None (\<lambda>_. False) (CreateSession ''bob'' 1000 ''d1'' USER_SESSION_PANEL_PASSWORD ''s1'') (quiet Missing)
    = (Inr (Minted ''s1''), demo_session_cell)"
  by (simp add: demo_session_cell_def demo_info_def session_eval py_eval)

lemma demo_delete_session:
  "session_op None (\<lambda>_. False) (DeleteSessionsFor ''bob'' 2000) demo_session_cell
    = (Inr Done, quiet (Doc (raw_of_json (JObj []))))"
  by (simp add: demo_session_cell_def demo_info_def session_eval py_eval)

lemma demo_get_user:
  "get_logged_in_user_context (\<lambda>_. []) (\<lambda>s. if s = ''h'' then ''d1'' else ''d2'') None (\<lambda>_. False) None (\<lambda>_. False)
    ''s1'' 2000 demo_users_file demo_session_cell = (Inr (''bob'', USER_SESSION_PANEL_PASSWORD), demo_session_cell)"
  by (simp add: get_logged_in_user_context_def check_session_def text_or_empty_def credential_generation_def
      session_credential_def compare_digest_def ascii_only_def valid_username_def demo_users_file_def
      demo_session_cell_def demo_info_def session_eval py_eval)

theorem sessions_bounded_witness:
  "\<exists>d. cell_load (\<lambda>_. Inr ()) (seen demo_session_cell) = Inr d \<and> length d \<le> SESSION_MAX_GLOBAL"
proof -
  let ?es = "[Op None (\<lambda>_. False) (CreateSession ''bob'' 1000 ''d1'' USER_SESSION_PANEL_PASSWORD ''s1'')]"
  have "history session_op ?es (quiet Missing) demo_session_cell"
    by (rule history.operation, rule demo_create_session, rule history.nothing)
  from sessions_bounded [OF this] show ?thesis by (auto simp: adds_partially_def partial_replace_def)
qed



definition demo_meta_cell :: cell where
  "demo_meta_cell = quiet (Doc (raw_of_json (JObj [(''admin_pass_hash'', JStr (hash_secret toy_kdf (replicate 16 7) ''secret''))])))"

theorem admin_password_change_witness:
  "\<exists>h c'. change_admin_password (\<lambda>_. []) toy_kdf (replicate 16 9) None (\<lambda>_. False) ''secret'' ''new password'' ''new password''
      demo_meta_cell = (Inr (''ok'', h), c') \<and> verify_secret toy_kdf ''new password'' h"
proof -
  have kdf: "length (toy_kdf p s r) = PBKDF2_DIGEST_BYTES \<and> (\<forall>b \<in> set (toy_kdf p s r). b < 256)" for p s r
    by (simp add: toy_kdf_def PBKDF2_DIGEST_BYTES_def)
  have salt: "length (replicate 16 x) = PBKDF2_SALT_BYTES" "\<forall>b \<in> set (replicate 16 x). b < 256" if "x < 256" for x :: nat
    using that by (simp_all add: PBKDF2_SALT_BYTES_def)
  let ?h = "hash_secret toy_kdf (replicate 16 7) ''secret''"
  let ?n = "hash_secret toy_kdf (replicate 16 9) ''new password''"
  have v: "verify_secret toy_kdf ''secret'' ?h"
    using hash_secret_verifies [of _ toy_kdf "''secret''" "''secret''", OF salt kdf] by (simp add: PASSWORD_MAX_LENGTH_def)
  have h: "?h \<noteq> []" by (simp add: hash_secret_def)
  have load: "load_critical (seen demo_meta_cell) = Inr [(''admin_pass_hash'', JStr ?h)]"
    by (simp add: demo_meta_cell_def py_eval)
  have run: "change_admin_password (\<lambda>_. []) toy_kdf (replicate 16 9) None (\<lambda>_. False) ''secret'' ''new password'' ''new password''
      demo_meta_cell = (Inr (''ok'', ?n), quiet (Doc (raw_of_json (JObj [(''admin_pass_hash'', JStr ?n)]))))"
    using v h by (simp add: change_admin_password_def load text_or_empty_def dget_def PASSWORD_MAX_LENGTH_def
        PASSWORD_MIN_LENGTH_def panel_save_def Let_def) (simp add: demo_meta_cell_def py_eval)
  from admin_password_change [OF run salt [of 9] kdf] run show ?thesis by auto
qed

end
