(* ===== verification/LoginThrottle.thy ===== *)
theory LoginThrottle
  imports Sessions PyFloat
begin

text \<open>
  The login throttle of \<^verbatim>\<open>hysteria/subscription_service.py\<close> and the user login that runs under it. The
  two in-memory trackers and the shared table of attempts in flight are one state; every function that
  holds \<^verbatim>\<open>_login_failures_lock\<close> is one step. Clock readings are the rationals that binary64 holds.
\<close>

section \<open>Failures and attempts in flight\<close>

definition LOGIN_MAX :: nat where "LOGIN_MAX = 3"
definition LOGIN_WINDOW :: rat where "LOGIN_WINDOW = 3600"
definition LOGIN_FAILURES_MAX_IPS :: nat where "LOGIN_FAILURES_MAX_IPS = 1024"

datatype tracker = AdminLogin | UserLogin

type_synonym failures = "(string \<times> rat list) list"

record throttle =
  failures_of :: "tracker \<Rightarrow> failures"
  inflight :: "((tracker \<times> string) \<times> nat) list"

definition no_attempts :: throttle where "no_attempts = \<lparr>failures_of = (\<lambda>_. []), inflight = []\<rparr>"

definition times_of :: "string \<Rightarrow> failures \<Rightarrow> rat list" where
  "times_of ip failures = (case map_of failures ip of Some ts \<Rightarrow> ts | None \<Rightarrow> [])"

definition recent :: "rat \<Rightarrow> rat list \<Rightarrow> rat list" where
  "recent now ts = filter (\<lambda>t. fl (now - t) < LOGIN_WINDOW) ts"

definition prune_failures_locked :: "string \<Rightarrow> failures \<Rightarrow> rat \<Rightarrow> rat list \<times> failures" where
  "prune_failures_locked ip failures now = (let times = recent now (times_of ip failures) in
     (times, if times \<noteq> [] then AList.update ip times failures else AList.delete ip failures))"

definition is_rate_limited :: "tracker \<Rightarrow> string \<Rightarrow> rat \<Rightarrow> throttle \<Rightarrow> bool \<times> throttle" where
  "is_rate_limited tr ip now t = (let (times, failures) = prune_failures_locked ip (failures_of t tr) now in
     (LOGIN_MAX \<le> length times, t\<lparr>failures_of := (failures_of t)(tr := failures)\<rparr>))"

text \<open>A new address evicts the oldest tracked one when the table is full.\<close>

definition note_failure :: "string \<Rightarrow> rat \<Rightarrow> failures \<Rightarrow> failures" where
  "note_failure ip now failures =
     (let kept = (if map_of failures ip = None \<and> LOGIN_FAILURES_MAX_IPS \<le> length failures then tl failures else failures)
      in AList.update ip (times_of ip kept @ [now]) kept)"

definition record_failure :: "tracker \<Rightarrow> string \<Rightarrow> rat \<Rightarrow> throttle \<Rightarrow> throttle" where
  "record_failure tr ip now t = t\<lparr>failures_of := (failures_of t)(tr := note_failure ip now (failures_of t tr))\<rparr>"

definition clear_failures :: "tracker \<Rightarrow> string \<Rightarrow> throttle \<Rightarrow> throttle" where
  "clear_failures tr ip t = t\<lparr>failures_of := (failures_of t)(tr := AList.delete ip (failures_of t tr))\<rparr>"

definition inflight_of :: "throttle \<Rightarrow> tracker \<times> string \<Rightarrow> nat" where
  "inflight_of t key = (case map_of (inflight t) key of Some n \<Rightarrow> n | None \<Rightarrow> 0)"

definition begin_login_attempt :: "tracker \<Rightarrow> string \<Rightarrow> rat \<Rightarrow> throttle \<Rightarrow> bool \<times> throttle" where
  "begin_login_attempt tr ip now t =
     (let (times, failures) = prune_failures_locked ip (failures_of t tr) now;
          t' = t\<lparr>failures_of := (failures_of t)(tr := failures)\<rparr>;
          n = inflight_of t (tr, ip)
      in if LOGIN_MAX \<le> length times + n then (False, t')
         else (True, t'\<lparr>inflight := AList.update (tr, ip) (n + 1) (inflight t)\<rparr>))"

text \<open>The outcome is \<open>None\<close> for a correct password of an account that may not log in.\<close>

definition finish_login_attempt :: "tracker \<Rightarrow> string \<Rightarrow> bool option \<Rightarrow> rat \<Rightarrow> throttle \<Rightarrow> throttle" where
  "finish_login_attempt tr ip succeeded now t =
     (let n = inflight_of t (tr, ip) - 1;
          t' = t\<lparr>inflight := (if n \<noteq> 0 then AList.update (tr, ip) n (inflight t) else AList.delete (tr, ip) (inflight t))\<rparr>
      in case succeeded of
           Some True \<Rightarrow> clear_failures tr ip t'
         | None \<Rightarrow> t'
         | Some False \<Rightarrow> record_failure tr ip now t')"

section \<open>The user login\<close>

datatype login_answer = TooManyAttempts | AccountDisabled | AccountExpired | WrongPassword | LoggedIn string bool

definition password_accepted :: "(string \<Rightarrow> nat list \<Rightarrow> int \<Rightarrow> nat list) \<Rightarrow> string \<Rightarrow> string \<Rightarrow> string \<Rightarrow> bool" where
  "password_accepted kdf username passwd stored_hash \<longleftrightarrow> valid_username username
     \<and> length passwd \<le> PASSWORD_MAX_LENGTH \<and> stored_hash \<noteq> [] \<and> verify_secret kdf passwd stored_hash"

text \<open>
  The branch \<^verbatim>\<open>/user/login\<close> of \<^verbatim>\<open>do_POST\<close>, from the reservation of a slot to the answer. \<open>started\<close> and
  \<open>finished\<close> are the clock readings of the two throttle steps, \<open>now\<close> and \<open>sid\<close> those of the session.
\<close>

definition user_login ::
  "(json \<Rightarrow> string) \<Rightarrow> (string \<Rightarrow> string) \<Rightarrow> (string \<Rightarrow> nat list \<Rightarrow> int \<Rightarrow> nat list) \<Rightarrow> jfile \<Rightarrow> date \<Rightarrow> rat \<Rightarrow> rat
   \<Rightarrow> exc option \<Rightarrow> faults \<Rightarrow> int \<Rightarrow> string \<Rightarrow> string \<Rightarrow> string \<Rightarrow> string \<Rightarrow> throttle \<times> cell
   \<Rightarrow> login_answer res \<times> throttle \<times> cell" where
  "user_login py_str sha kdf users_file today started finished lock fails now sid ip field passwd s =
     (let username = py_strip field in case s of (t, c) \<Rightarrow> (case begin_login_attempt UserLogin ip started t of
        (False, t1) \<Rightarrow> (Inr TooManyAttempts, t1, c)
      | (True, t1) \<Rightarrow> (case load_critical users_file of
          Inl e \<Rightarrow> (Inl e, t1, c)
        | Inr us \<Rightarrow>
            (let cfg = obj_of (case map_of us username of Some v \<Rightarrow> v | None \<Rightarrow> JNull);
                 stored_hash = text_or_empty py_str (dget cfg ''panel_pass_hash'' JNull);
                 ok = password_accepted kdf username passwd stored_hash
             in if ok \<and> truthy (dget cfg ''disabled'' JNull)
                then (Inr AccountDisabled, finish_login_attempt UserLogin ip None finished t1, c)
                else if ok \<and> is_expired (JObj cfg) today
                then (Inr AccountExpired, finish_login_attempt UserLogin ip None finished t1, c)
                else (let t2 = finish_login_attempt UserLogin ip (Some ok) finished t1 in
                  if \<not> ok then (Inr WrongPassword, t2, c)
                  else (case session_op lock fails (CreateSession username now (credential_generation sha stored_hash)
                           USER_SESSION_PANEL_PASSWORD sid) c of
                      (Inl e, c') \<Rightarrow> (Inl e, t2, c')
                    | (Inr _, c') \<Rightarrow> (Inr (LoggedIn sid (truthy (dget cfg ''panel_password_must_change'' JNull))), t2, c')))))))"

section \<open>What the throttle keeps\<close>

text \<open>
  Attempts of many request threads, interleaved at will. A thread finishes only an attempt it was
  granted; \<open>n\<close> counts, for each tracker and address, those granted and not finished.
\<close>

datatype attempt = Begun tracker string rat bool | Finished tracker string "bool option" rat

fun made_at :: "attempt \<Rightarrow> rat" where
  "made_at (Begun tr ip now granted) = now"
| "made_at (Finished tr ip outcome now) = now"

fun made_by :: "attempt \<Rightarrow> tracker \<times> string" where
  "made_by (Begun tr ip now granted) = (tr, ip)"
| "made_by (Finished tr ip outcome now) = (tr, ip)"

inductive attempts :: "attempt list \<Rightarrow> throttle \<Rightarrow> (tracker \<times> string \<Rightarrow> nat) \<Rightarrow> bool" where
  at_start: "attempts [] no_attempts (\<lambda>_. 0)"
| granted: "attempts es t n \<Longrightarrow> begin_login_attempt tr ip now t = (True, t') \<Longrightarrow>
    attempts (es @ [Begun tr ip now True]) t' (n((tr, ip) := Suc (n (tr, ip))))"
| refused: "attempts es t n \<Longrightarrow> begin_login_attempt tr ip now t = (False, t') \<Longrightarrow>
    attempts (es @ [Begun tr ip now False]) t' n"
| finished: "attempts es t n \<Longrightarrow> n (tr, ip) = Suc k \<Longrightarrow>
    attempts (es @ [Finished tr ip outcome now]) (finish_login_attempt tr ip outcome now t) (n((tr, ip) := k))"

text \<open>The failures of an address since its last success, as the events tell them.\<close>

definition count_attempt :: "tracker \<times> string \<Rightarrow> rat list \<Rightarrow> attempt \<Rightarrow> rat list" where
  "count_attempt key ts e = (case e of
      Finished tr ip (Some False) now \<Rightarrow> if (tr, ip) = key then ts @ [now] else ts
    | Finished tr ip (Some True) now \<Rightarrow> if (tr, ip) = key then [] else ts
    | _ \<Rightarrow> ts)"

definition failed :: "tracker \<times> string \<Rightarrow> attempt list \<Rightarrow> rat list" where
  "failed key es = foldl (count_attempt key) [] es"

lemma failed_Nil [simp]: "failed key [] = []"
  by (simp add: failed_def)

lemma failed_snoc [simp]: "failed key (es @ [e]) = count_attempt key (failed key es) e"
  by (simp add: failed_def)

lemma recent_append [simp]: "recent now (a @ b) = recent now a @ recent now b"
  by (simp add: recent_def)

lemma recent_Nil [simp]: "recent now [] = []"
  by (simp add: recent_def)

lemma recent_recent: "started \<le> now \<Longrightarrow> recent now (recent started ts) = recent now ts"
proof -
  assume "started \<le> now"
  then have "fl (started - x) \<le> fl (now - x)" for x by (intro fl_mono) simp
  then have "fl (now - x) < LOGIN_WINDOW \<Longrightarrow> fl (started - x) < LOGIN_WINDOW" for x by (rule le_less_trans)
  then show ?thesis unfolding recent_def filter_filter by (intro filter_cong) auto
qed

lemma recent_shorter: "started \<le> now \<Longrightarrow> length (recent now ts) \<le> length (recent started ts)"
  using recent_recent [of started now ts] unfolding recent_def by (metis length_filter_le)

lemma times_of_update [simp]: "times_of ip (AList.update ip' ts f) = (if ip = ip' then ts else times_of ip f)"
  by (simp add: times_of_def)

lemma times_of_delete [simp]: "times_of ip (AList.delete ip' f) = (if ip = ip' then [] else times_of ip f)"
  by (simp add: times_of_def)

lemma prune_facts:
  assumes "prune_failures_locked ip f now = (ts, f')"
  shows "ts = recent now (times_of ip f)" and "times_of x f' = (if x = ip then ts else times_of x f)"
    and "wf_dict f \<Longrightarrow> wf_dict f'" and "fst ` set f' \<subseteq> insert ip (fst ` set f)"
proof -
  have f': "f' = (if ts \<noteq> [] then AList.update ip ts f else AList.delete ip f)" and ts: "ts = recent now (times_of ip f)"
    using assms by (auto simp: prune_failures_locked_def Let_def)
  show "ts = recent now (times_of ip f)" by (rule ts)
  show "times_of x f' = (if x = ip then ts else times_of x f)" by (simp add: f')
  show "wf_dict f \<Longrightarrow> wf_dict f'" by (simp add: f')
  show "fst ` set f' \<subseteq> insert ip (fst ` set f)"
    using set_update_subset [of ip ts f] set_delete_subset [of ip f] by (auto simp: f' split: if_splits)
qed

text \<open>No eviction while the tracked addresses are few enough.\<close>

lemma note_failure_facts:
  assumes "wf_dict f" and "fst ` set f \<subseteq> A" and "ip \<in> A" and "finite A" and "card A \<le> LOGIN_FAILURES_MAX_IPS"
  shows "note_failure ip now f = AList.update ip (times_of ip f @ [now]) f"
proof -
  have "length f < LOGIN_FAILURES_MAX_IPS" if "map_of f ip = None"
  proof -
    have new: "ip \<notin> fst ` set f" using that by (simp add: map_of_eq_None_iff)
    have "length f = card (fst ` set f)" using assms(1) unfolding wf_dict_def by (metis distinct_card length_map set_map)
    also have "\<dots> < card A" using assms(2,3,4) new by (intro psubset_card_mono) auto
    finally show ?thesis using assms(5) by simp
  qed
  then show ?thesis by (auto simp: note_failure_def Let_def)
qed

definition throttle_ok :: "tracker \<Rightarrow> string set \<Rightarrow> attempt list \<Rightarrow> throttle \<Rightarrow> (tracker \<times> string \<Rightarrow> nat) \<Rightarrow> bool" where
  "throttle_ok tr A es t n \<longleftrightarrow> wf_dict (failures_of t tr) \<and> fst ` set (failures_of t tr) \<subseteq> A
     \<and> (\<forall>key. inflight_of t key = n key)
     \<and> (\<forall>now ip. (\<forall>e \<in> set es. made_at e \<le> now) \<longrightarrow>
          recent now (times_of ip (failures_of t tr)) = recent now (failed (tr, ip) es)
          \<and> length (recent now (failed (tr, ip) es)) + n (tr, ip) \<le> LOGIN_MAX)"

lemma inflight_begin:
  "begin_login_attempt tr ip now t = (g, t') \<Longrightarrow>
     inflight_of t' key = (if g \<and> key = (tr, ip) then Suc (inflight_of t key) else inflight_of t key)"
  by (auto simp: begin_login_attempt_def inflight_of_def Let_def split: prod.splits if_splits)

lemma inflight_finish:
  "inflight_of (finish_login_attempt tr ip succeeded now t) key
     = (if key = (tr, ip) then inflight_of t key - 1 else inflight_of t key)"
  by (auto simp: finish_login_attempt_def inflight_of_def clear_failures_def record_failure_def Let_def
      split: option.splits bool.splits)

lemma failures_finish:
  "failures_of (finish_login_attempt tr' ip succeeded now t) tr = (if tr' \<noteq> tr then failures_of t tr
     else case succeeded of Some True \<Rightarrow> AList.delete ip (failures_of t tr) | None \<Rightarrow> failures_of t tr
       | Some False \<Rightarrow> note_failure ip now (failures_of t tr))"
  by (auto simp: finish_login_attempt_def clear_failures_def record_failure_def Let_def split: option.splits bool.splits)

lemma begin_cases:
  assumes "begin_login_attempt tr' ip now t = (g, t')"
  obtains ts f where "prune_failures_locked ip (failures_of t tr') now = (ts, f)"
    "failures_of t' = (failures_of t)(tr' := f)" "g \<longleftrightarrow> length ts + inflight_of t (tr', ip) < LOGIN_MAX"
  using assms by (cases "prune_failures_locked ip (failures_of t tr') now")
    (auto simp: begin_login_attempt_def Let_def split: if_splits)

lemma begin_keeps:
  assumes ok: "throttle_ok tr A es t n" and b: "begin_login_attempt tr' ip now t = (g, t')"
    and A: "tr' = tr \<Longrightarrow> ip \<in> A" and e: "e = Begun tr' ip now g"
    and chrono: "\<forall>x \<in> set es. made_at x \<le> now"
  shows "throttle_ok tr A (es @ [e]) t' (if g then n((tr', ip) := Suc (n (tr', ip))) else n)"
proof -
  obtain ts f where p: "prune_failures_locked ip (failures_of t tr') now = (ts, f)"
    and t': "failures_of t' = (failures_of t)(tr' := f)" and g: "g \<longleftrightarrow> length ts + inflight_of t (tr', ip) < LOGIN_MAX"
    using b by (rule begin_cases)
  note P = prune_facts [OF p]
  let ?n = "if g then n((tr', ip) := Suc (n (tr', ip))) else n"
  have same: "failed key (es @ [e]) = failed key es" for key by (simp add: e count_attempt_def)
  have all: "(\<forall>x \<in> set es. made_at x \<le> later) \<and> now \<le> later" if "\<forall>x \<in> set (es @ [e]). made_at x \<le> later" for later
    using that by (simp add: e)
  have times: "recent later (times_of x (failures_of t' tr)) = recent later (failed (tr, x) es)"
    if "\<forall>x \<in> set (es @ [e]). made_at x \<le> later" for later x
    using ok all [OF that] P(1,2) by (cases "tr' = tr") (auto simp: throttle_ok_def t' recent_recent)
  have few: "length (recent later (failed (tr, x) es)) + ?n (tr, x) \<le> LOGIN_MAX"
    if l: "\<forall>x \<in> set (es @ [e]). made_at x \<le> later" for later x
  proof (cases "g \<and> (tr', ip) = (tr, x)")
    case True
    then have "length (recent now (failed (tr, x) es)) + n (tr, x) < LOGIN_MAX"
      using g ok chrono P(1) by (auto simp: throttle_ok_def)
    then show ?thesis using True recent_shorter [of now later "failed (tr, x) es"] all [OF l] by auto
  next
    case False
    then have "?n (tr, x) = n (tr, x)" by auto
    with ok all [OF l] show ?thesis by (auto simp: throttle_ok_def)
  qed
  have "wf_dict (failures_of t' tr) \<and> fst ` set (failures_of t' tr) \<subseteq> A"
    using ok P(3,4) A by (cases "tr' = tr") (auto simp: throttle_ok_def t')
  moreover have "inflight_of t' key = ?n key" for key
  proof -
    have "inflight_of t key = n key" using ok unfolding throttle_ok_def by blast
    then show ?thesis using inflight_begin [OF b, of key] by auto
  qed
  ultimately show ?thesis
    using times few unfolding throttle_ok_def same by blast
qed

lemma finish_keeps:
  assumes ok: "throttle_ok tr A es t n" and n: "n (tr', ip) = Suc k" and e: "e = Finished tr' ip outcome now"
    and A: "tr' = tr \<Longrightarrow> ip \<in> A" and few: "finite A" "card A \<le> LOGIN_FAILURES_MAX_IPS"
  shows "throttle_ok tr A (es @ [e]) (finish_login_attempt tr' ip outcome now t) (n((tr', ip) := k))"
proof -
  let ?t' = "finish_login_attempt tr' ip outcome now t"
  have wf: "wf_dict (failures_of t tr)" and sub: "fst ` set (failures_of t tr) \<subseteq> A"
    and infl: "inflight_of t key = n key" for key
    using ok unfolding throttle_ok_def by blast+
  have old: "recent later (times_of x (failures_of t tr)) = recent later (failed (tr, x) es)
      \<and> length (recent later (failed (tr, x) es)) + n (tr, x) \<le> LOGIN_MAX"
    if "\<forall>x \<in> set (es @ [e]). made_at x \<le> later" for later x
    using ok that unfolding throttle_ok_def by simp
  have noted: "note_failure ip now (failures_of t tr) = AList.update ip (times_of ip (failures_of t tr) @ [now]) (failures_of t tr)"
    if "tr' = tr" using note_failure_facts [OF wf sub A [OF that] few] .
  have f': "failures_of ?t' tr = (if tr' \<noteq> tr then failures_of t tr
     else case outcome of Some True \<Rightarrow> AList.delete ip (failures_of t tr) | None \<Rightarrow> failures_of t tr
       | Some False \<Rightarrow> AList.update ip (times_of ip (failures_of t tr) @ [now]) (failures_of t tr))"
    using noted unfolding failures_finish by (auto split: option.splits bool.splits)
  have counted: "failed (tr, x) (es @ [e]) = (if (tr', ip) \<noteq> (tr, x) then failed (tr, x) es
     else case outcome of Some True \<Rightarrow> [] | None \<Rightarrow> failed (tr, x) es | Some False \<Rightarrow> failed (tr, x) es @ [now])" for x
    by (auto simp: e count_attempt_def split: option.splits bool.splits)
  have "wf_dict (failures_of ?t' tr)" using wf unfolding f' by (auto split: option.splits bool.splits)
  moreover have "fst ` set (failures_of ?t' tr) \<subseteq> A"
    using sub A set_delete_subset [of ip "failures_of t tr"]
    unfolding f' by (auto simp: dom_update split: option.splits bool.splits)
  moreover have "inflight_of ?t' key = (n((tr', ip) := k)) key" for key
    using n by (simp add: inflight_finish infl)
  moreover have "recent later (times_of x (failures_of ?t' tr)) = recent later (failed (tr, x) (es @ [e]))
      \<and> length (recent later (failed (tr, x) (es @ [e]))) + (n((tr', ip) := k)) (tr, x) \<le> LOGIN_MAX"
    if "\<forall>x \<in> set (es @ [e]). made_at x \<le> later" for later x
  proof (cases "(tr', ip) = (tr, x)")
    case False
    then have "times_of x (failures_of ?t' tr) = times_of x (failures_of t tr)"
      unfolding f' by (auto split: option.splits bool.splits)
    moreover have "failed (tr, x) (es @ [e]) = failed (tr, x) es" using False unfolding counted by simp
    moreover have "(n((tr', ip) := k)) (tr, x) = n (tr, x)" using False by auto
    ultimately show ?thesis using old [OF that, of x] by (simp only:)
  next
    case True
    have one: "length (recent later [now]) \<le> 1" by (simp add: recent_def)
    from True show ?thesis
      using old [OF that, of x] n one unfolding f' counted
      by (auto split: option.splits bool.splits)
  qed
  ultimately show ?thesis unfolding throttle_ok_def by blast
qed

lemma attempts_ok:
  assumes "attempts es t n" and "sorted (map made_at es)"
    and "\<And>ip. (tr, ip) \<in> made_by ` set es \<Longrightarrow> ip \<in> A" and "finite A" "card A \<le> LOGIN_FAILURES_MAX_IPS"
  shows "throttle_ok tr A es t n"
  using assms(1-3)
proof (induction rule: attempts.induct)
  case at_start
  then show ?case
    by (simp add: throttle_ok_def no_attempts_def times_of_def inflight_of_def)
next
  case (granted es t n tr' ip now t')
  have s: "sorted (map made_at es)" "\<forall>x \<in> set es. made_at x \<le> now"
    using granted.prems(1) by (simp_all add: sorted_append)
  have "throttle_ok tr A es t n" using granted.IH [OF s(1)] granted.prems(2) by simp
  from begin_keeps [OF this granted.hyps(2) _ refl s(2)] granted.prems(2) show ?case by (simp add: fun_upd_def)
next
  case (refused es t n tr' ip now t')
  have s: "sorted (map made_at es)" "\<forall>x \<in> set es. made_at x \<le> now"
    using refused.prems(1) by (simp_all add: sorted_append)
  have "throttle_ok tr A es t n" using refused.IH [OF s(1)] refused.prems(2) by simp
  from begin_keeps [OF this refused.hyps(2) _ refl s(2)] refused.prems(2) show ?case by simp
next
  case (finished es t n tr' ip k outcome now)
  have s: "sorted (map made_at es)" using finished.prems(1) by (simp add: sorted_append)
  have "throttle_ok tr A es t n" using finished.IH [OF s] finished.prems(2) by simp
  from finish_keeps [OF this finished.hyps(2) refl _ assms(4,5)] finished.prems(2) show ?case by (simp add: fun_upd_def)
qed

section \<open>Properties\<close>


definition slots_of :: "throttle \<Rightarrow> string \<Rightarrow> nat" where "slots_of t ip = inflight_of t (UserLogin, ip)"

inductive logins :: "(json \<Rightarrow> string) \<Rightarrow> (string \<Rightarrow> string) \<Rightarrow> (string \<Rightarrow> nat list \<Rightarrow> int \<Rightarrow> nat list)
   \<Rightarrow> throttle \<times> cell \<Rightarrow> throttle \<times> cell \<Rightarrow> bool" for py_str sha kdf where
  no_login: "logins py_str sha kdf s s"
| one_login: "user_login py_str sha kdf users_file today started finished lock fails now sid ip field passwd s = (a, s1) \<Longrightarrow>
    logins py_str sha kdf s1 s2 \<Longrightarrow> logins py_str sha kdf s s2"

lemma begin_full: "LOGIN_MAX \<le> inflight_of t (tr, ip) \<Longrightarrow> \<not> fst (begin_login_attempt tr ip now t)"
  by (auto simp: begin_login_attempt_def Let_def split: prod.split)

lemma login_slots:
  assumes "user_login py_str sha kdf users_file today started finished lock fails now sid ip' field passwd (t, c) = (a, t', c')"
    and full: "LOGIN_MAX \<le> slots_of t ip"
  shows "slots_of t' ip = slots_of t ip"
proof -
  obtain g t1 where b: "begin_login_attempt UserLogin ip' started t = (g, t1)" by fastforce
  note n1 = inflight_begin [OF b, of "(UserLogin, ip)"]
  show ?thesis
  proof (cases "ip' = ip")
    case True
    have "\<not> g" using begin_full [of t UserLogin ip started] full b True by (simp add: slots_of_def)
    then show ?thesis using assms(1) n1 by (simp add: user_login_def b slots_of_def Let_def)
  next
    case False
    then have n2: "inflight_of (finish_login_attempt UserLogin ip' r finished t1) (UserLogin, ip) = inflight_of t1 (UserLogin, ip)" for r
      by (simp add: inflight_finish)
    from assms(1) n1 n2 False show ?thesis
      by (auto simp: user_login_def b slots_of_def Let_def split: bool.splits sum.splits if_splits prod.splits)
  qed
qed

lemma logins_full:
  assumes "logins py_str sha kdf s s'" and "LOGIN_MAX \<le> slots_of (fst s) ip"
  shows "LOGIN_MAX \<le> slots_of (fst s') ip"
  using assms
proof (induction rule: logins.induct)
  case (one_login users_file today started finished lock fails now sid ip' field passwd s a s1 s2)
  obtain t c t1 c1 where s: "s = (t, c)" "s1 = (t1, c1)" by (metis prod.collapse)
  from login_slots [OF one_login.hyps(1) [unfolded s]] one_login.prems one_login.IH show ?case by (simp add: s)
qed simp

lemma unreadable_login:
  assumes "load_critical users_file = Inl e" and "failures_of t UserLogin = []" and "slots_of t ip < LOGIN_MAX"
    and "user_login py_str sha kdf users_file today started finished lock fails now sid ip field passwd (t, c) = (a, t', c')"
  shows "a = Inl e \<and> failures_of t' UserLogin = [] \<and> slots_of t' ip = Suc (slots_of t ip) \<and> c' = c"
proof -
  obtain g t1 where b: "begin_login_attempt UserLogin ip started t = (g, t1)" by fastforce
  then have "g \<and> failures_of t1 UserLogin = []"
    using assms(2,3)
    by (auto simp: begin_login_attempt_def prune_failures_locked_def times_of_def slots_of_def Let_def split: if_splits)
  with b inflight_begin [OF b, of "(UserLogin, ip)"] assms(1,4) show ?thesis
    by (simp add: user_login_def slots_of_def Let_def)
qed

text \<open>
  C39. A user login that could not read the user file never gives its slot back: once three requests of
  an address met an unreadable file, every later login from that address is refused, at any time, with
  any user, password and file, until the panel restarts.
\<close>

theorem login_slot_leak:
  assumes "load_critical unreadable = Inl e"
    and "user_login py_str sha kdf unreadable d1 b1 f1 l1 x1 n1 i1 ip u1 p1 (no_attempts, c) = (a1, s1)"
    and "user_login py_str sha kdf unreadable d2 b2 f2 l2 x2 n2 i2 ip u2 p2 s1 = (a2, s2)"
    and "user_login py_str sha kdf unreadable d3 b3 f3 l3 x3 n3 i3 ip u3 p3 s2 = (a3, s3)"
    and "logins py_str sha kdf s3 s"
  shows "fst (user_login py_str sha kdf users_file today started finished lock fails now sid ip field passwd s)
    = Inr TooManyAttempts"
proof -
  obtain t1 c1 t2 c2 t3 c3 t c' where s: "s1 = (t1, c1)" "s2 = (t2, c2)" "s3 = (t3, c3)" "s = (t, c')"
    by (metis prod.collapse)
  have "failures_of no_attempts UserLogin = []" "slots_of no_attempts ip = 0"
    by (simp_all add: no_attempts_def slots_of_def inflight_of_def)
  note step1 = unreadable_login [OF assms(1) this(1) _ assms(2) [unfolded s]]
  have 1: "failures_of t1 UserLogin = []" "slots_of t1 ip = 1"
    using step1 \<open>slots_of no_attempts ip = 0\<close> by (simp_all add: LOGIN_MAX_def)
  have 2: "failures_of t2 UserLogin = []" "slots_of t2 ip = 2"
    using unreadable_login [OF assms(1) 1(1) _ assms(3) [unfolded s]] 1(2) by (simp_all add: LOGIN_MAX_def)
  have 3: "slots_of t3 ip = 3"
    using unreadable_login [OF assms(1) 2(1) _ assms(4) [unfolded s]] 2(2) by (simp add: LOGIN_MAX_def)
  have "LOGIN_MAX \<le> slots_of t ip" using logins_full [OF assms(5), of ip] 3 by (simp add: s LOGIN_MAX_def)
  then have "\<not> fst (begin_login_attempt UserLogin ip started t)" unfolding slots_of_def by (rule begin_full)
  then obtain t'' where "begin_login_attempt UserLogin ip started t = (False, t'')"
    by (metis (full_types) fst_conv surj_pair)
  then show ?thesis by (simp add: user_login_def s Let_def)
qed

lemma logged_in_cases:
  assumes "user_login py_str sha kdf users_file today started finished lock fails now sid ip field passwd (t, c)
      = (Inr (LoggedIn sid' change), t', c')"
  obtains us cfg where "load_critical users_file = Inr us" "map_of us (py_strip field) = Some (JObj cfg)"
    "valid_username (py_strip field)" "text_or_empty py_str (dget cfg ''panel_pass_hash'' JNull) \<noteq> []"
    "\<exists>x. session_op lock fails (CreateSession (py_strip field) now
        (credential_generation sha (text_or_empty py_str (dget cfg ''panel_pass_hash'' JNull))) USER_SESSION_PANEL_PASSWORD sid) c
      = (Inr x, c')"
    "fst (begin_login_attempt UserLogin ip started t)" "length passwd \<le> PASSWORD_MAX_LENGTH"
    "verify_secret kdf passwd (text_or_empty py_str (dget cfg ''panel_pass_hash'' JNull))"
    "\<not> truthy (dget cfg ''disabled'' JNull)" "\<not> is_expired (JObj cfg) today"
proof -
  obtain g t1 where b: "begin_login_attempt UserLogin ip started t = (g, t1)" by fastforce
  have g: "g" using assms by (cases g) (simp_all add: user_login_def b Let_def)
  from assms obtain us where us: "load_critical users_file = Inr us"
    by (cases "load_critical users_file") (simp_all add: user_login_def b g Let_def)
  define cfg where "cfg = obj_of (case map_of us (py_strip field) of Some v \<Rightarrow> v | None \<Rightarrow> JNull)"
  define stored where "stored = text_or_empty py_str (dget cfg ''panel_pass_hash'' JNull)"
  from assms have ok: "password_accepted kdf (py_strip field) passwd stored \<and> \<not> truthy (dget cfg ''disabled'' JNull)
      \<and> \<not> is_expired (JObj cfg) today"
    by (auto simp: user_login_def b g us Let_def simp flip: cfg_def stored_def split: if_splits)
  from assms ok have op: "\<exists>x. session_op lock fails (CreateSession (py_strip field) now (credential_generation sha stored)
      USER_SESSION_PANEL_PASSWORD sid) c = (Inr x, c')"
    by (auto simp: user_login_def b g us Let_def simp flip: cfg_def stored_def split: if_splits sum.splits prod.splits)
  from ok have "stored \<noteq> []" by (simp add: password_accepted_def)
  then have m: "map_of us (py_strip field) = Some (JObj cfg)"
    by (auto simp: stored_def cfg_def obj_of_def dget_def text_or_empty_def split: option.splits json.splits)
  show ?thesis
    by (rule that [OF us m]) (use ok op b g in \<open>auto simp: password_accepted_def stored_def\<close>)
qed

text \<open>
  C18. A panel session is minted only for whoever knows the password: when the login answers with a
  session, the throttle had granted the attempt, the user file names the user, the password verifies
  against the stored hash, and the account is neither disabled nor expired.
\<close>

theorem user_login_sound:
  assumes "user_login py_str sha kdf users_file today started finished lock fails now sid ip field passwd (t, c)
      = (Inr (LoggedIn sid' change), t', c')"
  shows "fst (begin_login_attempt UserLogin ip started t)
    \<and> (\<exists>us cfg. load_critical users_file = Inr us \<and> map_of us (py_strip field) = Some (JObj cfg)
       \<and> valid_username (py_strip field) \<and> length passwd \<le> PASSWORD_MAX_LENGTH
       \<and> verify_secret kdf passwd (text_or_empty py_str (dget cfg ''panel_pass_hash'' JNull))
       \<and> \<not> truthy (dget cfg ''disabled'' JNull) \<and> \<not> is_expired (JObj cfg) today)"
  using assms by (rule logged_in_cases) blast


section \<open>Witnesses\<close>

definition demo_ip :: string where "demo_ip = ''192.0.2.1''"

definition demo_hash :: string where "demo_hash = hash_secret toy_kdf (replicate 16 7) ''secret''"

definition demo_login_users :: jfile where
  "demo_login_users = Doc (raw_of_json (JObj [(''bob'', JObj [(''panel_pass_hash'', JStr demo_hash)])]))"

definition demo_sha :: "string \<Rightarrow> string" where "demo_sha s = ''d1''"

lemma demo_hash_verifies: "verify_secret toy_kdf ''secret'' demo_hash"
  unfolding demo_hash_def
  by (rule conjunct1 [OF hash_secret_verifies [of "replicate 16 7" toy_kdf "''secret''" "''secret''"]])
    (simp_all add: toy_kdf_def PBKDF2_SALT_BYTES_def PBKDF2_DIGEST_BYTES_def PASSWORD_MAX_LENGTH_def)

lemma demo_hash_text: "demo_hash \<noteq> []"
  by (simp add: demo_hash_def hash_secret_def)

lemma demo_login_load: "load_critical demo_login_users = Inr [(''bob'', JObj [(''panel_pass_hash'', JStr demo_hash)])]"
  by (simp add: demo_login_users_def py_eval)

lemma demo_begin: "begin_login_attempt UserLogin demo_ip 10 no_attempts
    = (True, no_attempts\<lparr>inflight := [((UserLogin, demo_ip), 1)]\<rparr>)"
  by (simp add: begin_login_attempt_def prune_failures_locked_def times_of_def no_attempts_def inflight_of_def
      LOGIN_MAX_def Let_def fun_upd_def)

lemma demo_not_expired: "\<not> is_expired (JObj [(''panel_pass_hash'', JStr demo_hash)]) d"
  by (simp add: is_expired_def py_eval)

lemma demo_login:
  "user_login (\<lambda>_. []) demo_sha toy_kdf demo_login_users d 10 11 None (\<lambda>_. False) 1000 ''s1'' demo_ip ''bob'' ''secret''
     (no_attempts, quiet Missing) = (Inr (LoggedIn ''s1'' False), no_attempts, demo_session_cell)"
proof -
  have bob: "py_strip ''bob'' = ''bob''" "valid_username ''bob''" by code_simp+
  have ok: "password_accepted toy_kdf ''bob'' ''secret'' demo_hash"
    using bob demo_hash_verifies demo_hash_text by (simp add: password_accepted_def PASSWORD_MAX_LENGTH_def)
  have g: "credential_generation demo_sha demo_hash = ''d1''"
    using demo_hash_text by (simp add: credential_generation_def demo_sha_def)
  have fin: "finish_login_attempt UserLogin demo_ip (Some True) 11 (no_attempts\<lparr>inflight := [((UserLogin, demo_ip), 1)]\<rparr>) = no_attempts"
    by (simp add: finish_login_attempt_def clear_failures_def inflight_of_def no_attempts_def Let_def fun_eq_iff)
  show ?thesis
    using demo_not_expired demo_create_session
    by (simp add: user_login_def demo_begin demo_login_load bob obj_of_def dget_def text_or_empty_def ok g fin [simplified] Let_def)
qed


theorem login_slot_leak_witness:
  "\<exists>s. fst (user_login (\<lambda>_. []) demo_sha toy_kdf demo_login_users (YMD 2026 5 5) 10 11 None (\<lambda>_. False) 1000 ''s1'' demo_ip ''bob'' ''secret'' s)
     = Inr TooManyAttempts"
proof -
  let ?run = "user_login (\<lambda>_. []) demo_sha toy_kdf Missing (YMD 2026 5 5) 10 11 None (\<lambda>_. False) 1000 ''s1'' demo_ip ''bob'' ''secret''"
  obtain e where "load_critical Missing = Inl e" by (simp add: py_eval)
  moreover obtain a1 s1 where "?run (no_attempts, quiet Missing) = (a1, s1)" by (metis prod.collapse)
  moreover obtain a2 s2 where "?run s1 = (a2, s2)" by (metis prod.collapse)
  moreover obtain a3 s3 where "?run s2 = (a3, s3)" by (metis prod.collapse)
  ultimately show ?thesis using login_slot_leak [OF _ _ _ _ no_login] by meson
qed

theorem user_login_sound_witness:
  "\<exists>us cfg. load_critical demo_login_users = Inr us \<and> map_of us ''bob'' = Some (JObj cfg)"
proof -
  have "py_strip ''bob'' = ''bob''" by code_simp
  with user_login_sound [OF demo_login] show ?thesis by metis
qed


end
