(* ===== verification/PanelAccess.thy ===== *)
theory PanelAccess
  imports TrafficLimiter Sessions
begin

text \<open>
  The static access plan as the panel computes it, in \<^verbatim>\<open>hysteria/subscription_service.py\<close>: its own strict
  reading of ledger entries and settings, the plan, and its application to both proxies. The accounting
  tick computes the same plan in \<^verbatim>\<open>traffic_limiter.py\<close>; the two are compared at the end.
\<close>

section \<open>Strict readings\<close>

text \<open>
  One number: no boolean, and a string only in the form \<^verbatim>\<open>str\<close> prints. \<^verbatim>\<open>int\<close> truncates a float, and
  its OverflowError on an infinite one is not caught.
\<close>

definition canonical_int :: "json \<Rightarrow> int res" where
  "canonical_int value = (if is_bool value then Inl StateUnavailable
     else case py_int value of
         Inl e \<Rightarrow> Inl (if e = TypeError \<or> e = ValueError then StateUnavailable else e)
       | Inr parsed \<Rightarrow>
           if parsed < 0 \<or> (case value of JStr s \<Rightarrow> str_int parsed \<noteq> py_strip s | _ \<Rightarrow> False)
           then Inl StateUnavailable else Inr parsed)"

definition strict_usage_entry_total :: "json \<Rightarrow> int res" where
  "strict_usage_entry_total entry = (case entry of
      JObj d \<Rightarrow>
        if \<not> set (dkeys d) \<subseteq> {''tx'', ''rx'', ''total''} then Inl StateUnavailable
        else rbind (canonical_int (dget d ''tx'' (JInt 0))) (\<lambda>tx.
          rbind (canonical_int (dget d ''rx'' (JInt 0))) (\<lambda>rx.
          rbind (canonical_int (dget d ''total'' (JInt 0))) (\<lambda>total.
            if total \<noteq> tx + rx then Inl StateUnavailable else Inr total)))
    | JStr s \<Rightarrow> if s = [] then Inl StateUnavailable else canonical_int entry
    | _ \<Rightarrow> if \<not> is_bool entry \<and> \<not> truthy entry then Inr 0 else canonical_int entry)"

definition panel_meta_field :: "json dict \<Rightarrow> string \<Rightarrow> int \<Rightarrow> int \<Rightarrow> unit res" where
  "panel_meta_field meta f lo hi = (case map_of meta f of
      None \<Rightarrow> Inr ()
    | Some v \<Rightarrow> if is_bool v then Inl StateUnavailable
        else case py_int v of
            Inl e \<Rightarrow> Inl (if e = TypeError \<or> e = ValueError then StateUnavailable else e)
          | Inr parsed \<Rightarrow>
              if \<not> (lo \<le> parsed \<and> parsed \<le> hi) \<or> (case v of JStr s \<Rightarrow> str_int parsed \<noteq> py_strip s | _ \<Rightarrow> False)
              then Inl StateUnavailable else Inr ())"

definition validate_authorization_meta :: "json dict \<Rightarrow> unit res" where
  "validate_authorization_meta meta =
     rbind (panel_meta_field meta ''settlement_day'' 1 28) (\<lambda>_.
     rbind (panel_meta_field meta ''cycle_length_days'' CYCLE_LENGTH_MIN CYCLE_LENGTH_MAX) (\<lambda>_.
       let anchor = dget meta ''cycle_anchor_date'' JNull in
       if none_or_empty anchor then Inr ()
       else case anchor of
         JStr s \<Rightarrow> if strptime_ymd s = None then Inl StateUnavailable else Inr ()
       | _ \<Rightarrow> Inl StateUnavailable))"

section \<open>The plan\<close>

definition current_display_multiplier :: "string option \<Rightarrow> rat \<Rightarrow> jfile \<Rightarrow> rat res" where
  "current_display_multiplier env dflt f = (case effective_display_multiplier_strict env dflt f of
      Inl e \<Rightarrow> Inl (if e = ValueError then StateUnavailable else e) | Inr m \<Rightarrow> Inr m)"

definition strict_raw_on :: "json dict \<Rightarrow> string \<Rightarrow> string \<Rightarrow> int res" where
  "strict_raw_on daily uid dk = (case dget daily dk (JObj []) of
      JObj rows \<Rightarrow> strict_usage_entry_total (dget rows uid (JInt 0))
    | _ \<Rightarrow> Inl StateUnavailable)"

definition panel_over_quota :: "rat \<Rightarrow> json dict \<Rightarrow> string list \<Rightarrow> string \<Rightarrow> json dict \<Rightarrow> bool res" where
  "panel_over_quota multiplier daily days uid d =
     rbind (total_quota_bytes (JObj d)) (\<lambda>quota.
       if is_metered (JObj d) \<and> 0 < quota
       then rbind (collect (strict_raw_on daily uid) days) (\<lambda>totals.
         Inr (of_int quota \<le> float_times_int (sum_list totals) multiplier))
       else Inr False)"

text \<open>\<open>claimed\<close> are the UUIDs of the users already granted a credential.\<close>

fun panel_plan_from ::
  "iso_parser \<Rightarrow> rat \<Rightarrow> json dict \<Rightarrow> string list \<Rightarrow> date \<Rightarrow> int list \<Rightarrow> json dict \<Rightarrow> plan res" where
  "panel_plan_from isodt multiplier daily days today claimed [] = Inr []"
| "panel_plan_from isodt multiplier daily days today claimed ((username, cfg) # users) =
     (if \<not> valid_username username then Inl StateUnavailable
      else case cfg of
        JObj d \<Rightarrow> rbind (authorization_config_error isodt cfg) (\<lambda>e.
          if e \<noteq> None then Inl StateUnavailable
          else rbind (if is_inactive cfg today then Inr True else panel_over_quota multiplier daily days username d) (\<lambda>denied.
            if denied
            then rbind (panel_plan_from isodt multiplier daily days today claimed users) (\<lambda>plan. Inr ((username, None) # plan))
            else if vless_text d = [] then panel_plan_from isodt multiplier daily days today claimed users
            else (case uuid_value (vless_text d) of
                None \<Rightarrow> Inl StateUnavailable
              | Some n \<Rightarrow>
                  if n \<in> set claimed then Inl StateUnavailable
                  else rbind (panel_plan_from isodt multiplier daily days today (n # claimed) users)
                    (\<lambda>plan. Inr ((username, Some (vless_text d)) # plan)))))
      | _ \<Rightarrow> Inl StateUnavailable)"

definition panel_access_plan ::
  "iso_parser \<Rightarrow> rat res \<Rightarrow> json dict \<Rightarrow> json dict \<Rightarrow> json dict \<Rightarrow> datetime \<Rightarrow> plan res" where
  "panel_access_plan isodt multiplier users daily meta now =
     rbind (validate_authorization_meta meta) (\<lambda>_.
     rbind multiplier (\<lambda>m.
     rbind (cycle_days now None JNull None meta) (\<lambda>days.
       panel_plan_from isodt m daily days (dt_date now) [] users)))"

section \<open>Both proxies\<close>

definition recovered :: "proxy_io \<Rightarrow> string \<Rightarrow> bool \<Rightarrow> bool res \<Rightarrow> managed \<Rightarrow> bool res \<times> managed" where
  "recovered px name live r m = (case r of
      Inl e \<Rightarrow> (Inl e, m)
    | Inr changed \<Rightarrow> (case recover_if_pending (px_run px) (px_recover_faults px) name live (service m) of
        (Inl e, sv) \<Rightarrow> (Inl e, m\<lparr>service := sv\<rparr>)
      | (Inr _, sv) \<Rightarrow> (Inr changed, m\<lparr>service := sv\<rparr>)))"

definition sync_static_access_from_users ::
  "limiter_io \<Rightarrow> json dict \<Rightarrow> datetime \<Rightarrow> limiter_state \<Rightarrow> (bool \<times> bool) res \<times> limiter_state" where
  "sync_static_access_from_users io users now s =
     (if \<not> lim_live io then (Inr (False, False), s)
      else case rbind (load_critical (seen (c_daily s))) (\<lambda>daily.
          rbind (load_critical (seen (c_meta s))) (\<lambda>meta.
            panel_access_plan (lim_isodt io)
              (current_display_multiplier (lim_multiplier_env io) (lim_multiplier io) (lim_multiplier_file io))
              users daily meta now)) of
        Inl e \<Rightarrow> (Inl e, s)
      | Inr plan \<Rightarrow>
          (let (r, m) = apply_xray_plan (lim_xray io) plan (c_xray s);
               (rx, mx) = recovered (lim_xray io) ''xray'' True r m
           in case rx of
             Inl e \<Rightarrow> (Inl StateUnavailable, s\<lparr>c_xray := mx\<rparr>)
           | Inr xray_changed \<Rightarrow>
               (let (r', t, secret) = sync_user_plan (lim_tuic_files io) users plan (c_tuic s, c_secret s);
                    (rt, mt) = recovered (lim_tuic io) TUIC_SERVICE True r' t
                in (rbind (critical rt) (\<lambda>tuic_changed. Inr (xray_changed, tuic_changed)),
                    s\<lparr>c_xray := mx, c_tuic := mt, c_secret := secret\<rparr>))))"

section \<open>One plan, computed twice\<close>

lemma canonical_int_reads: "canonical_int v = Inr n \<Longrightarrow> py_int v = Inr n \<and> 0 \<le> n"
  by (auto simp: canonical_int_def split: if_splits sum.splits)

lemma strict_total_reads:
  assumes "strict_usage_entry_total (dget rows uid (JInt 0)) = Inr n"
  shows "entry_total (map_of rows uid) = Inr n"
proof (cases "map_of rows uid")
  case None
  with assms show ?thesis by (simp add: strict_usage_entry_total_def entry_total_def dget_def is_bool_def)
next
  case (Some v)
  then have s: "strict_usage_entry_total v = Inr n" using assms by (simp add: dget_def)
  show ?thesis
  proof (cases v)
    case (JObj d)
    with s have "canonical_int (dget d ''total'' (JInt 0)) = Inr n"
      by (auto simp: strict_usage_entry_total_def rbind_eq_Inr split: if_splits)
    with canonical_int_reads JObj Some show ?thesis by (simp add: entry_total_def)
  qed (use s Some canonical_int_reads [of v n] in
    \<open>auto simp: strict_usage_entry_total_def entry_total_def int_or_zero_def is_bool_def canonical_int_def split: if_splits\<close>)
qed

lemma strict_raw_reads: "strict_raw_on daily uid dk = Inr n \<Longrightarrow> raw_on daily uid dk = Inr n"
proof -
  assume s: "strict_raw_on daily uid dk = Inr n"
  show "raw_on daily uid dk = Inr n"
  proof (cases "map_of daily dk")
    case None
    with s show ?thesis
      by (simp add: strict_raw_on_def raw_on_def row_of_def dget_def strict_usage_entry_total_def entry_total_def is_bool_def)
  next
    case (Some v)
    with s obtain rows where "v = JObj rows" "strict_usage_entry_total (dget rows uid (JInt 0)) = Inr n"
      by (cases v) (simp_all add: strict_raw_on_def dget_def)
    with Some strict_total_reads show ?thesis by (simp add: raw_on_def row_of_def dget_def)
  qed
qed

lemma collect_weaker: "collect f xs = Inr ys \<Longrightarrow> (\<And>x y. f x = Inr y \<Longrightarrow> g x = Inr y) \<Longrightarrow> collect g xs = Inr ys"
  by (induction xs arbitrary: ys) (auto simp: rbind_eq_Inr)

lemma panel_over_quota_reads:
  assumes "panel_over_quota m daily days uid d = Inr b" and "cycle_days now None JNull None meta = Inr days"
  shows "over_quota m daily now meta uid d = Inr b"
  using assms(1) collect_weaker [where f = "strict_raw_on daily uid" and g = "raw_on daily uid", OF _ strict_raw_reads]
  by (fastforce simp: panel_over_quota_def over_quota_def cycle_used_raw_for_def assms(2) rbind_eq_Inr split: if_splits)

lemma panel_plan_from_reads:
  assumes "panel_plan_from isodt m daily days (dt_date now) claimed users = Inr plan"
    and days: "cycle_days now None JNull None meta = Inr days"
  shows "build_static_access_plan m users daily now meta = Inr (plan, map fst (filter (\<lambda>x. snd x = None) plan))"
  using assms(1)
proof (induction users arbitrary: claimed plan)
  case (Cons x users)
  obtain username cfg where x: "x = (username, cfg)" by (cases x)
  from Cons.prems x obtain d where cfg: "cfg = JObj d" by (cases cfg) (simp_all split: if_splits)
  from Cons.prems x cfg obtain b where b:
    "(if is_inactive (JObj d) (dt_date now) then Inr True else panel_over_quota m daily days username d) = Inr b"
    and rest: "(if b
            then rbind (panel_plan_from isodt m daily days (dt_date now) claimed users) (\<lambda>plan. Inr ((username, None) # plan))
            else if vless_text d = [] then panel_plan_from isodt m daily days (dt_date now) claimed users
            else (case uuid_value (vless_text d) of
                None \<Rightarrow> Inl StateUnavailable
              | Some n \<Rightarrow>
                  if n \<in> set claimed then Inl StateUnavailable
                  else rbind (panel_plan_from isodt m daily days (dt_date now) (n # claimed) users)
                    (\<lambda>plan. Inr ((username, Some (vless_text d)) # plan)))) = Inr plan"
    by (auto simp: rbind_eq_Inr split: if_splits)
  have denied: "(if is_inactive (JObj d) (dt_date now) then Inr True else over_quota m daily now meta username d) = Inr b"
    using b panel_over_quota_reads [OF _ days] by (auto split: if_splits)
  show ?case
  proof (cases b)
    case True
    with rest Cons.IH show ?thesis by (auto simp: x cfg denied rbind_eq_Inr)
  next
    case False
    show ?thesis
    proof (cases "vless_text d = []")
      case True
      with False rest Cons.IH show ?thesis by (simp add: x cfg denied)
    next
      case has: False
      with False rest Cons.IH show ?thesis by (auto simp: x cfg denied rbind_eq_Inr split: option.splits if_splits)
    qed
  qed
qed simp


text \<open>
  The converse fails on a number the tick accepts: after a restore or an edit that left a day's total
  as the text 007, the tick reads seven, and the panel refuses the whole state, so no plan is computed
  for anyone.
\<close>

lemma panel_refuses_what_tick_reads:
  "validate_usage_entry (JStr ''007'') = Inr () \<and> entry_total (Some (JStr ''007'')) = Inr 7
   \<and> strict_usage_entry_total (JStr ''007'') = Inl StateUnavailable"
  by (simp add: validate_usage_entry_def limiter_integer_def entry_total_def int_or_zero_def strict_usage_entry_total_def
      canonical_int_def py_eval is_digit_def)

lemma recovered_keeps:
  "recovered px name live r m = (Inr changed, m') \<Longrightarrow> r = Inr changed \<and> live_config m' = live_config m"
  by (auto simp: recovered_def split: sum.splits prod.splits)


section \<open>Witnesses\<close>

lemma panel_demo_plan: "panel_access_plan (\<lambda>_. None) (Inr 1) tick_users tick_daily tick_meta tick_now = Inr tick_plan"
  by code_simp



end
