(* ===== verification/Rotation.thy ===== *)
theory Rotation
  imports PanelAccess Sessions RotationRecovery
begin

text \<open>
  The self-service rotation of a subscription token in \<^verbatim>\<open>hysteria/subscription_service.py\<close>: one request
  prepares a receipt and a revocation task, writes the user file, and brings both proxies up to date. The
  state is the core state of the host, the session file, the receipts and the queue.
\<close>

section \<open>State, surroundings and answers\<close>

record panel =
  p_core :: limiter_state
  p_sessions :: cell
  p_receipts :: cell
  p_queue :: cell

text \<open>
  What one request meets: the usage lock, the write of the user file, and for each of the seven steps on
  another file its lock, its failing system calls and its reading of the clock, in the order of the code.
\<close>

record rotation_io =
  rot_host :: limiter_io
  rot_lock :: "exc option"
  rot_save_faults :: faults
  rot_at :: "nat \<Rightarrow> exc option \<times> faults \<times> int"
  rot_today :: date
  rot_now :: datetime
  rot_token :: string
  rot_uuid :: string

record rotated =
  r_token :: string
  r_config :: "json dict"
  r_xray_changed :: bool
  r_tuic_changed :: bool
  r_sync_pending :: bool
  r_uncertain :: bool
  r_task :: string
  r_replayed :: bool

datatype rotation_answer = BadRequest | Forbidden | AccountOff | AccountExpired | Conflict | Rotated rotated

text \<open>A step goes on with a value, or ends the request with an answer or an exception.\<close>

datatype 'a outcome = Go 'a | End "rotation_answer res"

section \<open>The session\<close>

definition check_rotation_session ::
  "(json \<Rightarrow> string) \<Rightarrow> (string \<Rightarrow> string) \<Rightarrow> json dict \<Rightarrow> string \<Rightarrow> string \<Rightarrow> string \<Rightarrow> json dict \<Rightarrow> bool res" where
  "check_rotation_session py_str sha alive sid user posted cfg = (case map_of alive sid of
      Some (JObj info) \<Rightarrow>
        if dget info ''user'' JNull \<noteq> JStr user then Inr False
        else (let kind0 = text_or_empty py_str (dget info ''credential_kind'' JNull);
                  kind = (if kind0 = [] then USER_SESSION_PANEL_PASSWORD else kind0);
                  generation = text_or_empty py_str (dget info ''credential_generation'' JNull)
              in if kind = USER_SESSION_SUBSCRIPTION_TOKEN
                 then if generation = [] then Inr False else compare_digest generation (credential_generation sha posted)
                 else if kind = USER_SESSION_PANEL_PASSWORD
                 then (let current = credential_generation sha (text_or_empty py_str (dget cfg ''panel_pass_hash'' JNull))
                       in if generation = [] then Inr True
                          else if current = [] then Inr False else compare_digest generation current)
                 else Inr False)
    | _ \<Rightarrow> Inr False)"

definition rotation_session_allows ::
  "(json \<Rightarrow> string) \<Rightarrow> (string \<Rightarrow> string) \<Rightarrow> exc option \<times> faults \<times> int \<Rightarrow> string \<Rightarrow> string \<Rightarrow> string \<Rightarrow> json dict
   \<Rightarrow> cell \<Rightarrow> bool res \<times> cell" where
  "rotation_session_allows py_str sha moment sid user posted cfg c = (case moment of (lock, fails, now) \<Rightarrow>
     if sid = [] then (Inr False, c)
     else case session_op lock fails (GetSessions now) c of
         (Inl e, c') \<Rightarrow> (Inl e, c')
       | (Inr (Sessions alive), c') \<Rightarrow> (check_rotation_session py_str sha alive sid user posted cfg, c')
       | (Inr _, c') \<Rightarrow> (Inr False, c'))"

section \<open>The user file\<close>

definition visible_rotation_matches :: "(json \<Rightarrow> string) \<Rightarrow> jfile \<Rightarrow> string \<Rightarrow> string \<Rightarrow> string \<Rightarrow> bool res" where
  "visible_rotation_matches py_str f user new_token new_uuid = (case load_dict f True of
      Inl e \<Rightarrow> Inr False
    | Inr visible \<Rightarrow> (case map_of visible user of
        Some (JObj cfg) \<Rightarrow>
          if \<not> safe_secret_equal (text_or_empty py_str (dget cfg ''sub_token'' JNull)) new_token then Inr False
          else compare_digest (text_or_empty py_str (dget cfg ''vless_uuid'' JNull)) new_uuid
      | _ \<Rightarrow> Inr False))"

definition save_users_for_rotation ::
  "(json \<Rightarrow> string) \<Rightarrow> faults \<Rightarrow> json dict \<Rightarrow> string \<Rightarrow> string \<Rightarrow> string \<Rightarrow> cell \<Rightarrow> bool res \<times> cell" where
  "save_users_for_rotation py_str fails users user new_token new_uuid c = (case panel_save fails users c of
      (None, c') \<Rightarrow> (Inr False, c')
    | (Some e, c') \<Rightarrow>
        if e \<noteq> DurabilityUncertain then (Inl e, c')
        else (case visible_rotation_matches py_str (seen c') user new_token new_uuid of
            Inl e' \<Rightarrow> (Inl e', c')
          | Inr visible \<Rightarrow> if visible then (Inr True, c') else (Inl e, c')))"

section \<open>Receipt and task\<close>

text \<open>\<^verbatim>\<open>rotation_recovery.lookup_bound\<close> and \<^verbatim>\<open>rotation_recovery.prepare\<close> as the request calls them.\<close>

definition find_receipt ::
  "(string \<Rightarrow> string) \<Rightarrow> exc option \<times> faults \<times> int \<Rightarrow> string \<Rightarrow> string \<Rightarrow> string \<Rightarrow> panel
   \<Rightarrow> json dict option outcome \<times> panel" where
  "find_receipt hex moment user request_id session_id s = (case moment of (lock, fails, now) \<Rightarrow>
     (case receipt_op hex lock fails (LookupBound user request_id session_id now) (p_receipts s) of
        (Inr (Found found), c) \<Rightarrow> (Go found, s\<lparr>p_receipts := c\<rparr>)
      | (Inr _, c) \<Rightarrow> (Go None, s\<lparr>p_receipts := c\<rparr>)
      | (Inl e, c) \<Rightarrow> (End (Inl e), s\<lparr>p_receipts := c\<rparr>)))"

definition prepare_receipt ::
  "(string \<Rightarrow> string) \<Rightarrow> exc option \<times> faults \<times> int \<Rightarrow> string \<Rightarrow> string \<Rightarrow> string \<Rightarrow> string \<Rightarrow> string \<Rightarrow> string \<Rightarrow> string
   \<Rightarrow> panel \<Rightarrow> json dict outcome \<times> panel" where
  "prepare_receipt hex moment user request_id session_id old_gen new_gen new_token new_uuid s = (case moment of (lock, fails, now) \<Rightarrow>
     (case receipt_op hex lock fails
          (PrepareReceipt user request_id session_id old_gen new_gen new_token new_uuid now) (p_receipts s) of
        (Inr (Receipt it), c) \<Rightarrow> (Go it, s\<lparr>p_receipts := c\<rparr>)
      | (Inr _, c) \<Rightarrow> (End (Inl TypeError), s\<lparr>p_receipts := c\<rparr>)
      | (Inl e, c) \<Rightarrow> (End (if e = PermissionError then Inr Forbidden else Inl e), s\<lparr>p_receipts := c\<rparr>)))"

text \<open>
  The receipt to work with: the one found, prepared again, or a new one for a request that proves its
  session and the present token of an active account.
\<close>

definition rotation_receipt ::
  "(json \<Rightarrow> string) \<Rightarrow> (string \<Rightarrow> string) \<Rightarrow> (string \<Rightarrow> string) \<Rightarrow> rotation_io \<Rightarrow> string \<Rightarrow> string \<Rightarrow> string \<Rightarrow> string
   \<Rightarrow> json dict \<Rightarrow> json dict option \<Rightarrow> panel \<Rightarrow> json dict outcome \<times> panel" where
  "rotation_receipt py_str sha hex io user posted request_id session_id cfg found s =
     (let current_token = text_or_empty py_str (dget cfg ''sub_token'' JNull) in
      case found of
        None \<Rightarrow> (case rotation_session_allows py_str sha (rot_at io 2) session_id user posted cfg (p_sessions s) of
            (Inl e, c) \<Rightarrow> (End (Inl e), s\<lparr>p_sessions := c\<rparr>)
          | (Inr allowed, c) \<Rightarrow>
              (let s1 = s\<lparr>p_sessions := c\<rparr> in
               if \<not> allowed then (End (Inr Forbidden), s1)
               else if \<not> safe_secret_equal posted current_token then (End (Inr Forbidden), s1)
               else if truthy (dget cfg ''disabled'' JNull) then (End (Inr AccountOff), s1)
               else if is_expired (JObj cfg) (rot_today io) then (End (Inr AccountExpired), s1)
               else prepare_receipt hex (rot_at io 3) user request_id session_id (credential_generation sha current_token)
                 (credential_generation sha (rot_token io)) (rot_token io) (rot_uuid io) s1))
      | Some receipt \<Rightarrow> prepare_receipt hex (rot_at io 3) user request_id session_id
          (str_field receipt ''old_generation'') (str_field receipt ''new_generation'')
          (str_field receipt ''new_token'') (str_field receipt ''new_uuid'') s)"

definition queue_rotation ::
  "(string \<Rightarrow> string) \<Rightarrow> exc option \<times> faults \<times> int \<Rightarrow> string \<Rightarrow> string \<Rightarrow> json dict \<Rightarrow> panel \<Rightarrow> unit outcome \<times> panel" where
  "queue_rotation hex moment user request_id receipt s = (case moment of (lock, fails, now) \<Rightarrow>
     (case queue_op lock fails (Prepare (task_id_for hex user request_id) user (str_field receipt ''old_generation'')
          (str_field receipt ''new_generation'') SERVICES now) (p_queue s) of
        (Inl e, c) \<Rightarrow> (End (if e = PermissionError then Inr Conflict else Inl e), s\<lparr>p_queue := c\<rparr>)
      | (Inr _, c) \<Rightarrow> (Go (), s\<lparr>p_queue := c\<rparr>)))"

section \<open>The commit\<close>

definition withdraw ::
  "(string \<Rightarrow> string) \<Rightarrow> rotation_io \<Rightarrow> string \<Rightarrow> string \<Rightarrow> panel \<Rightarrow> rotation_answer res \<times> panel" where
  "withdraw hex io user request_id s = (case (rot_at io 5, rot_at io 6) of ((l5, f5, _), (l6, f6, _)) \<Rightarrow>
     (case receipt_op hex l5 f5 (DiscardReceipt user request_id) (p_receipts s) of
        (Inl e, c) \<Rightarrow> (Inl e, s\<lparr>p_receipts := c\<rparr>)
      | (Inr _, c) \<Rightarrow> (case queue_op l6 f6 (Discard (task_id_for hex user request_id)) (p_queue s) of
          (Inl e, c') \<Rightarrow> (Inl e, s\<lparr>p_receipts := c, p_queue := c'\<rparr>)
        | (Inr _, c') \<Rightarrow> (Inr Conflict, s\<lparr>p_receipts := c, p_queue := c'\<rparr>))))"

definition rotated_config :: "json dict \<Rightarrow> json dict \<Rightarrow> json dict" where
  "rotated_config receipt cfg = AList.update ''vless_uuid'' (JStr (str_field receipt ''new_uuid''))
     (AList.update ''sub_token'' (JStr (str_field receipt ''new_token'')) cfg)"

text \<open>The write of the user file and what follows it.\<close>

definition write_rotation ::
  "(json \<Rightarrow> string) \<Rightarrow> (string \<Rightarrow> string) \<Rightarrow> rotation_io \<Rightarrow> string \<Rightarrow> string \<Rightarrow> bool \<Rightarrow> json dict \<Rightarrow> json dict \<Rightarrow> json dict
   \<Rightarrow> panel \<Rightarrow> rotation_answer res \<times> panel" where
  "write_rotation py_str hex io user request_id replayed receipt users cfg s =
     (let answer = (\<lambda>xc tc pending uncertain. Rotated \<lparr>r_token = str_field receipt ''new_token'', r_config = cfg,
            r_xray_changed = xc, r_tuic_changed = tc, r_sync_pending = pending, r_uncertain = uncertain,
            r_task = task_id_for hex user request_id, r_replayed = replayed\<rparr>)
      in case save_users_for_rotation py_str (rot_save_faults io) users user (str_field receipt ''new_token'')
            (str_field receipt ''new_uuid'') (c_users (p_core s)) of
        (Inl e, c) \<Rightarrow> (Inl e, s\<lparr>p_core := (p_core s)\<lparr>c_users := c\<rparr>\<rparr>)
      | (Inr uncertain, c) \<Rightarrow>
          (let s1 = s\<lparr>p_core := (p_core s)\<lparr>c_users := c\<rparr>\<rparr> in
           if uncertain then (Inr (answer False False True True), s1)
           else case sync_static_access_from_users (rot_host io) users (rot_now io) (p_core s1) of
               (Inr (xc, tc), core) \<Rightarrow> (Inr (answer xc tc False False), s1\<lparr>p_core := core\<rparr>)
             | (Inl e, core) \<Rightarrow>
                 (if e = StateUnavailable then Inr (answer False False True False) else Inl e, s1\<lparr>p_core := core\<rparr>)))"

definition commit_rotation ::
  "(json \<Rightarrow> string) \<Rightarrow> (string \<Rightarrow> string) \<Rightarrow> (string \<Rightarrow> string) \<Rightarrow> rotation_io \<Rightarrow> string \<Rightarrow> string \<Rightarrow> string \<Rightarrow> bool
   \<Rightarrow> json dict \<Rightarrow> json dict \<Rightarrow> json dict \<Rightarrow> panel \<Rightarrow> rotation_answer res \<times> panel" where
  "commit_rotation py_str sha hex io user posted request_id replayed receipt users cfg s =
     (let current_token = text_or_empty py_str (dget cfg ''sub_token'' JNull);
          current_generation = credential_generation sha current_token
      in case rbind (compare_digest current_generation (str_field receipt ''new_generation'')) (\<lambda>same.
            if same then compare_digest (text_or_empty py_str (dget cfg ''vless_uuid'' JNull)) (str_field receipt ''new_uuid'')
            else Inr False) of
        Inl e \<Rightarrow> (Inl e, s)
      | Inr True \<Rightarrow> write_rotation py_str hex io user request_id replayed receipt users cfg s
      | Inr False \<Rightarrow> (case compare_digest current_generation (str_field receipt ''old_generation'') of
          Inl e \<Rightarrow> (Inl e, s)
        | Inr previous \<Rightarrow>
            if \<not> previous \<or> \<not> safe_secret_equal posted current_token then withdraw hex io user request_id s
            else (let cfg' = rotated_config receipt cfg in
              write_rotation py_str hex io user request_id replayed receipt
                (AList.update user (JObj cfg') users) cfg' s)))"

section \<open>The request\<close>

definition locked_rotation ::
  "(json \<Rightarrow> string) \<Rightarrow> (string \<Rightarrow> string) \<Rightarrow> (string \<Rightarrow> string) \<Rightarrow> rotation_io \<Rightarrow> string \<Rightarrow> string \<Rightarrow> string \<Rightarrow> string
   \<Rightarrow> json dict option \<Rightarrow> panel \<Rightarrow> rotation_answer res \<times> panel" where
  "locked_rotation py_str sha hex io user posted request_id session_id found0 s =
     (case load_critical (seen (c_users (p_core s))) of
        Inl e \<Rightarrow> (Inl e, s)
      | Inr users \<Rightarrow> (case map_of users user of
          Some (JObj cfg) \<Rightarrow>
            (case (if found0 = None then find_receipt hex (rot_at io 1) user request_id session_id s else (Go found0, s)) of
               (End a, s1) \<Rightarrow> (a, s1)
             | (Go found, s1) \<Rightarrow>
                 (case rotation_receipt py_str sha hex io user posted request_id session_id cfg found s1 of
                    (End a, s2) \<Rightarrow> (a, s2)
                  | (Go receipt, s2) \<Rightarrow>
                      (case queue_rotation hex (rot_at io 4) user request_id receipt s2 of
                         (End a, s3) \<Rightarrow> (a, s3)
                       | (Go _, s3) \<Rightarrow>
                           commit_rotation py_str sha hex io user posted request_id (found \<noteq> None) receipt users cfg s3)))
        | _ \<Rightarrow> (Inr Forbidden, s)))"

definition recoverable_user_rotation ::
  "(json \<Rightarrow> string) \<Rightarrow> (string \<Rightarrow> string) \<Rightarrow> (string \<Rightarrow> string) \<Rightarrow> rotation_io \<Rightarrow> string \<Rightarrow> string \<Rightarrow> string \<Rightarrow> string
   \<Rightarrow> panel \<Rightarrow> rotation_answer res \<times> panel" where
  "recoverable_user_rotation py_str sha hex io user posted request_id session_id s =
     (if \<not> valid_request_id request_id then (Inr BadRequest, s)
      else case find_receipt hex (rot_at io 0) user request_id session_id s of
        (End a, s1) \<Rightarrow> (a, s1)
      | (Go found, s1) \<Rightarrow> (case rot_lock io of
          Some e \<Rightarrow> (Inl e, s1)
        | None \<Rightarrow> locked_rotation py_str sha hex io user posted request_id session_id found s1))"

section \<open>Receipt and task are durable before the user file is touched\<close>

lemma receipt_bounds: "receipt_valid k it \<Longrightarrow> length (str_field it ''new_token'') \<le> 512 \<and> length (str_field it ''new_uuid'') \<le> 128"
  by (simp add: receipt_valid_def)

lemma prepared_receipt_durable:
  assumes "hex_digest hex" and "rop_ok (PrepareReceipt u rid sid og ng tok uuid now)"
    and op: "receipt_op hex lock fails (PrepareReceipt u rid sid og ng tok uuid now) c = (Inr (Receipt it), c')"
  shows "cell_safe check_receipts (\<lambda>d. map_of d (receipt_key hex u rid) = Some (JObj it)) c'"
proof -
  let ?op = "PrepareReceipt u rid sid og ng tok uuid now"
  have g: "rguard ?op c = None" using op by (auto simp: receipt_op_def split: if_splits)
  then have "transact put_private lock check_receipts (rbody hex ?op) fails c = (Inr (Receipt it), c')"
    using op by (simp add: receipt_op_def)
  from transact_reads [OF this] obtain d where l: "cell_load check_receipts (seen c) = Inr d" by blast
  have ok: "rop_ok ?op \<and> hex_digest hex" using assms(1,2) by blast
  have never: "rbody hex ?op d \<noteq> (Inr (Receipt it), None)"
    by (auto simp: prepare_receipt_body_def map_res_def Let_def split: option.splits sum.splits bool.splits if_splits)
  with receipt_store.op_success [OF l op ok g TrueI] obtain d' where
    b: "rbody hex ?op d = (Inr (Receipt it), Some d')" and c': "cell_load check_receipts (seen c') = Inr d'" "after_crash c' = {seen c'}"
    by blast
  have "map_of d' (receipt_key hex u rid) = Some (JObj it)"
  proof (cases "map_of (prune d now) (receipt_key hex u rid)")
    case None
    with b show ?thesis by (auto simp: prepare_receipt_body_def map_res_def Let_def split: if_splits)
  next
    case (Some j)
    with b have d': "d' = prune d now" "it = obj_of j"
      by (auto simp: prepare_receipt_body_def map_res_def Let_def split: sum.splits bool.splits)
    from receipts_lookup [OF receipts_prune [OF cell_load_ok [OF l]] Some] obtain it' where "j = JObj it'" by blast
    with d' Some show ?thesis by (simp add: obj_of_def)
  qed
  with c' show ?thesis by (simp add: cell_safe_def)
qed

definition task_for :: "string \<Rightarrow> string \<Rightarrow> string \<Rightarrow> string \<Rightarrow> json dict \<Rightarrow> bool" where
  "task_for i user previous target q \<longleftrightarrow> (\<exists>x. abs_queue q i = Some x \<and> t_user x = user \<and> t_previous x = previous \<and> t_target x = target)"

lemma prepared_task_durable:
  assumes op: "queue_op lock fails (Prepare i u p t SERVICES now) c = (Inr r, c')" and "0 < now"
  shows "cell_safe check_queue (task_for i u p t) c'"
proof -
  let ?op = "Prepare i u p t SERVICES now"
  have g: "qguard ?op = None" using op by (auto simp: queue_op_def split: if_splits)
  then have "transact put_private lock check_queue (qbody ?op) fails c = (Inr r, c')"
    using op by (simp add: queue_op_def)
  from transact_reads [OF this] obtain d where l: "cell_load check_queue (seen c) = Inr d" by blast
  have ok: "op_time_ok ?op" using assms(2) by (simp add: op_time_ok_def)
  have never: "qbody ?op d \<noteq> (Inr r, None)"
    by (auto simp: prepare_body_def retain_pending_def map_res_def Let_def split: option.splits sum.splits bool.splits if_splits)
  with queue_store.op_success [OF l op ok g TrueI] obtain d' where
    b: "qbody ?op d = (Inr r, Some d')" and c': "cell_load check_queue (seen c') = Inr d'" "after_crash c' = {seen c'}"
    by blast
  have "task_for i u p t d'"
  proof (cases "map_of d i")
    case None
    with b have "d' = AList.update i (JObj (new_task u p t (service_set SERVICES) now)) d"
      by (auto simp: prepare_body_def retain_pending_def map_res_def Let_def split: if_splits)
    then show ?thesis by (simp add: task_for_def abs_queue_update abs_new_task fresh_task_def)
  next
    case (Some j)
    with b have d': "d' = d" and m: "binding_matches (obj_of j) u p t = Inr True"
      by (auto simp: prepare_body_def retain_pending_def map_res_def Let_def split: sum.splits bool.splits)
    then show ?thesis using Some
      by (auto simp: task_for_def abs_queue_def abs_task_def binding_matches_def compare_digest_def str_of_def
          rbind_eq_Inr split: if_splits)
  qed
  with c' show ?thesis by (simp add: cell_safe_def)
qed

lemma find_receipt_frame:
  "find_receipt hex moment user rid sid s = (x, s') \<Longrightarrow>
     p_core s' = p_core s \<and> p_queue s' = p_queue s \<and> p_sessions s' = p_sessions s"
  by (auto simp: find_receipt_def split: prod.splits sum.splits rresult.splits)

lemma prepare_receipt_frame:
  "prepare_receipt hex moment user rid sid og ng tok uuid s = (x, s') \<Longrightarrow> p_core s' = p_core s \<and> p_queue s' = p_queue s"
  by (auto simp: prepare_receipt_def split: prod.splits sum.splits rresult.splits)

lemma rotation_receipt_frame:
  "rotation_receipt py_str sha hex io user posted rid sid cfg found s = (x, s') \<Longrightarrow> p_core s' = p_core s \<and> p_queue s' = p_queue s"
  by (auto simp: rotation_receipt_def Let_def split: prod.splits sum.splits option.splits if_splits dest: prepare_receipt_frame)

lemma queue_rotation_frame:
  "queue_rotation hex moment user rid receipt s = (x, s') \<Longrightarrow> p_core s' = p_core s \<and> p_receipts s' = p_receipts s"
  by (auto simp: queue_rotation_def split: prod.splits sum.splits)

lemma withdraw_frame: "withdraw hex io user rid s = (r, s') \<Longrightarrow> p_core s' = p_core s \<and> (\<forall>a. r \<noteq> Inr (Rotated a))"
  by (auto simp: withdraw_def split: prod.splits sum.splits)

lemma find_receipt_found:
  assumes "find_receipt hex (lock, fails, now) user rid sid s = (Go (Some it), s')"
  shows "\<exists>d. cell_load check_receipts (seen (p_receipts s)) = Inr d
    \<and> map_of d (receipt_key hex user rid) = Some (JObj it) \<and> receipt_valid (receipt_key hex user rid) it
    \<and> session_digest hex sid \<in> set (digests_of it) \<and> now < int_field it ''expires_at'' 0"
proof -
  let ?op = "LookupBound user rid sid now"
  obtain c where op: "receipt_op hex lock fails ?op (p_receipts s) = (Inr (Found (Some it)), c)"
    using assms by (auto simp: find_receipt_def split: prod.splits sum.splits rresult.splits)
  then have g: "rguard ?op (p_receipts s) = None" by (auto simp: receipt_op_def split: if_splits)
  with op have "transact put_private lock check_receipts (rbody hex ?op) fails (p_receipts s) = (Inr (Found (Some it)), c)"
    by (simp add: receipt_op_def)
  from transact_reads [OF this] obtain d where l: "cell_load check_receipts (seen (p_receipts s)) = Inr d" by blast
  from lookup_found [OF l op] have f: "map_of d (receipt_key hex user rid) = Some (JObj it)"
    "session_digest hex sid \<in> set (digests_of it)" "now < int_field it ''expires_at'' 0" by blast+
  from receipts_lookup [OF cell_load_ok [OF l] f(1)] have "receipt_valid (receipt_key hex user rid) it" by blast
  with l f show ?thesis by blast
qed

text \<open>What a lookup leaves in the file was there before it.\<close>

lemma find_receipt_shrinks:
  assumes "find_receipt hex (lock, fails, now) user rid sid s = (x, s')" and "hex_digest hex"
    and "cell_load check_receipts (seen (p_receipts s')) = Inr d'"
  shows "\<exists>d. cell_load check_receipts (seen (p_receipts s)) = Inr d \<and> (\<forall>k v. map_of d' k = Some v \<longrightarrow> map_of d k = Some v)"
proof -
  let ?op = "LookupBound user rid sid now"
  obtain r c where op: "receipt_op hex lock fails ?op (p_receipts s) = (r, c)" by fastforce
  with assms(1) have c: "p_receipts s' = c" by (auto simp: find_receipt_def split: sum.splits rresult.splits)
  show ?thesis
  proof (cases "rguard ?op (p_receipts s)")
    case (Some a)
    with op have "c = p_receipts s" by (simp add: receipt_op_def)
    with c assms(3) show ?thesis by auto
  next
    case None
    with op have t: "transact put_private lock check_receipts (rbody hex ?op) fails (p_receipts s) = (r, c)"
      by (simp add: receipt_op_def)
    from put_private_atomic t show ?thesis
    proof (rule transact_changes)
      show "refused put_private e \<or> cell_ok check_receipts e"
        if l: "cell_load check_receipts (seen (p_receipts s)) = Inr d" and b: "rbody hex ?op d = (q, Some e)" for d q e
      proof -
        from b have "e = prune d now"
          by (auto simp: map_res_def lookup_bound_body_def Let_def split: option.splits json.splits sum.splits bool.splits if_splits)
        with receipts_prune [OF cell_load_ok [OF l]] show ?thesis by simp
      qed
      show ?thesis if "seen c = seen (p_receipts s)" using that c assms(3) by auto
      show ?thesis if l: "cell_load check_receipts (seen (p_receipts s)) = Inr d" and b: "rbody hex ?op d = (q, Some e)"
        and e: "cell_load check_receipts (seen c) = Inr e" for d q e
      proof -
        from b have p: "e = prune d now"
          by (auto simp: map_res_def lookup_bound_body_def Let_def split: option.splits json.splits sum.splits bool.splits if_splits)
        have "wf_dict d" using cell_load_ok [OF l] by (simp add: cell_ok_def)
        with p e c assms(3) l show ?thesis by (auto simp: map_of_prune split: option.splits if_splits)
      qed
    qed
  qed
qed

text \<open>The two ways to a receipt: one bound to the session was there, or the request proves itself.\<close>

definition fresh_request ::
  "(json \<Rightarrow> string) \<Rightarrow> (string \<Rightarrow> string) \<Rightarrow> rotation_io \<Rightarrow> string \<Rightarrow> string \<Rightarrow> string \<Rightarrow> json dict \<Rightarrow> cell \<Rightarrow> bool" where
  "fresh_request py_str sha io user posted sid cfg sess \<longleftrightarrow> sid \<noteq> []
     \<and> (\<exists>d alive. cell_load (\<lambda>_. Inr ()) (seen sess) = Inr d \<and> alive_sessions (snd (snd (rot_at io 2))) d = Inr alive
         \<and> check_rotation_session py_str sha alive sid user posted cfg = Inr True)
     \<and> safe_secret_equal posted (text_or_empty py_str (dget cfg ''sub_token'' JNull))
     \<and> \<not> truthy (dget cfg ''disabled'' JNull) \<and> \<not> is_expired (JObj cfg) (rot_today io)"

definition bound_receipt :: "(string \<Rightarrow> string) \<Rightarrow> string \<Rightarrow> string \<Rightarrow> string \<Rightarrow> cell \<Rightarrow> bool" where
  "bound_receipt hex user rid sid c \<longleftrightarrow> (\<exists>d it. cell_load check_receipts (seen c) = Inr d
     \<and> map_of d (receipt_key hex user rid) = Some (JObj it) \<and> session_digest hex sid \<in> set (digests_of it))"

lemma session_allows:
  assumes "rotation_session_allows py_str sha moment sid user posted cfg c = (Inr True, c')"
  shows "sid \<noteq> [] \<and> (\<exists>d alive. cell_load (\<lambda>_. Inr ()) (seen c) = Inr d \<and> alive_sessions (snd (snd moment)) d = Inr alive
    \<and> check_rotation_session py_str sha alive sid user posted cfg = Inr True)"
proof -
  obtain lock fails now where m: "moment = (lock, fails, now)" by (metis prod_cases3)
  have sid: "sid \<noteq> []" using assms by (auto simp: rotation_session_allows_def m)
  obtain a c1 where s: "session_op lock fails (GetSessions now) c = (a, c1)" by fastforce
  with assms sid obtain x where a: "a = Inr x" by (cases a) (auto simp: rotation_session_allows_def m)
  from get_sessions_reads [OF s [unfolded a]] obtain d alive where
    "cell_load (\<lambda>_. Inr ()) (seen c) = Inr d" "alive_sessions now d = Inr alive" "x = Sessions alive" by blast
  with assms sid s a show ?thesis by (auto simp: rotation_session_allows_def m)
qed

definition rotation_io_ok :: "rotation_io \<Rightarrow> bool" where
  "rotation_io_ok io \<longleftrightarrow> (\<forall>k. 0 < snd (snd (rot_at io k))) \<and> length (rot_token io) \<le> 512 \<and> length (rot_uuid io) \<le> 128"

lemma prepare_receipt_go:
  assumes "hex_digest hex" and "0 < snd (snd moment)" "length tok \<le> 512" "length uuid \<le> 128"
    and "prepare_receipt hex moment user rid sid og ng tok uuid s = (Go it, s')"
  shows "cell_safe check_receipts (\<lambda>d. map_of d (receipt_key hex user rid) = Some (JObj it)) (p_receipts s')"
proof -
  obtain lock fails now where m: "moment = (lock, fails, now)" by (metis prod_cases3)
  from assms(5) obtain c where "receipt_op hex lock fails (PrepareReceipt user rid sid og ng tok uuid now) (p_receipts s) = (Inr (Receipt it), c)"
    and s': "p_receipts s' = c" by (auto simp: prepare_receipt_def m split: prod.splits sum.splits rresult.splits)
  from prepared_receipt_durable [OF assms(1) _ this(1)] assms(2-4) s' show ?thesis by (simp add: rop_ok_def m)
qed

lemma rotation_receipt_go:
  assumes "hex_digest hex" and io: "rotation_io_ok io" and found: "\<And>it. found = Some it \<Longrightarrow> receipt_valid (receipt_key hex user rid) it"
    and run: "rotation_receipt py_str sha hex io user posted rid sid cfg found s = (Go receipt, s')"
  shows "cell_safe check_receipts (\<lambda>d. map_of d (receipt_key hex user rid) = Some (JObj receipt)) (p_receipts s')"
    and "found = None \<Longrightarrow> fresh_request py_str sha io user posted sid cfg (p_sessions s)"
proof -
  have now: "0 < snd (snd (rot_at io 3))" and own: "length (rot_token io) \<le> 512" "length (rot_uuid io) \<le> 128"
    using io unfolding rotation_io_ok_def by blast+
  show "cell_safe check_receipts (\<lambda>d. map_of d (receipt_key hex user rid) = Some (JObj receipt)) (p_receipts s')"
  proof (cases found)
    case (Some it)
    with run receipt_bounds [OF found [OF Some]] prepare_receipt_go [OF assms(1) now] show ?thesis
      by (auto simp: rotation_receipt_def Let_def)
  next
    case None
    with run prepare_receipt_go [OF assms(1) now own] show ?thesis
      by (auto simp: rotation_receipt_def Let_def split: prod.splits sum.splits if_splits)
  qed
  show "fresh_request py_str sha io user posted sid cfg (p_sessions s)" if "found = None"
  proof -
    obtain b c where a: "rotation_session_allows py_str sha (rot_at io 2) sid user posted cfg (p_sessions s) = (b, c)" by fastforce
    with run that have b: "b = Inr True" and rest: "safe_secret_equal posted (text_or_empty py_str (dget cfg ''sub_token'' JNull))"
      "\<not> truthy (dget cfg ''disabled'' JNull)" "\<not> is_expired (JObj cfg) (rot_today io)"
      by (auto simp: rotation_receipt_def Let_def split: sum.splits if_splits)
    from session_allows [OF a [unfolded b]] rest show ?thesis by (auto simp: fresh_request_def)
  qed
qed

lemma sync_users_kept: "sync_static_access_from_users io users now s = (r, s') \<Longrightarrow> c_users s' = c_users s"
  by (auto simp: sync_static_access_from_users_def Let_def split: if_splits sum.splits prod.splits)

text \<open>The contents a file may have after a write: those it might have had before, and the new one.\<close>

definition file_becomes :: "cell \<Rightarrow> cell \<Rightarrow> json dict \<Rightarrow> bool" where
  "file_becomes c c' d \<longleftrightarrow>
     insert (seen c') (after_crash c') \<subseteq> insert (seen c) (after_crash c) \<union> {Doc (raw_of_json (JObj d))}"

lemma save_users_becomes:
  assumes "save_users_for_rotation py_str fails users user tok uuid c = (r, c')"
  shows "file_becomes c c' users"
proof -
  obtain e c1 where p: "panel_save fails users c = (e, c1)" by fastforce
  with assms have "c' = c1" by (auto simp: save_users_for_rotation_def split: option.splits if_splits sum.splits)
  with panel_save_atomic p show ?thesis by (cases rule: atomic_put_cases) (auto simp: file_becomes_def)
qed

lemma write_rotation_facts:
  assumes "write_rotation py_str hex io user rid replayed receipt users cfg s = (r, s')"
  shows "file_becomes (c_users (p_core s)) (c_users (p_core s')) users" and "p_receipts s' = p_receipts s" "p_queue s' = p_queue s"
    and "\<And>a. r = Inr (Rotated a) \<Longrightarrow> r_token a = str_field receipt ''new_token'' \<and> r_config a = cfg"
proof -
  obtain u c where sv: "save_users_for_rotation py_str (rot_save_faults io) users user (str_field receipt ''new_token'')
      (str_field receipt ''new_uuid'') (c_users (p_core s)) = (u, c)" by fastforce
  let ?core = "(p_core s)\<lparr>c_users := c\<rparr>"
  obtain x core where sy: "sync_static_access_from_users (rot_host io) users (rot_now io) ?core = (x, core)" by fastforce
  have k: "c_users core = c" using sync_users_kept [OF sy] by simp
  have "c_users (p_core s') = c"
    using assms k by (auto simp: write_rotation_def sv sy Let_def split: sum.splits if_splits)
  with save_users_becomes [OF sv] show "file_becomes (c_users (p_core s)) (c_users (p_core s')) users" by simp
  show "p_receipts s' = p_receipts s" "p_queue s' = p_queue s"
    using assms by (auto simp: write_rotation_def sv sy Let_def split: sum.splits if_splits)
  show "r_token a = str_field receipt ''new_token'' \<and> r_config a = cfg" if "r = Inr (Rotated a)" for a
    using assms that by (auto simp: write_rotation_def sv sy Let_def split: sum.splits if_splits)
qed

text \<open>
  What a write of the user file rests on: \<open>current\<close> stands for the token the file held. Either the file
  already holds the new credentials, or the request knew the old token.
\<close>

definition justified ::
  "(json \<Rightarrow> string) \<Rightarrow> (string \<Rightarrow> string) \<Rightarrow> string \<Rightarrow> string \<Rightarrow> json dict \<Rightarrow> json dict \<Rightarrow> json dict \<Rightarrow> json dict \<Rightarrow> bool" where
  "justified py_str sha user posted receipt cfg users users' \<longleftrightarrow>
     (let current = text_or_empty py_str (dget cfg ''sub_token'' JNull) in
      users' = users \<and> credential_generation sha current = str_field receipt ''new_generation''
        \<and> text_or_empty py_str (dget cfg ''vless_uuid'' JNull) = str_field receipt ''new_uuid''
      \<or> users' = AList.update user (JObj (rotated_config receipt cfg)) users \<and> safe_secret_equal posted current
        \<and> credential_generation sha current = str_field receipt ''old_generation'')"

lemma commit_rotation_cases:
  assumes "commit_rotation py_str sha hex io user posted rid replayed receipt users cfg s = (r, s')"
  obtains (kept) "p_core s' = p_core s" "\<forall>a. r \<noteq> Inr (Rotated a)"
  | (written) users' cfg' where "justified py_str sha user posted receipt cfg users users'"
      "write_rotation py_str hex io user rid replayed receipt users' cfg' s = (r, s')"
proof -
  let ?current = "text_or_empty py_str (dget cfg ''sub_token'' JNull)"
  let ?gen = "credential_generation sha ?current"
  let ?uuid = "text_or_empty py_str (dget cfg ''vless_uuid'' JNull)"
  obtain m where m: "rbind (compare_digest ?gen (str_field receipt ''new_generation'')) (\<lambda>same.
            if same then compare_digest ?uuid (str_field receipt ''new_uuid'') else Inr False) = m" by blast
  note run = assms [unfolded commit_rotation_def Let_def m]
  consider e where "m = Inl e" | "m = Inr True" | "m = Inr False" by (metis (full_types) sumE)
  then show ?thesis
  proof cases
    case 1
    with run show ?thesis by (intro kept) auto
  next
    case 2
    with m have "justified py_str sha user posted receipt cfg users users"
      by (auto simp: justified_def Let_def compare_digest_def rbind_eq_Inr split: if_splits)
    with run 2 show ?thesis by (intro written) auto
  next
    case 3
    obtain p where p: "compare_digest ?gen (str_field receipt ''old_generation'') = p" by blast
    show ?thesis
    proof (cases "p = Inr True \<and> safe_secret_equal posted ?current")
      case True
      with p have "justified py_str sha user posted receipt cfg users (AList.update user (JObj (rotated_config receipt cfg)) users)"
        by (auto simp: justified_def Let_def compare_digest_def split: if_splits)
      with run 3 p True show ?thesis by (intro written) auto
    next
      case False
      have "p_core s' = p_core s \<and> (\<forall>a. r \<noteq> Inr (Rotated a))"
      proof (cases p)
        case (Inl e)
        with run 3 p show ?thesis by auto
      next
        case (Inr b)
        with run 3 p False have "withdraw hex io user rid s = (r, s')" by (cases b) auto
        then show ?thesis by (rule withdraw_frame)
      qed
      then show ?thesis by (intro kept) blast+
    qed
  qed
qed

lemma step_ends:
  "find_receipt hex moment user rid sid s = (End a, s') \<Longrightarrow> a \<noteq> Inr (Rotated z)"
  "rotation_receipt py_str sha hex io user posted rid sid cfg found s = (End a, s') \<Longrightarrow> a \<noteq> Inr (Rotated z)"
  "queue_rotation hex moment user rid receipt s = (End a, s') \<Longrightarrow> a \<noteq> Inr (Rotated z)"
  by (auto simp: find_receipt_def rotation_receipt_def prepare_receipt_def queue_rotation_def Let_def
      split: option.splits prod.splits sum.splits rresult.splits if_splits)

lemma queue_rotation_go:
  assumes "queue_rotation hex moment user rid receipt s = (Go u, s')" and "0 < snd (snd moment)"
  shows "cell_safe check_queue (task_for (task_id_for hex user rid) user (str_field receipt ''old_generation'')
     (str_field receipt ''new_generation'')) (p_queue s')"
proof -
  obtain lock fails now where m: "moment = (lock, fails, now)" by (metis prod_cases3)
  with assms(1) obtain x where "queue_op lock fails (Prepare (task_id_for hex user rid) user (str_field receipt ''old_generation'')
      (str_field receipt ''new_generation'') SERVICES now) (p_queue s) = (Inr x, p_queue s')"
    by (auto simp: queue_rotation_def split: prod.splits sum.splits)
  from prepared_task_durable [OF this] assms(2) m show ?thesis by simp
qed

text \<open>The file is written only with receipt and task durable, for a request that may.\<close>

definition written_by ::
  "(json \<Rightarrow> string) \<Rightarrow> (string \<Rightarrow> string) \<Rightarrow> (string \<Rightarrow> string) \<Rightarrow> rotation_io \<Rightarrow> string \<Rightarrow> string \<Rightarrow> string
   \<Rightarrow> json dict \<Rightarrow> json dict \<Rightarrow> json dict \<Rightarrow> panel \<Rightarrow> rotation_answer res \<Rightarrow> panel \<Rightarrow> bool" where
  "written_by py_str sha hex io user posted rid receipt cfg users s r s' \<longleftrightarrow> (\<exists>users' cfg' replayed s3.
     justified py_str sha user posted receipt cfg users users'
     \<and> write_rotation py_str hex io user rid replayed receipt users' cfg' s3 = (r, s') \<and> p_core s3 = p_core s
     \<and> cell_safe check_receipts (\<lambda>d. map_of d (receipt_key hex user rid) = Some (JObj receipt)) (p_receipts s3)
     \<and> cell_safe check_queue (task_for (task_id_for hex user rid) user (str_field receipt ''old_generation'')
         (str_field receipt ''new_generation'')) (p_queue s3))"

lemma locked_rotation_run:
  assumes "hex_digest hex" and io: "rotation_io_ok io"
    and b0: "\<And>it. found0 = Some it \<Longrightarrow> receipt_valid (receipt_key hex user rid) it \<and> B"
    and b1: "\<And>it s2. find_receipt hex (rot_at io 1) user rid sid s1 = (Go (Some it), s2)
      \<Longrightarrow> receipt_valid (receipt_key hex user rid) it \<and> B"
    and u: "load_critical (seen (c_users (p_core s1))) = Inr users" "map_of users user = Some (JObj cfg)"
    and run: "locked_rotation py_str sha hex io user posted rid sid found0 s1 = (r, s')"
  shows "p_core s' = p_core s1 \<and> (\<forall>a. r \<noteq> Inr (Rotated a))
    \<or> (B \<or> fresh_request py_str sha io user posted sid cfg (p_sessions s1))
      \<and> (\<exists>receipt. written_by py_str sha hex io user posted rid receipt cfg users s1 r s')"
proof -
  obtain y s2 where f1: "(if found0 = None then find_receipt hex (rot_at io 1) user rid sid s1 else (Go found0, s1)) = (y, s2)"
    by fastforce
  note step = run [unfolded locked_rotation_def u sum.case option.case json.case f1 prod.case]
  have F1: "p_core s2 = p_core s1 \<and> p_sessions s2 = p_sessions s1"
    using f1 find_receipt_frame [of hex "rot_at io 1" user rid sid s1 y s2] by (auto split: if_splits)
  show ?thesis
  proof (cases y)
    case (End a)
    with step f1 step_ends(1) F1 show ?thesis by (auto split: if_splits)
  next
    case y: (Go found)
    obtain z s3 where g: "rotation_receipt py_str sha hex io user posted rid sid cfg found s2 = (z, s3)" by fastforce
    note F2 = rotation_receipt_frame [OF g]
    have bound: "receipt_valid (receipt_key hex user rid) it \<and> B" if "found = Some it" for it
      using f1 y that b0 b1 by (cases found0) auto
    show ?thesis
    proof (cases z)
      case (End a)
      with step y g step_ends(2) F1 F2 show ?thesis by auto
    next
      case z: (Go receipt)
      have durable: "cell_safe check_receipts (\<lambda>d. map_of d (receipt_key hex user rid) = Some (JObj receipt)) (p_receipts s3)"
        by (rule rotation_receipt_go(1) [OF assms(1) io _ g [unfolded z]]) (use bound in blast)
      have proved: "B \<or> fresh_request py_str sha io user posted sid cfg (p_sessions s1)"
        using bound rotation_receipt_go(2) [OF assms(1) io _ g [unfolded z]] F1 by (cases found) auto
      obtain w s4 where q: "queue_rotation hex (rot_at io 4) user rid receipt s3 = (w, s4)" by fastforce
      note F3 = queue_rotation_frame [OF q]
      show ?thesis
      proof (cases w)
        case (End a)
        with step y g z q step_ends(3) F1 F2 F3 show ?thesis by auto
      next
        case w: (Go v)
        have "0 < snd (snd (rot_at io 4))" using io unfolding rotation_io_ok_def by blast
        note task = queue_rotation_go [OF q [unfolded w] this]
        from step y g z q w have "commit_rotation py_str sha hex io user posted rid (found \<noteq> None) receipt users cfg s4 = (r, s')"
          by simp
        then show ?thesis
        proof (cases rule: commit_rotation_cases)
          case kept
          with F1 F2 F3 show ?thesis by simp
        next
          case (written users' cfg')
          have "written_by py_str sha hex io user posted rid receipt cfg users s1 r s'"
            unfolding written_by_def using written task durable F1 F2 F3 by metis
          with proved show ?thesis by blast
        qed
      qed
    qed
  qed
qed

lemma rotation_run:
  assumes "hex_digest hex" and io: "rotation_io_ok io"
    and run: "recoverable_user_rotation py_str sha hex io user posted rid sid s = (r, s')"
  obtains (kept) "p_core s' = p_core s" "\<forall>a. r \<noteq> Inr (Rotated a)"
  | (written) users cfg receipt where "load_dict (seen (c_users (p_core s))) True = Inr users" "map_of users user = Some (JObj cfg)"
      "bound_receipt hex user rid sid (p_receipts s) \<or> fresh_request py_str sha io user posted sid cfg (p_sessions s)"
      "written_by py_str sha hex io user posted rid receipt cfg users s r s'"
proof (cases "valid_request_id rid")
  case False
  with run show ?thesis by (intro kept) (auto simp: recoverable_user_rotation_def)
next
  case True
  obtain x s1 where f0: "find_receipt hex (rot_at io 0) user rid sid s = (x, s1)" by fastforce
  note F0 = find_receipt_frame [OF f0]
  obtain l0 q0 n0 where m0: "rot_at io 0 = (l0, q0, n0)" by (metis prod_cases3)
  obtain l1 q1 n1 where m1: "rot_at io 1 = (l1, q1, n1)" by (metis prod_cases3)
  let ?B = "bound_receipt hex user rid sid (p_receipts s)"
  show ?thesis
  proof (cases "\<exists>found users cfg. x = Go found \<and> rot_lock io = None
      \<and> load_critical (seen (c_users (p_core s1))) = Inr users \<and> map_of users user = Some (JObj cfg)")
    case False
    with run True f0 step_ends(1) [of hex "rot_at io 0" user rid sid s _ s1] have "s' = s1 \<and> (\<forall>a. r \<noteq> Inr (Rotated a))"
      by (cases x; cases "rot_lock io"; cases "load_critical (seen (c_users (p_core s1)))")
        (auto simp: recoverable_user_rotation_def locked_rotation_def simp del: load_critical_Inr split: option.splits json.splits)
    with F0 show ?thesis by (intro kept) auto
  next
    case go: True
    then obtain found users cfg where x: "x = Go found" and u: "load_critical (seen (c_users (p_core s1))) = Inr users"
      "map_of users user = Some (JObj cfg)" by blast
    with run True f0 go have lr: "locked_rotation py_str sha hex io user posted rid sid found s1 = (r, s')"
      by (auto simp: recoverable_user_rotation_def)
    have b0: "receipt_valid (receipt_key hex user rid) it \<and> ?B" if "found = Some it" for it
      using find_receipt_found [of hex l0 q0 n0 user rid sid s it s1] f0 x that m0 by (auto simp: bound_receipt_def)
    have b1: "receipt_valid (receipt_key hex user rid) it \<and> ?B"
      if "find_receipt hex (rot_at io 1) user rid sid s1 = (Go (Some it), s2)" for it s2
    proof -
      from find_receipt_found [OF that [unfolded m1]] obtain d where d: "cell_load check_receipts (seen (p_receipts s1)) = Inr d"
        "map_of d (receipt_key hex user rid) = Some (JObj it)" "receipt_valid (receipt_key hex user rid) it"
        "session_digest hex sid \<in> set (digests_of it)" by blast
      from find_receipt_shrinks [OF f0 [unfolded m0] assms(1) d(1)] d show ?thesis unfolding bound_receipt_def by blast
    qed
    have "p_core s' = p_core s1 \<and> (\<forall>a. r \<noteq> Inr (Rotated a))
      \<or> (?B \<or> fresh_request py_str sha io user posted sid cfg (p_sessions s1))
        \<and> (\<exists>receipt. written_by py_str sha hex io user posted rid receipt cfg users s1 r s')"
      by (rule locked_rotation_run [OF assms(1) io _ _ u lr]) (use b0 b1 in blast)+
    then show ?thesis
    proof (elim disjE conjE exE)
      fix receipt assume "written_by py_str sha hex io user posted rid receipt cfg users s1 r s'"
      then have "written_by py_str sha hex io user posted rid receipt cfg users s r s'" using F0 by (simp add: written_by_def)
      moreover assume "?B"
      ultimately show ?thesis using u F0 by (intro written) auto
    next
      fix receipt assume "written_by py_str sha hex io user posted rid receipt cfg users s1 r s'"
      then have "written_by py_str sha hex io user posted rid receipt cfg users s r s'" using F0 by (simp add: written_by_def)
      moreover assume "fresh_request py_str sha io user posted sid cfg (p_sessions s1)"
      ultimately show ?thesis using u F0 by (intro written) auto
    qed (use F0 kept in simp_all)
  qed
qed

section \<open>Properties\<close>

text \<open>
  C10. A rotation is written ahead. Whatever locks and system calls fail in a rotation request, either the
  user file and the proxies are as before, or every content the user file may have is one it might have had before or the file with
  exactly the new credentials of a receipt, and then that receipt is durable for the browser to replay
  and a task that revokes the old credential in favour of the new one is durable in the queue.
\<close>

theorem rotation_write_ahead:
  assumes "recoverable_user_rotation py_str sha hex io user posted rid sid s = (r, s')"
    and "hex_digest hex" and "rotation_io_ok io"
  shows "p_core s' = p_core s \<or> (\<exists>users cfg receipt users'.
      load_dict (seen (c_users (p_core s))) True = Inr users \<and> map_of users user = Some (JObj cfg)
      \<and> justified py_str sha user posted receipt cfg users users'
      \<and> file_becomes (c_users (p_core s)) (c_users (p_core s')) users'
      \<and> cell_safe check_receipts (\<lambda>d. map_of d (receipt_key hex user rid) = Some (JObj receipt)) (p_receipts s')
      \<and> cell_safe check_queue (\<lambda>q. \<exists>x. abs_queue q (task_id_for hex user rid) = Some x \<and> t_user x = user
          \<and> t_previous x = str_field receipt ''old_generation'' \<and> t_target x = str_field receipt ''new_generation'') (p_queue s'))"
  using assms(2,3,1)
proof (cases rule: rotation_run)
  case kept
  then show ?thesis by simp
next
  case (written users cfg receipt)
  then obtain users' cfg' replayed s3 where w: "justified py_str sha user posted receipt cfg users users'"
    "write_rotation py_str hex io user rid replayed receipt users' cfg' s3 = (r, s')" "p_core s3 = p_core s"
    "cell_safe check_receipts (\<lambda>d. map_of d (receipt_key hex user rid) = Some (JObj receipt)) (p_receipts s3)"
    "cell_safe check_queue (task_for (task_id_for hex user rid) user (str_field receipt ''old_generation'')
         (str_field receipt ''new_generation'')) (p_queue s3)" unfolding written_by_def by blast
  from write_rotation_facts(1-3) [OF w(2)] w written(1,2) show ?thesis
    unfolding task_for_def by (intro disjI2 exI [of _ users] exI [of _ cfg] exI [of _ receipt] exI [of _ users']) simp
qed


section \<open>Witnesses\<close>

definition demo_gen :: "string \<Rightarrow> string" where "demo_gen s = (if s = ''old'' then ''g0'' else ''g1'')"

definition demo_account :: "json dict" where
  "demo_account = [(''sub_token'', JStr ''old''), (''vless_uuid'', JStr ''u0''), (''panel_pass_hash'', JStr ''h'')]"

definition demo_rotation_io :: rotation_io where
  "demo_rotation_io = \<lparr>rot_host = tick_io\<lparr>lim_live := False\<rparr>, rot_lock = None, rot_save_faults = (\<lambda>_. False),
     rot_at = (\<lambda>_. (None, (\<lambda>_. False), 100)), rot_today = YMD 2026 5 5, rot_now = tick_now, rot_token = ''tok'', rot_uuid = ''uuid''\<rparr>"

definition demo_sessions :: cell where
  "demo_sessions = quiet (Doc (raw_of_json (JObj [(''cookie'', session_info ''bob'' 50 ''g1'' USER_SESSION_PANEL_PASSWORD)])))"

definition demo_panel :: panel where
  "demo_panel = \<lparr>p_core = tick_state (Doc (raw_of_json (JObj [(''bob'', JObj demo_account)]))),
     p_sessions = demo_sessions, p_receipts = quiet Missing, p_queue = quiet Missing\<rparr>"

lemma demo_rotation_lookup:
  "find_receipt demo_hex (None, (\<lambda>_. False), 100) ''bob'' demo_rid ''cookie'' s = (Go None, s)" if "p_receipts s = quiet Missing"
  using that by (simp add: find_receipt_def receipt_op_def demo_rid_valid map_res_def lookup_bound_body_def prune_def Let_def
      transact_def txn_def demo_receipts_empty)

lemma demo_rotation_session:
  "rotation_session_allows py_str demo_gen (None, (\<lambda>_. False), 100) ''cookie'' ''bob'' ''old'' demo_account demo_sessions = (Inr True, demo_sessions)"
proof -
  have "session_op None (\<lambda>_. False) (GetSessions 100) demo_sessions
      = (Inr (Sessions [(''cookie'', session_info ''bob'' 50 ''g1'' USER_SESSION_PANEL_PASSWORD)]), demo_sessions)"
    by (simp add: demo_sessions_def session_eval py_eval)
  then show ?thesis
    by (simp add: rotation_session_allows_def check_rotation_session_def session_info_def text_or_empty_def dget_def
        demo_account_def credential_generation_def demo_gen_def compare_digest_def ascii_only_def
        USER_SESSION_PANEL_PASSWORD_def USER_SESSION_SUBSCRIPTION_TOKEN_def Let_def)
qed

lemma demo_rotation_receipt:
  "rotation_receipt (\<lambda>_. []) demo_gen demo_hex demo_rotation_io ''bob'' ''old'' demo_rid ''cookie'' demo_account None demo_panel
    = (Go demo_receipt, demo_panel\<lparr>p_receipts := demo_receipts\<rparr>)"
proof -
  have tok: "text_or_empty (\<lambda>_. []) (dget demo_account ''sub_token'' JNull) = ''old''"
    by (simp add: demo_account_def dget_def text_or_empty_def)
  have active: "\<not> truthy (dget demo_account ''disabled'' JNull)" "\<not> is_expired (JObj demo_account) d" for d
    by (simp_all add: demo_account_def dget_def is_expired_def py_eval)
  have eq: "safe_secret_equal ''old'' ''old''" by (simp add: safe_secret_equal_def PASSWORD_MAX_LENGTH_def)
  have g: "credential_generation demo_gen ''old'' = ''g0''" "credential_generation demo_gen ''tok'' = ''g1''"
    by (simp_all add: credential_generation_def demo_gen_def)
  have p: "prepare_receipt demo_hex (None, (\<lambda>_. False), 100) ''bob'' demo_rid ''cookie'' ''g0'' ''g1'' ''tok'' ''uuid''
      (demo_panel\<lparr>p_sessions := demo_sessions\<rparr>) = (Go demo_receipt, demo_panel\<lparr>p_receipts := demo_receipts\<rparr>)"
    by (simp add: prepare_receipt_def demo_panel_def demo_receipt_prepared)
  have io: "rot_at demo_rotation_io k = (None, (\<lambda>_. False), 100)" "rot_token demo_rotation_io = ''tok''" "rot_uuid demo_rotation_io = ''uuid''" for k
    by (simp_all add: demo_rotation_io_def)
  have s: "p_sessions demo_panel = demo_sessions" by (simp add: demo_panel_def)
  show ?thesis
    by (simp add: rotation_receipt_def io s demo_rotation_session tok active eq g p Let_def)
qed

lemma demo_rotation_queue:
  "\<exists>c. queue_op None (\<lambda>_. False) (Prepare (task_id_for demo_hex ''bob'' demo_rid) ''bob'' ''g0'' ''g1'' SERVICES 100) (quiet Missing)
     = (Inr (Task (new_task ''bob'' ''g0'' ''g1'' (service_set SERVICES) 100)), c)"
proof -
  let ?op = "Prepare (task_id_for demo_hex ''bob'' demo_rid) ''bob'' ''g0'' ''g1'' SERVICES 100"
  have "length (task_id_for demo_hex ''bob'' demo_rid) = 64"
    using demo_hex_digest by (simp add: task_id_for_def hex_digest_def)
  moreover have "services_allowed SERVICES" by code_simp
  ultimately have g: "qguard ?op = None" "qguard ?op \<noteq> Some x" for x by simp_all
  obtain c where p: "put_private (\<lambda>_. False) [(task_id_for demo_hex ''bob'' demo_rid, JObj (new_task ''bob'' ''g0'' ''g1'' (service_set SERVICES) 100))]
      (quiet Missing) = (None, c)"
    by (auto simp: put_private_def save_private_def save_json_def write_atomic_def Let_def)
  show ?thesis
    by (simp add: queue_op_def g transact_def txn_def demo_empty prepare_body_def retain_pending_def map_res_def
        TASK_MAX_ENTRIES_def p Let_def del: qguard.simps)
qed

lemma demo_rotation:
  "\<exists>a s'. recoverable_user_rotation (\<lambda>_. []) demo_gen demo_hex demo_rotation_io ''bob'' ''old'' demo_rid ''cookie'' demo_panel
     = (Inr (Rotated a), s') \<and> r_token a = ''tok''
       \<and> seen (c_users (p_core s')) = Doc (raw_of_json (JObj [(''bob'', JObj (rotated_config demo_receipt demo_account))]))"
proof -
  have io: "rot_at demo_rotation_io k = (None, (\<lambda>_. False), 100)" "rot_lock demo_rotation_io = None"
    "rot_save_faults demo_rotation_io = (\<lambda>_. False)" "\<not> lim_live (rot_host demo_rotation_io)" for k
    by (simp_all add: demo_rotation_io_def)
  have find: "find_receipt demo_hex (None, (\<lambda>_. False), 100) ''bob'' demo_rid ''cookie'' demo_panel = (Go None, demo_panel)"
    by (rule demo_rotation_lookup) (simp add: demo_panel_def)
  have users: "load_critical (seen (c_users (p_core demo_panel))) = Inr [(''bob'', JObj demo_account)]"
    unfolding load_critical_Inr by code_simp
  have fields: "str_field demo_receipt ''old_generation'' = ''g0''" "str_field demo_receipt ''new_generation'' = ''g1''"
    "str_field demo_receipt ''new_token'' = ''tok''" "str_field demo_receipt ''new_uuid'' = ''uuid''"
    by (simp_all add: demo_receipt_def new_receipt_def str_field_def str_of_def dget_def)
  obtain c where q: "queue_op None (\<lambda>_. False) (Prepare (task_id_for demo_hex ''bob'' demo_rid) ''bob'' ''g0'' ''g1'' SERVICES 100) (quiet Missing)
     = (Inr (Task (new_task ''bob'' ''g0'' ''g1'' (service_set SERVICES) 100)), c)" using demo_rotation_queue by blast
  let ?s2 = "demo_panel\<lparr>p_receipts := demo_receipts\<rparr>"
  let ?s3 = "?s2\<lparr>p_queue := c\<rparr>"
  have queued: "queue_rotation demo_hex (None, (\<lambda>_. False), 100) ''bob'' demo_rid demo_receipt ?s2 = (Go (), ?s3)"
    using q by (simp add: queue_rotation_def fields) (simp add: demo_panel_def)
  have tok: "text_or_empty (\<lambda>_. []) (dget demo_account ''sub_token'' JNull) = ''old''"
    by (simp add: demo_account_def dget_def text_or_empty_def)
  have cmp: "compare_digest ''g0'' ''g1'' = Inr False" "compare_digest ''g0'' ''g0'' = Inr True" by code_simp+
  have g: "credential_generation demo_gen ''old'' = ''g0''" by (simp add: credential_generation_def demo_gen_def)
  have eq: "safe_secret_equal ''old'' ''old''" by (simp add: safe_secret_equal_def PASSWORD_MAX_LENGTH_def)
  obtain c' where sv: "save_users_for_rotation (\<lambda>_. []) (\<lambda>_. False) [(''bob'', JObj (rotated_config demo_receipt demo_account))]
      ''bob'' ''tok'' ''uuid'' (c_users (p_core demo_panel)) = (Inr False, c')"
    and c': "seen c' = Doc (raw_of_json (JObj [(''bob'', JObj (rotated_config demo_receipt demo_account))]))"
    by (auto simp: save_users_for_rotation_def panel_save_def save_json_def write_atomic_def Let_def)
  have "\<exists>a s'. commit_rotation (\<lambda>_. []) demo_gen demo_hex demo_rotation_io ''bob'' ''old'' demo_rid False demo_receipt
      [(''bob'', JObj demo_account)] demo_account ?s3 = (Inr (Rotated a), s') \<and> r_token a = ''tok''
      \<and> seen (c_users (p_core s')) = Doc (raw_of_json (JObj [(''bob'', JObj (rotated_config demo_receipt demo_account))]))"
    using io c' by (simp add: commit_rotation_def tok g fields cmp eq write_rotation_def sv sync_static_access_from_users_def Let_def)
  then show ?thesis
    by (simp add: recoverable_user_rotation_def demo_rid_valid io find locked_rotation_def users demo_rotation_receipt queued
        del: load_critical_Inr)
qed

lemma demo_rotation_io_ok: "rotation_io_ok demo_rotation_io"
  by (simp add: rotation_io_ok_def demo_rotation_io_def)

theorem rotation_write_ahead_witness:
  "\<exists>(s' :: panel) receipt. p_core s' \<noteq> p_core demo_panel
     \<and> cell_safe check_receipts (\<lambda>d. map_of d (receipt_key demo_hex ''bob'' demo_rid) = Some (JObj receipt)) (p_receipts s')
     \<and> cell_safe check_queue (\<lambda>q. \<exists>x. abs_queue q (task_id_for demo_hex ''bob'' demo_rid) = Some x \<and> t_user x = ''bob''
          \<and> t_previous x = str_field receipt ''old_generation'' \<and> t_target x = str_field receipt ''new_generation'') (p_queue s')"
proof -
  from demo_rotation obtain a s' where
    run: "recoverable_user_rotation (\<lambda>_. []) demo_gen demo_hex demo_rotation_io ''bob'' ''old'' demo_rid ''cookie'' demo_panel
      = (Inr (Rotated a), s')"
    and new: "seen (c_users (p_core s')) = Doc (raw_of_json (JObj [(''bob'', JObj (rotated_config demo_receipt demo_account))]))"
    by blast
  have "seen (c_users (p_core demo_panel)) \<noteq> Doc (raw_of_json (JObj [(''bob'', JObj (rotated_config demo_receipt demo_account))]))"
    by code_simp
  with new have "p_core s' \<noteq> p_core demo_panel" by metis
  with rotation_write_ahead [OF run demo_hex_digest demo_rotation_io_ok] show ?thesis by blast
qed


end
