(* ===== verification/Alerts.thy ===== *)
theory Alerts
  imports RevocationQueue PyFloat
begin

text \<open>
  The alert state of \<^verbatim>\<open>hysteria/alerts.py\<close>: which alert has been sent to whom, the claims of
  alerts being sent, and the operations on the file. The token of a claim and the clock are arguments;
  numbers stay below \<open>2\<^sup>1\<^sup>0\<^sup>2\<^sup>4\<close>. What a POST comes to is an argument.
\<close>

section \<open>The file\<close>

definition STATE_KEYS :: "string list" where
  "STATE_KEYS = [''quota_80'', ''quota_100'', ''anomaly'', ''expiry_soon'', ''expiry_expired'']"

definition CLAIM_KEYS :: "string set" where "CLAIM_KEYS = {''key'', ''token'', ''claimed_at''}"

definition CLAIM_TTL_SECONDS :: rat where "CLAIM_TTL_SECONDS = 60"

definition nonempty_text :: "json \<Rightarrow> bool" where
  "nonempty_text v = (case v of JStr s \<Rightarrow> s \<noteq> [] | _ \<Rightarrow> False)"

definition validate_entry :: "json \<Rightarrow> unit res" where
  "validate_entry value = (case value of
      JStr s \<Rightarrow> if s = [] then Inl InvalidJsonState else Inr ()
    | JObj d \<Rightarrow>
        if set (dkeys d) \<noteq> CLAIM_KEYS then Inl InvalidJsonState
        else if \<not> nonempty_text (dget d ''key'' JNull) \<or> \<not> nonempty_text (dget d ''token'' JNull) then Inl InvalidJsonState
        else (case finite_number (dget d ''claimed_at'' JNull) of
            None \<Rightarrow> Inl InvalidJsonState
          | Some x \<Rightarrow> if x < 0 then Inl InvalidJsonState else Inr ())
    | _ \<Rightarrow> Inl InvalidJsonState)"

definition validate_state :: "json dict \<Rightarrow> unit res" where
  "validate_state data = check_all (\<lambda>(kind, bucket).
     if kind = [] then Inl InvalidJsonState
     else (case bucket of
         JObj b \<Rightarrow> check_all (\<lambda>(user, value). if user = [] then Inl InvalidJsonState else validate_entry value) b
       | _ \<Rightarrow> Inl InvalidJsonState)) data"

text \<open>\<^verbatim>\<open>load_state\<close> adds the kinds that are missing.\<close>

definition fill_kinds :: "json dict \<Rightarrow> json dict" where
  "fill_kinds d = foldl (\<lambda>s k. if map_of s k = None then AList.update k (JObj []) s else s) d STATE_KEYS"

definition bucket_of :: "json dict \<Rightarrow> string \<Rightarrow> json dict" where
  "bucket_of state kind = (case map_of state kind of Some (JObj b) \<Rightarrow> b | _ \<Rightarrow> [])"

definition entry_of :: "json dict \<Rightarrow> string \<Rightarrow> string \<Rightarrow> json option" where
  "entry_of state kind user = map_of (bucket_of state kind) user"

definition mark_alerted :: "json dict \<Rightarrow> string \<Rightarrow> string \<Rightarrow> json \<Rightarrow> json dict" where
  "mark_alerted state kind user value = AList.update kind (JObj (AList.update user value (bucket_of state kind))) state"

definition unmark_alerted :: "json dict \<Rightarrow> string \<Rightarrow> string \<Rightarrow> json dict" where
  "unmark_alerted state kind user = AList.update kind (JObj (AList.delete user (bucket_of state kind))) state"

section \<open>Claims\<close>

definition claim_value :: "json option \<Rightarrow> json dict option" where
  "claim_value value = (case value of Some (JObj d) \<Rightarrow> if set (dkeys d) = CLAIM_KEYS then Some d else None | _ \<Rightarrow> None)"

definition claimed_at :: "json dict \<Rightarrow> rat" where
  "claimed_at p = (case finite_number (dget p ''claimed_at'' JNull) of Some x \<Rightarrow> fl x | None \<Rightarrow> 0)"

text \<open>The alert went out, or somebody is sending it; the clock may have gone back.\<close>

definition suppressed :: "json option \<Rightarrow> string \<Rightarrow> rat \<Rightarrow> rat \<Rightarrow> bool" where
  "suppressed current key now ttl \<longleftrightarrow> current = Some (JStr key)
     \<or> (case claim_value current of
          Some p \<Rightarrow> dget p ''key'' JNull = JStr key \<and> 0 \<le> fl (now - claimed_at p) \<and> fl (now - claimed_at p) < max 0 ttl
        | None \<Rightarrow> False)"

definition new_claim :: "string \<Rightarrow> string \<Rightarrow> rat \<Rightarrow> json" where
  "new_claim key token now = JObj [(''key'', JStr key), (''token'', JStr token), (''claimed_at'', JFloat (Fin now))]"

definition claim :: "string \<Rightarrow> string \<Rightarrow> string \<Rightarrow> rat \<Rightarrow> rat \<Rightarrow> string \<Rightarrow> json dict \<Rightarrow> string option \<times> json dict" where
  "claim kind user key now ttl token state =
     (if suppressed (entry_of state kind user) key now ttl then (None, state)
      else (Some token, mark_alerted state kind user (new_claim key token now)))"

definition finish :: "string \<Rightarrow> string \<Rightarrow> string \<Rightarrow> string \<Rightarrow> bool \<Rightarrow> json dict \<Rightarrow> bool res \<times> json dict" where
  "finish kind user key token delivered state = (case claim_value (entry_of state kind user) of
      None \<Rightarrow> (Inr False, state)
    | Some p \<Rightarrow>
        if dget p ''key'' JNull \<noteq> JStr key then (Inr False, state)
        else (case compare_digest (str_of (dget p ''token'' JNull)) token of
            Inl e \<Rightarrow> (Inl e, state)
          | Inr False \<Rightarrow> (Inr False, state)
          | Inr True \<Rightarrow> (Inr True,
              if delivered then mark_alerted state kind user (JStr key) else unmark_alerted state kind user)))"

definition clear_bucket :: "string list \<Rightarrow> json dict \<Rightarrow> json dict" where
  "clear_bucket usernames b = filter (\<lambda>kv. fst kv \<notin> set usernames) b"

definition clear_quota_dedup_for :: "string list \<Rightarrow> json dict \<Rightarrow> json dict" where
  "clear_quota_dedup_for usernames state = map (\<lambda>(kind, b).
     (kind, if kind \<in> {''quota_80'', ''quota_100''} then JObj (clear_bucket usernames (obj_of b)) else b)) state"

definition clear_users :: "string list \<Rightarrow> json dict \<Rightarrow> json dict" where
  "clear_users usernames state = map (\<lambda>(kind, b). (kind, JObj (clear_bucket usernames (obj_of b)))) state"

section \<open>The operations on the file\<close>

datatype alert_call =
    ClaimAlert string string string rat rat string
  | FinishClaim string string string string bool
  | ClearQuota "string list"
  | ClearUsers "string list"

datatype alert_answer = Claimed "string option" | Finished bool | Cleared

definition alert_guard :: "alert_call \<Rightarrow> alert_answer res option" where
  "alert_guard op = (case op of
      ClaimAlert kind user key now ttl token \<Rightarrow>
        if kind \<notin> set STATE_KEYS \<or> user = [] \<or> key = [] then Some (Inl ValueError) else None
    | FinishClaim kind user key token delivered \<Rightarrow> if kind \<notin> set STATE_KEYS then Some (Inl ValueError) else None
    | _ \<Rightarrow> None)"

definition alert_change :: "alert_call \<Rightarrow> json dict \<Rightarrow> alert_answer res \<times> json dict" where
  "alert_change op state = (case op of
      ClaimAlert kind user key now ttl token \<Rightarrow>
        (case claim kind user key now ttl token state of (r, s) \<Rightarrow> (Inr (Claimed r), s))
    | FinishClaim kind user key token delivered \<Rightarrow>
        (case finish kind user key token delivered state of
           (Inl e, s) \<Rightarrow> (Inl e, s) | (Inr b, s) \<Rightarrow> (Inr (Finished b), s))
    | ClearQuota usernames \<Rightarrow> (Inr Cleared, clear_quota_dedup_for usernames state)
    | ClearUsers usernames \<Rightarrow> (Inr Cleared, clear_users usernames state))"

text \<open>
  \<^verbatim>\<open>mutate_state\<close>: the new state is validated and written when it differs. A changed claim has another
  token, so that Python's equality is equality here.
\<close>

definition mutate_state :: "alert_call \<Rightarrow> json dict \<Rightarrow> alert_answer res \<times> json dict option" where
  "mutate_state op loaded =
     (let state = fill_kinds loaded in
      case alert_change op state of
        (Inl e, _) \<Rightarrow> (Inl e, None)
      | (Inr a, state') \<Rightarrow> (case validate_state state' of
            Inl e \<Rightarrow> (Inl e, None)
          | Inr _ \<Rightarrow> (Inr a, if state' \<noteq> state then Some state' else None)))"

definition save_state :: "faults \<Rightarrow> json dict \<Rightarrow> cell \<Rightarrow> exc option \<times> cell" where
  "save_state fails d c = (case validate_state d of Inl e \<Rightarrow> (Some e, c) | Inr _ \<Rightarrow> save_json fails (JObj d) c)"

definition alert_op :: "exc option \<Rightarrow> faults \<Rightarrow> alert_call \<Rightarrow> cell \<Rightarrow> alert_answer res \<times> cell" where
  "alert_op lock fails op c = (case alert_guard op of
      Some a \<Rightarrow> (a, c)
    | None \<Rightarrow> transact save_state lock validate_state (mutate_state op) fails c)"

section \<open>Sending\<close>

text \<open>
  What one POST came to: answered, a transport error, or another exception. A channel is a function from
  its settings to that; \<open>readable\<close> says whether the message could be formatted.
\<close>

datatype delivery = Posted | TransportFailed | Raised

definition post_telegram :: "(json dict \<Rightarrow> delivery) \<Rightarrow> json \<Rightarrow> delivery" where
  "post_telegram send cfg = (case cfg of
      JObj d \<Rightarrow> if \<not> truthy (dget d ''bot_token'' JNull) \<or> \<not> truthy (dget d ''chat_id'' JNull) then TransportFailed else send d
    | _ \<Rightarrow> Raised)"

definition post_webhook :: "(json dict \<Rightarrow> delivery) \<Rightarrow> json \<Rightarrow> delivery" where
  "post_webhook send cfg = (case cfg of
      JObj d \<Rightarrow> if \<not> truthy (dget d ''url'' JNull) then TransportFailed else send d
    | _ \<Rightarrow> Raised)"

text \<open>An exception fails every channel tried so far; the later ones are not tried.\<close>

definition dispatch ::
  "json option \<Rightarrow> bool \<Rightarrow> (json dict \<Rightarrow> delivery) \<Rightarrow> (json dict \<Rightarrow> delivery) \<Rightarrow> string list \<times> string list" where
  "dispatch config readable telegram webhook = (case config of
      Some (JObj cfg) \<Rightarrow>
        if \<not> readable then ([], [])
        else (let t = dget cfg ''telegram'' JNull; w = dget cfg ''webhook'' JNull;
                  tried = (if truthy t then [''telegram''] else []);
                  first = (if truthy t then post_telegram telegram t else Posted);
                  failed = (if first = Posted then [] else tried)
              in if first = Raised \<or> \<not> truthy w then (tried, failed)
                 else (case post_webhook webhook w of
                     Posted \<Rightarrow> (tried @ [''webhook''], failed)
                   | TransportFailed \<Rightarrow> (tried @ [''webhook''], failed @ [''webhook''])
                   | Raised \<Rightarrow> (tried @ [''webhook''], tried @ [''webhook''])))
    | _ \<Rightarrow> ([], []))"

text \<open>
  One alert: claim, send outside the lock, complete or release. The answer says whether it was sent at all,
  and what the channels answered: those attempted and those that failed.
\<close>

definition dispatch_once ::
  "exc option \<Rightarrow> faults \<Rightarrow> exc option \<Rightarrow> faults \<Rightarrow> string \<Rightarrow> string \<Rightarrow> string \<Rightarrow> rat \<Rightarrow> string
   \<Rightarrow> json option \<Rightarrow> bool \<Rightarrow> (json dict \<Rightarrow> delivery) \<Rightarrow> (json dict \<Rightarrow> delivery) \<Rightarrow> cell \<Rightarrow> (bool \<times> string list \<times> string list) res \<times> cell" where
  "dispatch_once lock fails lock' fails' kind user key now token config readable telegram webhook c =
     (case alert_op lock fails (ClaimAlert kind user key now CLAIM_TTL_SECONDS token) c of
        (Inl e, c1) \<Rightarrow> (Inl e, c1)
      | (Inr (Claimed (Some t)), c1) \<Rightarrow>
          (let sent = dispatch config readable telegram webhook in
           case alert_op lock' fails' (FinishClaim kind user key t (fst sent \<noteq> [] \<and> snd sent = [])) c1 of
             (Inl e, c2) \<Rightarrow> (Inl e, c2)
           | (Inr _, c2) \<Rightarrow> (Inr (True, sent), c2))
      | (Inr _, c1) \<Rightarrow> (Inr (False, [], []), c1))"

definition all_posted :: "json option \<Rightarrow> (json dict \<Rightarrow> delivery) \<Rightarrow> (json dict \<Rightarrow> delivery) \<Rightarrow> bool" where
  "all_posted config telegram webhook \<longleftrightarrow> (case config of
      Some (JObj cfg) \<Rightarrow> (let t = dget cfg ''telegram'' JNull; w = dget cfg ''webhook'' JNull in
        (truthy t \<or> truthy w) \<and> (truthy t \<longrightarrow> post_telegram telegram t = Posted) \<and> (truthy w \<longrightarrow> post_webhook webhook w = Posted))
    | _ \<Rightarrow> False)"

lemma dispatch_complete:
  "fst (dispatch config readable telegram webhook) \<noteq> [] \<Longrightarrow> snd (dispatch config readable telegram webhook) = []
   \<Longrightarrow> all_posted config telegram webhook"
  by (auto simp: dispatch_def all_posted_def Let_def split: option.splits json.splits if_splits delivery.splits)

section \<open>What an operation does to an entry\<close>

lemma save_state_atomic: "atomic_put save_state"
  unfolding atomic_put_def
proof (intro allI)
  fix fails d c
  obtain r c' where p: "save_json fails (JObj d) c = (r, c')" by fastforce
  then show "let (r, c') = save_state fails d c; new = Doc (raw_of_json (JObj d)) in
     (r = None \<and> seen c' = new \<and> after_crash c' = {new})
     \<or> (r \<noteq> None \<and> seen c' = new \<and> after_crash c' \<subseteq> insert new (after_crash c))
     \<or> (r \<noteq> None \<and> seen c' = seen c \<and> after_crash c' = after_crash c)"
    by (rule save_json_cases) (auto simp: save_state_def p Let_def split: sum.split)
qed

named_theorems entry_simps

lemma map_of_map_keyed: "map_of (map (\<lambda>(k, v). (k, f k v)) xs) k = map_option (f k) (map_of xs k)"
  by (induction xs) auto

lemma map_of_clear_bucket: "map_of (clear_bucket us b) u = (if u \<in> set us then None else map_of b u)"
  by (induction b) (auto simp: clear_bucket_def)

lemma clear_bucket_Nil: "clear_bucket us [] = []"
  by (simp add: clear_bucket_def)

lemma entry_mark [entry_simps]:
  "entry_of (mark_alerted s k u v) k' u' = (if k' = k \<and> u' = u then Some v else entry_of s k' u')"
  by (auto simp: entry_of_def bucket_of_def mark_alerted_def)

lemma entry_unmark [entry_simps]:
  "entry_of (unmark_alerted s k u) k' u' = (if k' = k \<and> u' = u then None else entry_of s k' u')"
  by (auto simp: entry_of_def bucket_of_def unmark_alerted_def)

lemma fill_kind: "bucket_of (if map_of s k = None then AList.update k (JObj []) s else s) k' = bucket_of s k'"
  by (auto simp: bucket_of_def)

lemma bucket_fill: "bucket_of (fill_kinds d) k = bucket_of d k"
proof -
  have "bucket_of (foldl (\<lambda>s k. if map_of s k = None then AList.update k (JObj []) s else s) d ks) k = bucket_of d k" for ks
    by (induction ks arbitrary: d) (simp_all add: fill_kind)
  then show ?thesis by (simp add: fill_kinds_def)
qed

lemma entry_fill [entry_simps]: "entry_of (fill_kinds d) k u = entry_of d k u"
  by (simp add: entry_of_def bucket_fill)

lemma entry_clear_quota [entry_simps]:
  "entry_of (clear_quota_dedup_for us s) k u
     = (if k \<in> {''quota_80'', ''quota_100''} \<and> u \<in> set us then None else entry_of s k u)"
  unfolding entry_of_def bucket_of_def clear_quota_dedup_for_def map_of_map_keyed
  by (cases "map_of s k") (auto simp: map_of_clear_bucket obj_of_def clear_bucket_Nil split: json.splits)

lemma entry_clear_users [entry_simps]:
  "entry_of (clear_users us s) k u = (if u \<in> set us then None else entry_of s k u)"
  unfolding entry_of_def bucket_of_def clear_users_def map_of_map_keyed
  by (cases "map_of s k") (auto simp: map_of_clear_bucket obj_of_def clear_bucket_Nil split: json.splits)

section \<open>The file stays valid\<close>

lemma wf_bucket: "wf_json (JObj s) \<Longrightarrow> wf_json (JObj (bucket_of s k))"
proof -
  assume "wf_json (JObj s)"
  note this [THEN wf_json_lookup, of k]
  moreover have "wf_json (JObj [])" by (simp add: wf_dict_def)
  ultimately show ?thesis by (auto simp: bucket_of_def simp del: wf_json.simps split: option.splits json.splits)
qed

lemma wf_fill: "wf_json (JObj d) \<Longrightarrow> wf_json (JObj (fill_kinds d))"
proof -
  have "wf_json (JObj d) \<Longrightarrow> wf_json (JObj (foldl (\<lambda>s k. if map_of s k = None then AList.update k (JObj []) s else s) d ks))" for ks
  proof (induction ks arbitrary: d)
    case (Cons k ks)
    have "wf_json (JObj [])" by (simp add: wf_dict_def)
    with Cons show ?case by (auto intro: wf_json_update simp del: wf_json.simps)
  qed simp
  then show "wf_json (JObj d) \<Longrightarrow> wf_json (JObj (fill_kinds d))" by (simp add: fill_kinds_def del: wf_json.simps)
qed

lemma wf_mapped:
  assumes "wf_json (JObj s)" and "\<And>k b. wf_json b \<Longrightarrow> wf_json (f k b)"
  shows "wf_json (JObj (map (\<lambda>(k, b). (k, f k b)) s))"
  using assms by (auto simp: wf_dict_def o_def case_prod_unfold)

lemma wf_clear: "wf_json b \<Longrightarrow> wf_json (JObj (clear_bucket us (obj_of b)))"
  by (cases b) (auto simp: clear_bucket_def obj_of_def wf_dict_def distinct_map_filter)

lemma wf_change:
  assumes wf: "wf_json (JObj s)" and c: "alert_change op s = (r, s')"
  shows "wf_json (JObj s')"
proof -
  have mark: "wf_json (JObj (mark_alerted s k u v))" if "wf_json v" for k u v
    unfolding mark_alerted_def by (rule wf_json_update [OF wf wf_json_update [OF wf_bucket [OF wf] that]])
  have unmark: "wf_json (JObj (unmark_alerted s k u))" for k u
    unfolding unmark_alerted_def by (rule wf_json_update [OF wf wf_json_delete [OF wf_bucket [OF wf]]])
  have new: "wf_json (new_claim k t n)" for k t n by (simp add: new_claim_def wf_dict_def)
  show ?thesis
  proof (cases op)
    case (ClaimAlert kind user key now ttl token)
    with c mark [OF new] wf show ?thesis by (auto simp: alert_change_def claim_def simp del: wf_json.simps split: if_splits)
  next
    case (FinishClaim kind user key token delivered)
    obtain x s1 where f: "finish kind user key token delivered s = (x, s1)" by fastforce
    have str: "wf_json (JStr key)" by simp
    from f mark [OF str] unmark wf have "wf_json (JObj s1)"
      by (auto simp: finish_def simp del: wf_json.simps split: option.splits sum.splits bool.splits if_splits)
    with c f FinishClaim show ?thesis by (auto simp: alert_change_def split: sum.splits)
  next
    case (ClearQuota us)
    have "wf_json (JObj (clear_quota_dedup_for us s))"
      unfolding clear_quota_dedup_for_def using wf by (rule wf_mapped) (auto simp del: wf_json.simps intro: wf_clear)
    with c ClearQuota show ?thesis by (simp add: alert_change_def)
  next
    case (ClearUsers us)
    have "wf_json (JObj (clear_users us s))"
      unfolding clear_users_def using wf by (rule wf_mapped) (rule wf_clear)
    with c ClearUsers show ?thesis by (simp add: alert_change_def)
  qed
qed

lemma mutate_state_written:
  assumes "mutate_state op d = (r, Some s')"
  shows "alert_change op (fill_kinds d) = (r, s') \<and> validate_state s' = Inr () \<and> \<not> isl r"
  using assms by (cases "alert_change op (fill_kinds d)")
    (auto simp: mutate_state_def Let_def split: sum.splits if_splits)

interpretation alert_store: stored_ops alert_op "\<lambda>op _. alert_guard op" validate_state mutate_state "\<lambda>_. True"
  save_state "\<lambda>_. True"
proof
  show "alert_op lock fails op c = (a, c)" if "alert_guard op = Some a" for lock fails op c a
    using that by (simp add: alert_op_def)
  show "\<exists>q. transact save_state lock validate_state (mutate_state op) fails c = (q, c') \<and> (r = q \<or> isl r)"
    if "alert_guard op = None" "alert_op lock fails op c = (r, c')" for lock fails op c r c'
    using that by (simp add: alert_op_def)
  show "atomic_put save_state" by (rule save_state_atomic)
  show "refused save_state d' \<or> cell_ok validate_state d' \<and> True"
    if "cell_ok validate_state d" "mutate_state op d = (r, Some d')" for d op r d'
  proof -
    from mutate_state_written [OF that(2)] have m: "alert_change op (fill_kinds d) = (r, d')" "validate_state d' = Inr ()" by blast+
    have "wf_json (JObj (fill_kinds d))" using that(1) by (intro wf_fill) (simp add: cell_ok_def)
    from wf_change [OF this m(1)] m(2) show ?thesis by (simp add: cell_ok_def)
  qed
qed

section \<open>Properties\<close>

text \<open>
  An event leaves an entry alone when it cannot change it: a claim the entry suppresses, a completion with
  another key or token, a reset of other users, or anything about another kind or user.
\<close>

definition leaves_entry :: "string \<Rightarrow> string \<Rightarrow> json \<Rightarrow> alert_call event \<Rightarrow> bool" where
  "leaves_entry kind user v e = (case e of Crash f \<Rightarrow> True | Op lock fails op \<Rightarrow> (case op of
      ClaimAlert k u key now ttl token \<Rightarrow> (k = kind \<and> u = user \<longrightarrow> suppressed (Some v) key now ttl)
    | FinishClaim k u key token delivered \<Rightarrow> (k = kind \<and> u = user \<longrightarrow>
        (\<forall>p. claim_value (Some v) = Some p \<longrightarrow> dget p ''key'' JNull \<noteq> JStr key \<or> str_of (dget p ''token'' JNull) \<noteq> token))
    | ClearQuota us \<Rightarrow> (kind \<in> {''quota_80'', ''quota_100''} \<longrightarrow> user \<notin> set us)
    | ClearUsers us \<Rightarrow> user \<notin> set us))"

lemma respected_step:
  assumes "alert_change op s = (r, s')" and "entry_of s kind user = Some v" and "leaves_entry kind user v (Op lock fails op)"
  shows "entry_of s' kind user = Some v"
proof (cases op)
  case (ClaimAlert k u key now ttl token)
  with assms show ?thesis
    by (auto simp: alert_change_def claim_def leaves_entry_def entry_simps split: if_splits)
next
  case (FinishClaim k u key token delivered)
  obtain x s1 where f: "finish k u key token delivered s = (x, s1)" by fastforce
  with assms(1) FinishClaim have s1: "s' = s1" by (auto simp: alert_change_def split: sum.splits)
  show ?thesis
  proof (cases "k = kind \<and> u = user")
    case True
    with assms(3) FinishClaim have n: "claim_value (Some v) = Some p \<Longrightarrow>
        dget p ''key'' JNull \<noteq> JStr key \<or> str_of (dget p ''token'' JNull) \<noteq> token" for p by (simp add: leaves_entry_def)
    have "s1 = s"
      using f True assms(2) n by (auto simp: finish_def compare_digest_def split: option.splits sum.splits bool.splits if_splits)
    with s1 assms(2) show ?thesis by simp
  next
    case False
    with f s1 assms(2) show ?thesis
      by (auto simp: finish_def entry_simps split: option.splits sum.splits bool.splits if_splits)
  qed
next
  case (ClearQuota us)
  with assms show ?thesis by (auto simp: alert_change_def leaves_entry_def entry_simps)
next
  case (ClearUsers us)
  with assms show ?thesis by (auto simp: alert_change_def leaves_entry_def entry_simps)
qed

lemma entry_kept:
  assumes "cell_safe validate_state (\<lambda>d. entry_of d kind user = Some v) c" and "history alert_op es c c'"
    and "\<forall>e \<in> set es. leaves_entry kind user v e"
  shows "cell_safe validate_state (\<lambda>d. entry_of d kind user = Some v) c'"
proof -
  let ?P = "\<lambda>es d. (\<forall>e \<in> set es. leaves_entry kind user v e) \<and> entry_of d kind user = Some v"
  have start: "cell_safe validate_state (?P es) c" using assms(1,3) by (simp add: cell_safe_def)
  have "cell_safe validate_state (?P []) c'"
    using assms(2) _ start
  proof (rule alert_store.history_safe [where P = ?P])
    show "\<forall>e \<in> set es. event_ok (\<lambda>_. True) e" by (simp add: event_ok_def split: event.split)
    show "?P es' d'" if "?P (Op lock fails op # es') d" "mutate_state op d = (r, Some d')" for lock fails op es' d r d'
      using respected_step [of op "fill_kinds d" r d' kind user v lock fails] mutate_state_written [OF that(2)] that(1)
      by (simp add: entry_simps)
  qed auto
  then show ?thesis by (simp add: cell_safe_def)
qed

lemma suppressed_claim:
  assumes "cell_safe validate_state (\<lambda>d. entry_of d kind user = Some v) c" and "suppressed (Some v) key now ttl"
    and "alert_op lock fails (ClaimAlert kind user key now ttl token) c = (r, c')"
  shows "isl r \<or> r = Inr (Claimed None)"
proof (cases r)
  case (Inr a)
  let ?op = "ClaimAlert kind user key now ttl token"
  from assms(3) Inr have g: "alert_guard ?op = None"
    by (auto simp: alert_op_def alert_guard_def split: if_splits)
  with assms(3) Inr have "transact save_state lock validate_state (mutate_state ?op) fails c = (Inr a, c')"
    by (simp add: alert_op_def)
  from transact_reads [OF this] obtain d where d: "cell_load validate_state (seen c) = Inr d" "fst (mutate_state ?op d) = Inr a" by blast
  from cell_safe_seen [OF assms(1)] d(1) have "entry_of d kind user = Some v" by auto
  with assms(2) d(2) Inr show ?thesis
    by (auto simp: mutate_state_def alert_change_def claim_def entry_simps Let_def split: sum.splits)
qed simp

lemma claim_value_new [entry_simps]:
  "claim_value (Some (new_claim key token now))
     = Some [(''key'', JStr key), (''token'', JStr token), (''claimed_at'', JFloat (Fin now))]"
  by (auto simp: claim_value_def new_claim_def CLAIM_KEYS_def dkeys_def)

text \<open>
  C31. Nobody else sends an alert that is being sent. After a claim has been granted with a fresh token, and as long as it is
  neither completed, nor reset, nor replaced by a claim for another event, every other claim of the same
  alert within its time to live is refused, whatever system calls fail and wherever the power goes.
\<close>

theorem claim_exclusive:
  assumes "cell_load validate_state (seen c0) = Inr d0"
    and "alert_op lock fails (ClaimAlert kind user key now ttl token) c0 = (Inr (Claimed (Some t)), c)"
    and "history alert_op es c c'" and "\<forall>e \<in> set es. leaves_entry kind user (new_claim key token now) e"
    and "entry_of d0 kind user \<noteq> Some (new_claim key token now)"
    and "fl now = now" and "0 \<le> fl (later - now)" and "fl (later - now) < ttl'"
    and "alert_op lock' fails' (ClaimAlert kind user key later ttl' token') c' = (r, c'')"
  shows "t = token \<and> (isl r \<or> r = Inr (Claimed None))"
proof -
  let ?op = "ClaimAlert kind user key now ttl token"
  from assms(2) have g: "alert_guard ?op = None" by (auto simp: alert_op_def alert_guard_def split: if_splits)
  have new: "mark_alerted (fill_kinds d0) kind user (new_claim key token now) \<noteq> fill_kinds d0"
    using assms(5) by (metis entry_mark entry_fill)
  from alert_store.op_success [OF assms(1,2) TrueI g TrueI] new
  have t: "t = token" and safe: "cell_safe validate_state (\<lambda>d. entry_of d kind user = Some (new_claim key token now)) c"
    by (auto simp: mutate_state_def alert_change_def claim_def cell_safe_def entry_simps Let_def
        split: sum.splits if_splits)
  from entry_kept [OF safe assms(3,4)]
  have kept: "cell_safe validate_state (\<lambda>d. entry_of d kind user = Some (new_claim key token now)) c'" .
  have "suppressed (Some (new_claim key token now)) key later ttl'"
    using assms(6-8) by (simp add: suppressed_def entry_simps dget_def claimed_at_def finite_number_def)
  from suppressed_claim [OF kept this assms(9)] t show ?thesis by blast
qed

text \<open>
  A delivered alert is not sent again. Once a claim has been completed as delivered, every later claim
  of the same event for that user is refused, at any time and with any time to live, until the user's
  alerts are reset or another event of that kind is claimed.
\<close>

theorem delivered_once:
  assumes "cell_load validate_state (seen c0) = Inr d0"
    and "alert_op lock fails (FinishClaim kind user key token True) c0 = (Inr (Finished True), c)"
    and "history alert_op es c c'" and "\<forall>e \<in> set es. leaves_entry kind user (JStr key) e"
    and "alert_op lock' fails' (ClaimAlert kind user key later ttl token') c' = (r, c'')"
  shows "isl r \<or> r = Inr (Claimed None)"
proof -
  let ?op = "FinishClaim kind user key token True"
  from assms(2) have g: "alert_guard ?op = None" by (auto simp: alert_op_def alert_guard_def split: if_splits)
  have change: "snd (alert_change ?op s) \<noteq> s \<and> entry_of (snd (alert_change ?op s)) kind user = Some (JStr key)"
    if "fst (alert_change ?op s) = Inr (Finished True)" for s
  proof -
    from that have f: "fst (finish kind user key token True s) = Inr True"
      by (auto simp: alert_change_def split: prod.splits sum.splits)
    then obtain p where p: "claim_value (entry_of s kind user) = Some p"
      "finish kind user key token True s = (Inr True, mark_alerted s kind user (JStr key))"
      by (auto simp: finish_def split: option.splits sum.splits bool.splits if_splits)
    have "entry_of s kind user \<noteq> Some (JStr key)" using p(1) by (auto simp: claim_value_def)
    with p(2) show ?thesis by (auto simp: alert_change_def entry_simps) (metis entry_mark)
  qed
  from alert_store.op_success [OF assms(1,2) TrueI g TrueI]
  have safe: "cell_safe validate_state (\<lambda>d. entry_of d kind user = Some (JStr key)) c"
  proof (elim disjE conjE exE)
    assume "mutate_state ?op d0 = (Inr (Finished True), None)"
    with change [of "fill_kinds d0"] show ?thesis
      by (cases "alert_change ?op (fill_kinds d0)") (auto simp: mutate_state_def Let_def split: sum.splits if_splits)
  next
    fix d' assume m: "mutate_state ?op d0 = (Inr (Finished True), Some d')"
      and c: "cell_load validate_state (seen c) = Inr d'" "after_crash c = {seen c}"
    from mutate_state_written [OF m] change [of "fill_kinds d0"] c show ?thesis by (simp add: cell_safe_def)
  qed
  from suppressed_claim [OF entry_kept [OF safe assms(3,4)] _ assms(5)] show ?thesis by (simp add: suppressed_def)
qed

text \<open>
  An alert counts as delivered only if it was. When one round of sending ends with the alert marked as
  delivered in a file that did not say so before, the round was granted the claim, sent it on at least one
  channel, and no channel failed.
\<close>

theorem delivered_only_if_sent:
  assumes "cell_load validate_state (seen c) = Inr d" and "entry_of d kind user \<noteq> Some (JStr key)"
    and "dispatch_once lock fails lock' fails' kind user key now token config readable telegram webhook c = (r, c')"
    and "cell_load validate_state (seen c') = Inr d'" and "entry_of d' kind user = Some (JStr key)"
  shows "all_posted config telegram webhook
    \<and> (\<exists>c1. alert_op lock fails (ClaimAlert kind user key now CLAIM_TTL_SECONDS token) c = (Inr (Claimed (Some token)), c1))"
proof -
  let ?claim = "ClaimAlert kind user key now CLAIM_TTL_SECONDS token"
  have claim: "entry_of d1 kind user \<noteq> Some (JStr key)"
    if "alert_op lock fails ?claim c = (a, c1)" "cell_load validate_state (seen c1) = Inr d1" for a c1 d1
  proof (cases "alert_guard ?claim")
    case (Some x)
    with that assms(1,2) show ?thesis by (auto simp: alert_op_def)
  next
    case None
    from alert_store.op_outcome [OF assms(1) that(1) TrueI None TrueI] that(2) assms(1,2) show ?thesis
      by (auto dest!: mutate_state_written simp: alert_change_def claim_def entry_simps new_claim_def split: if_splits)
  qed
  obtain a c1 where op: "alert_op lock fails ?claim c = (a, c1)" by fastforce
  show ?thesis
  proof (cases "\<exists>t. a = Inr (Claimed (Some t))")
    case False
    with assms(3) op have "c' = c1" by (auto simp: dispatch_once_def Let_def split: sum.splits alert_answer.splits option.splits)
    with claim op assms(4,5) show ?thesis by blast
  next
    case True
    then obtain t where a: "a = Inr (Claimed (Some t))" by blast
    have g: "alert_guard ?claim = None" using op a by (auto simp: alert_op_def alert_guard_def split: if_splits)
    have t: "t = token"
      using alert_store.op_success [OF assms(1) op [unfolded a] TrueI g TrueI]
      by (auto simp: mutate_state_def alert_change_def claim_def Let_def split: sum.splits if_splits)
    let ?sent = "dispatch config readable telegram webhook"
    let ?finish = "FinishClaim kind user key t (fst ?sent \<noteq> [] \<and> snd ?sent = [])"
    obtain b c2 where op2: "alert_op lock' fails' ?finish c1 = (b, c2)" by fastforce
    with assms(3) op a have c2: "c' = c2" by (auto simp: dispatch_once_def Let_def split: sum.splits)
    from alert_store.op_success [OF assms(1) op [unfolded a] TrueI g TrueI] assms(1)
    obtain d1 where d1: "cell_load validate_state (seen c1) = Inr d1" by auto
    have g2: "alert_guard ?finish = None" using g by (auto simp: alert_guard_def split: if_splits)
    from alert_store.op_outcome [OF d1 op2 TrueI g2 TrueI] claim [OF op d1] assms(4,5) c2 d1
    have "fst ?sent \<noteq> [] \<and> snd ?sent = []"
      by (auto dest!: mutate_state_written simp: alert_change_def finish_def entry_simps
          split: sum.splits option.splits bool.splits if_splits prod.splits)
    then have "all_posted config telegram webhook" using dispatch_complete by blast
    with op a t show ?thesis by blast
  qed
qed

section \<open>Witnesses\<close>

definition demo_claim :: alert_call where
  "demo_claim = ClaimAlert ''quota_80'' ''bob'' ''2026-05'' 100 CLAIM_TTL_SECONDS ''t1''"

definition demo_channels :: "json option" where
  "demo_channels = Some (JObj [(''telegram'', JObj [(''bot_token'', JStr ''b''), (''chat_id'', JStr ''c'')])])"

definition demo_alerts :: "json \<Rightarrow> json dict" where
  "demo_alerts v = [(''quota_80'', JObj [(''bob'', v)]), (''quota_100'', JObj []), (''anomaly'', JObj []),
     (''expiry_soon'', JObj []), (''expiry_expired'', JObj [])]"

definition demo_alert_cell :: "json \<Rightarrow> cell" where
  "demo_alert_cell v = quiet (Doc (raw_of_json (JObj (demo_alerts v))))"

lemmas alert_eval = alert_op_def alert_guard_def mutate_state_def alert_change_def claim_def finish_def suppressed_def
  claim_value_def mark_alerted_def entry_of_def bucket_of_def fill_kinds_def validate_state_def validate_entry_def
  nonempty_text_def save_state_def STATE_KEYS_def CLAIM_KEYS_def new_claim_def demo_alerts_def demo_alert_cell_def
  demo_claim_def CLAIM_TTL_SECONDS_def dkeys_def

lemma demo_no_alerts: "cell_load validate_state (seen (quiet Missing)) = Inr []"
  by (simp add: alert_eval py_eval)

lemma demo_claimed: "alert_op None (\<lambda>_. False) demo_claim (quiet Missing)
    = (Inr (Claimed (Some ''t1'')), demo_alert_cell (new_claim ''2026-05'' ''t1'' 100))"
  by (simp add: alert_eval py_eval)

lemma demo_finished: "alert_op None (\<lambda>_. False) (FinishClaim ''quota_80'' ''bob'' ''2026-05'' ''t1'' True)
    (demo_alert_cell (new_claim ''2026-05'' ''t1'' 100)) = (Inr (Finished True), demo_alert_cell (JStr ''2026-05''))"
  by (simp add: alert_eval py_eval str_of_def)

lemma demo_alert_load: "cell_load validate_state (seen (demo_alert_cell (JStr ''2026-05''))) = Inr (demo_alerts (JStr ''2026-05''))"
  "cell_load validate_state (seen (demo_alert_cell (new_claim ''2026-05'' ''t1'' 100)))
     = Inr (demo_alerts (new_claim ''2026-05'' ''t1'' 100))"
  by (simp_all add: alert_eval py_eval)

lemma demo_sent: "dispatch demo_channels True (\<lambda>_. Posted) (\<lambda>_. TransportFailed) = ([''telegram''], [])"
  by (simp add: dispatch_def demo_channels_def post_telegram_def dget_def Let_def)

theorem claim_exclusive_witness:
  "\<exists>r c''. alert_op None (\<lambda>_. False) (ClaimAlert ''quota_80'' ''bob'' ''2026-05'' 130 CLAIM_TTL_SECONDS ''t2'')
     (demo_alert_cell (new_claim ''2026-05'' ''t1'' 100)) = (r, c'') \<and> (isl r \<or> r = Inr (Claimed None))"
proof -
  let ?c = "demo_alert_cell (new_claim ''2026-05'' ''t1'' 100)"
  obtain r c'' where run: "alert_op None (\<lambda>_. False) (ClaimAlert ''quota_80'' ''bob'' ''2026-05'' 130 CLAIM_TTL_SECONDS ''t2'') ?c = (r, c'')"
    by fastforce
  have "history alert_op [] ?c ?c" by (rule history.nothing)
  from claim_exclusive [OF demo_no_alerts demo_claimed [unfolded demo_claim_def] this _ _ _ _ _ run] run show ?thesis
    by (simp add: entry_of_def bucket_of_def fl_numeral CLAIM_TTL_SECONDS_def)
qed

theorem delivered_once_witness:
  "\<exists>r c''. alert_op None (\<lambda>_. False) (ClaimAlert ''quota_80'' ''bob'' ''2026-05'' 9000 CLAIM_TTL_SECONDS ''t2'')
     (demo_alert_cell (JStr ''2026-05'')) = (r, c'') \<and> (isl r \<or> r = Inr (Claimed None))"
proof -
  let ?c = "demo_alert_cell (JStr ''2026-05'')"
  obtain r c'' where run: "alert_op None (\<lambda>_. False) (ClaimAlert ''quota_80'' ''bob'' ''2026-05'' 9000 CLAIM_TTL_SECONDS ''t2'') ?c = (r, c'')"
    by fastforce
  have "history alert_op [] ?c ?c" by (rule history.nothing)
  from delivered_once [OF demo_alert_load(2) demo_finished this _ run] run show ?thesis by simp
qed

theorem delivered_only_if_sent_witness:
  "\<exists>c1. alert_op None (\<lambda>_. False) (ClaimAlert ''quota_80'' ''bob'' ''2026-05'' 100 CLAIM_TTL_SECONDS ''t1'') (quiet Missing)
     = (Inr (Claimed (Some ''t1'')), c1)"
proof -
  have run: "dispatch_once None (\<lambda>_. False) None (\<lambda>_. False) ''quota_80'' ''bob'' ''2026-05'' 100 ''t1''
      demo_channels True (\<lambda>_. Posted) (\<lambda>_. TransportFailed) (quiet Missing)
      = (Inr (True, [''telegram''], []), demo_alert_cell (JStr ''2026-05''))"
    using demo_claimed demo_finished demo_sent by (simp add: dispatch_once_def demo_claim_def)
  have "entry_of (demo_alerts (JStr ''2026-05'')) ''quota_80'' ''bob'' = Some (JStr ''2026-05'')"
    by (simp add: entry_of_def bucket_of_def demo_alerts_def)
  from delivered_only_if_sent [OF demo_no_alerts _ run demo_alert_load(1) this] show ?thesis
    by (simp add: entry_of_def bucket_of_def)
qed

end
