(* ===== verification/SideEffects.thy ===== *)
theory SideEffects
  imports Rotation
begin

text \<open>
  What follows a revoked credential outside the locks, in \<^verbatim>\<open>hysteria/subscription_service.py\<close>: the reload of
  each proxy or its fail-closed stop, the disconnection of running sessions, and the record of both in the
  queue. systemd is the runner of \<open>proxy_io\<close>; the answer of the Hysteria API is an argument.
\<close>

section \<open>Disconnecting\<close>

record credential_action =
  ca_action :: string
  ca_target :: string
  ca_attempted :: bool
  ca_ok :: bool
  ca_code :: string
  ca_retryable :: bool

definition HY_KICK_MAX_RESPONSE_BYTES :: nat where "HY_KICK_MAX_RESPONSE_BYTES = 1024"

text \<open>An exception of the exchange by its name, or the status and the number of bytes read.\<close>

datatype kick_reply = KickRaised string | KickAnswered nat nat

fun comma_list :: "string list \<Rightarrow> string" where
  "comma_list [] = []"
| "comma_list [x] = x"
| "comma_list (x # y # xs) = x @ CHR '','' # comma_list (y # xs)"

definition hy_kick :: "kick_reply \<Rightarrow> string list \<Rightarrow> credential_action" where
  "hy_kick reply usernames =
     (let answer = (\<lambda>attempted ok code. \<lparr>ca_action = ''hysteria_kick'',
            ca_target = (if usernames = [] then [] else comma_list (sort usernames)),
            ca_attempted = attempted, ca_ok = ok, ca_code = code, ca_retryable = \<not> ok\<rparr>)
      in if usernames = [] then answer False True ''not_needed''
         else case reply of
           KickRaised name \<Rightarrow> answer True False name
         | KickAnswered status n \<Rightarrow>
             if HY_KICK_MAX_RESPONSE_BYTES < n then answer True False ''response_too_large''
             else if 200 \<le> status \<and> status < 300 then answer True True ''accepted''
             else answer True False ''unexpected_status'')"

section \<open>Reloading or stopping a proxy\<close>

definition schedule_static_reload :: "proxy_io \<Rightarrow> bool \<Rightarrow> string \<Rightarrow> bool \<Rightarrow> managed \<Rightarrow> credential_action \<times> managed" where
  "schedule_static_reload px live name changed m =
     (let answer = (\<lambda>attempted ok code. \<lparr>ca_action = ''static_reload'', ca_target = name, ca_attempted = attempted,
            ca_ok = ok, ca_code = code, ca_retryable = \<not> ok\<rparr>);
          loader = (if name = XRAY_SERVICE then xray_reload_async else tuic_reload_async)
      in if \<not> live then (answer False True ''not_live'', m)
         else if \<not> changed \<and> \<not> has_reload_pending m then (answer False True ''already_applied'', m)
         else (case loader (px_run px) (px_reload_faults px) (px_time px) live m of
           (scheduled, _, m') \<Rightarrow>
             (let settled = (\<not> changed \<and> \<not> has_reload_pending m') in
              (answer True (scheduled \<or> settled)
                 (if scheduled then ''scheduled'' else if settled then ''already_applied'' else ''not_scheduled''), m'))))"

definition stop_proxy :: "proxy_io \<Rightarrow> bool \<Rightarrow> string \<Rightarrow> string \<Rightarrow> managed \<Rightarrow> service_action res \<times> managed" where
  "stop_proxy px live name reason m =
     (case stop_fail_closed (px_run px) (px_stop_faults px) name reason (px_time px) live (service m) of
        (r, sv) \<Rightarrow> (r, m\<lparr>service := sv\<rparr>))"

text \<open>A reload that could not be scheduled becomes a stop; \<open>None\<close> is a reload that needs no more attention.\<close>

definition reload_or_stop ::
  "proxy_io \<Rightarrow> bool \<Rightarrow> string \<Rightarrow> bool \<Rightarrow> managed \<Rightarrow> service_action option res \<times> managed" where
  "reload_or_stop px live name changed m =
     (case schedule_static_reload px live name changed m of
        (reload, m1) \<Rightarrow>
          if ca_ok reload then (Inr None, m1)
          else (case stop_proxy px live name ''RuntimeError'' m1 of
              (Inl e, m2) \<Rightarrow> (Inl e, m2)
            | (Inr outcome, m2) \<Rightarrow> (Inr (Some outcome), m2)))"

text \<open>A step on the proxy of a service name.\<close>

definition on_service ::
  "limiter_io \<Rightarrow> string \<Rightarrow> (proxy_io \<Rightarrow> managed \<Rightarrow> 'a \<times> managed) \<Rightarrow> limiter_state \<Rightarrow> 'a \<times> limiter_state" where
  "on_service io name f s =
     (if name = XRAY_SERVICE
      then (case f (lim_xray io) (c_xray s) of (a, m) \<Rightarrow> (a, s\<lparr>c_xray := m\<rparr>))
      else (case f (lim_tuic io) (c_tuic s) of (a, m) \<Rightarrow> (a, s\<lparr>c_tuic := m\<rparr>)))"

fun each_service ::
  "limiter_io \<Rightarrow> (string \<Rightarrow> proxy_io \<Rightarrow> managed \<Rightarrow> 'a res \<times> managed) \<Rightarrow> string list \<Rightarrow> limiter_state
   \<Rightarrow> (string \<times> 'a) list res \<times> limiter_state" where
  "each_service io f [] s = (Inr [], s)"
| "each_service io f (name # names) s = (case on_service io name (f name) s of
      (Inl e, s1) \<Rightarrow> (Inl e, s1)
    | (Inr a, s1) \<Rightarrow> (case each_service io f names s1 of
        (Inl e, s2) \<Rightarrow> (Inl e, s2)
      | (Inr as, s2) \<Rightarrow> (Inr ((name, a) # as), s2)))"

definition reload_services ::
  "limiter_io \<Rightarrow> (string \<Rightarrow> bool) \<Rightarrow> string list \<Rightarrow> limiter_state
   \<Rightarrow> (string \<times> service_action option) list res \<times> limiter_state" where
  "reload_services io changed names s =
     each_service io (\<lambda>name px m. reload_or_stop px (lim_live io) name (changed name) m) names s"

text \<open>\<^verbatim>\<open>_fail_closed_static_access\<close> of the panel: both proxies are told to stop.\<close>

definition panel_fail_closed ::
  "limiter_io \<Rightarrow> string \<Rightarrow> limiter_state \<Rightarrow> (string \<times> service_action) list res \<times> limiter_state" where
  "panel_fail_closed io reason s =
     each_service io (\<lambda>name px m. stop_proxy px (lim_live io) name reason m) SERVICES s"

section \<open>The record in the queue\<close>

definition record_static_retry ::
  "exc option \<times> faults \<times> int \<Rightarrow> string \<Rightarrow> string list \<Rightarrow> cell \<Rightarrow> bool res \<times> cell" where
  "record_static_retry moment task_id services c = (case moment of (lock, fails, now) \<Rightarrow>
     if task_id = [] \<or> services = [] then (Inr True, c)
     else (case queue_op lock fails (AddStaticServices task_id services now) c of
         (Inr a, c') \<Rightarrow> (Inr (a = Flag True), c')
       | (Inl e, c') \<Rightarrow> (if caught_by_stop e then Inr False else Inl e, c')))"

definition record_kick_attempt ::
  "exc option \<times> faults \<times> int \<Rightarrow> string \<Rightarrow> bool \<Rightarrow> string list \<Rightarrow> cell \<Rightarrow> bool res \<times> cell" where
  "record_kick_attempt moment task_id kick_ok completed c = (case moment of (lock, fails, now) \<Rightarrow>
     if task_id = [] then (Inr False, c)
     else (case queue_op lock fails (CompleteAttempt task_id kick_ok completed now) c of
         (Inr _, c') \<Rightarrow> (Inr True, c')
       | (Inl e, c') \<Rightarrow> (if caught_by_stop e then Inr False else Inl e, c')))"

section \<open>The handoff of one request\<close>

record side_effects =
  se_uncertain :: bool
  se_outcomes :: "(string \<times> service_action) list"
  se_kick :: credential_action

text \<open>
  The stop of both proxies after \<open>sync_error\<close>, else the reload of each; the services that were stopped
  with their outcomes, and the services that need nothing more.
\<close>

definition static_handoff ::
  "limiter_io \<Rightarrow> bool \<Rightarrow> bool \<Rightarrow> string option \<Rightarrow> limiter_state
   \<Rightarrow> ((string \<times> service_action) list \<times> string list) res \<times> limiter_state" where
  "static_handoff io xray_changed tuic_changed sync_error s = (case sync_error of
      Some reason \<Rightarrow> (case panel_fail_closed io reason s of
          (Inl e, s') \<Rightarrow> (Inl e, s')
        | (Inr outcomes, s') \<Rightarrow> (Inr (outcomes, map fst (filter (\<lambda>o'. act_ok (snd o')) outcomes)), s'))
    | None \<Rightarrow> (case reload_services io (\<lambda>name. if name = XRAY_SERVICE then xray_changed else tuic_changed) SERVICES s of
          (Inl e, s') \<Rightarrow> (Inl e, s')
        | (Inr results, s') \<Rightarrow>
            (Inr (concat (map (\<lambda>(name, a). case a of Some outcome \<Rightarrow> [(name, outcome)] | None \<Rightarrow> []) results),
                  map fst (filter (\<lambda>(name, a). case a of Some outcome \<Rightarrow> act_ok outcome | None \<Rightarrow> True) results)), s')))"

definition attempt_revocation_side_effects ::
  "limiter_io \<Rightarrow> exc option \<times> faults \<times> int \<Rightarrow> exc option \<times> faults \<times> int \<Rightarrow> kick_reply \<Rightarrow> string \<Rightarrow> string
   \<Rightarrow> bool \<Rightarrow> bool \<Rightarrow> string option \<Rightarrow> limiter_state \<times> cell \<Rightarrow> side_effects res \<times> limiter_state \<times> cell" where
  "attempt_revocation_side_effects io retry_at kick_at reply task_id username xray_changed tuic_changed sync_error s =
     (case s of (core, queue) \<Rightarrow> (case static_handoff io xray_changed tuic_changed sync_error core of
        (Inl e, core1) \<Rightarrow> (Inl e, core1, queue)
      | (Inr (outcomes, completed), core1) \<Rightarrow>
          (case record_static_retry retry_at task_id (map fst (filter (\<lambda>o'. \<not> act_ok (snd o')) outcomes)) queue of
             (Inl e, queue1) \<Rightarrow> (Inl e, core1, queue1)
           | (Inr retry_recorded, queue1) \<Rightarrow>
               (let kick = hy_kick reply [username] in
                case record_kick_attempt kick_at task_id (ca_ok kick) completed queue1 of
                  (Inl e, queue2) \<Rightarrow> (Inl e, core1, queue2)
                | (Inr kick_recorded, queue2) \<Rightarrow>
                    (Inr \<lparr>se_uncertain = \<not> retry_recorded \<or> \<not> ca_ok kick \<or> \<not> kick_recorded
                        \<or> (\<exists>o' \<in> set outcomes. \<not> act_effect_confirmed (snd o')),
                      se_outcomes = outcomes, se_kick = kick\<rparr>, core1, queue2)))))"

section \<open>What a settled service has behind it\<close>

definition proxy_of :: "string \<Rightarrow> limiter_state \<Rightarrow> managed" where
  "proxy_of name s = (if name = XRAY_SERVICE then c_xray s else c_tuic s)"

definition surroundings :: "limiter_io \<Rightarrow> string \<Rightarrow> proxy_io" where
  "surroundings io name = (if name = XRAY_SERVICE then lim_xray io else lim_tuic io)"

lemma on_service_spec:
  assumes "on_service io name f s = (r, s')"
  shows "f (surroundings io name) (proxy_of name s) = (r, proxy_of name s')"
    and "other \<noteq> name \<Longrightarrow> {name, other} \<subseteq> set SERVICES \<Longrightarrow> proxy_of other s' = proxy_of other s"
  using assms by (auto simp: on_service_def surroundings_def proxy_of_def SERVICES_def XRAY_SERVICE_def TUIC_SERVICE_def
      split: if_splits prod.splits)

lemma each_service_spec:
  assumes "each_service io f names s = (Inr results, s')" and "distinct names" and "set names \<subseteq> set SERVICES"
  shows "map fst results = names
    \<and> (\<forall>(name, a) \<in> set results. f name (surroundings io name) (proxy_of name s) = (Inr a, proxy_of name s'))
    \<and> (\<forall>other \<in> set SERVICES - set names. proxy_of other s' = proxy_of other s)"
  using assms
proof (induction names arbitrary: s results)
  case (Cons name names)
  obtain a s1 where a: "on_service io name (f name) s = (Inr a, s1)"
    using Cons.prems(1) by (auto split: prod.splits sum.splits)
  then obtain rest where rest: "each_service io f names s1 = (Inr rest, s')" "results = (name, a) # rest"
    using Cons.prems(1) by (auto split: prod.splits sum.splits)
  from Cons.IH [OF rest(1)] Cons.prems have ih: "map fst rest = names"
    "\<forall>(n, b) \<in> set rest. f n (surroundings io n) (proxy_of n s1) = (Inr b, proxy_of n s')"
    "\<forall>other \<in> set SERVICES - set names. proxy_of other s' = proxy_of other s1" by auto
  have first: "f name (surroundings io name) (proxy_of name s) = (Inr a, proxy_of name s1)"
    and others: "\<And>other. other \<noteq> name \<Longrightarrow> other \<in> set SERVICES \<Longrightarrow> proxy_of other s1 = proxy_of other s"
    using on_service_spec [OF a] Cons.prems(3) by auto
  have "proxy_of name s' = proxy_of name s1" using ih(3) Cons.prems(2,3) by auto
  moreover have "proxy_of n s1 = proxy_of n s" if "(n, b) \<in> set rest" for n b
    using that ih(1) Cons.prems(2,3) others by (metis distinct.simps(2) list.set_intros(2) set_zip_leftD subsetD zip_map_fst_snd)
  ultimately show ?case using first ih others Cons.prems rest(2) by fastforce
qed simp

text \<open>The last command issued was \<open>cmd\<close>, and systemd accepted it.\<close>

definition last_accepted :: "proxy_io \<Rightarrow> command \<Rightarrow> managed \<Rightarrow> bool" where
  "last_accepted px cmd m \<longleftrightarrow> (\<exists>earlier. issued (service m) = earlier @ [cmd] \<and> px_run px earlier cmd = Exited 0)"

text \<open>
  Nothing waits for a reload, or a reload is scheduled, or the proxy is stopped with a marker that survives
  a power loss.
\<close>

definition service_settled :: "proxy_io \<Rightarrow> managed \<Rightarrow> bool" where
  "service_settled px m \<longleftrightarrow> \<not> has_reload_pending m \<or> last_accepted px ScheduleReload m
     \<or> last_accepted px Stop m \<and> Missing \<notin> insert (seen (marker (service m))) (after_crash (marker (service m)))"

lemma schedule_settles:
  assumes "schedule_static_reload px True name changed m = (a, m')" and "ca_ok a"
  shows "service_settled px m'"
proof (cases "\<not> changed \<and> \<not> has_reload_pending m")
  case True
  with assms show ?thesis by (simp add: schedule_static_reload_def Let_def service_settled_def)
next
  case False
  let ?loader = "if name = XRAY_SERVICE then xray_reload_async else tuic_reload_async"
  obtain scheduled token m1 where r: "?loader (px_run px) (px_reload_faults px) (px_time px) True m = (scheduled, token, m1)"
    by (metis prod_cases3)
  from assms False r have m': "m' = m1" "scheduled \<or> \<not> changed \<and> \<not> has_reload_pending m1"
    by (auto simp: schedule_static_reload_def Let_def split: if_splits)
  show ?thesis
  proof (cases scheduled)
    case True
    from r True have "reload_async (px_run px) (px_reload_faults px)
        (if name = XRAY_SERVICE then ''xray'' else TUIC_SERVICE) (px_time px) True m = (True, token, m1)"
      by (auto simp: xray_reload_async_def tuic_reload_async_def split: if_splits)
    then have "last_accepted px ScheduleReload m1"
      by (auto simp: reload_async_def last_accepted_def issue_def Let_def split: if_splits option.splits)
    with m' show ?thesis by (simp add: service_settled_def)
  next
    case False
    with m' show ?thesis by (simp add: service_settled_def)
  qed
qed

lemma stop_settles:
  assumes "stop_proxy px True name reason m = (Inr a, m')" and "act_ok a"
  shows "service_settled px m'"
proof -
  obtain sv where sv: "stop_fail_closed (px_run px) (px_stop_faults px) name reason (px_time px) True (service m) = (Inr a, sv)"
    "m' = m\<lparr>service := sv\<rparr>"
    using assms(1) by (auto simp: stop_proxy_def split: prod.splits)
  obtain e s1 where mk: "mark_pending (px_stop_faults px) name reason (px_time px) (service m) = (e, s1)" by fastforce
  from sv(1) assms(2) mk have e: "e = None" "sv = s1\<lparr>issued := issued s1 @ [Stop]\<rparr>" "px_run px (issued s1) Stop = Exited 0"
    by (auto simp: stop_fail_closed_def issue_def Let_def action_result_def split: if_splits StaticAccess.outcome.splits)
  from mk e(1) have "Missing \<notin> insert (seen (marker s1)) (after_crash (marker s1))"
    by (auto simp: mark_pending_def save_text_atomic_def write_atomic_def drop_temp_def Let_def marker_doc_def
        split: sum.splits if_splits prod.splits option.splits)
  with e sv(2) show ?thesis by (auto simp: service_settled_def last_accepted_def)
qed

lemma reload_or_stop_settles:
  assumes "reload_or_stop px True name changed m = (Inr a, m')" and "case a of Some outcome \<Rightarrow> act_ok outcome | None \<Rightarrow> True"
  shows "service_settled px m'"
proof -
  obtain reload m1 where r: "schedule_static_reload px True name changed m = (reload, m1)" by fastforce
  with assms schedule_settles [OF r] stop_settles show ?thesis
    by (auto simp: reload_or_stop_def split: if_splits prod.splits sum.splits)
qed

end
