(* ===== verification/RevocationWorker.thy ===== *)
theory RevocationWorker
  imports SideEffects Alerts
begin

text \<open>
  The worker of \<^verbatim>\<open>hysteria/subscription_service.py\<close> that retries revocations and finishes deletions: one
  task of the queue is claimed, the user file and the proxies are brought into line under the usage lock,
  and the outcome is recorded. The state adds to the panel's files those that hold a user's history.
\<close>

section \<open>State and surroundings\<close>

record worker_state =
  w_panel :: panel
  w_hourly :: cell
  w_preserved :: cell
  w_online :: cell
  w_admissions :: cell
  w_alerts :: cell

text \<open>
  What one purge meets: the failing system calls of its six plain files in the order of the code, the lock
  of the admission file, and the locks, failures and clock of the alert and session files.
\<close>

record purge_io =
  pg_faults :: "nat \<Rightarrow> faults"
  pg_admission_lock :: "exc option"
  pg_alerts :: "exc option \<times> faults"
  pg_sessions :: "exc option \<times> faults \<times> int"

record worker_io =
  wk_host :: limiter_io
  wk_lock :: "exc option"
  wk_save_faults :: faults
  wk_purge :: purge_io
  wk_claim :: "exc option \<times> faults \<times> int"
  wk_settle :: "exc option \<times> faults \<times> int"
  wk_now :: datetime
  wk_clock :: int
  wk_kick :: kick_reply

definition DELETE_TARGET_GENERATION :: string where "DELETE_TARGET_GENERATION = ''user-deleted-v1''"
definition DELETE_PREVIOUS_PREFIX :: string where "DELETE_PREVIOUS_PREFIX = ''user-revision-v1:''"

text \<open>\<open>revision\<close> is the SHA-256 digest of the canonical JSON text of a value.\<close>

definition user_config_revision :: "(json \<Rightarrow> string) \<Rightarrow> json \<Rightarrow> string" where
  "user_config_revision revision cfg = revision (if is_obj cfg then cfg else JObj [])"

definition delete_previous_generation :: "(json \<Rightarrow> string) \<Rightarrow> json \<Rightarrow> string" where
  "delete_previous_generation revision cfg = DELETE_PREVIOUS_PREFIX @ user_config_revision revision cfg"

definition is_delete_revocation_task :: "json dict \<Rightarrow> bool res" where
  "is_delete_revocation_task task = compare_digest (str_field task ''target_generation'') DELETE_TARGET_GENERATION"

text \<open>A failure with whether it names one of the four core files.\<close>

type_synonym failure = "exc \<times> bool"

definition state_failure_requires_static_stop :: "failure \<Rightarrow> bool" where
  "state_failure_requires_static_stop f = (case f of (e, core) \<Rightarrow> e = StateUnavailable \<or> e = DurabilityUncertain \<and> core)"

section \<open>The history of a user\<close>

text \<open>Core files raise \<^verbatim>\<open>CriticalStateUnavailable\<close> when they cannot be read, the others their own error.\<close>

definition panel_load :: "bool \<Rightarrow> jfile \<Rightarrow> json dict res" where
  "panel_load core f = (if core then load_critical f else load_dict f False)"

definition drop_user :: "string \<Rightarrow> json \<Rightarrow> json" where
  "drop_user username bucket = (case bucket of JObj rows \<Rightarrow> JObj (AList.delete username rows) | _ \<Rightarrow> bucket)"

definition has_user :: "string \<Rightarrow> json \<Rightarrow> bool" where
  "has_user username bucket = (case bucket of JObj rows \<Rightarrow> map_of rows username \<noteq> None | _ \<Rightarrow> False)"

definition tag :: "bool \<Rightarrow> exc option \<times> cell \<Rightarrow> failure option \<times> cell" where
  "tag core r = (map_option (\<lambda>e. (e, core)) (fst r), snd r)"

definition purge_buckets :: "bool \<Rightarrow> faults \<Rightarrow> string \<Rightarrow> cell \<Rightarrow> failure option \<times> cell" where
  "purge_buckets core fails username c = (case panel_load core (seen c) of
      Inl e \<Rightarrow> (Some (e, core), c)
    | Inr data \<Rightarrow>
        if \<exists>(k, b) \<in> set data. has_user username b
        then tag core (panel_save fails (map (\<lambda>(k, b). (k, drop_user username b)) data) c)
        else (None, c))"

definition purge_entry :: "faults \<Rightarrow> string \<Rightarrow> cell \<Rightarrow> failure option \<times> cell" where
  "purge_entry fails username c = (case load_dict (seen c) False of
      Inl e \<Rightarrow> (Some (e, False), c)
    | Inr data \<Rightarrow>
        if map_of data username \<noteq> None then tag False (panel_save fails (AList.delete username data) c)
        else (None, c))"

definition purge_admission :: "exc option \<Rightarrow> faults \<Rightarrow> string \<Rightarrow> cell \<Rightarrow> failure option \<times> cell" where
  "purge_admission lock fails username c = (case lock of
      Some e \<Rightarrow> (Some (e, False), c) | None \<Rightarrow> purge_entry fails username c)"

text \<open>A failing alert file is reported and left alone; other exceptions escape.\<close>

definition clear_alert_dedup_for_users ::
  "exc option \<times> faults \<Rightarrow> string list \<Rightarrow> bool \<Rightarrow> cell \<Rightarrow> bool res \<times> cell" where
  "clear_alert_dedup_for_users moment usernames quota_only c = (case moment of (lock, fails) \<Rightarrow>
     (case alert_op lock fails (if quota_only then ClearQuota usernames else ClearUsers usernames) c of
        (Inr _, c') \<Rightarrow> (Inr True, c')
      | (Inl e, c') \<Rightarrow> (if caught_by_stop e then Inr False else Inl e, c')))"

definition purge_alerts :: "exc option \<times> faults \<Rightarrow> string \<Rightarrow> cell \<Rightarrow> failure option \<times> cell" where
  "purge_alerts moment username c = (case clear_alert_dedup_for_users moment [username] False c of
      (Inl e, c') \<Rightarrow> (Some (e, False), c') | (Inr _, c') \<Rightarrow> (None, c'))"

definition purge_sessions :: "exc option \<times> faults \<times> int \<Rightarrow> string \<Rightarrow> cell \<Rightarrow> failure option \<times> cell" where
  "purge_sessions moment username c = (case moment of (lock, fails, now) \<Rightarrow>
     (case session_op lock fails (DeleteSessionsFor username now) c of
        (Inl e, c') \<Rightarrow> (Some (e, False), c') | (Inr _, c') \<Rightarrow> (None, c')))"

text \<open>The first failing step ends the purge.\<close>

fun first_failure :: "('s \<Rightarrow> failure option \<times> 's) list \<Rightarrow> 's \<Rightarrow> failure option \<times> 's" where
  "first_failure [] s = (None, s)"
| "first_failure (step # steps) s = (case step s of
      (Some f, s') \<Rightarrow> (Some f, s') | (None, s') \<Rightarrow> first_failure steps s')"

definition on_core :: "(limiter_state \<Rightarrow> failure option \<times> limiter_state) \<Rightarrow> worker_state \<Rightarrow> failure option \<times> worker_state" where
  "on_core f s = (case f (p_core (w_panel s)) of (r, core) \<Rightarrow> (r, s\<lparr>w_panel := (w_panel s)\<lparr>p_core := core\<rparr>\<rparr>))"

definition purge_user_history_locked :: "purge_io \<Rightarrow> string \<Rightarrow> worker_state \<Rightarrow> failure option \<times> worker_state" where
  "purge_user_history_locked io username = first_failure
     [on_core (\<lambda>c. case purge_buckets True (pg_faults io 0) username (c_usage c) of (r, x) \<Rightarrow> (r, c\<lparr>c_usage := x\<rparr>)),
      on_core (\<lambda>c. case purge_buckets True (pg_faults io 1) username (c_daily c) of (r, x) \<Rightarrow> (r, c\<lparr>c_daily := x\<rparr>)),
      \<lambda>s. case purge_buckets False (pg_faults io 2) username (w_hourly s) of (r, x) \<Rightarrow> (r, s\<lparr>w_hourly := x\<rparr>),
      \<lambda>s. case purge_buckets False (pg_faults io 3) username (w_preserved s) of (r, x) \<Rightarrow> (r, s\<lparr>w_preserved := x\<rparr>),
      \<lambda>s. case purge_entry (pg_faults io 4) username (w_online s) of (r, x) \<Rightarrow> (r, s\<lparr>w_online := x\<rparr>),
      \<lambda>s. case purge_admission (pg_admission_lock io) (pg_faults io 5) username (w_admissions s) of
            (r, x) \<Rightarrow> (r, s\<lparr>w_admissions := x\<rparr>),
      \<lambda>s. case purge_alerts (pg_alerts io) username (w_alerts s) of (r, x) \<Rightarrow> (r, s\<lparr>w_alerts := x\<rparr>),
      \<lambda>s. case purge_sessions (pg_sessions io) username (p_sessions (w_panel s)) of
            (r, x) \<Rightarrow> (r, s\<lparr>w_panel := (w_panel s)\<lparr>p_sessions := x\<rparr>\<rparr>)]"

section \<open>Under the usage lock\<close>

text \<open>The user file and the history for a deletion; a replaced account of the same name is left alone.\<close>

definition redo_deletion ::
  "(json \<Rightarrow> string) \<Rightarrow> worker_io \<Rightarrow> string \<Rightarrow> json dict \<Rightarrow> json dict \<Rightarrow> worker_state
   \<Rightarrow> (failure + json dict) \<times> worker_state" where
  "redo_deletion revision io user task users s =
     (let current = (case map_of users user of
            Some (JObj d) \<Rightarrow> delete_previous_generation revision (JObj d) | _ \<Rightarrow> [])
      in case (if map_of users user = None then Inr False
               else if current = [] then Inr True
               else rbind (compare_digest current (str_field task ''previous_generation'')) (\<lambda>same. Inr (\<not> same))) of
        Inl e \<Rightarrow> (Inl (e, False), s)
      | Inr True \<Rightarrow> (Inr users, s)
      | Inr False \<Rightarrow>
          (let users' = AList.delete user users in
           case panel_save (wk_save_faults io) users' (c_users (p_core (w_panel s))) of
             (e, c) \<Rightarrow> (let s1 = s\<lparr>w_panel := (w_panel s)\<lparr>p_core := (p_core (w_panel s))\<lparr>c_users := c\<rparr>\<rparr>\<rparr> in
               case e of
                 Some e \<Rightarrow> (Inl (e, True), s1)
               | None \<Rightarrow> (case purge_user_history_locked (wk_purge io) user s1 of
                   (Some f, s2) \<Rightarrow> (Inl f, s2)
                 | (None, s2) \<Rightarrow> (Inr users', s2)))))"

record locked_result =
  lk_generation :: string
  lk_xray_changed :: bool
  lk_tuic_changed :: bool
  lk_sync_error :: "exc option"

text \<open>The synchronisation of both proxies for a task that still has services to settle.\<close>

definition sync_if_due ::
  "worker_io \<Rightarrow> bool \<Rightarrow> json dict \<Rightarrow> string \<Rightarrow> json dict \<Rightarrow> worker_state
   \<Rightarrow> (failure + locked_result) \<times> worker_state" where
  "sync_if_due io is_delete task generation users s =
     (let answer = (\<lambda>xc tc e. Inr \<lparr>lk_generation = generation, lk_xray_changed = xc, lk_tuic_changed = tc,
            lk_sync_error = e\<rparr>)
      in case (if services_of task = [] then Inr False
               else if is_delete then Inr True
               else compare_digest generation (str_field task ''target_generation'')) of
        Inl e \<Rightarrow> (Inl (e, False), s)
      | Inr False \<Rightarrow> (answer False False None, s)
      | Inr True \<Rightarrow> (case sync_static_access_from_users (wk_host io) users (wk_now io) (p_core (w_panel s)) of
          (r, core) \<Rightarrow> (let s' = s\<lparr>w_panel := (w_panel s)\<lparr>p_core := core\<rparr>\<rparr> in
            case r of
              Inr (xc, tc) \<Rightarrow> (answer xc tc None, s')
            | Inl e \<Rightarrow> (if caught_by_stop e then answer False False (Some e) else Inl (e, False), s'))))"

definition locked_work ::
  "(json \<Rightarrow> string) \<Rightarrow> (string \<Rightarrow> string) \<Rightarrow> (json \<Rightarrow> string) \<Rightarrow> worker_io \<Rightarrow> bool \<Rightarrow> json dict \<Rightarrow> worker_state
   \<Rightarrow> (failure + locked_result) \<times> worker_state" where
  "locked_work py_str sha revision io is_delete task s = (case wk_lock io of
      Some e \<Rightarrow> (Inl (e, False), s)
    | None \<Rightarrow> (case load_critical (seen (c_users (p_core (w_panel s)))) of
        Inl e \<Rightarrow> (Inl (e, False), s)
      | Inr users \<Rightarrow>
          (let user = str_field task ''user'' in
           if is_delete
           then (case redo_deletion revision io user task users s of
               (Inl f, s1) \<Rightarrow> (Inl f, s1)
             | (Inr users', s1) \<Rightarrow> sync_if_due io True task DELETE_TARGET_GENERATION users' s1)
           else sync_if_due io False task
               (credential_generation sha (text_or_empty py_str (case map_of users user of
                  Some (JObj cfg) \<Rightarrow> dget cfg ''sub_token'' JNull | _ \<Rightarrow> JStr []))) users s)))"

section \<open>One task\<close>

definition on_queue ::
  "exc option \<times> faults \<times> int \<Rightarrow> (int \<Rightarrow> qop) \<Rightarrow> worker_state \<Rightarrow> qresult res \<times> worker_state" where
  "on_queue moment op s = (case moment of (lock, fails, now) \<Rightarrow>
     (case queue_op lock fails (op now) (p_queue (w_panel s)) of
        (r, c) \<Rightarrow> (r, s\<lparr>w_panel := (w_panel s)\<lparr>p_queue := c\<rparr>\<rparr>)))"

text \<open>A failure under the lock: the claim is released as far as possible, and an unsafe core state stops the proxies.\<close>

definition stop_if_unsafe :: "worker_io \<Rightarrow> failure \<Rightarrow> worker_state \<Rightarrow> bool res \<times> worker_state" where
  "stop_if_unsafe io f s =
     (if state_failure_requires_static_stop f
      then (case panel_fail_closed (wk_host io) (exc_name (fst f)) (p_core (w_panel s)) of
          (x, core) \<Rightarrow> (rbind x (\<lambda>_. Inr False), s\<lparr>w_panel := (w_panel s)\<lparr>p_core := core\<rparr>\<rparr>))
      else (Inr False, s))"

definition give_up :: "worker_io \<Rightarrow> string \<Rightarrow> failure \<Rightarrow> worker_state \<Rightarrow> bool res \<times> worker_state" where
  "give_up io task_id f s =
     (if \<not> caught_by_stop (fst f) then (Inl (fst f), s)
      else (case on_queue (wk_settle io) (ReleaseClaim task_id RETRY_DELAY_SECONDS) s of
          (Inl e, s1) \<Rightarrow> if caught_by_stop e then stop_if_unsafe io f s1 else (Inl e, s1)
        | (Inr _, s1) \<Rightarrow> stop_if_unsafe io f s1))"

text \<open>
  The canonical credential is not the one the task waits for: before the commit the task stays, unless its
  replay window is over; after a newer rotation it is obsolete.
\<close>

definition not_current :: "worker_io \<Rightarrow> string \<Rightarrow> json dict \<Rightarrow> string \<Rightarrow> worker_state \<Rightarrow> bool res \<times> worker_state" where
  "not_current io task_id task generation s =
     (case compare_digest generation (str_field task ''previous_generation'') of
        Inl e \<Rightarrow> (Inl e, s)
      | Inr uncommitted \<Rightarrow>
          (case on_queue (wk_settle io)
             (if uncommitted \<and> wk_clock io < int_field task ''expires_at'' 0
              then ReleaseClaim task_id RETRY_DELAY_SECONDS else (\<lambda>_. Discard task_id)) s of
             (r, s') \<Rightarrow> (rbind r (\<lambda>_. Inr False), s')))"

text \<open>The proxies, outside the lock; the answer is the services that need nothing more.\<close>

definition settle_services ::
  "limiter_io \<Rightarrow> string list \<Rightarrow> locked_result \<Rightarrow> limiter_state \<Rightarrow> string list res \<times> limiter_state" where
  "settle_services io pending lk core = (case lk_sync_error lk of
      Some e \<Rightarrow> (case panel_fail_closed io (exc_name e) core of
          (Inl e', core') \<Rightarrow> (Inl e', core')
        | (Inr outcomes, core') \<Rightarrow>
            (Inr (filter (\<lambda>name. case map_of outcomes name of Some outcome \<Rightarrow> act_ok outcome | None \<Rightarrow> False) pending), core'))
    | None \<Rightarrow> (case reload_services io (\<lambda>name. if name = XRAY_SERVICE then lk_xray_changed lk
            else name = TUIC_SERVICE \<and> lk_tuic_changed lk) pending core of
          (Inl e', core') \<Rightarrow> (Inl e', core')
        | (Inr results, core') \<Rightarrow>
            (Inr (map fst (filter (\<lambda>(name, a). case a of Some outcome \<Rightarrow> act_ok outcome | None \<Rightarrow> True) results)), core')))"

definition finish_attempt :: "worker_io \<Rightarrow> string \<Rightarrow> json dict \<Rightarrow> locked_result \<Rightarrow> worker_state \<Rightarrow> bool res \<times> worker_state" where
  "finish_attempt io task_id task lk s =
     (case settle_services (wk_host io) (services_of task) lk (p_core (w_panel s)) of
        (r, core) \<Rightarrow> (let s1 = s\<lparr>w_panel := (w_panel s)\<lparr>p_core := core\<rparr>\<rparr> in
          case r of
            Inl e \<Rightarrow> (Inl e, s1)
          | Inr completed \<Rightarrow>
              (case on_queue (wk_settle io) (CompleteAttempt task_id (ca_ok (hy_kick (wk_kick io) [str_field task ''user'']))
                  completed) s1 of
                 (Inr _, s2) \<Rightarrow> (Inr True, s2)
               | (Inl e, s2) \<Rightarrow> (if caught_by_stop e then Inr False else Inl e, s2))))"

definition process_task ::
  "(json \<Rightarrow> string) \<Rightarrow> (string \<Rightarrow> string) \<Rightarrow> (json \<Rightarrow> string) \<Rightarrow> worker_io \<Rightarrow> string \<Rightarrow> json dict \<Rightarrow> worker_state
   \<Rightarrow> bool res \<times> worker_state" where
  "process_task py_str sha revision io task_id task s = (case is_delete_revocation_task task of
      Inl e \<Rightarrow> (Inl e, s)
    | Inr is_delete \<Rightarrow> (case locked_work py_str sha revision io is_delete task s of
        (Inl f, s1) \<Rightarrow> give_up io task_id f s1
      | (Inr lk, s1) \<Rightarrow> (case compare_digest (lk_generation lk) (str_field task ''target_generation'') of
          Inl e \<Rightarrow> (Inl e, s1)
        | Inr False \<Rightarrow> not_current io task_id task (lk_generation lk) s1
        | Inr True \<Rightarrow> finish_attempt io task_id task lk s1)))"

definition process_one_revocation_task ::
  "(json \<Rightarrow> string) \<Rightarrow> (string \<Rightarrow> string) \<Rightarrow> (json \<Rightarrow> string) \<Rightarrow> worker_io \<Rightarrow> worker_state \<Rightarrow> bool res \<times> worker_state" where
  "process_one_revocation_task py_str sha revision io s = (case on_queue (wk_claim io) ClaimDue s of
      (Inl e, s1) \<Rightarrow> (Inl e, s1)
    | (Inr (RevocationQueue.Claimed (Some (task_id, task))), s1) \<Rightarrow> process_task py_str sha revision io task_id task s1
    | (Inr _, s1) \<Rightarrow> (Inr False, s1))"

section \<open>The loop\<close>

text \<open>One wake-up: expired receipts go first, then at most eight tasks, until one makes no progress or raises.\<close>

definition WORKER_BURST :: nat where "WORKER_BURST = 8"

fun worker_burst ::
  "(json \<Rightarrow> string) \<Rightarrow> (string \<Rightarrow> string) \<Rightarrow> (json \<Rightarrow> string) \<Rightarrow> worker_io list \<Rightarrow> worker_state \<Rightarrow> worker_state" where
  "worker_burst py_str sha revision [] s = s"
| "worker_burst py_str sha revision (io # ios) s = (case process_one_revocation_task py_str sha revision io s of
      (Inr True, s') \<Rightarrow> worker_burst py_str sha revision ios s'
    | (_, s') \<Rightarrow> s')"

definition prune_expired_rotation_receipts ::
  "(string \<Rightarrow> string) \<Rightarrow> exc option \<times> faults \<times> int \<Rightarrow> worker_state \<Rightarrow> nat res \<times> worker_state" where
  "prune_expired_rotation_receipts hex moment s = (case moment of (lock, fails, now) \<Rightarrow>
     (case receipt_op hex lock fails (PruneExpired now) (p_receipts (w_panel s)) of
        (r, c) \<Rightarrow> (case r of
            Inr (Removed n) \<Rightarrow> Inr n
          | Inr _ \<Rightarrow> Inr 0
          | Inl e \<Rightarrow> if caught_by_stop e then Inr 0 else Inl e,
          s\<lparr>w_panel := (w_panel s)\<lparr>p_receipts := c\<rparr>\<rparr>)))"

definition worker_wake ::
  "(json \<Rightarrow> string) \<Rightarrow> (string \<Rightarrow> string) \<Rightarrow> (json \<Rightarrow> string) \<Rightarrow> (string \<Rightarrow> string) \<Rightarrow> exc option \<times> faults \<times> int
   \<Rightarrow> worker_io list \<Rightarrow> worker_state \<Rightarrow> unit res \<times> worker_state" where
  "worker_wake py_str sha revision hex moment ios s = (case prune_expired_rotation_receipts hex moment s of
      (Inl e, s1) \<Rightarrow> (Inl e, s1)
    | (Inr _, s1) \<Rightarrow> (Inr (), worker_burst py_str sha revision (take WORKER_BURST ios) s1))"

section \<open>What each step leaves alone\<close>

text \<open>The core files apart from the two proxies.\<close>

definition same_core :: "limiter_state \<Rightarrow> limiter_state \<Rightarrow> bool" where
  "same_core c c' \<longleftrightarrow> c_users c' = c_users c \<and> c_meta c' = c_meta c \<and> c_usage c' = c_usage c
     \<and> c_daily c' = c_daily c \<and> c_reset c' = c_reset c"

lemma same_core_refl: "same_core c c"
  by (simp add: same_core_def)

lemma same_core_trans: "same_core a b \<Longrightarrow> same_core b c \<Longrightarrow> same_core a c"
  by (simp add: same_core_def)

lemma on_service_core: "on_service io name f c = (r, c') \<Longrightarrow> same_core c c'"
  by (auto simp: on_service_def same_core_def split: if_splits prod.splits)

lemma each_service_core: "each_service io f names c = (r, c') \<Longrightarrow> same_core c c'"
proof (induction names arbitrary: c r c')
  case (Cons name names)
  obtain a c1 where a: "on_service io name (f name) c = (a, c1)" by fastforce
  note k = on_service_core [OF a]
  show ?case
  proof (cases a)
    case (Inl e)
    with Cons.prems a k show ?thesis by simp
  next
    case (Inr x)
    obtain b c2 where b: "each_service io f names c1 = (b, c2)" by fastforce
    with Cons.prems a Inr have "c' = c2" by (auto split: sum.splits)
    with same_core_trans [OF k Cons.IH [OF b]] show ?thesis by simp
  qed
qed (simp add: same_core_def)

lemma sync_core: "sync_static_access_from_users io users now c = (r, c') \<Longrightarrow> same_core c c'"
  by (auto simp: sync_static_access_from_users_def same_core_def Let_def split: if_splits sum.splits prod.splits)

lemma settle_core: "settle_services io pending lk c = (r, c') \<Longrightarrow> same_core c c'"
  by (auto simp: settle_services_def panel_fail_closed_def reload_services_def
      split: option.splits prod.splits sum.splits dest: each_service_core)

text \<open>Everything that records a user, apart from the user file itself.\<close>

definition history_of :: "worker_state \<Rightarrow> cell list" where
  "history_of s = [c_usage (p_core (w_panel s)), c_daily (p_core (w_panel s)), w_hourly s, w_preserved s, w_online s,
     w_admissions s, w_alerts s, p_sessions (w_panel s)]"

abbreviation users_of :: "worker_state \<Rightarrow> cell" where "users_of s \<equiv> c_users (p_core (w_panel s))"
abbreviation queue_of :: "worker_state \<Rightarrow> cell" where "queue_of s \<equiv> p_queue (w_panel s)"

definition same_files :: "worker_state \<Rightarrow> worker_state \<Rightarrow> bool" where
  "same_files s s' \<longleftrightarrow> users_of s' = users_of s \<and> history_of s' = history_of s"

lemma same_files_core:
  "same_core (p_core (w_panel s)) core \<Longrightarrow> same_files s (s\<lparr>w_panel := (w_panel s)\<lparr>p_core := core\<rparr>\<rparr>)"
  by (simp add: same_files_def same_core_def history_of_def)

lemma same_files_trans: "same_files a b \<Longrightarrow> same_files b c \<Longrightarrow> same_files a c"
  by (simp add: same_files_def)

lemma same_files_refl: "same_files s s"
  by (simp add: same_files_def)

lemma on_queue_files: "on_queue moment op s = (r, s') \<Longrightarrow> same_files s s'"
  by (auto simp: on_queue_def same_files_def history_of_def split: prod.splits)

lemma stop_if_unsafe_files: "stop_if_unsafe io f s = (r, s') \<Longrightarrow> same_files s s' \<and> queue_of s' = queue_of s"
  by (auto simp: stop_if_unsafe_def panel_fail_closed_def same_files_refl split: if_splits prod.splits
      dest: each_service_core intro!: same_files_core)

lemma give_up_files: "give_up io i f s = (r, s') \<Longrightarrow> same_files s s'"
  by (auto simp: give_up_def same_files_refl split: if_splits prod.splits sum.splits
      dest!: on_queue_files stop_if_unsafe_files intro: same_files_trans)

lemma not_current_files: "not_current io i task g s = (r, s') \<Longrightarrow> same_files s s'"
  by (auto simp: not_current_def same_files_refl split: prod.splits sum.splits dest!: on_queue_files)

lemma finish_attempt_files: "finish_attempt io i task lk s = (r, s') \<Longrightarrow> same_files s s'"
  by (auto simp: finish_attempt_def Let_def split: prod.splits sum.splits
      dest!: settle_core on_queue_files intro: same_files_core same_files_trans)

lemma sync_if_due_files: "sync_if_due io d task g users s = (r, s') \<Longrightarrow> same_files s s' \<and> queue_of s' = queue_of s"
  by (auto simp: sync_if_due_def Let_def same_files_refl split: prod.splits sum.splits bool.splits
      dest!: sync_core intro!: same_files_core)

lemma first_failure_keeps:
  assumes "\<forall>step \<in> set steps. \<forall>s. I s (snd (step s))"
    and "\<And>s. I s s" and "\<And>a b c. I a b \<Longrightarrow> I b c \<Longrightarrow> I a c"
  shows "I s (snd (first_failure steps s))"
  using assms(1)
proof (induction steps arbitrary: s)
  case Nil
  with assms(2) show ?case by simp
next
  case (Cons step steps)
  obtain a s1 where a: "step s = (a, s1)" by fastforce
  with Cons.prems have first: "I s s1" by (metis list.set_intros(1) snd_conv)
  from Cons.prems have "I s1 (snd (first_failure steps s1))" by (intro Cons.IH) simp
  with first assms(3) a show ?case by (cases a) auto
qed

definition same_accounts :: "worker_state \<Rightarrow> worker_state \<Rightarrow> bool" where
  "same_accounts s s' \<longleftrightarrow> users_of s' = users_of s \<and> queue_of s' = queue_of s"

lemma purge_frame:
  assumes "purge_user_history_locked io username s = (r, s')"
  shows "same_accounts s s'"
proof -
  have "same_accounts s (snd (purge_user_history_locked io username s))"
    unfolding purge_user_history_locked_def
    by (rule first_failure_keeps) (auto simp: same_accounts_def on_core_def split: prod.splits)
  with assms show ?thesis by simp
qed

section \<open>Deletions\<close>

text \<open>The task names the account as it is, or the account is gone already.\<close>

definition deletion_bound :: "(json \<Rightarrow> string) \<Rightarrow> json dict \<Rightarrow> json dict \<Rightarrow> bool" where
  "deletion_bound revision task users \<longleftrightarrow>
     (let user = str_field task ''user'' in map_of users user = None
        \<or> (\<exists>d. map_of users user = Some (JObj d)
            \<and> delete_previous_generation revision (JObj d) = str_field task ''previous_generation''))"

lemma redo_deletion_cases:
  assumes "redo_deletion revision io user task users s = (r, s')" and "user = str_field task ''user''"
  obtains (kept) "same_files s s'" "queue_of s' = queue_of s" "\<And>users'. r = Inr users' \<Longrightarrow> users' = users"
  | (failed) "deletion_bound revision task users" "file_becomes (users_of s) (users_of s') (AList.delete user users)"
      "history_of s' = history_of s" "isl r" "queue_of s' = queue_of s"
  | (deleted) "deletion_bound revision task users" "seen (users_of s') = Doc (raw_of_json (JObj (AList.delete user users)))"
      "after_crash (users_of s') = {seen (users_of s')}" "queue_of s' = queue_of s"
      "\<And>users'. r = Inr users' \<Longrightarrow> users' = AList.delete user users"
proof -
  let ?current = "case map_of users user of Some (JObj d) \<Rightarrow> delete_previous_generation revision (JObj d) | _ \<Rightarrow> []"
  obtain m where m: "(if map_of users user = None then Inr False
               else if ?current = [] then Inr True
               else rbind (compare_digest ?current (str_field task ''previous_generation'')) (\<lambda>same. Inr (\<not> same))) = m" by blast
  note run = assms(1) [unfolded redo_deletion_def Let_def m]
  show ?thesis
  proof (cases "m = Inr False")
    case False
    with run have "s' = s \<and> (\<forall>users'. r = Inr users' \<longrightarrow> users' = users)" by (auto split: sum.splits bool.splits)
    then show ?thesis by (intro kept) (auto simp: same_files_refl)
  next
    case True
    have bound: "deletion_bound revision task users"
    proof (cases "map_of users user")
      case (Some v)
      with m True have nz: "?current \<noteq> []" by (auto split: if_splits)
      with Some obtain d where v: "v = JObj d" by (cases v) simp_all
      from m True Some nz have "rbind (compare_digest ?current (str_field task ''previous_generation'')) (\<lambda>same. Inr (\<not> same)) = Inr False"
        by simp
      then have "?current = str_field task ''previous_generation''" by (auto simp: rbind_eq_Inr compare_digest_def split: if_splits)
      with Some v assms(2) show ?thesis by (simp add: deletion_bound_def)
    qed (use assms(2) in \<open>simp add: deletion_bound_def\<close>)
    obtain e c where p: "panel_save (wk_save_faults io) (AList.delete user users) (users_of s) = (e, c)" by fastforce
    let ?s1 = "s\<lparr>w_panel := (w_panel s)\<lparr>p_core := (p_core (w_panel s))\<lparr>c_users := c\<rparr>\<rparr>\<rparr>"
    show ?thesis
    proof (cases e)
      case (Some x)
      with run True p have s': "s' = ?s1" "isl r" by auto
      from panel_save_atomic p have "file_becomes (users_of s) c (AList.delete user users)"
        by (cases rule: atomic_put_cases) (auto simp: file_becomes_def)
      with s' bound show ?thesis by (intro failed) (auto simp: history_of_def)
    next
      case None
      have c: "seen c = Doc (raw_of_json (JObj (AList.delete user users)))" "after_crash c = {seen c}"
        using panel_save_atomic p [unfolded None] by (cases rule: atomic_put_cases; simp)+
      obtain f s2 where q: "purge_user_history_locked (wk_purge io) user ?s1 = (f, s2)" by fastforce
      from purge_frame [OF q] have k: "users_of s2 = c" "queue_of s2 = queue_of s" by (simp_all add: same_accounts_def)
      from run True p None q have "s' = s2" "\<And>users'. r = Inr users' \<Longrightarrow> users' = AList.delete user users"
        by (auto split: option.splits)
      with k c bound show ?thesis by (intro deleted) auto
    qed
  qed
qed

text \<open>Account and history are as before, or fall to a deletion that was bound to this account.\<close>

definition touched_by_deletion ::
  "(json \<Rightarrow> string) \<Rightarrow> json dict \<Rightarrow> json dict \<Rightarrow> worker_state \<Rightarrow> worker_state \<Rightarrow> bool" where
  "touched_by_deletion revision task users s s' \<longleftrightarrow>
     (let gone = AList.delete (str_field task ''user'') users in
      str_field task ''target_generation'' = DELETE_TARGET_GENERATION \<and> deletion_bound revision task users
      \<and> file_becomes (users_of s) (users_of s') gone
      \<and> (history_of s' \<noteq> history_of s \<longrightarrow>
           seen (users_of s') = Doc (raw_of_json (JObj gone)) \<and> after_crash (users_of s') = {seen (users_of s')}))"

lemma touched_later: "touched_by_deletion revision task users s s1 \<Longrightarrow> same_files s1 s' \<Longrightarrow> touched_by_deletion revision task users s s'"
  by (simp add: touched_by_deletion_def same_files_def Let_def)

lemma locked_work_touches:
  assumes "locked_work py_str sha revision io is_delete task s = (r, s')" and "is_delete_revocation_task task = Inr is_delete"
  shows "queue_of s' = queue_of s \<and> (same_files s s' \<or>
    (\<exists>users. load_dict (seen (users_of s)) True = Inr users \<and> touched_by_deletion revision task users s s'))"
proof (cases "\<exists>users. wk_lock io = None \<and> load_critical (seen (users_of s)) = Inr users \<and> is_delete")
  case False
  with assms(1) show ?thesis
    by (auto simp: locked_work_def Let_def same_files_refl split: option.splits sum.splits dest!: sync_if_due_files)
next
  case True
  then obtain users where u: "wk_lock io = None" "load_critical (seen (users_of s)) = Inr users" "is_delete" by blast
  let ?user = "str_field task ''user''"
  have del: "str_field task ''target_generation'' = DELETE_TARGET_GENERATION"
    using assms(2) u(3) by (auto simp: is_delete_revocation_task_def compare_digest_def split: if_splits)
  obtain a s1 where a: "redo_deletion revision io ?user task users s = (a, s1)" by fastforce
  with assms(1) u have later: "same_files s1 s' \<and> queue_of s' = queue_of s1"
    by (auto simp: locked_work_def Let_def same_files_refl split: sum.splits dest: sync_if_due_files)
  from a refl show ?thesis
  proof (cases rule: redo_deletion_cases)
    case kept
    with later same_files_trans show ?thesis by metis
  next
    case failed
    with del have "touched_by_deletion revision task users s s1" by (simp add: touched_by_deletion_def)
    with later touched_later u(2) failed(5) show ?thesis by auto
  next
    case deleted
    with del have "touched_by_deletion revision task users s s1" by (simp add: touched_by_deletion_def file_becomes_def)
    with later touched_later u(2) deleted(4) show ?thesis by auto
  qed
qed

lemma process_task_touches:
  assumes "process_task py_str sha revision io i task s = (r, s')"
  shows "same_files s s' \<or> (\<exists>users. load_dict (seen (users_of s)) True = Inr users \<and> touched_by_deletion revision task users s s')"
proof (cases "is_delete_revocation_task task")
  case (Inl e)
  with assms show ?thesis by (simp add: process_task_def same_files_refl)
next
  case (Inr is_delete)
  obtain a s1 where a: "locked_work py_str sha revision io is_delete task s = (a, s1)" by fastforce
  have later: "same_files s1 s'"
    using assms a Inr by (auto simp: process_task_def same_files_refl split: sum.splits bool.splits
        dest: give_up_files not_current_files finish_attempt_files)
  from locked_work_touches [OF a Inr] same_files_trans [OF _ later] touched_later [OF _ later] show ?thesis by blast
qed

text \<open>
  C13. The worker touches an account or its history only for a deletion that was bound to this very account.
  One run leaves the user file and every file of history as they were, or the claimed task is a deletion, the
  user is absent or still has the revision the task names, the user file can become nothing but itself
  without that user, and when any file of history has changed, the user file is durably without the user:
  no power loss brings the account back with its history gone.
\<close>

theorem deletion_durable_before_purge:
  assumes "process_one_revocation_task py_str sha revision io s = (r, s')"
  shows "users_of s' = users_of s \<and> history_of s' = history_of s
    \<or> (\<exists>i task c users. queue_op (fst (wk_claim io)) (fst (snd (wk_claim io))) (ClaimDue (snd (snd (wk_claim io)))) (queue_of s)
          = (Inr (RevocationQueue.Claimed (Some (i, task))), c)
        \<and> load_dict (seen (users_of s)) True = Inr users \<and> touched_by_deletion revision task users s s')"
proof -
  obtain lock fails now where m: "wk_claim io = (lock, fails, now)" by (metis prod_cases3)
  obtain a s1 where a: "on_queue (wk_claim io) ClaimDue s = (a, s1)" by fastforce
  note k = on_queue_files [OF a]
  show ?thesis
  proof (cases "\<exists>i task. a = Inr (RevocationQueue.Claimed (Some (i, task)))")
    case False
    with assms a have "s' = s1"
      by (auto simp: process_one_revocation_task_def split: sum.splits qresult.splits option.splits)
    with k show ?thesis by (simp add: same_files_def)
  next
    case True
    then obtain i task where t: "a = Inr (RevocationQueue.Claimed (Some (i, task)))" by blast
    with assms a have p: "process_task py_str sha revision io i task s1 = (r, s')"
      by (simp add: process_one_revocation_task_def)
    from a t m have q: "\<exists>c. queue_op lock fails (ClaimDue now) (queue_of s) = (Inr (RevocationQueue.Claimed (Some (i, task))), c)"
      by (auto simp: on_queue_def split: prod.splits)
    have same: "touched_by_deletion revision task users s1 s' \<Longrightarrow> touched_by_deletion revision task users s s'" for users
      using k by (simp add: touched_by_deletion_def same_files_def)
    from process_task_touches [OF p] k same q m show ?thesis by (auto simp: same_files_def)
  qed
qed

section \<open>What a completed purge leaves\<close>

definition rows_of :: "json dict \<Rightarrow> string \<Rightarrow> string \<Rightarrow> json option" where
  "rows_of d k u = (case map_of d k of Some (JObj rows) \<Rightarrow> map_of rows u | _ \<Rightarrow> None)"

definition rows_forgotten :: "string \<Rightarrow> cell \<Rightarrow> cell \<Rightarrow> bool" where
  "rows_forgotten user c c' \<longleftrightarrow> (\<exists>d d'. load_dict (seen c) False = Inr d \<and> load_dict (seen c') False = Inr d'
     \<and> (\<forall>k u. rows_of d' k u = (if u = user then None else rows_of d k u)))"

definition entry_forgotten :: "string \<Rightarrow> cell \<Rightarrow> cell \<Rightarrow> bool" where
  "entry_forgotten user c c' \<longleftrightarrow> (\<exists>d d'. load_dict (seen c) False = Inr d \<and> load_dict (seen c') False = Inr d'
     \<and> (\<forall>u. map_of d' u = (if u = user then None else map_of d u)))"

lemma rows_of_drop: "rows_of (map (\<lambda>(k, b). (k, drop_user user b)) d) k u = (if u = user then None else rows_of d k u)"
  by (auto simp: rows_of_def map_of_map_keyed drop_user_def map_of_delete split: option.splits json.splits)

lemma wf_drop_user: "wf_json b \<Longrightarrow> wf_json (drop_user user b)"
  by (cases b) (auto simp: drop_user_def intro: wf_json_delete simp del: wf_json.simps)

lemma wf_drop_users: "wf_json (JObj d) \<Longrightarrow> wf_json (JObj (map (\<lambda>(k, b). (k, drop_user user b)) d))"
  using wf_drop_user by (fastforce simp: wf_dict_def comp_def case_prod_unfold)

lemma panel_save_read:
  assumes "panel_save fails d c = (None, c')" and "wf_json (JObj d)"
  shows "load_dict (seen c') required = Inr d"
  using panel_save_atomic assms(1) by (cases rule: atomic_put_cases) (simp_all add: load_dict_doc [OF assms(2)])

lemma load_optional: "load_dict f True = Inr d \<Longrightarrow> load_dict f False = Inr d"
  by (cases f) (auto simp: load_dict_def load_json_strict_def)

lemma purge_buckets_forgets:
  assumes "purge_buckets core fails user c = (None, c')"
  shows "rows_forgotten user c c'"
proof -
  obtain d where l: "load_dict (seen c) False = Inr d"
    and step: "(if \<exists>(k, b) \<in> set d. has_user user b
        then tag core (panel_save fails (map (\<lambda>(k, b). (k, drop_user user b)) d) c) else (None, c)) = (None, c')"
    using assms load_optional by (auto simp: purge_buckets_def panel_load_def split: sum.splits if_splits)
  have wf: "wf_json (JObj d)" by (rule load_dict_wf [OF l])
  show ?thesis
  proof (cases "\<exists>(k, b) \<in> set d. has_user user b")
    case True
    with step have "panel_save fails (map (\<lambda>(k, b). (k, drop_user user b)) d) c = (None, c')"
      by (cases "panel_save fails (map (\<lambda>(k, b). (k, drop_user user b)) d) c") (simp add: tag_def)
    from panel_save_read [OF this wf_drop_users [OF wf]] l rows_of_drop show ?thesis
      unfolding rows_forgotten_def by metis
  next
    case False
    have none: "rows_of d k user = None" for k
      using False by (fastforce simp: rows_of_def has_user_def dest: map_of_SomeD split: option.splits json.splits)
    from False step have "c' = c" by auto
    with l none show ?thesis unfolding rows_forgotten_def by auto
  qed
qed

lemma purge_entry_forgets:
  assumes "purge_entry fails user c = (None, c')"
  shows "entry_forgotten user c c'"
proof -
  obtain d where l: "load_dict (seen c) False = Inr d"
    and step: "(if map_of d user \<noteq> None then tag False (panel_save fails (AList.delete user d) c) else (None, c)) = (None, c')"
    using assms by (auto simp: purge_entry_def split: sum.splits)
  show ?thesis
  proof (cases "map_of d user = None")
    case True
    with step l show ?thesis unfolding entry_forgotten_def by auto
  next
    case False
    with step have "panel_save fails (AList.delete user d) c = (None, c')"
      by (cases "panel_save fails (AList.delete user d) c") (simp add: tag_def)
    from panel_save_read [OF this wf_json_delete [OF load_dict_wf [OF l]]] l show ?thesis
      unfolding entry_forgotten_def by (auto simp: map_of_delete)
  qed
qed

lemma purge_sessions_forgets:
  assumes "purge_sessions moment user c = (None, c')"
  shows "\<exists>d. load_dict (seen c') False = Inr d \<and> (\<forall>kv \<in> set d. \<not> owned_by user kv)"
proof -
  obtain lock fails now where m: "moment = (lock, fails, now)" by (metis prod_cases3)
  with assms obtain a where "session_op lock fails (DeleteSessionsFor user now) c = (Inr a, c')"
    by (auto simp: purge_sessions_def split: prod.splits sum.splits)
  then have t: "transact panel_save lock (\<lambda>_. Inr ()) (session_body (DeleteSessionsFor user now)) fails c = (Inr a, c')"
    by (simp add: session_op_def session_guard_def)
  from transact_reads [OF t] obtain d where l: "cell_load (\<lambda>_. Inr ()) (seen c) = Inr d" by blast
  then have l': "load_dict (seen c) False = Inr d" by (auto simp: cell_load_def rbind_eq_Inr)
  from t l obtain alive where alive: "alive_sessions now d = Inr alive"
    and w: "filter (\<lambda>kv. \<not> owned_by user kv) alive = d \<and> c' = c
      \<or> panel_save fails (filter (\<lambda>kv. \<not> owned_by user kv) alive) c = (None, c')"
    by (auto simp: transact_def txn_def session_body_def if_changed_def split: option.splits sum.splits prod.splits if_splits)
  have "wf_json (JObj (filter (\<lambda>kv. \<not> owned_by user kv) alive))"
    using load_dict_wf [OF l'] alive_sessions_spec [OF alive] wf_json_sub by auto
  from panel_save_read [OF _ this] w l' show ?thesis by force
qed

lemma first_failure_None:
  "first_failure (step # steps) s = (None, s') \<longleftrightarrow> (\<exists>s1. step s = (None, s1) \<and> first_failure steps s1 = (None, s'))"
  by (auto split: prod.splits option.splits)

lemma on_core_step:
  "on_core f s = (None, s') \<longleftrightarrow> (\<exists>core. f (p_core (w_panel s)) = (None, core)
     \<and> s' = s\<lparr>w_panel := (w_panel s)\<lparr>p_core := core\<rparr>\<rparr>)"
  by (auto simp: on_core_def split: prod.splits)

lemma case_step: "(case p of (r, x) \<Rightarrow> (r, put x)) = (None, s') \<longleftrightarrow> (\<exists>x. p = (None, x) \<and> s' = put x)"
  by (cases p) auto

text \<open>
  C24. A completed purge forgets the user and nobody else. In both ledgers, the hourly ledger and the preserved
  usage, every bucket has lost exactly the rows of this user; the online snapshot and the device ledger have
  lost exactly the user's entry; and no panel session of the user is left.
\<close>

theorem purge_forgets:
  assumes "purge_user_history_locked io user s = (None, s')"
  shows "rows_forgotten user (c_usage (p_core (w_panel s))) (c_usage (p_core (w_panel s')))
    \<and> rows_forgotten user (c_daily (p_core (w_panel s))) (c_daily (p_core (w_panel s')))
    \<and> rows_forgotten user (w_hourly s) (w_hourly s') \<and> rows_forgotten user (w_preserved s) (w_preserved s')
    \<and> entry_forgotten user (w_online s) (w_online s') \<and> entry_forgotten user (w_admissions s) (w_admissions s')
    \<and> (\<exists>d. load_dict (seen (p_sessions (w_panel s'))) False = Inr d \<and> (\<forall>kv \<in> set d. \<not> owned_by user kv))"
proof -
  from assms obtain x1 x2 x3 x4 x5 x6 x7 x8 where
    "purge_buckets True (pg_faults io 0) user (c_usage (p_core (w_panel s))) = (None, x1)"
    "purge_buckets True (pg_faults io 1) user (c_daily (p_core (w_panel s))) = (None, x2)"
    "purge_buckets False (pg_faults io 2) user (w_hourly s) = (None, x3)"
    "purge_buckets False (pg_faults io 3) user (w_preserved s) = (None, x4)"
    "purge_entry (pg_faults io 4) user (w_online s) = (None, x5)"
    "purge_admission (pg_admission_lock io) (pg_faults io 5) user (w_admissions s) = (None, x6)"
    "purge_alerts (pg_alerts io) user (w_alerts s) = (None, x7)"
    and sessions: "purge_sessions (pg_sessions io) user (p_sessions (w_panel s)) = (None, x8)"
    and s': "c_usage (p_core (w_panel s')) = x1" "c_daily (p_core (w_panel s')) = x2" "w_hourly s' = x3"
      "w_preserved s' = x4" "w_online s' = x5" "w_admissions s' = x6" "p_sessions (w_panel s') = x8"
    unfolding purge_user_history_locked_def
    by (simp only: first_failure_None on_core_step case_step) auto
  moreover from this have "purge_entry (pg_faults io 5) user (w_admissions s) = (None, x6)"
    by (simp add: purge_admission_def split: option.splits)
  ultimately show ?thesis
    unfolding s' by (blast intro: purge_buckets_forgets purge_entry_forgets purge_sessions_forgets [OF sessions])
qed

section \<open>When a task leaves the queue\<close>

lemma queue_run:
  assumes "cell_load check_queue (seen c) = Inr q" and "queue_op lock fails op c = (r, c')"
    and "qguard op = None" and "op_time_ok op"
  obtains q' where "cell_load check_queue (seen c') = Inr q'"
    "abs_queue q' = abs_queue q \<or> queue_step op (abs_queue q) (abs_queue q')"
proof -
  from queue_store.op_outcome [OF assms(1,2,4,3) TrueI]
  consider "seen c' = seen c" | r0 d' where "qbody op q = (r0, Some d')" "cell_load check_queue (seen c') = Inr d'" by blast
  then show ?thesis
  proof cases
    case 1
    with assms(1) that show ?thesis by simp
  next
    case b: 2
    with qbody_implements [OF cell_load_ok [OF assms(1)] assms(3,4)] that show ?thesis by (simp add: implements_def)
  qed
qed

text \<open>The generation of the account a rotation task is about.\<close>

definition canonical_generation ::
  "(json \<Rightarrow> string) \<Rightarrow> (string \<Rightarrow> string) \<Rightarrow> string \<Rightarrow> json dict \<Rightarrow> string" where
  "canonical_generation py_str sha user users = credential_generation sha (text_or_empty py_str (case map_of users user of
     Some (JObj cfg) \<Rightarrow> dget cfg ''sub_token'' JNull | _ \<Rightarrow> JStr []))"

text \<open>A rotation that another one has overtaken, or that was never committed and can no longer be repeated.\<close>

definition obsolete ::
  "(json \<Rightarrow> string) \<Rightarrow> (string \<Rightarrow> string) \<Rightarrow> worker_io \<Rightarrow> json dict \<Rightarrow> jfile \<Rightarrow> bool" where
  "obsolete py_str sha io task f \<longleftrightarrow> str_field task ''target_generation'' \<noteq> DELETE_TARGET_GENERATION
     \<and> (\<exists>users. load_dict f True = Inr users
         \<and> (let g = canonical_generation py_str sha (str_field task ''user'') users in
             g \<noteq> str_field task ''target_generation''
             \<and> (g = str_field task ''previous_generation'' \<longrightarrow> int_field task ''expires_at'' 0 \<le> wk_clock io)))"

lemma locked_work_generation:
  assumes "locked_work py_str sha revision io is_delete task s = (Inr lk, s')"
  shows "\<exists>users. load_dict (seen (users_of s)) True = Inr users \<and> lk_generation lk =
    (if is_delete then DELETE_TARGET_GENERATION else canonical_generation py_str sha (str_field task ''user'') users)"
proof -
  have g: "lk_generation lk = g" if "sync_if_due io d task g users s1 = (Inr lk, s2)" for d g users s1 s2
    using that by (auto simp: sync_if_due_def Let_def split: sum.splits bool.splits prod.splits if_splits)
  from assms show ?thesis
    by (auto simp: locked_work_def Let_def canonical_generation_def split: option.splits sum.splits if_splits prod.splits dest!: g)
qed

lemma is_delete_iff: "is_delete_revocation_task task = Inr b \<Longrightarrow> b \<longleftrightarrow> str_field task ''target_generation'' = DELETE_TARGET_GENERATION"
  by (auto simp: is_delete_revocation_task_def compare_digest_def split: if_splits)

lemma compare_digest_Inr: "compare_digest a b = Inr x \<Longrightarrow> x \<longleftrightarrow> a = b"
  by (auto simp: compare_digest_def split: if_splits)

text \<open>Which services a run reports as settled, and what is behind the report.\<close>

lemma settled_services:
  assumes "settle_services io pending lk core = (Inr completed, core')" and "lim_live io"
    and "distinct pending" and "set pending \<subseteq> set SERVICES" and "name \<in> set completed" and "name \<in> set pending"
  shows "service_settled (surroundings io name) (proxy_of name core')"
proof (cases "lk_sync_error lk")
  case (Some e)
  with assms(1) obtain outcomes where o': "panel_fail_closed io (exc_name e) core = (Inr outcomes, core')"
    "completed = filter (\<lambda>name. case map_of outcomes name of Some outcome \<Rightarrow> act_ok outcome | None \<Rightarrow> False) pending"
    by (auto simp: settle_services_def split: sum.splits prod.splits)
  from assms(5) o'(2) obtain outcome where oc: "map_of outcomes name = Some outcome" "act_ok outcome"
    by (auto split: option.splits)
  have "distinct SERVICES" by (simp add: SERVICES_def XRAY_SERVICE_def TUIC_SERVICE_def)
  from each_service_spec [OF o'(1) [unfolded panel_fail_closed_def] this] map_of_SomeD [OF oc(1)] assms(2)
  have "stop_proxy (surroundings io name) True name (exc_name e) (proxy_of name core) = (Inr outcome, proxy_of name core')"
    by auto
  from stop_settles [OF this oc(2)] show ?thesis .
next
  case None
  define changed where "changed name = (if name = XRAY_SERVICE then lk_xray_changed lk else name = TUIC_SERVICE \<and> lk_tuic_changed lk)" for name
  from None assms(1) obtain results where r: "reload_services io changed pending core = (Inr results, core')"
    "completed = map fst (filter (\<lambda>(name, a). case a of Some outcome \<Rightarrow> act_ok outcome | None \<Rightarrow> True) results)"
    by (auto simp: settle_services_def changed_def [abs_def] split: sum.splits prod.splits)
  from assms(5) r(2) obtain a where a: "(name, a) \<in> set results" "case a of Some outcome \<Rightarrow> act_ok outcome | None \<Rightarrow> True"
    by auto
  from each_service_spec [OF r(1) [unfolded reload_services_def] assms(3,4)] a(1) assms(2)
  have "reload_or_stop (surroundings io name) True name (changed name) (proxy_of name core) = (Inr a, proxy_of name core')"
    by auto
  from reload_or_stop_settles [OF this a(2)] show ?thesis .
qed

lemma on_queue_run:
  assumes "cell_load check_queue (seen (queue_of s)) = Inr q" and "on_queue moment op s = (r, s')"
    and "qguard (op (snd (snd moment))) = None" and "op_time_ok (op (snd (snd moment)))"
  shows "\<exists>q'. cell_load check_queue (seen (queue_of s')) = Inr q'
    \<and> (abs_queue q' = abs_queue q \<or> queue_step (op (snd (snd moment))) (abs_queue q) (abs_queue q'))"
proof -
  obtain lock fails now where m: "moment = (lock, fails, now)" by (metis prod_cases3)
  with assms(2) have "queue_op lock fails (op now) (queue_of s) = (r, queue_of s')"
    by (auto simp: on_queue_def split: prod.splits)
  from queue_run [OF assms(1) this] assms(3,4) m show ?thesis by auto
qed

lemma on_queue_core: "on_queue moment op s = (r, s') \<Longrightarrow> p_core (w_panel s') = p_core (w_panel s)"
  by (auto simp: on_queue_def split: prod.splits)

lemma claim_task:
  assumes "cell_load check_queue (seen c0) = Inr d0"
    and op: "queue_op lock fails (ClaimDue now) c0 = (Inr (RevocationQueue.Claimed (Some (i, it))), c)"
  shows "task_valid i it \<and> (\<exists>x. abs_queue d0 i = Some x
      \<and> abs_task it = x\<lparr>t_lease := now + CLAIM_LEASE_SECONDS, t_attempts := t_attempts x + 1\<rparr>)
    \<and> (\<forall>d. cell_load check_queue (seen c) = Inr d \<longrightarrow> abs_queue d i = Some (abs_task it))"
proof -
  have t: "op_time_ok (ClaimDue now)" "qguard (ClaimDue now) = None" by (simp_all add: op_time_ok_def)
  note out = queue_store.op_success [OF assms(1) op t TrueI]
  from cell_load_ok [OF assms(1)] show ?thesis
  proof (cases rule: claim_body_cases [where now = now])
    case 1
    with out show ?thesis by (simp add: map_res_def)
  next
    case (2 j jt x)
    with out obtain d' where eq: "j = i" "jt = it" "d' = AList.update i (JObj it) d0"
      and l: "cell_load check_queue (seen c) = Inr d'" by (auto simp: map_res_def)
    have "abs_queue d' i = Some (abs_task it)" by (simp add: eq abs_queue_update)
    with l 2(1,5,6) show ?thesis by (auto simp: eq)
  qed
qed

lemma release_keeps: "queue_step (ReleaseClaim i delay now) q q' \<Longrightarrow> dom q' = dom q"
  by (cases rule: queue_step.cases, assumption) auto

lemma complete_removes:
  assumes "queue_step (CompleteAttempt i ok ss now) q q'" and "q j = Some x" and "q' j = None"
  shows "j = i \<and> 1 \<le> t_kicks x \<and> ok \<and> set (t_services x) \<subseteq> set ss"
  by (rule complete_cases [OF assms(1)]) (use assms(2,3) in \<open>auto split: if_splits\<close>)

lemma claim_keeps: "queue_step (ClaimDue now) q q' \<Longrightarrow> dom q' = dom q"
  by (cases rule: claim_cases, assumption) auto

lemma completed_pending:
  assumes "settle_services io pending lk core = (Inr completed, core')" and "distinct pending" and "set pending \<subseteq> set SERVICES"
  shows "set completed \<subseteq> set pending"
proof (cases "lk_sync_error lk")
  case (Some e)
  with assms(1) show ?thesis by (auto simp: settle_services_def split: sum.splits prod.splits)
next
  case None
  with assms(1) obtain ch results where r: "reload_services io ch pending core = (Inr results, core')"
    "completed = map fst (filter (\<lambda>(name, a). case a of Some outcome \<Rightarrow> act_ok outcome | None \<Rightarrow> True) results)"
    by (auto simp: settle_services_def split: sum.splits prod.splits)
  from each_service_spec [OF r(1) [unfolded reload_services_def] assms(2,3)] have "set (map fst results) = set pending" by metis
  with r(2) show ?thesis by auto
qed

definition all_settled :: "limiter_io \<Rightarrow> string list \<Rightarrow> limiter_state \<Rightarrow> bool" where
  "all_settled io names core \<longleftrightarrow> (\<forall>name \<in> set names. service_settled (surroundings io name) (proxy_of name core))"

text \<open>What a task that has left the queue was: overtaken, or finished in this very run.\<close>

definition retired ::
  "(json \<Rightarrow> string) \<Rightarrow> (string \<Rightarrow> string) \<Rightarrow> worker_io \<Rightarrow> json dict \<Rightarrow> task \<Rightarrow> jfile \<Rightarrow> limiter_state \<Rightarrow> bool" where
  "retired py_str sha io task x f core \<longleftrightarrow> obsolete py_str sha io task f
     \<or> 1 \<le> t_kicks x \<and> ca_ok (hy_kick (wk_kick io) [str_field task ''user''])
       \<and> (distinct (services_of task) \<and> set (services_of task) \<subseteq> set SERVICES \<longrightarrow> all_settled (wk_host io) (t_services x) core)"

lemma finish_attempt_retires:
  assumes "finish_attempt io i task lk s = (r, s')" and "lim_live (wk_host io)"
    and "cell_load check_queue (seen (queue_of s)) = Inr q" and "abs_queue q j = Some x"
    and "cell_load check_queue (seen (queue_of s')) = Inr q'" and "abs_queue q' j = None"
  shows "j = i \<and> retired py_str sha io task x f (p_core (w_panel s'))"
proof -
  let ?ok = "ca_ok (hy_kick (wk_kick io) [str_field task ''user''])"
  obtain a core where st: "settle_services (wk_host io) (services_of task) lk (p_core (w_panel s)) = (a, core)" by fastforce
  let ?s1 = "s\<lparr>w_panel := (w_panel s)\<lparr>p_core := core\<rparr>\<rparr>"
  show ?thesis
  proof (cases a)
    case (Inl e)
    with assms(1,3-6) st show ?thesis by (auto simp: finish_attempt_def)
  next
    case (Inr completed)
    obtain b s2 where oq: "on_queue (wk_settle io) (CompleteAttempt i ?ok completed) ?s1 = (b, s2)" by fastforce
    from assms(1) st Inr oq have s': "s' = s2" by (auto simp: finish_attempt_def split: sum.splits)
    have q1: "cell_load check_queue (seen (queue_of ?s1)) = Inr q" using assms(3) by simp
    from on_queue_run [OF q1 oq] obtain q2 where q2: "cell_load check_queue (seen (queue_of s2)) = Inr q2"
      "abs_queue q2 = abs_queue q \<or> queue_step (CompleteAttempt i ?ok completed (snd (snd (wk_settle io)))) (abs_queue q) (abs_queue q2)"
      by (auto simp: op_time_ok_def)
    with assms(4-6) s' have "queue_step (CompleteAttempt i ?ok completed (snd (snd (wk_settle io)))) (abs_queue q) (abs_queue q')"
      by auto
    from complete_removes [OF this assms(4,6)]
    have c: "j = i" "1 \<le> t_kicks x" ?ok "set (t_services x) \<subseteq> set completed" by simp_all
    have "all_settled (wk_host io) (t_services x) core"
      if "distinct (services_of task)" "set (services_of task) \<subseteq> set SERVICES"
      using settled_services [OF st [unfolded Inr] assms(2) that] completed_pending [OF st [unfolded Inr] that] c(4)
      by (auto simp: all_settled_def)
    with c on_queue_core [OF oq] s' show ?thesis by (simp add: retired_def)
  qed
qed

lemma process_task_retires:
  assumes "process_task py_str sha revision io i task s = (r, s')" and live: "lim_live (wk_host io)"
    and q: "cell_load check_queue (seen (queue_of s)) = Inr q" and j: "abs_queue q j = Some x"
    and q': "cell_load check_queue (seen (queue_of s')) = Inr q'" "abs_queue q' j = None"
  shows "j = i \<and> retired py_str sha io task x (seen (users_of s)) (p_core (w_panel s'))"
proof -
  have moved: "queue_of s' \<noteq> queue_of s" using q j q' by auto
  then obtain is_delete where d: "is_delete_revocation_task task = Inr is_delete"
    using assms(1) by (cases "is_delete_revocation_task task") (auto simp: process_task_def)
  obtain a s1 where w: "locked_work py_str sha revision io is_delete task s = (a, s1)" by fastforce
  from locked_work_touches [OF w d] have same: "queue_of s1 = queue_of s" by blast
  note run = assms(1) [unfolded process_task_def d w sum.case prod.case]
  show ?thesis
  proof (cases a)
    case (Inl f)
    with run have g: "give_up io i f s1 = (r, s')" by simp
    obtain b s2 where oq: "on_queue (wk_settle io) (ReleaseClaim i RETRY_DELAY_SECONDS) s1 = (b, s2)" by fastforce
    from g oq moved same have "queue_of s' = queue_of s2"
      by (auto simp: give_up_def split: if_splits sum.splits dest: stop_if_unsafe_files)
    moreover from on_queue_run [OF q [folded same] oq] obtain q2 where q2: "cell_load check_queue (seen (queue_of s2)) = Inr q2"
      and "abs_queue q2 = abs_queue q \<or> queue_step (ReleaseClaim i RETRY_DELAY_SECONDS (snd (snd (wk_settle io)))) (abs_queue q) (abs_queue q2)"
      by (auto simp: op_time_ok_def)
    then have "dom (abs_queue q2) = dom (abs_queue q)" using release_keeps by metis
    ultimately show ?thesis using q' j q2 by (metis domIff option.distinct(1) sum.inject(2))
  next
    case (Inr lk)
    from locked_work_generation [OF w [unfolded Inr]] obtain users where
      u: "load_dict (seen (users_of s)) True = Inr users" "lk_generation lk =
        (if is_delete then DELETE_TARGET_GENERATION else canonical_generation py_str sha (str_field task ''user'') users)" by blast
    obtain m where m: "compare_digest (lk_generation lk) (str_field task ''target_generation'') = m" by blast
    note run = run [unfolded Inr sum.case m]
    consider e where "m = Inl e" | "m = Inr True" | "m = Inr False" by (metis (full_types) sumE)
    then show ?thesis
    proof cases
      case 1
      with run moved same show ?thesis by simp
    next
      case 2
      with run have "finish_attempt io i task lk s1 = (r, s')" by simp
      from finish_attempt_retires [OF this live q [folded same] j q'] show ?thesis .
    next
      case 3
      then have ne: "lk_generation lk \<noteq> str_field task ''target_generation''" using m compare_digest_Inr by blast
      with u(2) is_delete_iff [OF d] have rot: "\<not> is_delete" "str_field task ''target_generation'' \<noteq> DELETE_TARGET_GENERATION"
        by (cases is_delete; simp)+
      from 3 run have nc: "not_current io i task (lk_generation lk) s1 = (r, s')" by simp
      then obtain u' where p: "compare_digest (lk_generation lk) (str_field task ''previous_generation'') = Inr u'"
        using moved same by (auto simp: not_current_def split: sum.splits)
      let ?op = "if u' \<and> wk_clock io < int_field task ''expires_at'' 0
        then ReleaseClaim i RETRY_DELAY_SECONDS else (\<lambda>_. Discard i)"
      obtain b s2 where oq: "on_queue (wk_settle io) ?op s1 = (b, s2)" by fastforce
      from nc p oq have s2: "s' = s2" by (simp add: not_current_def split: prod.splits)
      from on_queue_run [OF q [folded same] oq] q' s2 obtain
        st: "abs_queue q' = abs_queue q \<or> queue_step (?op (snd (snd (wk_settle io)))) (abs_queue q) (abs_queue q')"
        by (auto simp: op_time_ok_def split: if_splits)
      have notrel: "\<not> (u' \<and> wk_clock io < int_field task ''expires_at'' 0)"
      proof
        assume "u' \<and> wk_clock io < int_field task ''expires_at'' 0"
        with st j q'(2) have "dom (abs_queue q') = dom (abs_queue q)" by (auto dest: release_keeps)
        with j q'(2) show False by (metis domIff option.distinct(1))
      qed
      with st j q'(2) have "queue_step (Discard i) (abs_queue q) (abs_queue q')" by auto
      then have "abs_queue q' = (abs_queue q)(i := None)" by (cases rule: queue_step.cases) auto
      with j q'(2) have ji: "j = i" by (auto split: if_splits)
      have "obsolete py_str sha io task (seen (users_of s))"
        unfolding obsolete_def using rot u ne notrel compare_digest_Inr [OF p] by (auto simp: Let_def)
      with ji show ?thesis by (simp add: retired_def)
    qed
  qed
qed

text \<open>
  C12. A revocation leaves the queue only when it is done or pointless. When a task is gone after one run of
  the worker, it was the claimed task, and either it was a rotation that a newer one had overtaken, or one that
  was never committed and whose replay window is over; or Hysteria had accepted one disconnection before and
  accepted another now, and each of its proxies has nothing waiting to be reloaded, or has a reload scheduled,
  or is stopped with a marker that survives a power loss.
\<close>

theorem retired_only_when_done:
  assumes "process_one_revocation_task py_str sha revision io s = (r, s')" and "lim_live (wk_host io)"
    and "cell_load check_queue (seen (queue_of s)) = Inr q" and "abs_queue q j = Some x" and "distinct (t_services x)"
    and "cell_load check_queue (seen (queue_of s')) = Inr q'" and "abs_queue q' j = None"
  shows "\<exists>task c. queue_op (fst (wk_claim io)) (fst (snd (wk_claim io))) (ClaimDue (snd (snd (wk_claim io)))) (queue_of s)
        = (Inr (RevocationQueue.Claimed (Some (j, task))), c)
    \<and> (obsolete py_str sha io task (seen (users_of s))
       \<or> 1 \<le> t_kicks x \<and> ca_ok (hy_kick (wk_kick io) [t_user x])
         \<and> all_settled (wk_host io) (t_services x) (p_core (w_panel s')))"
proof -
  obtain lock fails now where m: "wk_claim io = (lock, fails, now)" by (metis prod_cases3)
  obtain a s1 where a: "on_queue (wk_claim io) ClaimDue s = (a, s1)" by fastforce
  with m have op: "queue_op lock fails (ClaimDue now) (queue_of s) = (a, queue_of s1)"
    by (auto simp: on_queue_def split: prod.splits)
  from on_queue_run [OF assms(3) a] m obtain q1 where l1: "cell_load check_queue (seen (queue_of s1)) = Inr q1"
    and "abs_queue q1 = abs_queue q \<or> queue_step (ClaimDue now) (abs_queue q) (abs_queue q1)"
    by (auto simp: op_time_ok_def)
  then have "dom (abs_queue q1) = dom (abs_queue q)" using claim_keeps by metis
  note q1 = l1 this
  show ?thesis
  proof (cases "\<exists>i task. a = Inr (RevocationQueue.Claimed (Some (i, task)))")
    case False
    with assms(1) a have "s' = s1"
      by (auto simp: process_one_revocation_task_def split: sum.splits qresult.splits option.splits)
    with q1 assms(4,6,7) show ?thesis by (metis domIff option.distinct(1) sum.inject(2))
  next
    case True
    then obtain i task where t: "a = Inr (RevocationQueue.Claimed (Some (i, task)))" by blast
    with assms(1) a have p: "process_task py_str sha revision io i task s1 = (r, s')"
      by (simp add: process_one_revocation_task_def)
    have users: "users_of s1 = users_of s" using on_queue_files [OF a] by (simp add: same_files_def)
    from q1 assms(4) obtain x1 where x1: "abs_queue q1 j = Some x1" by (metis domD domI)
    from process_task_retires [OF p assms(2) q1(1) x1 assms(6,7)] users
    have ji: "j = i" "retired py_str sha io task x1 (seen (users_of s)) (p_core (w_panel s'))" by auto
    note ct = claim_task [OF assms(3) op [unfolded t]]
    from ct ji(1) assms(4) have tk: "abs_task task = x\<lparr>t_lease := now + CLAIM_LEASE_SECONDS, t_attempts := t_attempts x + 1\<rparr>"
      "task_valid i task" "abs_queue q1 i = Some (abs_task task)" using q1(1) by auto
    then have "x1 = x\<lparr>t_lease := now + CLAIM_LEASE_SECONDS, t_attempts := t_attempts x + 1\<rparr>" using x1 ji(1) by simp
    then have f: "t_kicks x1 = t_kicks x" "t_services x1 = t_services x" "t_services (abs_task task) = t_services x"
      "t_user (abs_task task) = t_user x" using tk(1) by simp_all
    then have "services_of task = t_services x" "str_field task ''user'' = t_user x"
      by (simp_all add: abs_task_def str_field_def)
    moreover have "set (services_of task) \<subseteq> set SERVICES"
      using task_valid_services [OF tk(2)] by (simp add: ALLOWED_STATIC_SERVICES_def SERVICES_def XRAY_SERVICE_def TUIC_SERVICE_def)
    ultimately have "obsolete py_str sha io task (seen (users_of s))
       \<or> 1 \<le> t_kicks x \<and> ca_ok (hy_kick (wk_kick io) [t_user x]) \<and> all_settled (wk_host io) (t_services x) (p_core (w_panel s'))"
      using ji(2) f(1,2) assms(5) by (auto simp: retired_def)
    with op t ji(1) m show ?thesis by auto
  qed
qed

section \<open>Witnesses\<close>

definition demo_revision :: "json \<Rightarrow> string" where "demo_revision j = ''r1''"

definition worker_task :: "string \<Rightarrow> string \<Rightarrow> int \<Rightarrow> json dict" where
  "worker_task previous target kicks = AList.update ''kick_successes'' (JInt kicks) (new_task ''ann'' previous target [] 100)"

definition demo_worker :: "json dict \<Rightarrow> worker_state" where
  "demo_worker task = \<lparr>w_panel = \<lparr>p_core = tick_state (Doc (raw_of_json (JObj tick_users))), p_sessions = quiet Missing,
       p_receipts = quiet Missing, p_queue = quiet (Doc (raw_of_json (JObj [(demo_id, JObj task)])))\<rparr>,
     w_hourly = quiet Missing, w_preserved = quiet Missing, w_online = quiet Missing, w_admissions = quiet Missing,
     w_alerts = quiet Missing\<rparr>"

definition demo_worker_io :: worker_io where
  "demo_worker_io = \<lparr>wk_host = tick_io, wk_lock = None, wk_save_faults = (\<lambda>_. False),
     wk_purge = \<lparr>pg_faults = (\<lambda>_ _. False), pg_admission_lock = None, pg_alerts = (None, (\<lambda>_. False)),
       pg_sessions = (None, (\<lambda>_. False), 100)\<rparr>,
     wk_claim = (None, (\<lambda>_. False), 100), wk_settle = (None, (\<lambda>_. False), 100), wk_now = tick_now, wk_clock = 100,
     wk_kick = KickAnswered 200 0\<rparr>"

definition deletion_task :: "json dict" where
  "deletion_task = worker_task (DELETE_PREVIOUS_PREFIX @ ''r1'') DELETE_TARGET_GENERATION 0"

definition daily_rows :: "worker_state \<Rightarrow> rawjson" where
  "daily_rows s = (case seen (c_daily (p_core (w_panel s))) of
      Doc (RObj d) \<Rightarrow> (case map_of d ''2026-05-05'' of Some j \<Rightarrow> j | None \<Rightarrow> RNull) | _ \<Rightarrow> RNull)"

definition demo_run :: "json dict \<Rightarrow> bool res \<times> worker_state" where
  "demo_run task = process_one_revocation_task (\<lambda>_. []) (\<lambda>_. ''g1'') demo_revision demo_worker_io (demo_worker task)"

lemma demo_deletion_run: "daily_rows (snd (demo_run deletion_task)) = RObj []" "daily_rows (demo_worker deletion_task) \<noteq> RObj []"
  by code_simp+

theorem deletion_durable_before_purge_witness:
  "\<exists>task users. touched_by_deletion demo_revision task users (demo_worker deletion_task) (snd (demo_run deletion_task))
     \<and> history_of (snd (demo_run deletion_task)) \<noteq> history_of (demo_worker deletion_task)"
proof -
  obtain r s' where run: "demo_run deletion_task = (r, s')" by fastforce
  have "c_daily (p_core (w_panel s')) \<noteq> c_daily (p_core (w_panel (demo_worker deletion_task)))"
    using demo_deletion_run run by (auto simp: daily_rows_def)
  then have "history_of s' \<noteq> history_of (demo_worker deletion_task)" by (simp add: history_of_def)
  with deletion_durable_before_purge [OF run [unfolded demo_run_def]] run show ?thesis by auto
qed

lemma demo_purge_run: "fst (purge_user_history_locked (wk_purge demo_worker_io) ''ann'' (demo_worker deletion_task)) = None"
  by code_simp

theorem purge_forgets_witness:
  "\<exists>s'. purge_user_history_locked (wk_purge demo_worker_io) ''ann'' (demo_worker deletion_task) = (None, s')
     \<and> rows_forgotten ''ann'' (c_daily (p_core (w_panel (demo_worker deletion_task)))) (c_daily (p_core (w_panel s')))"
proof -
  obtain s' where run: "purge_user_history_locked (wk_purge demo_worker_io) ''ann'' (demo_worker deletion_task) = (None, s')"
    using demo_purge_run by (metis prod.collapse)
  from purge_forgets [OF run] run show ?thesis by blast
qed

definition rotated_task :: "json dict" where "rotated_task = worker_task ''g0'' ''g1'' 1"

lemma demo_retired_run:
  "cell_load check_queue (seen (queue_of (demo_worker rotated_task))) = Inr [(demo_id, JObj rotated_task)]"
  "cell_load check_queue (seen (queue_of (snd (demo_run rotated_task)))) = Inr []"
  "distinct (t_services (abs_task rotated_task))" "lim_live (wk_host demo_worker_io)"
  by code_simp+

theorem retired_only_when_done_witness:
  "\<exists>task. obsolete (\<lambda>_. []) (\<lambda>_. ''g1'') demo_worker_io task (seen (users_of (demo_worker rotated_task)))
     \<or> 1 \<le> t_kicks (abs_task rotated_task) \<and> ca_ok (hy_kick (wk_kick demo_worker_io) [''ann''])"
proof -
  obtain r s' where run: "demo_run rotated_task = (r, s')" by fastforce
  have q: "abs_queue [(demo_id, JObj rotated_task)] demo_id = Some (abs_task rotated_task)" "abs_queue [] demo_id = None"
    by (simp_all add: abs_queue_def obj_of_def)
  have u: "t_user (abs_task rotated_task) = ''ann''" by code_simp
  from retired_only_when_done [OF run [unfolded demo_run_def] demo_retired_run(4,1) q(1) demo_retired_run(3) _ q(2)]
    demo_retired_run(2) run u show ?thesis by auto
qed

end
