(* ===== verification/DeployJournal.thy ===== *)
theory DeployJournal
  imports JsonText StateStore
begin

text \<open>
  The journal of a deployment, \<^verbatim>\<open>scripts/hy2-deploy-recovery.py\<close>: which paths it may name, the generations
  of artifacts, the manifest with its JSON form, and the validation every command starts with. Only the
  production mode is modelled; the test mode moves the same checks under another root. A check that ends
  the program with an uncaught \<^verbatim>\<open>TypeError\<close> (an unhashable value in the file) counts as a refusal.
\<close>

section \<open>Constants\<close>

definition MANIFEST_VERSION :: int where "MANIFEST_VERSION = 1"
definition DEFAULT_RECOVERY_ROOT :: string where "DEFAULT_RECOVERY_ROOT = ''/var/lib/hysteria/deploy-recovery''"
definition MANIFEST_NAME :: string where "MANIFEST_NAME = ''manifest.json''"
definition MAX_MANIFEST_BYTES :: nat where "MAX_MANIFEST_BYTES = 4 * 1024 * 1024"
definition MAX_FILE_BYTES :: nat where "MAX_FILE_BYTES = 64 * 1024 * 1024"
definition MAX_TOTAL_BYTES :: int where "MAX_TOTAL_BYTES = 256 * 1024 * 1024"
definition SELF_UNIT :: string where "SELF_UNIT = ''hy2-deploy-recovery.service''"

definition VALID_ENABLE_STATES :: "string list" where
  "VALID_ENABLE_STATES = [
    ''enabled'', ''enabled-runtime'', ''masked'', ''masked-runtime'', ''disabled'', ''not-found'',
     ''static'', ''indirect'', ''generated'', ''transient'', ''linked'', ''linked-runtime'', ''alias'']"

definition DEFERRED_RESTART_UNITS :: "string list" where
  "DEFERRED_RESTART_UNITS = [
    ''systemd-journald.service'']"

definition EXACT_ALLOWED_PATHS :: "string list" where
  "EXACT_ALLOWED_PATHS = [
    ''/usr/local/bin/hysteria'', ''/usr/local/bin/xray'', ''/usr/local/bin/tuic-server'',
     ''/usr/local/share/xray/geoip.dat'', ''/usr/local/share/xray/geosite.dat'',
     ''/usr/local/sbin/hysteria-porthop.sh'', ''/usr/local/sbin/hysteria-tcp-mss.sh'',
     ''/usr/local/sbin/hysteria-auth-recover.sh'', ''/usr/local/sbin/hy2-backup.sh'',
     ''/usr/local/sbin/hy2-backup-git.sh'', ''/usr/local/sbin/hy2-restore-check.sh'',
     ''/usr/local/sbin/hy2-lock-exec.py'', ''/usr/local/sbin/hy2-enable-https.sh'',
     ''/usr/local/sbin/hy2-deploy-recovery.py'', ''/usr/local/sbin/hy2-cert-renew-hook.sh'',
     ''/usr/local/sbin/hy2-health-check.sh'', ''/usr/local/share/hy2/hysteria-panel-log.conf'',
     ''/usr/local/share/hy2/hysteria-panel-https.conf'',
     ''/usr/local/share/hy2/hysteria-panel-redirect.conf'', ''/usr/local/share/hy2/hy2-cert-renew-hook.sh'',
     ''/etc/logrotate.d/xray'', ''/etc/sysctl.d/99-hysteria-udp.conf'',
     ''/etc/modules-load.d/tcp-bbr.conf'', ''/etc/nginx/conf.d/hysteria-panel-log.conf'',
     ''/etc/nginx/sites-available/hysteria-panel.conf'', ''/etc/nginx/sites-enabled/hysteria-panel.conf'',
     ''/etc/nginx/sites-enabled/hysteria-panel-https.conf'', ''/etc/nginx/sites-enabled/default'',
     ''/etc/systemd/system/hysteria-server.service'', ''/etc/systemd/system/hysteria-auth.service'',
     ''/etc/systemd/system/hysteria-subscription.service'',
     ''/etc/systemd/system/hysteria-traffic-limiter.service'',
     ''/etc/systemd/system/hysteria-traffic-limiter.timer'',
     ''/etc/systemd/system/codex-quota-collector.service'',
     ''/etc/systemd/system/codex-quota-collector.timer'', ''/etc/systemd/system/hy2-backup.service'',
     ''/etc/systemd/system/hy2-backup.timer'', ''/etc/systemd/system/hysteria-porthop.service'',
     ''/etc/systemd/system/hysteria-tcp-mss.service'', ''/etc/systemd/system/tuic-server.service'',
     ''/etc/systemd/system/hy2-health-check.service'', ''/etc/systemd/system/hy2-health-check.timer'',
     ''/etc/systemd/system/hy2-https-recovery.service'',
     ''/etc/systemd/system/hy2-deploy-recovery.service'',
     ''/etc/systemd/system/hy2-deploy-watchdog.service'', ''/etc/systemd/system/xray.service'',
     ''/etc/systemd/system/xray@.service'',
     ''/etc/systemd/system/xray.service.d/10-donot_touch_single_conf.conf'',
     ''/etc/systemd/system/xray.service.d/10-donot_touch_multi_conf.conf'',
     ''/etc/systemd/system/xray.service.d/20-hy2-hardening.conf'',
     ''/etc/systemd/system/xray@.service.d/10-donot_touch_single_conf.conf'',
     ''/etc/systemd/system/xray@.service.d/10-donot_touch_multi_conf.conf'',
     ''/etc/fail2ban/filter.d/tuic-auth.conf'', ''/etc/fail2ban/jail.d/tuic-auth.conf'',
     ''/etc/systemd/journald.conf.d/60-hy2-limits.conf'', ''/root/hysteria/api_secret'',
     ''/root/hysteria/config.yaml'', ''/root/hysteria/auth_backend.py'', ''/root/hysteria/auth_service.py'',
     ''/root/hysteria/subscription_service.py'', ''/root/hysteria/traffic_limiter.py'',
     ''/root/hysteria/alerts.py'', ''/root/hysteria/anomaly.py'', ''/root/hysteria/charts.py'',
     ''/root/hysteria/codex_dashboard.py'', ''/root/hysteria/codex_quota.py'',
     ''/root/hysteria/cost_calibrator.py'', ''/root/hysteria/cycle.py'', ''/root/hysteria/health.py'',
     ''/root/hysteria/health_widgets.py'', ''/root/hysteria/http_utils.py'',
     ''/root/hysteria/incident_console.py'', ''/root/hysteria/online_snapshot.py'',
     ''/root/hysteria/revocation_queue.py'', ''/root/hysteria/rotation_recovery.py'',
     ''/root/hysteria/static_access.py'', ''/root/hysteria/state_store.py'',
     ''/root/hysteria/subscription_profiles.py'', ''/root/hysteria/xray_config.py'',
     ''/root/hysteria/tuic_config.py'', ''/root/hysteria/tuic_meter.py'',
     ''/root/hysteria/usage_dashboard.py'', ''/root/hysteria/user_compat.py'',
     ''/root/hysteria/display.py'', ''/root/hysteria/timeutil.py'', ''/root/hysteria/admin.css'',
     ''/root/hysteria/admin_poll.js'', ''/root/hysteria/codex_quota.js'', ''/root/hysteria/usage.js'',
     ''/root/hysteria/template.yaml'', ''/root/hysteria/state/https_required'',
     ''/root/hysteria/server.crt'', ''/root/hysteria/server.key'']"

definition ALLOWED_LOG_DIRS :: "string list" where
  "ALLOWED_LOG_DIRS = [
    ''/var/log/xray'']"

definition EXACT_ALLOWED_UNITS :: "string list" where
  "EXACT_ALLOWED_UNITS = [
    ''hy2-deploy-recovery.service'', ''hy2-https-recovery.service'', ''nginx.service'',
     ''hysteria-porthop.service'', ''hysteria-tcp-mss.service'', ''hysteria-auth.service'',
     ''hysteria-server.service'', ''hysteria-subscription.service'', ''hysteria-traffic-limiter.timer'',
     ''hysteria-traffic-limiter.service'', ''codex-quota-collector.timer'',
     ''codex-quota-collector.service'', ''hy2-backup.timer'', ''hy2-backup.service'',
     ''hy2-health-check.timer'', ''hy2-health-check.service'', ''xray.service'', ''tuic-server.service'',
     ''snap.certbot.renew.timer'', ''fail2ban.service'', ''systemd-journald.service'']"

definition EXACT_ALLOWED_SYSCTLS :: "string list" where
  "EXACT_ALLOWED_SYSCTLS = [
    ''net.core.rmem_max'', ''net.core.wmem_max'', ''net.core.rmem_default'', ''net.core.wmem_default'',
     ''net.core.netdev_max_backlog'', ''net.ipv4.udp_rmem_min'', ''net.ipv4.udp_wmem_min'',
     ''net.ipv4.tcp_mtu_probing'', ''net.core.default_qdisc'', ''net.ipv4.tcp_congestion_control'']"

section \<open>Formats\<close>

fun split_char :: "char \<Rightarrow> string \<Rightarrow> string list" where
  "split_char c [] = [[]]"
| "split_char c (x # xs) = (if x = c then [] # split_char c xs
     else (case split_char c xs of [] \<Rightarrow> [[x]] | p # ps \<Rightarrow> (x # p) # ps))"

definition hex_lower :: "char \<Rightarrow> bool" where
  "hex_lower c \<longleftrightarrow> c \<in> set ''0123456789abcdef''"

definition hex_string :: "nat \<Rightarrow> string \<Rightarrow> bool" where
  "hex_string n s \<longleftrightarrow> length s = n \<and> list_all hex_lower s"

definition unit_char :: "char \<Rightarrow> bool" where
  "unit_char c \<longleftrightarrow> is_alpha c \<or> is_digit c \<or> c \<in> set ''_.@:-''"

definition UNIT_RE :: "string \<Rightarrow> bool" where
  "UNIT_RE s \<longleftrightarrow> list_ex (\<lambda>suf. ends_with suf s \<and> length suf < length s
     \<and> list_all unit_char (take (length s - length suf) s)) [''.service'', ''.timer'']"

definition sysctl_char :: "char \<Rightarrow> bool" where
  "sysctl_char c \<longleftrightarrow> c \<in> set ''abcdefghijklmnopqrstuvwxyz0123456789_''"

definition SYSCTL_RE :: "string \<Rightarrow> bool" where
  "SYSCTL_RE s \<longleftrightarrow> (let ps = split_char CHR ''.'' s in
     2 \<le> length ps \<and> list_all (\<lambda>p. p \<noteq> [] \<and> list_all sysctl_char p) ps)"

definition TXID_RE :: "string \<Rightarrow> bool" where "TXID_RE s = hex_string 32 s"
definition HEX64_RE :: "string \<Rightarrow> bool" where "HEX64_RE s = hex_string 64 s"

definition BOOT_ID_RE :: "string \<Rightarrow> bool" where
  "BOOT_ID_RE s \<longleftrightarrow> (let ps = split_char CHR ''-'' s in
     map length ps = [8, 4, 4, 4, 12] \<and> list_all (list_all hex_lower) ps)"

definition SNAPSHOT_RE :: "string \<Rightarrow> bool" where
  "SNAPSHOT_RE s \<longleftrightarrow> length s = 13 \<and> take 9 s = ''snapshot-'' \<and> list_all is_digit (drop 9 s)"

section \<open>Paths\<close>

fun slashed :: "string list \<Rightarrow> string" where
  "slashed [] = []"
| "slashed [x] = x"
| "slashed (x # y # rest) = x @ ''/'' @ slashed (y # rest)"

text \<open>\<^verbatim>\<open>os.path.normpath\<close>, \<^verbatim>\<open>dirname\<close>, \<^verbatim>\<open>basename\<close> of POSIX; two leading slashes stay two.\<close>

definition normpath :: "string \<Rightarrow> string" where
  "normpath s = (if s = [] then ''.'' else
     let lead = (if starts_with ''//'' s \<and> \<not> starts_with ''///'' s then ''//''
                 else if starts_with ''/'' s then ''/'' else []);
         comps = foldl (\<lambda>acc c. if c = [] \<or> c = ''.'' then acc
             else if c \<noteq> ''..'' \<or> (lead = [] \<and> acc = []) \<or> (acc \<noteq> [] \<and> last acc = ''..'') then acc @ [c]
             else butlast acc) [] (split_char CHR ''/'' s);
         p = lead @ slashed comps
     in if p = [] then ''.'' else p)"

definition dirname :: "string \<Rightarrow> string" where
  "dirname p = (let head = rev (dropWhile (\<lambda>c. c \<noteq> CHR ''/'') (rev p)) in
     if list_all (\<lambda>c. c = CHR ''/'') head then head else rev (dropWhile (\<lambda>c. c = CHR ''/'') (rev head)))"

definition basename :: "string \<Rightarrow> string" where
  "basename p = rev (takeWhile (\<lambda>c. c \<noteq> CHR ''/'') (rev p))"

definition canonical_path :: "string \<Rightarrow> string res" where
  "canonical_path raw =
     (if \<not> starts_with ''/'' raw then Inl RecoveryError
      else if normpath raw \<noteq> raw \<or> raw = ''/'' \<or> CHR 0x00 \<in> set raw then Inl RecoveryError
      else Inr raw)"

definition path_parts :: "string \<Rightarrow> string list" where
  "path_parts p = filter (\<lambda>c. c \<noteq> [] \<and> c \<noteq> ''.'') (split_char CHR ''/'' p)"

definition inside :: "string \<Rightarrow> string \<Rightarrow> bool" where
  "inside path ancestor \<longleftrightarrow> take (length (path_parts ancestor)) (path_parts path) = path_parts ancestor"

definition is_allowed_artifact :: "string \<Rightarrow> bool" where
  "is_allowed_artifact path \<longleftrightarrow>
     \<not> (path = DEFAULT_RECOVERY_ROOT \<or> inside path DEFAULT_RECOVERY_ROOT) \<and> path \<in> set EXACT_ALLOWED_PATHS"

text \<open>
  What \<^verbatim>\<open>lstat\<close> says of the directories, and everything else outside the script: SHA-256 in hexadecimal,
  the syslog group, the boot identifier, what a command answers after the commands issued before it, whether
  its executable is safe, and the order in which a directory lists its entries. Directories do not change
  during a deployment, apart from the managed log directory.
\<close>

datatype dir_meta = NoDir | DirMeta (dm_real: bool) (dm_uid: int) (dm_gid: int) (dm_mode: nat)

record platform =
  sha256 :: "string \<Rightarrow> string"
  dirs :: "string \<Rightarrow> dir_meta"
  syslog_gid :: "int option"
  boot_now :: string
  answer :: "string list list \<Rightarrow> string list \<Rightarrow> int \<times> string"
  executable_safe :: "string \<Rightarrow> bool"
  arrange :: "string list \<Rightarrow> string list"

definition writable_by_others :: "nat \<Rightarrow> bool" where
  "writable_by_others mode \<longleftrightarrow> bit mode 4 \<or> bit mode 1"

definition is_trusted_syslog_directory :: "platform \<Rightarrow> string \<Rightarrow> dir_meta \<Rightarrow> bool" where
  "is_trusted_syslog_directory env path d \<longleftrightarrow>
     path = ''/var/log'' \<and> d \<noteq> NoDir \<and> dm_real d \<and> dm_uid d = 0 \<and> dm_mode d = 509 \<and> syslog_gid env = Some (dm_gid d)"

fun check_ancestors :: "platform \<Rightarrow> bool \<Rightarrow> string \<Rightarrow> string list \<Rightarrow> unit res" where
  "check_ancestors env allow_syslog current [] = Inr ()"
| "check_ancestors env allow_syslog current (c # cs) =
     (let p = current @ ''/'' @ c; d = dirs env p in
      if d = NoDir then Inr ()
      else if \<not> dm_real d \<or> dm_uid d \<noteq> 0
          \<or> (writable_by_others (dm_mode d) \<and> \<not> (allow_syslog \<and> is_trusted_syslog_directory env p d))
        then Inl RecoveryError
      else check_ancestors env allow_syslog p cs)"

definition validate_existing_parent_chain :: "platform \<Rightarrow> bool \<Rightarrow> string \<Rightarrow> unit res" where
  "validate_existing_parent_chain env allow_syslog path =
     check_ancestors env allow_syslog [] (path_parts (dirname path))"

definition validate_artifact_path :: "platform \<Rightarrow> string \<Rightarrow> string res" where
  "validate_artifact_path env raw = rbind (canonical_path raw) (\<lambda>path.
     rbind (raise_if (\<not> is_allowed_artifact path) RecoveryError) (\<lambda>_.
     rbind (validate_existing_parent_chain env False path) (\<lambda>_. Inr path)))"

definition validate_log_dir :: "platform \<Rightarrow> string \<Rightarrow> string res" where
  "validate_log_dir env raw = rbind (canonical_path raw) (\<lambda>path.
     rbind (raise_if (path \<notin> set ALLOWED_LOG_DIRS) RecoveryError) (\<lambda>_.
     rbind (validate_existing_parent_chain env True path) (\<lambda>_. Inr path)))"

text \<open>\<^verbatim>\<open>_safe_directory\<close>: a missing directory is an \<^verbatim>\<open>OSError\<close>, an unsafe one a refusal.\<close>

definition check_directory :: "platform \<Rightarrow> bool \<Rightarrow> bool \<Rightarrow> string \<Rightarrow> dir_meta \<Rightarrow> unit res" where
  "check_directory env root_only allow_syslog path d =
     (if d = NoDir then Inl OSError
      else if \<not> dm_real d \<or> dm_uid d \<noteq> 0 then Inl RecoveryError
      else if (if root_only then dm_mode d mod 64 \<noteq> 0 else writable_by_others (dm_mode d))
          \<and> \<not> (allow_syslog \<and> \<not> root_only \<and> is_trusted_syslog_directory env path d)
        then Inl RecoveryError
      else Inr ())"

definition safe_directory :: "platform \<Rightarrow> bool \<Rightarrow> bool \<Rightarrow> string \<Rightarrow> unit res" where
  "safe_directory env root_only allow_syslog path = check_directory env root_only allow_syslog path (dirs env path)"

section \<open>Generations\<close>

text \<open>
  A path holds nothing, a symbolic link, a regular file or something else. \<open>torn\<close> lists what a power loss
  can make of a file whose bytes were never synced.
\<close>

datatype content = LinkTo string | Regular string | OtherKind

record inode =
  holds :: content
  owner :: int
  group :: int
  permissions :: int
  nlink :: nat

datatype node = Absent | Node inode

definition torn :: "node \<Rightarrow> node set" where
  "torn n = (case n of
      Node i \<Rightarrow> (case holds i of Regular b \<Rightarrow> (\<lambda>k. Node (i\<lparr>holds := Regular (take k b)\<rparr>)) ` {0..length b} | _ \<Rightarrow> {})
    | Absent \<Rightarrow> {})"

datatype generation_value =
    AbsentValue
  | SymlinkValue string int int
  | FileValue string int int int int

definition value_json :: "generation_value \<Rightarrow> json" where
  "value_json v = (case v of
      AbsentValue \<Rightarrow> JObj [(''kind'', JStr ''absent'')]
    | SymlinkValue target uid gid \<Rightarrow>
        JObj [(''kind'', JStr ''symlink''), (''target'', JStr target), (''uid'', JInt uid), (''gid'', JInt gid)]
    | FileValue digest len mode uid gid \<Rightarrow>
        JObj [(''kind'', JStr ''file''), (''sha256'', JStr digest), (''size'', JInt len), (''mode'', JInt mode),
          (''uid'', JInt uid), (''gid'', JInt gid)])"

definition generation_token :: "platform \<Rightarrow> generation_value \<Rightarrow> string" where
  "generation_token env v = sha256 env (json_text True (value_json v))"

definition ABSENT_GENERATION :: "platform \<Rightarrow> string" where
  "ABSENT_GENERATION env = generation_token env AbsentValue"

definition generation_of :: "platform \<Rightarrow> node \<Rightarrow> generation_value res" where
  "generation_of env n = (case n of
      Absent \<Rightarrow> Inr AbsentValue
    | Node i \<Rightarrow>
        if nlink i \<noteq> 1 then Inl RecoveryError
        else if owner i \<noteq> 0 then Inl RecoveryError
        else (case holds i of
            LinkTo target \<Rightarrow> if 4096 < length target then Inl RecoveryError
              else Inr (SymlinkValue target (owner i) (group i))
          | OtherKind \<Rightarrow> Inl RecoveryError
          | Regular b \<Rightarrow> if MAX_FILE_BYTES < length b then Inl RecoveryError
              else Inr (FileValue (sha256 env b) (int (length b)) (permissions i) (owner i) (group i))))"

section \<open>The manifest\<close>

record unit_state =
  was_active :: bool
  was_enabled :: string

record runtime =
  units :: "unit_state dict"
  sysctls :: "string dict"
  log_dirs :: "(int \<times> int \<times> int) option dict"

datatype artifact =
    AbsentArtifact
  | FileArtifact string string int int int int
  | LinkArtifact string int int

record entry =
  e_path :: string
  e_kind :: artifact
  e_original :: string
  e_replacement :: "string option"

record pending =
  p_path :: string
  p_replacement :: string
  p_candidate :: "string option"

datatype stage = Preparing | Active | Restoring | RecoveryFailed | Restored | Complete

record manifest =
  txid :: string
  stage_of :: stage
  boot_id :: string
  created_ns :: json
  m_runtime :: runtime
  allowlist :: "string list"
  artifacts :: "entry list"
  committed :: "string list"
  pending_commit :: "pending option"

definition stage_name :: "stage \<Rightarrow> string" where
  "stage_name s = (case s of Preparing \<Rightarrow> ''preparing'' | Active \<Rightarrow> ''active'' | Restoring \<Rightarrow> ''restoring''
     | RecoveryFailed \<Rightarrow> ''recovery-failed'' | Restored \<Rightarrow> ''restored'' | Complete \<Rightarrow> ''complete'')"

definition stage_named :: "string \<Rightarrow> stage res" where
  "stage_named n = (case find (\<lambda>s. stage_name s = n) [Preparing, Active, Restoring, RecoveryFailed, Restored, Complete]
     of None \<Rightarrow> Inl RecoveryError | Some s \<Rightarrow> Inr s)"

subsection \<open>To JSON\<close>

definition unit_json :: "unit_state \<Rightarrow> json" where
  "unit_json u = JObj [(''active'', JBool (was_active u)), (''enabled'', JStr (was_enabled u))]"

definition log_dir_json :: "(int \<times> int \<times> int) option \<Rightarrow> json" where
  "log_dir_json d = (case d of
      None \<Rightarrow> JObj [(''existed'', JBool False)]
    | Some (uid, gid, mode) \<Rightarrow> JObj [(''existed'', JBool True), (''uid'', JInt uid), (''gid'', JInt gid), (''mode'', JInt mode)])"

definition runtime_json :: "runtime \<Rightarrow> json" where
  "runtime_json r = JObj [(''units'', JObj (map (\<lambda>(k, v). (k, unit_json v)) (units r))),
     (''sysctls'', JObj (map (\<lambda>(k, v). (k, JStr v)) (sysctls r))),
     (''log_dirs'', JObj (map (\<lambda>(k, v). (k, log_dir_json v)) (log_dirs r)))]"

definition entry_json :: "entry \<Rightarrow> json" where
  "entry_json e = JObj ([(''path'', JStr (e_path e)),
      (''kind'', JStr (case e_kind e of AbsentArtifact \<Rightarrow> ''absent'' | FileArtifact _ _ _ _ _ _ \<Rightarrow> ''file''
         | LinkArtifact _ _ _ \<Rightarrow> ''symlink'')),
      (''original_generation'', JStr (e_original e))]
    @ (case e_kind e of
        AbsentArtifact \<Rightarrow> []
      | LinkArtifact target uid gid \<Rightarrow> [(''target'', JStr target), (''uid'', JInt uid), (''gid'', JInt gid)]
      | FileArtifact snapshot digest len mode uid gid \<Rightarrow>
          [(''snapshot'', JStr snapshot), (''sha256'', JStr digest), (''size'', JInt len), (''mode'', JInt mode),
           (''uid'', JInt uid), (''gid'', JInt gid)])
    @ (case e_replacement e of None \<Rightarrow> [] | Some r \<Rightarrow> [(''replacement_generation'', JStr r)]))"

definition pending_json :: "pending option \<Rightarrow> json" where
  "pending_json p = (case p of None \<Rightarrow> JNull | Some q \<Rightarrow>
     JObj [(''path'', JStr (p_path q)), (''replacement_generation'', JStr (p_replacement q)),
       (''candidate'', case p_candidate q of None \<Rightarrow> JNull | Some c \<Rightarrow> JStr c)])"

definition manifest_json :: "manifest \<Rightarrow> json" where
  "manifest_json m = JObj [(''version'', JInt MANIFEST_VERSION), (''txid'', JStr (txid m)),
     (''state'', JStr (stage_name (stage_of m))), (''boot_id'', JStr (boot_id m)), (''created_ns'', created_ns m),
     (''runtime'', runtime_json (m_runtime m)), (''allowlist'', JList (map JStr (allowlist m))),
     (''artifacts'', JList (map entry_json (artifacts m))), (''committed'', JList (map JStr (committed m))),
     (''pending_commit'', pending_json (pending_commit m))]"

subsection \<open>From JSON\<close>

text \<open>The type checks of \<^verbatim>\<open>_validate_manifest\<close> and \<^verbatim>\<open>_validate_runtime\<close>; a \<^verbatim>\<open>bool\<close> passes for an \<^verbatim>\<open>int\<close>.\<close>

definition obj_at :: "json dict \<Rightarrow> string \<Rightarrow> json dict res" where
  "obj_at d k = (case map_of d k of Some (JObj x) \<Rightarrow> Inr x | _ \<Rightarrow> Inl RecoveryError)"

definition str_at :: "json dict \<Rightarrow> string \<Rightarrow> string res" where
  "str_at d k = (case map_of d k of Some (JStr s) \<Rightarrow> Inr s | _ \<Rightarrow> Inl RecoveryError)"

definition bool_at :: "json dict \<Rightarrow> string \<Rightarrow> bool res" where
  "bool_at d k = (case map_of d k of Some (JBool b) \<Rightarrow> Inr b | _ \<Rightarrow> Inl RecoveryError)"

definition int_at :: "json dict \<Rightarrow> string \<Rightarrow> int res" where
  "int_at d k = (case map_of d k of Some (JInt i) \<Rightarrow> Inr i | Some (JBool b) \<Rightarrow> Inr (if b then 1 else 0)
     | _ \<Rightarrow> Inl RecoveryError)"

definition list_at :: "json dict \<Rightarrow> string \<Rightarrow> json list res" where
  "list_at d k = (case map_of d k of Some (JList xs) \<Rightarrow> Inr xs | _ \<Rightarrow> Inl RecoveryError)"

definition as_str :: "json \<Rightarrow> string res" where
  "as_str j = (case j of JStr s \<Rightarrow> Inr s | _ \<Rightarrow> Inl RecoveryError)"

definition as_obj :: "json \<Rightarrow> json dict res" where
  "as_obj j = (case j of JObj d \<Rightarrow> Inr d | _ \<Rightarrow> Inl RecoveryError)"

definition optional_str :: "json dict \<Rightarrow> string \<Rightarrow> string option res" where
  "optional_str d k = (case map_of d k of None \<Rightarrow> Inr None | Some JNull \<Rightarrow> Inr None | Some (JStr s) \<Rightarrow> Inr (Some s)
     | _ \<Rightarrow> Inl RecoveryError)"

definition parse_unit :: "string \<times> json \<Rightarrow> (string \<times> unit_state) res" where
  "parse_unit kv = rbind (as_obj (snd kv)) (\<lambda>d. rbind (bool_at d ''active'') (\<lambda>a. rbind (str_at d ''enabled'') (\<lambda>e.
     Inr (fst kv, \<lparr>was_active = a, was_enabled = e\<rparr>))))"

definition parse_sysctl :: "string \<times> json \<Rightarrow> (string \<times> string) res" where
  "parse_sysctl kv = rbind (as_str (snd kv)) (\<lambda>v. Inr (fst kv, v))"

definition parse_log_dir :: "string \<times> json \<Rightarrow> (string \<times> (int \<times> int \<times> int) option) res" where
  "parse_log_dir kv = rbind (as_obj (snd kv)) (\<lambda>d. rbind (bool_at d ''existed'') (\<lambda>existed.
     if existed then rbind (int_at d ''uid'') (\<lambda>uid. rbind (int_at d ''gid'') (\<lambda>gid. rbind (int_at d ''mode'') (\<lambda>mode.
       Inr (fst kv, Some (uid, gid, mode)))))
     else Inr (fst kv, None)))"

definition parse_runtime :: "json \<Rightarrow> runtime res" where
  "parse_runtime j = rbind (as_obj j) (\<lambda>d.
     rbind (obj_at d ''units'') (\<lambda>us. rbind (obj_at d ''sysctls'') (\<lambda>ss. rbind (obj_at d ''log_dirs'') (\<lambda>ls.
     rbind (collect parse_unit us) (\<lambda>us'. rbind (collect parse_sysctl ss) (\<lambda>ss'. rbind (collect parse_log_dir ls) (\<lambda>ls'.
       Inr \<lparr>units = us', sysctls = ss', log_dirs = ls'\<rparr>)))))))"

definition parse_artifact :: "json dict \<Rightarrow> artifact res" where
  "parse_artifact d = rbind (str_at d ''kind'') (\<lambda>kind.
     if kind = ''absent'' then Inr AbsentArtifact
     else if kind = ''file'' then
       rbind (str_at d ''snapshot'') (\<lambda>snapshot. rbind (int_at d ''size'') (\<lambda>size. rbind (int_at d ''mode'') (\<lambda>mode.
       rbind (int_at d ''uid'') (\<lambda>uid. rbind (int_at d ''gid'') (\<lambda>gid. rbind (str_at d ''sha256'') (\<lambda>digest.
         Inr (FileArtifact snapshot digest size mode uid gid)))))))
     else if kind = ''symlink'' then
       rbind (str_at d ''target'') (\<lambda>target. rbind (int_at d ''uid'') (\<lambda>uid. rbind (int_at d ''gid'') (\<lambda>gid.
         Inr (LinkArtifact target uid gid))))
     else Inl RecoveryError)"

definition parse_entry :: "json \<Rightarrow> entry res" where
  "parse_entry j = rbind (as_obj j) (\<lambda>d. rbind (str_at d ''path'') (\<lambda>path. rbind (parse_artifact d) (\<lambda>kind.
     rbind (str_at d ''original_generation'') (\<lambda>original. rbind (optional_str d ''replacement_generation'') (\<lambda>replacement.
       Inr \<lparr>e_path = path, e_kind = kind, e_original = original, e_replacement = replacement\<rparr>)))))"

definition parse_pending :: "json dict \<Rightarrow> pending option res" where
  "parse_pending d = (case dget d ''pending_commit'' JNull of
      JNull \<Rightarrow> Inr None
    | JObj p \<Rightarrow> rbind (str_at p ''path'') (\<lambda>path. rbind (str_at p ''replacement_generation'') (\<lambda>replacement.
        rbind (optional_str p ''candidate'') (\<lambda>candidate.
          Inr (Some \<lparr>p_path = path, p_replacement = replacement, p_candidate = candidate\<rparr>))))
    | _ \<Rightarrow> Inl RecoveryError)"

definition parse_manifest :: "json \<Rightarrow> manifest res" where
  "parse_manifest j = rbind (as_obj j) (\<lambda>d.
     rbind (raise_if (\<not> eq_int (dget d ''version'' JNull) MANIFEST_VERSION) RecoveryError) (\<lambda>_.
     rbind (str_at d ''txid'') (\<lambda>tx. rbind (str_at d ''state'') (\<lambda>name. rbind (stage_named name) (\<lambda>st.
     rbind (str_at d ''boot_id'') (\<lambda>boot. rbind (parse_runtime (dget d ''runtime'' JNull)) (\<lambda>run.
     rbind (list_at d ''allowlist'') (\<lambda>al. rbind (list_at d ''artifacts'') (\<lambda>ars. rbind (list_at d ''committed'') (\<lambda>cm.
     rbind (collect as_str al) (\<lambda>al'. rbind (collect parse_entry ars) (\<lambda>ars'. rbind (collect as_str cm) (\<lambda>cm'.
     rbind (parse_pending d) (\<lambda>p.
       Inr \<lparr>txid = tx, stage_of = st, boot_id = boot, created_ns = dget d ''created_ns'' JNull, m_runtime = run,
         allowlist = al', artifacts = ars', committed = cm', pending_commit = p\<rparr>))))))))))))))"

subsection \<open>Validation\<close>

definition check_runtime :: "platform \<Rightarrow> runtime \<Rightarrow> bool" where
  "check_runtime env r \<longleftrightarrow>
     list_all (\<lambda>(u, st). UNIT_RE u \<and> was_enabled st \<in> set VALID_ENABLE_STATES \<and> u \<in> set EXACT_ALLOWED_UNITS) (units r)
     \<and> list_all (\<lambda>(k, v). SYSCTL_RE k \<and> v \<noteq> [] \<and> length v \<le> 256 \<and> CHR 0x00 \<notin> set v \<and> CHR 0x0A \<notin> set v
         \<and> k \<in> set EXACT_ALLOWED_SYSCTLS) (sysctls r)
     \<and> list_all (\<lambda>(p, _). validate_log_dir env p = Inr p) (log_dirs r)"

definition check_artifact :: "artifact \<Rightarrow> bool" where
  "check_artifact k = (case k of
      FileArtifact snapshot digest len mode uid gid \<Rightarrow>
        SNAPSHOT_RE snapshot \<and> 0 \<le> len \<and> len \<le> int MAX_FILE_BYTES \<and> HEX64_RE digest
    | _ \<Rightarrow> True)"

definition check_entry :: "entry \<Rightarrow> bool" where
  "check_entry e \<longleftrightarrow> HEX64_RE (e_original e) \<and> check_artifact (e_kind e)
     \<and> (case e_replacement e of None \<Rightarrow> True | Some r \<Rightarrow> HEX64_RE r)"

definition replacement_at :: "entry list \<Rightarrow> string \<Rightarrow> string option" where
  "replacement_at es p = (case find (\<lambda>e. e_path e = p) es of None \<Rightarrow> None | Some e \<Rightarrow> e_replacement e)"

definition check_candidate :: "pending \<Rightarrow> bool" where
  "check_candidate q = (case p_candidate q of
      None \<Rightarrow> True
    | Some c \<Rightarrow> canonical_path c = Inr c \<and> c \<noteq> p_path q \<and> dirname c = dirname (p_path q))"

definition entry_paths :: "manifest \<Rightarrow> string list" where
  "entry_paths m = map e_path (artifacts m)"

definition check_pending :: "manifest \<Rightarrow> bool" where
  "check_pending m = (case pending_commit m of
      None \<Rightarrow> True
    | Some q \<Rightarrow> p_path q \<in> set (entry_paths m) \<and> p_path q \<notin> set (committed m) \<and> HEX64_RE (p_replacement q)
        \<and> replacement_at (artifacts m) (p_path q) = Some (p_replacement q) \<and> check_candidate q)"

definition journaled :: "manifest \<Rightarrow> string list" where
  "journaled m = committed m @ (case pending_commit m of None \<Rightarrow> [] | Some q \<Rightarrow> [p_path q])"

definition check_manifest :: "platform \<Rightarrow> manifest \<Rightarrow> bool" where
  "check_manifest env m \<longleftrightarrow>
     TXID_RE (txid m) \<and> BOOT_ID_RE (boot_id m) \<and> check_runtime env (m_runtime m)
     \<and> list_all (\<lambda>p. validate_artifact_path env p = Inr p) (allowlist m) \<and> distinct (allowlist m)
     \<and> length (artifacts m) \<le> length (allowlist m)
     \<and> entry_paths m = take (length (artifacts m)) (allowlist m)
     \<and> list_all check_entry (artifacts m)
     \<and> (stage_of m \<noteq> Preparing \<and> stage_of m \<noteq> Restored \<longrightarrow> length (artifacts m) = length (allowlist m))
     \<and> distinct (committed m) \<and> set (committed m) \<subseteq> set (entry_paths m)
     \<and> check_pending m
     \<and> set (map e_path (filter (\<lambda>e. e_replacement e \<noteq> None) (artifacts m))) = set (journaled m)"

definition validate_manifest :: "platform \<Rightarrow> json \<Rightarrow> manifest res" where
  "validate_manifest env j = rbind (parse_manifest j) (\<lambda>m.
     rbind (raise_if (\<not> check_manifest env m) RecoveryError) (\<lambda>_. Inr m))"

subsection \<open>What is written is read back\<close>

definition wf_runtime :: "runtime \<Rightarrow> bool" where
  "wf_runtime r \<longleftrightarrow> wf_dict (units r) \<and> wf_dict (sysctls r) \<and> wf_dict (log_dirs r)"

definition wf_manifest :: "manifest \<Rightarrow> bool" where
  "wf_manifest m \<longleftrightarrow> wf_runtime (m_runtime m) \<and> wf_json (created_ns m)"

lemmas at_defs = obj_at_def str_at_def bool_at_def int_at_def list_at_def as_str_def as_obj_def optional_str_def

lemma collect_shown:
  assumes "\<And>x. parse (show_it x) = Inr x"
  shows "collect parse (map show_it xs) = Inr xs"
  by (induction xs) (simp_all add: assms)

lemma stage_named_name [simp]: "stage_named (stage_name s) = Inr s"
  by (cases s) (simp_all add: stage_named_def stage_name_def)

lemma parse_unit_json: "parse_unit (case x of (k, v) \<Rightarrow> (k, unit_json v)) = Inr x"
  by (cases x) (simp add: parse_unit_def unit_json_def at_defs)

lemma parse_sysctl_json: "parse_sysctl (case x of (k, v) \<Rightarrow> (k, JStr v)) = Inr x"
  by (cases x) (simp add: parse_sysctl_def at_defs)

lemma parse_log_dir_json: "parse_log_dir (case x of (k, v) \<Rightarrow> (k, log_dir_json v)) = Inr x"
  by (cases x) (auto simp: parse_log_dir_def log_dir_json_def at_defs split: option.splits)

lemma parse_runtime_json: "parse_runtime (runtime_json r) = Inr r"
  using collect_shown [of parse_unit "\<lambda>(k, v). (k, unit_json v)", OF parse_unit_json]
    collect_shown [of parse_sysctl "\<lambda>(k, v). (k, JStr v)", OF parse_sysctl_json]
    collect_shown [of parse_log_dir "\<lambda>(k, v). (k, log_dir_json v)", OF parse_log_dir_json]
  by (simp add: parse_runtime_def runtime_json_def at_defs)

lemma parse_entry_json: "parse_entry (entry_json e) = Inr e"
  by (cases "e_kind e"; cases "e_replacement e")
    (simp_all add: parse_entry_def entry_json_def parse_artifact_def at_defs)

lemma parse_pending_json: "map_of d ''pending_commit'' = Some (pending_json p) \<Longrightarrow> parse_pending d = Inr p"
  by (auto simp: parse_pending_def dget_def pending_json_def at_defs split: option.splits)

lemma parse_manifest_json: "parse_manifest (manifest_json m) = Inr m"
  using collect_shown [of as_str JStr] collect_shown [of parse_entry entry_json, OF parse_entry_json]
  by (simp add: parse_manifest_def manifest_json_def at_defs dget_def parse_runtime_json parse_pending_json)

lemma wf_json_strs: "wf_dict d \<Longrightarrow> (\<And>v. wf_json (f v)) \<Longrightarrow> wf_json (JObj (map (\<lambda>(k, v). (k, f v)) d))"
  by (auto simp: wf_dict_def comp_def case_prod_beta)

lemma wf_manifest_json: "wf_manifest m \<Longrightarrow> wf_json (manifest_json m)"
proof -
  assume m: "wf_manifest m"
  have u: "wf_json (unit_json v)" for v by (simp add: unit_json_def wf_dict_def)
  have l: "wf_json (log_dir_json v)" for v by (auto simp: log_dir_json_def wf_dict_def split: option.splits)
  have e: "wf_json (entry_json e)" for e
    by (cases "e_kind e"; cases "e_replacement e") (simp_all add: entry_json_def wf_dict_def)
  have p: "wf_json (pending_json p)" for p
    by (auto simp: pending_json_def wf_dict_def split: option.splits)
  have r: "wf_json (runtime_json (m_runtime m))"
    using m wf_json_strs [of "units (m_runtime m)" unit_json] wf_json_strs [of "log_dirs (m_runtime m)" log_dir_json]
      wf_json_strs [of "sysctls (m_runtime m)" JStr] u l
    by (simp add: runtime_json_def wf_manifest_def wf_runtime_def wf_dict_def)
  show ?thesis
    using m r p e by (auto simp: manifest_json_def wf_manifest_def wf_dict_def)
qed

lemma collect_keys:
  assumes "\<And>x y. parse x = Inr y \<Longrightarrow> fst y = fst x" and "collect parse xs = Inr ys"
  shows "map fst ys = map fst xs"
  using assms(2) by (induction xs arbitrary: ys) (auto simp: rbind_eq_Inr dest: assms(1))

lemma parsed_wf:
  assumes "parse_manifest j = Inr m" and "wf_json j"
  shows "wf_manifest m"
proof -
  from assms obtain d where d: "j = JObj d" "wf_json (JObj d)"
    by (auto simp: parse_manifest_def rbind_eq_Inr as_obj_def split: json.splits)
  from assms(1) have created: "created_ns m = dget d ''created_ns'' JNull"
    and run: "parse_runtime (dget d ''runtime'' JNull) = Inr (m_runtime m)"
    by (auto simp: d(1) parse_manifest_def rbind_eq_Inr as_obj_def)
  have w: "wf_json (dget d k JNull)" for k
    using wf_json_lookup [OF d(2), of k] by (cases "map_of d k") (auto simp: dget_def)
  from run obtain rd us ss ls where r: "dget d ''runtime'' JNull = JObj rd"
    "map_of rd ''units'' = Some (JObj us)" "map_of rd ''sysctls'' = Some (JObj ss)" "map_of rd ''log_dirs'' = Some (JObj ls)"
    "collect parse_unit us = Inr (units (m_runtime m))" "collect parse_sysctl ss = Inr (sysctls (m_runtime m))"
    "collect parse_log_dir ls = Inr (log_dirs (m_runtime m))"
    by (auto simp: parse_runtime_def rbind_eq_Inr as_obj_def obj_at_def split: json.splits option.splits
        dest!: sym [of _ "m_runtime m"])
  have wr: "wf_json (JObj rd)" using w [of "''runtime''"] r(1) by simp
  have dicts: "wf_dict us" "wf_dict ss" "wf_dict ls"
    using wf_json_lookup [OF wr r(2)] wf_json_lookup [OF wr r(3)] wf_json_lookup [OF wr r(4)] by auto
  have "map fst (units (m_runtime m)) = map fst us"
    by (rule collect_keys [OF _ r(5)]) (auto simp: parse_unit_def rbind_eq_Inr)
  moreover have "map fst (sysctls (m_runtime m)) = map fst ss"
    by (rule collect_keys [OF _ r(6)]) (auto simp: parse_sysctl_def rbind_eq_Inr)
  moreover have "map fst (log_dirs (m_runtime m)) = map fst ls"
    by (rule collect_keys [OF _ r(7)]) (auto simp: parse_log_dir_def rbind_eq_Inr split: if_splits)
  ultimately show ?thesis
    using dicts w [of "''created_ns''"] by (simp add: wf_manifest_def wf_runtime_def wf_dict_def created)
qed

definition journal_file :: "manifest \<Rightarrow> jfile" where
  "journal_file m = Doc (raw_of_json (manifest_json m))"

definition read_journal :: "platform \<Rightarrow> jfile \<Rightarrow> manifest res" where
  "read_journal env f = (case f of
      Missing \<Rightarrow> Inl OSError
    | Unreadable \<Rightarrow> Inl OSError
    | NotJson \<Rightarrow> Inl RecoveryError
    | Doc r \<Rightarrow> validate_manifest env (json_of_raw r))"

lemma read_journal_file:
  "wf_manifest m \<Longrightarrow> read_journal env (journal_file m) = (if check_manifest env m then Inr m else Inl RecoveryError)"
  using json_of_raw_of_json [OF wf_manifest_json, of m]
  by (simp add: read_journal_def journal_file_def validate_manifest_def parse_manifest_json)

lemma read_journal_ok: "read_journal env f = Inr m \<Longrightarrow> check_manifest env m \<and> wf_manifest m"
  using parsed_wf wf_json_of_raw
  by (auto simp: read_journal_def validate_manifest_def rbind_eq_Inr split: jfile.splits)

lemma journal_file_inject: "wf_manifest m \<Longrightarrow> wf_manifest m' \<Longrightarrow> journal_file m = journal_file m' \<Longrightarrow> m = m'"
proof -
  assume w: "wf_manifest m" "wf_manifest m'" and eq: "journal_file m = journal_file m'"
  from eq have raw: "raw_of_json (manifest_json m) = raw_of_json (manifest_json m')"
    by (simp only: journal_file_def jfile.inject)
  have "manifest_json m = manifest_json m'"
    using arg_cong [OF raw, of json_of_raw]
    unfolding json_of_raw_of_json [OF wf_manifest_json [OF w(1)]] json_of_raw_of_json [OF wf_manifest_json [OF w(2)]] .
  then have "parse_manifest (manifest_json m) = parse_manifest (manifest_json m')" by (rule arg_cong)
  then show ?thesis unfolding parse_manifest_json by simp
qed
end
