(* ===== verification/DeployRecovery.thy ===== *)
theory DeployRecovery
  imports DeployJournal
begin

text \<open>
  The commands of \<^verbatim>\<open>scripts/hy2-deploy-recovery.py\<close> on a host whose system calls fail, whose process is killed
  between any two of them and whose power goes: prepare, snapshot, before, after, replace, remove, complete,
  recover. A command is a function from the host to an outcome and the host it leaves.
\<close>

section \<open>The host\<close>

text \<open>
  A slot is one directory entry: what is shown, what a power loss may leave, and whether the bytes shown are
  still unsynced. A plan, the list every action threads, says what becomes of the next system calls; when it
  is used up they succeed.
\<close>

datatype 'a slot = Slot (shown: 'a) (alive: "'a set") (unsynced: bool)

datatype fault = Fine | Fail | Kill

record host =
  tree :: "string \<Rightarrow> node slot"
  root_there :: bool
  here :: "bool slot"
  journal :: "jfile slot"
  copies :: "string option slot dict"
  logs :: "string \<Rightarrow> dir_meta"
  ran :: "string list list"

definition quiet_slot :: "'a \<Rightarrow> 'a slot" where
  "quiet_slot x = Slot x {x} False"

definition installed :: "'a slot \<Rightarrow> 'a slot \<Rightarrow> 'a slot" where
  "installed new old = Slot (shown new) (insert (shown new) (alive old \<union> alive new)) (unsynced new)"

definition settled :: "'a slot \<Rightarrow> 'a slot" where
  "settled s = (if unsynced s then s else quiet_slot (shown s))"

definition bytes_synced :: "'a slot \<Rightarrow> 'a slot" where
  "bytes_synced s = Slot (shown s) (alive s) False"

section \<open>Actions\<close>

datatype 'a outcome = Done 'a | Raised exc | Killed

type_synonym 'a act = "fault list \<Rightarrow> host \<Rightarrow> 'a outcome \<times> fault list \<times> host"

definition give :: "'a \<Rightarrow> 'a act" where "give x ps h = (Done x, ps, h)"
definition fail_with :: "exc \<Rightarrow> 'a act" where "fail_with e ps h = (Raised e, ps, h)"
definition ask :: "(host \<Rightarrow> 'a) \<Rightarrow> 'a act" where "ask g ps h = (Done (g h), ps, h)"
definition lift :: "'a res \<Rightarrow> 'a act" where "lift r = (case r of Inl e \<Rightarrow> fail_with e | Inr x \<Rightarrow> give x)"
definition refuse_if :: "bool \<Rightarrow> unit act" where "refuse_if c = (if c then fail_with RecoveryError else give ())"

definition andthen :: "'a act \<Rightarrow> ('a \<Rightarrow> 'b act) \<Rightarrow> 'b act" where
  "andthen m f ps h = (case m ps h of
      (Done x, qs, h') \<Rightarrow> f x qs h'
    | (Raised e, qs, h') \<Rightarrow> (Raised e, qs, h')
    | (Killed, qs, h') \<Rightarrow> (Killed, qs, h'))"

definition then_do :: "'a act \<Rightarrow> 'b act \<Rightarrow> 'b act" where
  "then_do m n = andthen m (\<lambda>_. n)"

text \<open>\<^verbatim>\<open>try: m; except BaseException: c; raise\<close>, and \<^verbatim>\<open>try: m; except E: pass\<close>. A killed process runs no handler.\<close>

definition on_error :: "'a act \<Rightarrow> unit act \<Rightarrow> 'a act" where
  "on_error m c ps h = (case m ps h of
      (Raised e, qs, h') \<Rightarrow> (case c qs h' of
          (Done _, rs, h'') \<Rightarrow> (Raised e, rs, h'')
        | (Raised e', rs, h'') \<Rightarrow> (Raised e', rs, h'')
        | (Killed, rs, h'') \<Rightarrow> (Killed, rs, h''))
    | (Done x, qs, h') \<Rightarrow> (Done x, qs, h')
    | (Killed, qs, h') \<Rightarrow> (Killed, qs, h'))"

definition swallow :: "(exc \<Rightarrow> bool) \<Rightarrow> unit act \<Rightarrow> unit act" where
  "swallow P m ps h = (case m ps h of
      (Raised e, qs, h') \<Rightarrow> if P e then (Done (), qs, h') else (Raised e, qs, h')
    | r \<Rightarrow> r)"

definition relabel :: "'a act \<Rightarrow> 'a act" where
  "relabel m ps h = (case m ps h of (Raised e, qs, h') \<Rightarrow> (Raised RecoveryError, qs, h') | r \<Rightarrow> r)"

fun each :: "('a \<Rightarrow> unit act) \<Rightarrow> 'a list \<Rightarrow> unit act" where
  "each f [] = give ()"
| "each f (x # xs) = then_do (f x) (each f xs)"

fun gather :: "('a \<Rightarrow> 'b act) \<Rightarrow> 'a list \<Rightarrow> 'b list act" where
  "gather f [] = give []"
| "gather f (x # xs) = andthen (f x) (\<lambda>y. andthen (gather f xs) (\<lambda>ys. give (y # ys)))"

fun several :: "unit act list \<Rightarrow> unit act" where
  "several [] = give ()"
| "several (m # ms) = then_do m (several ms)"

definition system_call :: "exc \<Rightarrow> (host \<Rightarrow> host) \<Rightarrow> unit act" where
  "system_call e f ps h = (case ps of
      [] \<Rightarrow> (Done (), [], f h)
    | Fine # qs \<Rightarrow> (Done (), qs, f h)
    | Fail # qs \<Rightarrow> (Raised e, qs, h)
    | Kill # qs \<Rightarrow> (Killed, qs, h))"

definition call :: "(host \<Rightarrow> host) \<Rightarrow> unit act" where "call f = system_call OSError f"
definition pause :: "unit act" where "pause = call (\<lambda>h. h)"

section \<open>Files and generations\<close>

definition at_path :: "string \<Rightarrow> (node slot \<Rightarrow> node slot) \<Rightarrow> host \<Rightarrow> host" where
  "at_path p f h = h\<lparr>tree := (tree h)(p := f (tree h p))\<rparr>"

definition look :: "string \<Rightarrow> node act" where
  "look p = then_do pause (ask (\<lambda>h. shown (tree h p)))"

definition generation :: "platform \<Rightarrow> string \<Rightarrow> generation_value act" where
  "generation env p = andthen (look p) (\<lambda>n. lift (generation_of env n))"

definition token_at :: "platform \<Rightarrow> string \<Rightarrow> string act" where
  "token_at env p = andthen (generation env p) (\<lambda>v. give (generation_token env v))"

definition open_directory :: "platform \<Rightarrow> bool \<Rightarrow> string \<Rightarrow> unit act" where
  "open_directory env allow_syslog p =
     then_do (lift (safe_directory env False allow_syslog p)) (system_call RecoveryError (\<lambda>h. h))"

definition fsync_directory :: "platform \<Rightarrow> bool \<Rightarrow> string \<Rightarrow> unit act" where
  "fsync_directory env allow_syslog p = then_do (open_directory env allow_syslog p) pause"

definition fsync_parent :: "platform \<Rightarrow> string \<Rightarrow> unit act" where
  "fsync_parent env p = then_do (open_directory env False (dirname p)) (call (at_path p settled))"

definition is_regular :: "node \<Rightarrow> bool" where
  "is_regular n = (case n of Node i \<Rightarrow> (case holds i of Regular _ \<Rightarrow> True | _ \<Rightarrow> False) | Absent \<Rightarrow> False)"

definition fsync_regular :: "string \<Rightarrow> unit act" where
  "fsync_regular p = andthen (look p) (\<lambda>n. if is_regular n then then_do pause (call (at_path p bytes_synced)) else give ())"

definition unlink :: "string \<Rightarrow> unit act" where
  "unlink p = call (at_path p (installed (quiet_slot Absent)))"

definition rename :: "string \<Rightarrow> string \<Rightarrow> unit act" where
  "rename c p = andthen (look c) (\<lambda>n. if n = Absent then fail_with OSError
     else call (\<lambda>h. at_path c (installed (quiet_slot Absent)) (at_path p (installed (tree h c)) h)))"

section \<open>The journal\<close>

definition present_items :: "host \<Rightarrow> string list" where
  "present_items h = (if shown (journal h) = Missing then [] else [MANIFEST_NAME])
     @ map fst (filter (\<lambda>(_, s). shown s \<noteq> None) (copies h))"

text \<open>The text is written to a temporary sibling, synced, renamed over the manifest; then the directory is synced.\<close>

definition atomic_write_manifest :: "manifest \<Rightarrow> unit act" where
  "atomic_write_manifest m =
     (let new = journal_file m in several
       [refuse_if (MAX_MANIFEST_BYTES < length (json_text True (manifest_json m)) + 1),
        pause, pause, pause,
        call (\<lambda>h. h\<lparr>journal := installed (quiet_slot new) (journal h)\<rparr>),
        call (\<lambda>h. h\<lparr>journal := settled (journal h)\<rparr>)])"

definition load_manifest :: "platform \<Rightarrow> manifest act" where
  "load_manifest env = then_do pause (andthen (ask (\<lambda>h. read_journal env (shown (journal h)))) lift)"

definition persist_state :: "manifest \<Rightarrow> stage \<Rightarrow> unit act" where
  "persist_state m s = atomic_write_manifest (m\<lparr>stage_of := s\<rparr>)"

definition entry_by_path :: "manifest \<Rightarrow> string \<Rightarrow> entry res" where
  "entry_by_path m p = (case find (\<lambda>e. e_path e = p) (artifacts m) of None \<Rightarrow> Inl RecoveryError | Some e \<Rightarrow> Inr e)"

definition load_active :: "platform \<Rightarrow> manifest act" where
  "load_active env = andthen (load_manifest env) (\<lambda>m. then_do (refuse_if (stage_of m \<noteq> Active)) (give m))"

subsection \<open>Snapshots\<close>

definition copy_in :: "string option slot dict \<Rightarrow> string \<Rightarrow> string option slot" where
  "copy_in cs name = (case map_of cs name of None \<Rightarrow> quiet_slot None | Some s \<Rightarrow> s)"

definition copy_of :: "host \<Rightarrow> string \<Rightarrow> string option slot" where
  "copy_of h name = copy_in (copies h) name"

definition at_copy :: "string \<Rightarrow> (string option slot \<Rightarrow> string option slot) \<Rightarrow> host \<Rightarrow> host" where
  "at_copy name f h = h\<lparr>copies := AList.update name (f (copy_of h name)) (copies h)\<rparr>"

definition torn_copy :: "string \<Rightarrow> string option slot" where
  "torn_copy b = Slot (Some b) ((\<lambda>k. Some (take k b)) ` {0..length b}) True"

definition unlink_copy :: "string \<Rightarrow> unit act" where
  "unlink_copy name = call (at_copy name (installed (quiet_slot None)))"

definition snapshot_name :: "nat \<Rightarrow> string" where
  "snapshot_name i = ''snapshot-'' @ pad_zero 4 (str_nat i)"

definition bytes_at :: "string \<Rightarrow> host \<Rightarrow> string" where
  "bytes_at p h = (case shown (tree h p) of Node i \<Rightarrow> (case holds i of Regular b \<Rightarrow> b | _ \<Rightarrow> []) | Absent \<Rightarrow> [])"

definition copy_bytes :: "string \<Rightarrow> string \<Rightarrow> unit act" where
  "copy_bytes name p = andthen (look p) (\<lambda>_. andthen (ask (\<lambda>h. shown (copy_of h name))) (\<lambda>old.
     if old \<noteq> None then fail_with OSError
     else andthen (ask (bytes_at p)) (\<lambda>b. several
       [call (at_copy name (installed (Slot (Some []) {Some []} True))),
        on_error (several [pause, call (at_copy name (installed (torn_copy b))), call (at_copy name bytes_synced)])
          (unlink_copy name),
        call (at_copy name settled)])))"

definition artifact_size :: "artifact \<Rightarrow> int" where
  "artifact_size k = (case k of FileArtifact _ _ len _ _ _ \<Rightarrow> len | _ \<Rightarrow> 0)"

definition snapshot_entry :: "platform \<Rightarrow> string \<Rightarrow> nat \<Rightarrow> entry act" where
  "snapshot_entry env p i = andthen (generation env p) (\<lambda>v.
     let e = \<lparr>e_path = p, e_kind = AbsentArtifact, e_original = generation_token env v, e_replacement = None\<rparr> in
     case v of
       AbsentValue \<Rightarrow> give e
     | SymlinkValue target uid gid \<Rightarrow> give (e\<lparr>e_kind := LinkArtifact target uid gid\<rparr>)
     | FileValue digest len mode uid gid \<Rightarrow>
         then_do (copy_bytes (snapshot_name i) p)
           (give (e\<lparr>e_kind := FileArtifact (snapshot_name i) digest len mode uid gid\<rparr>)))"

definition snapshot_integrity :: "platform \<Rightarrow> entry \<Rightarrow> unit act" where
  "snapshot_integrity env e = (case e_kind e of
      FileArtifact name digest len mode uid gid \<Rightarrow>
        then_do pause (andthen (ask (\<lambda>h. shown (copy_of h name))) (\<lambda>c. case c of
            None \<Rightarrow> fail_with OSError
          | Some b \<Rightarrow> refuse_if (int (length b) \<noteq> len \<or> MAX_FILE_BYTES < length b \<or> sha256 env b \<noteq> digest)))
    | _ \<Rightarrow> give ())"

fun snapshot_each :: "platform \<Rightarrow> int \<Rightarrow> nat \<Rightarrow> string list \<Rightarrow> manifest \<Rightarrow> manifest act" where
  "snapshot_each env sofar i [] m = give m"
| "snapshot_each env sofar i (p # ps) m =
     (if i < length (artifacts m)
      then then_do (snapshot_integrity env (artifacts m ! i)) (andthen (token_at env p) (\<lambda>t.
             then_do (refuse_if (t \<noteq> e_original (artifacts m ! i))) (snapshot_each env sofar (Suc i) ps m)))
      else andthen (snapshot_entry env p i) (\<lambda>e.
             let total' = sofar + artifact_size (e_kind e); m' = m\<lparr>artifacts := artifacts m @ [e]\<rparr> in
             if MAX_TOTAL_BYTES < total'
             then then_do (case e_kind e of
                   FileArtifact name _ _ _ _ _ \<Rightarrow> then_do (unlink_copy name) (call (at_copy name settled))
                 | _ \<Rightarrow> give ()) (fail_with RecoveryError)
             else then_do (atomic_write_manifest m') (snapshot_each env total' (Suc i) ps m')))"

text \<open>The lines of an allowlist file; a file comes with whether its metadata is safe.\<close>

definition line_break :: "char \<Rightarrow> bool" where
  "line_break c \<longleftrightarrow> c \<in> set [CHR 0x0A, CHR 0x0B, CHR 0x0C, CHR 0x0D, CHR 0x1C, CHR 0x1D, CHR 0x1E, CHR 0x85]"

fun split_lines :: "string \<Rightarrow> string \<Rightarrow> string list" where
  "split_lines acc [] = (if acc = [] then [] else [rev acc])"
| "split_lines acc (c # cs) =
     (if c = CHR 0x0D \<and> (case cs of d # _ \<Rightarrow> d = CHR 0x0A | [] \<Rightarrow> False) then rev acc # split_lines [] (tl cs)
      else if line_break c then rev acc # split_lines [] cs
      else split_lines (c # acc) cs)"

definition read_allowlist_file :: "string \<times> bool \<times> string \<Rightarrow> string list res" where
  "read_allowlist_file af = (case af of (path, metadata_safe, text) \<Rightarrow>
     rbind (canonical_path path) (\<lambda>_.
     rbind (raise_if (\<not> metadata_safe \<or> 256 * 1024 < length text) RecoveryError) (\<lambda>_.
     rbind (collect (\<lambda>line. let v = py_strip line in
         if v = [] \<or> starts_with ''#'' v then Inr [] else if v \<noteq> line then Inl RecoveryError else Inr [v])
       (split_lines [] text)) (\<lambda>xss. Inr (concat xss)))))"

definition collect_allowlist :: "platform \<Rightarrow> string list \<Rightarrow> (string \<times> bool \<times> string) list \<Rightarrow> string list res" where
  "collect_allowlist env direct listed = rbind (collect read_allowlist_file listed) (\<lambda>xss.
     let raw = direct @ concat xss in
     rbind (raise_if (raw = []) RecoveryError) (\<lambda>_. rbind (collect (validate_artifact_path env) raw) (\<lambda>paths.
     rbind (raise_if (\<not> distinct paths) RecoveryError) (\<lambda>_. Inr paths))))"

definition snapshot :: "platform \<Rightarrow> string list \<Rightarrow> (string \<times> bool \<times> string) list \<Rightarrow> unit act" where
  "snapshot env direct listed = andthen (load_manifest env) (\<lambda>m.
     then_do (refuse_if (stage_of m \<noteq> Preparing)) (andthen (lift (collect_allowlist env direct listed)) (\<lambda>paths.
     let m1 = m\<lparr>allowlist := paths\<rparr> in
     then_do (if allowlist m \<noteq> [] then refuse_if (allowlist m \<noteq> paths) else atomic_write_manifest m1)
       (andthen (snapshot_each env (sum_list (map (artifact_size \<circ> e_kind) (artifacts m))) 0 paths m1)
         (\<lambda>m2. persist_state m2 Active)))))"

section \<open>Mutations\<close>

definition candidate_generation :: "platform \<Rightarrow> string \<Rightarrow> string \<Rightarrow> string act" where
  "candidate_generation env candidate destination =
     andthen (lift (canonical_path candidate)) (\<lambda>c.
     then_do (refuse_if (dirname c \<noteq> dirname destination)) (
     then_do (refuse_if (c = destination)) (
     then_do (lift (safe_directory env False False (dirname c))) (
     andthen (generation env c) (\<lambda>v.
     then_do (refuse_if (v = AbsentValue)) (then_do (fsync_regular c) (then_do (fsync_parent env c)
       (give (generation_token env v)))))))))"

definition staged_replacement :: "platform \<Rightarrow> manifest \<Rightarrow> string \<Rightarrow> string option \<Rightarrow> (string \<times> string option) act" where
  "staged_replacement env m p candidate = (case candidate of
      None \<Rightarrow> give (ABSENT_GENERATION env, None)
    | Some raw \<Rightarrow> andthen (lift (canonical_path raw)) (\<lambda>c.
        then_do (refuse_if (c \<in> set (allowlist m))) (
        then_do (refuse_if (\<not> starts_with ''.'' (basename c) \<or> basename c = ''.'' \<or> basename c = ''..'')) (
        andthen (candidate_generation env c p) (\<lambda>r. give (r, Some c))))))"

definition with_replacement :: "string \<Rightarrow> string \<Rightarrow> string option \<Rightarrow> manifest \<Rightarrow> manifest" where
  "with_replacement p r c m = m\<lparr>
     artifacts := map (\<lambda>e. if e_path e = p then e\<lparr>e_replacement := Some r\<rparr> else e) (artifacts m),
     pending_commit := Some \<lparr>p_path = p, p_replacement = r, p_candidate = c\<rparr>\<rparr>"

definition before :: "platform \<Rightarrow> string \<Rightarrow> string option \<Rightarrow> unit act" where
  "before env raw candidate = andthen (load_active env) (\<lambda>m.
     andthen (lift (validate_artifact_path env raw)) (\<lambda>p.
     then_do (refuse_if (pending_commit m \<noteq> None)) (
     then_do (refuse_if (p \<in> set (committed m))) (
     andthen (lift (entry_by_path m p)) (\<lambda>e.
     andthen (token_at env p) (\<lambda>t.
     then_do (refuse_if (t \<noteq> e_original e)) (
     andthen (staged_replacement env m p candidate) (\<lambda>(r, c).
       atomic_write_manifest (with_replacement p r c m)))))))))"

definition cleanup_candidate_from_pending :: "platform \<Rightarrow> pending option \<Rightarrow> unit act" where
  "cleanup_candidate_from_pending env pend = (case pend of
      None \<Rightarrow> give ()
    | Some q \<Rightarrow> (case p_candidate q of
        None \<Rightarrow> give ()
      | Some c \<Rightarrow> andthen (token_at env c) (\<lambda>t.
          if t = ABSENT_GENERATION env then give ()
          else then_do (refuse_if (t \<noteq> p_replacement q)) (then_do (unlink c) (fsync_parent env c)))))"

definition with_commit :: "string \<Rightarrow> manifest \<Rightarrow> manifest" where
  "with_commit p m = m\<lparr>committed := committed m @ [p], pending_commit := None\<rparr>"

definition commit_mutation :: "platform \<Rightarrow> manifest \<Rightarrow> pending \<Rightarrow> string \<Rightarrow> unit act" where
  "commit_mutation env m q p = then_do (fsync_regular p) (andthen (token_at env p) (\<lambda>t.
     then_do (refuse_if (t \<noteq> p_replacement q)) (
     then_do (if dirs env (dirname p) = NoDir then refuse_if (t \<noteq> ABSENT_GENERATION env) else fsync_parent env p) (
     then_do (cleanup_candidate_from_pending env (pending_commit m))
       (atomic_write_manifest (with_commit p m))))))"

definition after :: "platform \<Rightarrow> string \<Rightarrow> unit act" where
  "after env raw = andthen (load_active env) (\<lambda>m.
     andthen (lift (validate_artifact_path env raw)) (\<lambda>p.
     case pending_commit m of
       None \<Rightarrow> fail_with RecoveryError
     | Some q \<Rightarrow> then_do (refuse_if (p_path q \<noteq> p)) (commit_mutation env m q p)))"

definition replace :: "platform \<Rightarrow> string \<Rightarrow> string \<Rightarrow> unit act" where
  "replace env p c = then_do (before env p (Some c)) (andthen (lift (canonical_path p)) (\<lambda>p'.
     andthen (lift (canonical_path c)) (\<lambda>c'. several
       [rename c' p', fsync_regular p', fsync_parent env p', after env p'])))"

definition remove :: "platform \<Rightarrow> string \<Rightarrow> unit act" where
  "remove env p = then_do (before env p None) (
     then_do (andthen (look p) (\<lambda>n. if n = Absent then give () else then_do (unlink p) (fsync_parent env p)))
       (after env p))"

section \<open>The runtime\<close>

text \<open>\<^verbatim>\<open>_run\<close>: what the command answers may depend on every command before it.\<close>

definition run :: "platform \<Rightarrow> bool \<Rightarrow> string list \<Rightarrow> (int \<times> string) act" where
  "run env check argv = then_do (system_call RecoveryError (\<lambda>h. h\<lparr>ran := ran h @ [argv]\<rparr>))
     (andthen (ask (\<lambda>h. answer env (butlast (ran h)) argv)) (\<lambda>r.
       then_do (refuse_if (check \<and> fst r \<noteq> 0)) (give r)))"

definition checked_run :: "platform \<Rightarrow> string list \<Rightarrow> unit act" where
  "checked_run env argv = then_do (run env True argv) (give ())"

definition SYSTEMCTL :: string where "SYSTEMCTL = ''/usr/bin/systemctl''"
definition SYSCTL :: string where "SYSCTL = ''/usr/sbin/sysctl''"

definition command_path :: "platform \<Rightarrow> string \<Rightarrow> unit act" where
  "command_path env path = then_do pause (refuse_if (\<not> executable_safe env path))"

definition authoritative_active_state :: "int \<times> string \<Rightarrow> bool res" where
  "authoritative_active_state r = (let s = py_strip (snd r) in
     if fst r = 0 \<and> s = ''active'' then Inr True
     else if fst r \<in> {3, 4} \<and> s \<in> {''inactive'', ''failed'', ''unknown''} then Inr False
     else Inl RecoveryError)"

definition is_active :: "platform \<Rightarrow> string \<Rightarrow> bool act" where
  "is_active env u = andthen (run env False [SYSTEMCTL, ''is-active'', u]) (\<lambda>r. lift (authoritative_active_state r))"

definition capture_unit :: "platform \<Rightarrow> string \<Rightarrow> (string \<times> unit_state) act" where
  "capture_unit env u = andthen (is_active env u) (\<lambda>a.
     andthen (run env False [SYSTEMCTL, ''is-enabled'', u]) (\<lambda>r.
     let enabled = (if py_strip (snd r) = [] then ''not-found'' else py_strip (snd r)) in
     then_do (refuse_if (enabled \<notin> set VALID_ENABLE_STATES \<or> fst r \<notin> {0, 1}))
       (give (u, \<lparr>was_active = a, was_enabled = enabled\<rparr>))))"

definition capture_sysctl :: "platform \<Rightarrow> string \<Rightarrow> (string \<times> string) act" where
  "capture_sysctl env k = andthen (run env True [SYSCTL, ''-n'', k]) (\<lambda>r.
     let v = py_strip (snd r) in
     then_do (refuse_if (v = [] \<or> 256 < length v \<or> CHR 0x0A \<in> set v \<or> CHR 0x00 \<in> set v)) (give (k, v)))"

definition capture_log_dir :: "platform \<Rightarrow> string \<Rightarrow> (string \<times> (int \<times> int \<times> int) option) act" where
  "capture_log_dir env raw = andthen (lift (validate_log_dir env raw)) (\<lambda>p.
     then_do pause (andthen (ask (\<lambda>h. logs h p)) (\<lambda>d. case d of
         NoDir \<Rightarrow> give (p, None)
       | DirMeta is_dir uid gid mode \<Rightarrow> then_do (refuse_if (\<not> is_dir)) (give (p, Some (uid, gid, int mode))))))"

definition capture_runtime :: "platform \<Rightarrow> string list \<Rightarrow> string list \<Rightarrow> string list \<Rightarrow> runtime act" where
  "capture_runtime env us ks ls =
     then_do (refuse_if (\<not> distinct us \<or> \<not> distinct ks \<or> \<not> distinct ls)) (
     then_do (refuse_if (\<not> list_all (\<lambda>u. UNIT_RE u \<and> u \<in> set EXACT_ALLOWED_UNITS) us)) (
     then_do (refuse_if (\<not> list_all (\<lambda>k. SYSCTL_RE k \<and> k \<in> set EXACT_ALLOWED_SYSCTLS) ks)) (
     then_do (if us = [] then give () else command_path env SYSTEMCTL) (
     andthen (gather (capture_unit env) us) (\<lambda>us'.
     then_do (if ks = [] then give () else command_path env SYSCTL) (
     andthen (gather (capture_sysctl env) ks) (\<lambda>ks'.
     andthen (gather (capture_log_dir env) ls) (\<lambda>ls'.
       give \<lparr>units = us', sysctls = ks', log_dirs = ls'\<rparr>))))))))"

definition restore_enable_state :: "platform \<Rightarrow> string \<times> unit_state \<Rightarrow> unit act" where
  "restore_enable_state env us = (let u = fst us; s = was_enabled (snd us) in
     if s \<in> {''static'', ''indirect'', ''generated'', ''transient'', ''linked'', ''linked-runtime'', ''alias''} then give ()
     else then_do (run env False [SYSTEMCTL, ''disable'', u]) (then_do (run env False [SYSTEMCTL, ''unmask'', u]) (
       if s = ''enabled'' then checked_run env [SYSTEMCTL, ''enable'', u]
       else if s = ''enabled-runtime'' then checked_run env [SYSTEMCTL, ''enable'', ''--runtime'', u]
       else if s = ''masked'' then checked_run env [SYSTEMCTL, ''mask'', u]
       else if s = ''masked-runtime'' then checked_run env [SYSTEMCTL, ''mask'', ''--runtime'', u]
       else refuse_if (s \<noteq> ''disabled'' \<and> s \<noteq> ''not-found''))))"

definition restart_specific_units :: "platform \<Rightarrow> string list \<Rightarrow> unit act" where
  "restart_specific_units env us = (if us = [] then give ()
     else then_do (command_path env SYSTEMCTL) (each (\<lambda>u. checked_run env [SYSTEMCTL, ''--no-block'', ''start'', u]) us))"

fun stop_each :: "platform \<Rightarrow> bool \<Rightarrow> string list \<Rightarrow> string list \<Rightarrow> string list act" where
  "stop_each env restart_on_failure stopped [] = give stopped"
| "stop_each env restart_on_failure stopped (u # us) = then_do
     (on_error (andthen (run env False [SYSTEMCTL, ''stop'', u]) (\<lambda>r. refuse_if (fst r \<noteq> 0)))
       (if restart_on_failure then restart_specific_units env stopped else give ()))
     (stop_each env restart_on_failure (stopped @ [u]) us)"

definition stop_runtime_units :: "platform \<Rightarrow> bool \<Rightarrow> manifest \<Rightarrow> string list act" where
  "stop_runtime_units env restart_on_failure m = (let us = map fst (units (m_runtime m)) in
     if us = [] then give []
     else then_do (command_path env SYSTEMCTL) (
       andthen (gather (\<lambda>u. andthen (is_active env u) (\<lambda>a. give (u, a)))
           (filter (\<lambda>u. u \<noteq> SELF_UNIT \<and> u \<notin> set DEFERRED_RESTART_UNITS) us)) (\<lambda>rs.
         stop_each env restart_on_failure [] (map fst (filter snd rs)))))"

definition set_log :: "string \<Rightarrow> dir_meta \<Rightarrow> host \<Rightarrow> host" where
  "set_log p d h = h\<lparr>logs := (logs h)(p := d)\<rparr>"

definition restore_log_dir :: "platform \<Rightarrow> string \<times> (int \<times> int \<times> int) option \<Rightarrow> unit act" where
  "restore_log_dir env pd = (case pd of
      (p, Some (uid, gid, mode)) \<Rightarrow> then_do pause (andthen (ask (\<lambda>h. logs h p)) (\<lambda>d. case d of
          NoDir \<Rightarrow> fail_with OSError
        | DirMeta is_dir uid0 gid0 mode0 \<Rightarrow> several
            [refuse_if (\<not> is_dir),
             call (set_log p (DirMeta True uid gid mode0)),
             call (set_log p (DirMeta True uid gid (nat mode))),
             lift (check_directory env False False p (DirMeta True uid gid (nat mode))),
             system_call RecoveryError (\<lambda>h. h), pause,
             fsync_directory env True (dirname p)]))
    | (p, None) \<Rightarrow> andthen (ask (\<lambda>h. logs h p)) (\<lambda>d. if d = NoDir then give ()
        else relabel (then_do (call (set_log p NoDir)) (fsync_directory env True (dirname p)))))"

definition restore_runtime :: "platform \<Rightarrow> manifest \<Rightarrow> unit act" where
  "restore_runtime env m = (let r = m_runtime m in several
     [if units r = [] then give () else command_path env SYSTEMCTL,
      each (restore_log_dir env) (log_dirs r),
      if sysctls r = [] then give () else then_do (command_path env SYSCTL)
        (each (\<lambda>(k, v). checked_run env [SYSCTL, ''-q'', ''-w'', k @ ''='' @ v]) (sysctls r)),
      if units r = [] then give () else then_do (checked_run env [SYSTEMCTL, ''daemon-reload''])
        (each (restore_enable_state env) (units r))])"

text \<open>Only units that were active come back, never the recovery unit itself; after a reboot systemd starts them.\<close>

definition resume_runtime_units :: "platform \<Rightarrow> manifest \<Rightarrow> unit act" where
  "resume_runtime_units env m = (let us = units (m_runtime m) in
     if us = [] then give ()
     else several [command_path env SYSTEMCTL, pause, refuse_if (\<not> BOOT_ID_RE (boot_now env)),
       each (\<lambda>(u, s).
         if \<not> was_active s \<or> u = SELF_UNIT then give ()
         else if u \<in> set DEFERRED_RESTART_UNITS then checked_run env [SYSTEMCTL, ''--no-block'', ''restart'', u]
         else if boot_now env = boot_id m then checked_run env [SYSTEMCTL, ''--no-block'', ''start'', u]
         else give ()) us])"

section \<open>Ending a transaction\<close>

definition unlink_item :: "string \<Rightarrow> unit act" where
  "unlink_item n = (if n = MANIFEST_NAME
     then call (\<lambda>h. h\<lparr>journal := installed (quiet_slot Missing) (journal h)\<rparr>)
     else unlink_copy n)"

definition sync_root :: "host \<Rightarrow> host" where
  "sync_root h = (if shown (here h) then h\<lparr>here := quiet_slot True\<rparr>
     else h\<lparr>here := quiet_slot False, journal := quiet_slot Missing, copies := []\<rparr>)"

definition fsync_root :: "platform \<Rightarrow> unit act" where
  "fsync_root env = then_do (open_directory env False DEFAULT_RECOVERY_ROOT) (call sync_root)"

text \<open>\<^verbatim>\<open>shutil.rmtree\<close>: the entries in the order the directory lists them, then the directory.\<close>

definition rmtree :: "platform \<Rightarrow> unit act" where
  "rmtree env = andthen (ask (\<lambda>h. arrange env (present_items h))) (\<lambda>names. then_do (each unlink_item names)
     (andthen (ask present_items) (\<lambda>left. if left \<noteq> [] then fail_with OSError
        else call (\<lambda>h. h\<lparr>here := installed (quiet_slot False) (here h)\<rparr>))))"

definition cleanup_pending :: "platform \<Rightarrow> unit act" where
  "cleanup_pending env = andthen (ask (\<lambda>h. shown (here h))) (\<lambda>there.
     if \<not> there then give () else then_do (rmtree env) (fsync_root env))"

definition complete :: "platform \<Rightarrow> unit act" where
  "complete env = andthen (load_active env) (\<lambda>m.
     then_do (refuse_if (pending_commit m \<noteq> None)) (
     then_do (each (\<lambda>e. andthen (token_at env (e_path e)) (\<lambda>t.
         refuse_if (Some t \<noteq> (if e_path e \<in> set (committed m) then e_replacement e else Some (e_original e))))) (artifacts m)) (
     then_do (persist_state m Complete) (cleanup_pending env))))"

section \<open>Recovery\<close>

text \<open>The read-only preflight; it returns the changed entries in the order of their mutations.\<close>

definition changed_entry :: "platform \<Rightarrow> entry \<Rightarrow> (entry \<times> bool) act" where
  "changed_entry env e = then_do (snapshot_integrity env e) (andthen (token_at env (e_path e)) (\<lambda>t.
     if t = e_original e then give (e, False)
     else then_do (refuse_if (Some t \<noteq> e_replacement e)) (give (e, True))))"

definition preflight_recovery :: "platform \<Rightarrow> manifest \<Rightarrow> entry list act" where
  "preflight_recovery env m = andthen (gather (changed_entry env) (artifacts m)) (\<lambda>rs.
     let changed = map fst (filter snd rs) in
     then_do (refuse_if (\<not> set (map e_path changed) \<subseteq> set (journaled m)))
       (give (concat (map (\<lambda>p. filter (\<lambda>e. e_path e = p) changed) (journaled m)))))"

definition restored_node :: "artifact \<Rightarrow> string \<Rightarrow> node" where
  "restored_node k b = (case k of
      AbsentArtifact \<Rightarrow> Absent
    | LinkArtifact target uid gid \<Rightarrow> Node \<lparr>holds = LinkTo target, owner = uid, group = gid, permissions = 0, nlink = 1\<rparr>
    | FileArtifact _ _ _ mode uid gid \<Rightarrow> Node \<lparr>holds = Regular b, owner = uid, group = gid, permissions = mode, nlink = 1\<rparr>)"

text \<open>The temporary file before and after its bytes are synced.\<close>

definition written :: "node \<Rightarrow> node slot" where "written n = Slot n (insert n (torn n)) True"
definition synced :: "'a slot \<Rightarrow> 'a slot" where "synced s = quiet_slot (shown s)"

definition put_back :: "entry \<Rightarrow> unit act" where
  "put_back e = (case e_kind e of
      AbsentArtifact \<Rightarrow> then_do (unlink (e_path e)) (call (at_path (e_path e) settled))
    | LinkArtifact _ _ _ \<Rightarrow> several [pause, pause,
        call (at_path (e_path e) (installed (quiet_slot (restored_node (e_kind e) [])))), call (at_path (e_path e) settled)]
    | FileArtifact name _ _ _ _ _ \<Rightarrow> then_do pause (andthen (ask (\<lambda>h. shown (copy_of h name))) (\<lambda>c. case c of
          None \<Rightarrow> fail_with OSError
        | Some b \<Rightarrow> several [pause, pause, pause, pause, pause,
            call (at_path (e_path e) (installed (synced (written (restored_node (e_kind e) b))))),
            call (at_path (e_path e) settled)])))"

definition restore_entry :: "platform \<Rightarrow> entry \<Rightarrow> unit act" where
  "restore_entry env e = andthen (token_at env (e_path e)) (\<lambda>t.
     if t = e_original e then give ()
     else then_do (refuse_if (Some t \<noteq> e_replacement e)) (
       then_do (lift (safe_directory env False False (dirname (e_path e)))) (
       then_do (open_directory env False (dirname (e_path e))) (
       then_do (put_back e) (andthen (token_at env (e_path e)) (\<lambda>t'. refuse_if (t' \<noteq> e_original e)))))))"

definition verify_all_original :: "platform \<Rightarrow> manifest \<Rightarrow> unit act" where
  "verify_all_original env m = each (\<lambda>e. andthen (token_at env (e_path e)) (\<lambda>t. refuse_if (t \<noteq> e_original e))) (artifacts m)"

definition give_back :: "platform \<Rightarrow> string list \<Rightarrow> unit act" where
  "give_back env stopped = (if stopped = [] then give () else swallow (\<lambda>_. True) (restart_specific_units env stopped))"

definition mark_failed :: "manifest \<Rightarrow> unit act" where
  "mark_failed m = swallow (\<lambda>_. True) (persist_state m RecoveryFailed)"

definition finish_restored :: "platform \<Rightarrow> manifest \<Rightarrow> unit act" where
  "finish_restored env m = then_do (resume_runtime_units env m) (cleanup_pending env)"

text \<open>Nothing was mutated yet: quiesce, restore the runtime, never touch an artifact.\<close>

definition recover_preparing :: "platform \<Rightarrow> manifest \<Rightarrow> unit act" where
  "recover_preparing env m = then_do
     (on_error (then_do (stop_runtime_units env False m) (then_do (restore_runtime env m) (persist_state m Restored)))
       (then_do (swallow (\<lambda>_. True) (persist_state m Preparing)) (swallow (\<lambda>_. True) (resume_runtime_units env m))))
     (finish_restored env m)"

definition begin_restore :: "platform \<Rightarrow> manifest \<Rightarrow> entry list act" where
  "begin_restore env m = andthen (preflight_recovery env m) (\<lambda>changed.
     then_do (cleanup_candidate_from_pending env (pending_commit m))
       (then_do (persist_state m Restoring) (give changed)))"

definition restore_all :: "platform \<Rightarrow> manifest \<Rightarrow> entry list \<Rightarrow> unit act" where
  "restore_all env m changed = several
     [each (restore_entry env) (rev changed), restore_runtime env m, verify_all_original env m, persist_state m Restored]"

text \<open>
  The units are started again after a failure only while no artifact restoration has begun, that is before
  the loop or when the loop has nothing to do.
\<close>

definition roll_back :: "platform \<Rightarrow> manifest \<Rightarrow> unit act" where
  "roll_back env m = then_do (preflight_recovery env m) (
     andthen (on_error (stop_runtime_units env True m) (mark_failed m)) (\<lambda>stopped.
     andthen (on_error (begin_restore env m) (then_do (give_back env stopped) (mark_failed m))) (\<lambda>changed.
     then_do (on_error (restore_all env m changed)
         (then_do (if changed = [] then give_back env stopped else give ()) (mark_failed m)))
       (finish_restored env m))))"

definition recover_loaded :: "platform \<Rightarrow> manifest \<Rightarrow> unit act" where
  "recover_loaded env m =
     (if stage_of m = Complete then cleanup_pending env
      else if stage_of m = Restored then finish_restored env m
      else if stage_of m = Preparing then recover_preparing env m
      else roll_back env m)"

definition recover_pending :: "platform \<Rightarrow> unit act" where
  "recover_pending env = andthen (ask (\<lambda>h. shown (journal h))) (\<lambda>f.
     if f = Missing then cleanup_pending env else andthen (load_manifest env) (recover_loaded env))"

definition recover :: "platform \<Rightarrow> unit act" where
  "recover env = andthen (ask root_there) (\<lambda>there.
     if \<not> there then give ()
     else then_do (lift (safe_directory env True False DEFAULT_RECOVERY_ROOT)) (
       andthen (ask (\<lambda>h. shown (here h))) (\<lambda>pending_there.
         if \<not> pending_there then give () else recover_pending env)))"

section \<open>Starting a transaction\<close>

definition ensure_recovery_root :: "platform \<Rightarrow> unit act" where
  "ensure_recovery_root env = (let parent = dirname DEFAULT_RECOVERY_ROOT in
     then_do (if dirs env parent = NoDir
         then several [lift (safe_directory env False False (dirname parent)), pause, pause,
           fsync_directory env False (dirname parent)]
         else lift (safe_directory env False False parent))
       (andthen (ask root_there) (\<lambda>there. if there then lift (safe_directory env True False DEFAULT_RECOVERY_ROOT)
         else several [call (\<lambda>h. h\<lparr>root_there := True\<rparr>), pause, pause])))"

definition new_manifest :: "platform \<Rightarrow> string \<Rightarrow> int \<Rightarrow> runtime \<Rightarrow> manifest" where
  "new_manifest env tx ns r = \<lparr>txid = tx, stage_of = Preparing, boot_id = boot_now env, created_ns = JInt ns,
     m_runtime = r, allowlist = [], artifacts = [], committed = [], pending_commit = None\<rparr>"

definition prepare :: "platform \<Rightarrow> string \<Rightarrow> int \<Rightarrow> string list \<Rightarrow> string list \<Rightarrow> string list \<Rightarrow> unit act" where
  "prepare env tx ns us ks ls = several
     [ensure_recovery_root env,
      andthen (ask (\<lambda>h. shown (here h))) refuse_if,
      call (\<lambda>h. h\<lparr>here := installed (quiet_slot True) (here h)\<rparr>),
      pause,
      then_do (open_directory env False DEFAULT_RECOVERY_ROOT)
        (call (\<lambda>h. h\<lparr>here := quiet_slot True, journal := quiet_slot Missing, copies := []\<rparr>)),
      on_error (andthen (capture_runtime env us ks ls) (\<lambda>r.
          then_do pause (then_do (refuse_if (\<not> BOOT_ID_RE (boot_now env))) (atomic_write_manifest (new_manifest env tx ns r)))))
        (swallow (\<lambda>e. e = OSError) (then_do (rmtree env) (fsync_root env)))]"

section \<open>Commands\<close>

datatype command =
    Prepare string int "string list" "string list" "string list"
  | Snapshot "string list" "(string \<times> bool \<times> string) list"
  | Before string "string option"
  | After string
  | Replace string string
  | Remove string
  | CompleteIt
  | Recover

definition perform :: "platform \<Rightarrow> command \<Rightarrow> unit act" where
  "perform env c = (case c of
      Prepare tx ns us ks ls \<Rightarrow> prepare env tx ns us ks ls
    | Snapshot direct listed \<Rightarrow> snapshot env direct listed
    | Before p candidate \<Rightarrow> before env p candidate
    | After p \<Rightarrow> after env p
    | Replace p candidate \<Rightarrow> replace env p candidate
    | Remove p \<Rightarrow> remove env p
    | CompleteIt \<Rightarrow> complete env
    | Recover \<Rightarrow> recover env)"

end
