(* ===== verification/DeployLogic.thy ===== *)
theory DeployLogic
  imports DeployRecovery
begin

text \<open>
  A logic for the commands of the deployment journal: a triple says what holds after an action that returns
  and what holds when it raises or is killed, whatever the plan of failures. One rule per construct and per
  basic action; actions that touch neither the journal nor an artifact keep every predicate on files.
\<close>

section \<open>Triples\<close>

definition meets :: "('a \<Rightarrow> host \<Rightarrow> bool) \<Rightarrow> (host \<Rightarrow> bool) \<Rightarrow> 'a outcome \<Rightarrow> host \<Rightarrow> bool" where
  "meets Q X r h = (case r of Done x \<Rightarrow> Q x h | _ \<Rightarrow> X h)"

lemma meets_simps [simp]:
  "meets Q X (Done x) h = Q x h" "meets Q X (Raised e) h = X h" "meets Q X Killed h = X h"
  by (simp_all add: meets_def)

definition triple :: "(host \<Rightarrow> bool) \<Rightarrow> 'a act \<Rightarrow> ('a \<Rightarrow> host \<Rightarrow> bool) \<Rightarrow> (host \<Rightarrow> bool) \<Rightarrow> bool" where
  "triple P m Q X \<longleftrightarrow> (\<forall>ps h r qs h'. P h \<longrightarrow> m ps h = (r, qs, h') \<longrightarrow> meets Q X r h')"

lemma tripleI: "(\<And>ps h r qs h'. P h \<Longrightarrow> m ps h = (r, qs, h') \<Longrightarrow> meets Q X r h') \<Longrightarrow> triple P m Q X"
  unfolding triple_def by blast

lemma tripleD: "triple P m Q X \<Longrightarrow> P h \<Longrightarrow> m ps h = (r, qs, h') \<Longrightarrow> meets Q X r h'"
  unfolding triple_def by blast

lemma meets_mono: "meets Q' X' r h \<Longrightarrow> (\<And>x. Q' x h \<Longrightarrow> Q x h) \<Longrightarrow> (X' h \<Longrightarrow> X h) \<Longrightarrow> meets Q X r h"
  by (cases r) auto

lemma triple_conseq:
  assumes "triple P' m Q' X'" and "\<And>h. P h \<Longrightarrow> P' h" and "\<And>x h. Q' x h \<Longrightarrow> Q x h" and "\<And>h. X' h \<Longrightarrow> X h"
  shows "triple P m Q X"
  by (rule tripleI, rule meets_mono [OF tripleD [OF assms(1)]]) (auto intro: assms(2-4))

lemma triple_pre: "triple P' m Q X \<Longrightarrow> (\<And>h. P h \<Longrightarrow> P' h) \<Longrightarrow> triple P m Q X"
  by (erule triple_conseq)

lemma triple_post: "triple P m Q' X \<Longrightarrow> (\<And>x h. Q' x h \<Longrightarrow> Q x h) \<Longrightarrow> triple P m Q X"
  by (erule triple_conseq)

lemma triple_fact:
  assumes "\<And>h. P h \<Longrightarrow> c" and "c \<Longrightarrow> triple P m Q X"
  shows "triple P m Q X"
  by (rule tripleI) (use assms in \<open>blast intro: tripleD\<close>)

lemma triple_give: "(\<And>h. P h \<Longrightarrow> Q x h) \<Longrightarrow> triple P (give x) Q X"
  by (auto simp: triple_def give_def)

lemma triple_fail: "(\<And>h. P h \<Longrightarrow> X h) \<Longrightarrow> triple P (fail_with e) Q X"
  by (auto simp: triple_def fail_with_def)

lemma triple_ask: "triple P (ask g) (\<lambda>x h. P h \<and> x = g h) X"
  by (auto simp: triple_def ask_def)

lemma triple_lift_to:
  "(\<And>h. P h \<Longrightarrow> X h) \<Longrightarrow> (\<And>x h. P h \<Longrightarrow> r = Inr x \<Longrightarrow> Q x h) \<Longrightarrow> triple P (lift r) Q X"
  by (cases r) (auto simp: lift_def intro!: triple_give triple_fail)

lemma triple_lift: "(\<And>h. P h \<Longrightarrow> X h) \<Longrightarrow> triple P (lift r) (\<lambda>x h. P h \<and> r = Inr x) X"
  by (rule triple_lift_to) auto

lemma triple_refuse_to:
  "(\<And>h. P h \<Longrightarrow> X h) \<Longrightarrow> (\<And>h. P h \<Longrightarrow> \<not> c \<Longrightarrow> Q () h) \<Longrightarrow> triple P (refuse_if c) Q X"
  by (auto simp: refuse_if_def intro!: triple_give triple_fail)

lemma triple_refuse: "(\<And>h. P h \<Longrightarrow> X h) \<Longrightarrow> triple P (refuse_if c) (\<lambda>_ h. P h \<and> \<not> c) X"
  by (rule triple_refuse_to) auto

lemma triple_andthen:
  assumes "triple P m R X" and "\<And>x. triple (R x) (f x) Q X"
  shows "triple P (andthen m f) Q X"
proof (rule tripleI)
  fix ps h r qs h' assume h: "P h" and e: "andthen m f ps h = (r, qs, h')"
  obtain r1 qs1 h1 where m: "m ps h = (r1, qs1, h1)" by (cases "m ps h") auto
  from tripleD [OF assms(1) h m] e m show "meets Q X r h'"
    by (cases r1) (auto simp: andthen_def dest: tripleD [OF assms(2)])
qed

lemma triple_then:
  assumes "triple P m (\<lambda>_. R) X" and "triple R n Q X"
  shows "triple P (then_do m n) Q X"
  unfolding then_do_def using assms by (rule triple_andthen)

lemma triple_on_error:
  assumes "triple P m Q X'" and "triple X' c (\<lambda>_. X) X" and "\<And>h. X' h \<Longrightarrow> X h"
  shows "triple P (on_error m c) Q X"
proof (rule tripleI)
  fix ps h r qs h' assume h: "P h" and e: "on_error m c ps h = (r, qs, h')"
  obtain r1 qs1 h1 where m: "m ps h = (r1, qs1, h1)" by (cases "m ps h") auto
  obtain r2 qs2 h2 where c: "c qs1 h1 = (r2, qs2, h2)" by (cases "c qs1 h1") auto
  from tripleD [OF assms(1) h m] e m c tripleD [OF assms(2) _ c] show "meets Q X r h'"
    by (cases r1; cases r2) (auto simp: on_error_def intro: assms(3))
qed

lemma triple_swallow:
  assumes "triple P m (\<lambda>_. X) X"
  shows "triple P (swallow F m) (\<lambda>_. X) X"
proof (rule tripleI)
  fix ps h r qs h' assume h: "P h" and e: "swallow F m ps h = (r, qs, h')"
  obtain r1 qs1 h1 where m: "m ps h = (r1, qs1, h1)" by (cases "m ps h") auto
  from tripleD [OF assms h m] e m show "meets (\<lambda>_. X) X r h'"
    by (cases r1) (auto simp: swallow_def split: if_splits)
qed

lemma triple_relabel:
  assumes "triple P m Q X"
  shows "triple P (relabel m) Q X"
proof (rule tripleI)
  fix ps h r qs h' assume h: "P h" and e: "relabel m ps h = (r, qs, h')"
  obtain r1 qs1 h1 where m: "m ps h = (r1, qs1, h1)" by (cases "m ps h") auto
  from tripleD [OF assms h m] e m show "meets Q X r h'" by (cases r1) (auto simp: relabel_def)
qed

lemma triple_each:
  assumes "\<And>x. x \<in> set xs \<Longrightarrow> triple I (f x) (\<lambda>_. I) X"
  shows "triple I (each f xs) (\<lambda>_. I) X"
  using assms by (induction xs) (auto intro!: triple_give triple_then)

text \<open>A loop that only checks collects what it has checked.\<close>

lemma triple_each_check:
  assumes "\<And>x P. (\<And>h. P h \<Longrightarrow> X h) \<Longrightarrow> triple P (f x) (\<lambda>_ h. P h \<and> C x h) X" and "\<And>h. P h \<Longrightarrow> X h"
  shows "triple P (each f xs) (\<lambda>_ h. P h \<and> (\<forall>x \<in> set xs. C x h)) X"
  using assms(2)
proof (induction xs arbitrary: P)
  case Nil
  then show ?case by (auto intro: triple_give)
next
  case (Cons x xs)
  have "triple P (f x) (\<lambda>_ h. P h \<and> C x h) X" by (rule assms(1)) (rule Cons.prems)
  moreover have "triple (\<lambda>h. P h \<and> C x h) (each f xs) (\<lambda>_ h. (P h \<and> C x h) \<and> (\<forall>y \<in> set xs. C y h)) X"
    by (rule Cons.IH) (use Cons.prems in blast)
  ultimately have "triple P (each f (x # xs)) (\<lambda>_ h. (P h \<and> C x h) \<and> (\<forall>y \<in> set xs. C y h)) X"
    unfolding each.simps by (rule triple_then)
  then show ?case by (rule triple_post) auto
qed

lemma triple_gather:
  assumes "\<And>x P. (\<And>h. P h \<Longrightarrow> X h) \<Longrightarrow> triple P (f x) (\<lambda>y h. P h \<and> C x y h) X" and "\<And>h. P h \<Longrightarrow> X h"
  shows "triple P (gather f xs) (\<lambda>ys h. P h \<and> list_all2 (\<lambda>x y. C x y h) xs ys) X"
  using assms(2)
proof (induction xs arbitrary: P)
  case Nil
  then show ?case by (auto intro: triple_give)
next
  case (Cons x xs)
  show ?case unfolding gather.simps
  proof (rule triple_andthen)
    show "triple P (f x) (\<lambda>y h. P h \<and> C x y h) X" by (rule assms(1)) (rule Cons.prems)
    fix y
    have ih: "triple (\<lambda>h. P h \<and> C x y h) (gather f xs)
        (\<lambda>ys h. (P h \<and> C x y h) \<and> list_all2 (\<lambda>x y. C x y h) xs ys) X"
      by (rule Cons.IH) (use Cons.prems in blast)
    show "triple (\<lambda>h. P h \<and> C x y h) (andthen (gather f xs) (\<lambda>ys. give (y # ys)))
      (\<lambda>ys h. P h \<and> list_all2 (\<lambda>x y. C x y h) (x # xs) ys) X"
      by (rule triple_andthen [OF ih triple_give]) auto
  qed
qed

lemma triple_system_call:
  assumes "\<And>h. P h \<Longrightarrow> Q () (f h)" and "\<And>h. P h \<Longrightarrow> X h"
  shows "triple P (system_call e f) Q X"
  using assms by (auto simp: triple_def system_call_def split: list.splits fault.splits)

lemma triple_call: "(\<And>h. P h \<Longrightarrow> Q () (f h)) \<Longrightarrow> (\<And>h. P h \<Longrightarrow> X h) \<Longrightarrow> triple P (call f) Q X"
  unfolding call_def by (rule triple_system_call)

lemma triple_nothing: "(\<And>h. P h \<Longrightarrow> X h) \<Longrightarrow> triple P (system_call e (\<lambda>h. h)) (\<lambda>_. P) X"
  by (rule triple_system_call)

lemma triple_pause: "(\<And>h. P h \<Longrightarrow> X h) \<Longrightarrow> triple P pause (\<lambda>_. P) X"
  unfolding pause_def by (rule triple_call)

lemma triple_several_Cons:
  "triple P m (\<lambda>_. R) X \<Longrightarrow> triple R (several ms) Q X \<Longrightarrow> triple P (several (m # ms)) Q X"
  by (simp add: triple_then)

lemma triple_several_Nil: "(\<And>h. P h \<Longrightarrow> Q () h) \<Longrightarrow> triple P (several []) Q X"
  by (simp add: triple_give)

section \<open>Reading\<close>

definition token_of :: "platform \<Rightarrow> node \<Rightarrow> string option" where
  "token_of env n = (case generation_of env n of Inl _ \<Rightarrow> None | Inr v \<Rightarrow> Some (generation_token env v))"

lemma triple_look:
  assumes "\<And>h. P h \<Longrightarrow> X h"
  shows "triple P (look p) (\<lambda>n h. P h \<and> n = shown (tree h p)) X"
  unfolding look_def by (rule triple_then [OF triple_pause triple_ask]) (rule assms)

lemma triple_generation:
  assumes "\<And>h. P h \<Longrightarrow> X h"
  shows "triple P (generation env p) (\<lambda>v h. P h \<and> generation_of env (shown (tree h p)) = Inr v) X"
  unfolding generation_def
  by (rule triple_andthen, rule triple_look [where P = P], erule assms, rule triple_lift_to) (auto intro: assms)

lemma triple_token:
  assumes "\<And>h. P h \<Longrightarrow> X h"
  shows "triple P (token_at env p) (\<lambda>t h. P h \<and> token_of env (shown (tree h p)) = Some t) X"
  unfolding token_at_def
  by (rule triple_andthen, rule triple_generation [where P = P], erule assms, rule triple_give)
    (auto simp: token_of_def)

lemma triple_open:
  assumes "\<And>h. P h \<Longrightarrow> X h"
  shows "triple P (open_directory env b p) (\<lambda>_. P) X"
  unfolding open_directory_def
  by (rule triple_then [where R = P], rule triple_lift_to) (auto intro: assms triple_nothing)

lemma triple_fsync_directory:
  assumes "\<And>h. P h \<Longrightarrow> X h"
  shows "triple P (fsync_directory env b p) (\<lambda>_. P) X"
  unfolding fsync_directory_def by (rule triple_then [OF triple_open triple_pause]) (rule assms, assumption)+

lemma triple_load:
  assumes "\<And>h. P h \<Longrightarrow> X h"
  shows "triple P (load_manifest env) (\<lambda>m h. P h \<and> read_journal env (shown (journal h)) = Inr m) X"
  unfolding load_manifest_def
  by (rule triple_then [where R = P], rule triple_pause, erule assms, rule triple_andthen, rule triple_ask, rule triple_lift_to)
    (auto intro: assms)

lemma triple_load_active:
  assumes "\<And>h. P h \<Longrightarrow> X h"
  shows "triple P (load_active env)
     (\<lambda>m h. P h \<and> read_journal env (shown (journal h)) = Inr m \<and> stage_of m = Active) X"
  unfolding load_active_def
proof (rule triple_andthen, rule triple_load [where P = P], erule assms)
  fix m
  show "triple (\<lambda>h. P h \<and> read_journal env (shown (journal h)) = Inr m)
    (then_do (refuse_if (stage_of m \<noteq> Active)) (give m))
    (\<lambda>m h. P h \<and> read_journal env (shown (journal h)) = Inr m \<and> stage_of m = Active) X"
    by (rule triple_then, rule triple_refuse, erule conjE, erule assms, rule triple_give) simp
qed

definition intact :: "platform \<Rightarrow> host \<Rightarrow> entry \<Rightarrow> bool" where
  "intact env h e = (case e_kind e of
      FileArtifact name digest len mode uid gid \<Rightarrow> (case shown (copy_of h name) of
          None \<Rightarrow> False
        | Some b \<Rightarrow> int (length b) = len \<and> length b \<le> MAX_FILE_BYTES \<and> sha256 env b = digest)
    | _ \<Rightarrow> True)"

lemma triple_integrity:
  assumes "\<And>h. P h \<Longrightarrow> X h"
  shows "triple P (snapshot_integrity env e) (\<lambda>_ h. P h \<and> intact env h e) X"
proof (cases "e_kind e")
  case (FileArtifact name digest len mode uid gid)
  show ?thesis unfolding snapshot_integrity_def FileArtifact artifact.case
  proof (rule triple_then, rule triple_pause, erule assms, rule triple_andthen, rule triple_ask)
    fix c
    show "triple (\<lambda>h. P h \<and> c = shown (copy_of h name))
       (case c of None \<Rightarrow> fail_with OSError
        | Some b \<Rightarrow> refuse_if (int (length b) \<noteq> len \<or> MAX_FILE_BYTES < length b \<or> sha256 env b \<noteq> digest))
       (\<lambda>_ h. P h \<and> intact env h e) X"
      using assms by (cases c) (auto intro!: triple_fail triple_refuse_to simp: intact_def FileArtifact split: option.splits
          dest!: sym [of "Some _" "shown _"])
  qed
qed (auto simp: snapshot_integrity_def intact_def intro!: triple_give)

lemma triple_write:
  assumes "\<And>h. P h \<Longrightarrow> X h"
    and "\<And>h. P h \<Longrightarrow> X (h\<lparr>journal := installed (quiet_slot (journal_file m)) (journal h)\<rparr>)"
    and "\<And>h. P h \<Longrightarrow> Q () (h\<lparr>journal := quiet_slot (journal_file m)\<rparr>)"
  shows "triple P (atomic_write_manifest m) Q X"
proof -
  let ?new = "\<lambda>h. h\<lparr>journal := installed (quiet_slot (journal_file m)) (journal h)\<rparr>"
  have last: "triple (\<lambda>h. \<exists>g. P g \<and> h = ?new g) (several [call (\<lambda>h. h\<lparr>journal := settled (journal h)\<rparr>)]) Q X"
    by (rule triple_several_Cons [OF triple_call triple_several_Nil])
      (use assms(2,3) in \<open>auto simp: settled_def installed_def quiet_slot_def\<close>)
  show ?thesis unfolding atomic_write_manifest_def Let_def
    apply (rule triple_several_Cons [where R = P], rule triple_refuse_to, erule assms(1), assumption)
    apply (rule triple_several_Cons [where R = P], rule triple_pause, erule assms(1))+
    apply (rule triple_several_Cons [OF _ last], rule triple_call)
    by (auto intro: assms(1))
qed

section \<open>The runtime touches no artifact\<close>

definition files_only :: "(host \<Rightarrow> bool) \<Rightarrow> bool" where
  "files_only R \<longleftrightarrow> (\<forall>h r l. R (h\<lparr>ran := r, logs := l\<rparr>) = R h)"

lemma files_only_ran: "files_only R \<Longrightarrow> R h \<Longrightarrow> R (h\<lparr>ran := r\<rparr>)"
proof -
  assume "files_only R" "R h"
  moreover have "h\<lparr>ran := r\<rparr> = h\<lparr>ran := r, logs := logs h\<rparr>" by (cases h) simp
  ultimately show "R (h\<lparr>ran := r\<rparr>)" unfolding files_only_def by metis
qed

lemma files_only_log: "files_only R \<Longrightarrow> R h \<Longrightarrow> R (set_log p dm h)"
proof -
  assume "files_only R" "R h"
  moreover have "set_log p dm h = h\<lparr>ran := ran h, logs := (logs h)(p := dm)\<rparr>" by (cases h) (simp add: set_log_def)
  ultimately show "R (set_log p dm h)" unfolding files_only_def by metis
qed

text \<open>\<open>aside m\<close>: whatever happens, \<open>m\<close> keeps every predicate on files.\<close>

definition aside :: "'a act \<Rightarrow> bool" where
  "aside m \<longleftrightarrow> (\<forall>R. files_only R \<longrightarrow> triple R m (\<lambda>_. R) R)"

named_theorems asides \<open>actions that touch no file of the journal and no artifact\<close>

lemma asideI: "(\<And>R. files_only R \<Longrightarrow> triple R m (\<lambda>_. R) R) \<Longrightarrow> aside m"
  by (simp add: aside_def)

lemma aside_triple: "aside m \<Longrightarrow> files_only R \<Longrightarrow> (\<And>h. R h \<Longrightarrow> X h) \<Longrightarrow> triple R m (\<lambda>_. R) X"
  unfolding aside_def by (blast intro: triple_conseq)

lemma aside_give [asides]: "aside (give x)" by (rule asideI, rule triple_give)
lemma aside_fail [asides]: "aside (fail_with e)" by (rule asideI, rule triple_fail)
lemma aside_ask [asides]: "aside (ask g)" by (rule asideI, rule triple_post, rule triple_ask) simp
lemma aside_lift [asides]: "aside (lift r)" by (rule asideI, rule triple_lift_to)
lemma aside_refuse [asides]: "aside (refuse_if c)" by (rule asideI, rule triple_refuse_to)
lemma aside_pause [asides]: "aside pause" by (rule asideI, rule triple_pause)
lemma aside_nothing [asides]: "aside (system_call e (\<lambda>h. h))" by (rule asideI, rule triple_nothing)
lemma aside_log [asides]: "aside (call (set_log p dm))"
  by (rule asideI, rule triple_call) (auto intro: files_only_log)
lemma aside_andthen [asides]: "aside m \<Longrightarrow> (\<And>x. aside (f x)) \<Longrightarrow> aside (andthen m f)"
  unfolding aside_def by (blast intro: triple_andthen)
lemma aside_then [asides]: "aside m \<Longrightarrow> aside n \<Longrightarrow> aside (then_do m n)"
  unfolding aside_def by (blast intro: triple_then)
lemma aside_on_error [asides]: "aside m \<Longrightarrow> aside c \<Longrightarrow> aside (on_error m c)"
  unfolding aside_def by (blast intro: triple_on_error)
lemma aside_swallow [asides]: "aside m \<Longrightarrow> aside (swallow F m)"
  unfolding aside_def by (blast intro: triple_swallow)
lemma aside_relabel [asides]: "aside m \<Longrightarrow> aside (relabel m)"
  unfolding aside_def by (blast intro: triple_relabel)
lemma aside_each [asides]: "(\<And>x. aside (f x)) \<Longrightarrow> aside (each f xs)"
  unfolding aside_def by (blast intro: triple_each)
lemma aside_gather [asides]: "(\<And>x. aside (f x)) \<Longrightarrow> aside (gather f xs)"
  by (induction xs) (auto intro: asides)
lemma aside_several [asides]: "(\<And>m. m \<in> set ms \<Longrightarrow> aside m) \<Longrightarrow> aside (several ms)"
  by (induction ms) (auto intro: asides)
lemma aside_if [asides]: "(c \<Longrightarrow> aside m) \<Longrightarrow> (\<not> c \<Longrightarrow> aside n) \<Longrightarrow> aside (if c then m else n)"
  by simp

lemma aside_run [asides]: "aside (run env check argv)"
proof -
  have "aside (system_call RecoveryError (\<lambda>h. h\<lparr>ran := ran h @ [argv]\<rparr>))"
    by (rule asideI, rule triple_system_call) (auto intro: files_only_ran)
  then show ?thesis unfolding run_def by (intro asides)
qed

lemma aside_checked_run [asides]: "aside (checked_run env argv)"
  unfolding checked_run_def by (intro asides)

lemma aside_command_path [asides]: "aside (command_path env path)"
  unfolding command_path_def by (intro asides)

lemma aside_is_active [asides]: "aside (is_active env u)"
  unfolding is_active_def by (intro asides)

lemma aside_restart [asides]: "aside (restart_specific_units env us)"
  unfolding restart_specific_units_def by (intro asides)

lemma aside_stop_each [asides]: "aside (stop_each env b stopped us)"
  by (induction us arbitrary: stopped) (auto intro!: asides)

lemma aside_stop [asides]: "aside (stop_runtime_units env b m)"
  unfolding stop_runtime_units_def Let_def by (intro asides)

lemma aside_open [asides]: "aside (open_directory env b p)"
  unfolding open_directory_def by (intro asides)

lemma aside_fsync_directory [asides]: "aside (fsync_directory env b p)"
  unfolding fsync_directory_def by (intro asides)

lemma aside_restore_log_dir [asides]: "aside (restore_log_dir env pd)"
  unfolding restore_log_dir_def
  by (auto split: prod.splits option.splits dir_meta.splits intro!: asides)

lemma aside_restore_enable [asides]: "aside (restore_enable_state env us)"
  unfolding restore_enable_state_def Let_def by (intro asides)

lemma aside_restore_runtime [asides]: "aside (restore_runtime env m)"
  unfolding restore_runtime_def Let_def by (auto intro!: asides split: prod.splits)

lemma aside_resume [asides]: "aside (resume_runtime_units env m)"
  unfolding resume_runtime_units_def Let_def by (auto intro!: asides split: prod.splits)

lemma aside_give_back [asides]: "aside (give_back env us)"
  unfolding give_back_def by (intro asides)


end
