(* ===== verification/DeployInvariant.thy ===== *)
theory DeployInvariant
  imports DeployLogic
begin

text \<open>
  What the deployment journal guarantees. The parameter \<open>d\<close> chooses what a directory entry may hold: with
  \<open>False\<close> only what is shown (process failures), with \<open>True\<close> also everything a power loss may bring back.
\<close>

section \<open>What the journal promises\<close>

definition may :: "bool \<Rightarrow> 'a slot \<Rightarrow> 'a set" where
  "may d s = (if d then insert (shown s) (alive s) else {shown s})"

lemma shown_may [simp]: "shown s \<in> may d s"
  by (simp add: may_def)

lemma may_quiet [simp]: "may d (quiet_slot x) = {x}"
  by (simp add: may_def quiet_slot_def)

lemma shown_quiet [simp]: "shown (quiet_slot x) = x"
  by (simp add: quiet_slot_def)

lemma may_installed: "may d (installed new old) \<subseteq> may d new \<union> may d old"
  by (auto simp: may_def installed_def)

lemma shown_installed [simp]: "shown (installed new old) = shown new"
  by (simp add: installed_def)

lemma may_settled: "may d (settled s) \<subseteq> may d s"
  by (auto simp: may_def settled_def quiet_slot_def)

lemma may_bytes_synced [simp]: "may d (bytes_synced s) = may d s"
  by (simp add: may_def bytes_synced_def)

text \<open>Only the bytes of a regular file can be unsynced.\<close>

definition tidy :: "node slot \<Rightarrow> bool" where
  "tidy s \<longleftrightarrow> (unsynced s \<longrightarrow> is_regular (shown s))"

text \<open>The token a path must have for an entry to be at its original, and at either of its generations.\<close>

definition tokens_in :: "bool \<Rightarrow> platform \<Rightarrow> (string \<Rightarrow> node slot) \<Rightarrow> string \<Rightarrow> string option set \<Rightarrow> bool" where
  "tokens_in d env t p T \<longleftrightarrow> token_of env ` may d (t p) \<subseteq> T \<and> None \<notin> token_of env ` may d (t p)"

definition all_original :: "bool \<Rightarrow> platform \<Rightarrow> manifest \<Rightarrow> (string \<Rightarrow> node slot) \<Rightarrow> bool" where
  "all_original d env m t \<longleftrightarrow> (\<forall>e \<in> set (artifacts m). tokens_in d env t (e_path e) {Some (e_original e)})"

definition expected :: "manifest \<Rightarrow> entry \<Rightarrow> string option" where
  "expected m e = (if e_path e \<in> set (committed m) then e_replacement e else Some (e_original e))"

definition deployed :: "bool \<Rightarrow> platform \<Rightarrow> manifest \<Rightarrow> (string \<Rightarrow> node slot) \<Rightarrow> bool" where
  "deployed d env m t \<longleftrightarrow> (\<forall>e \<in> set (artifacts m). tokens_in d env t (e_path e) {expected m e})"

text \<open>The copy from which an entry can be restored, durable and with the token of the original.\<close>

definition copy_ok :: "bool \<Rightarrow> platform \<Rightarrow> string option slot dict \<Rightarrow> entry \<Rightarrow> bool" where
  "copy_ok d env cs e = (case e_kind e of
      AbsentArtifact \<Rightarrow> token_of env Absent = Some (e_original e)
    | LinkArtifact _ _ _ \<Rightarrow> token_of env (restored_node (e_kind e) []) = Some (e_original e)
    | FileArtifact name _ _ _ _ _ \<Rightarrow>
        (\<exists>b. may d (copy_in cs name) = {Some b} \<and> token_of env (restored_node (e_kind e) b) = Some (e_original e)))"

definition candidate_ok :: "bool \<Rightarrow> platform \<Rightarrow> manifest \<Rightarrow> (string \<Rightarrow> node slot) \<Rightarrow> bool" where
  "candidate_ok d env m t = (case pending_commit m of
      None \<Rightarrow> True
    | Some q \<Rightarrow> (case p_candidate q of
        None \<Rightarrow> True
      | Some c \<Rightarrow> c \<notin> set (allowlist m) \<and> tokens_in d env t c {Some (ABSENT_GENERATION env), Some (p_replacement q)}))"

definition recoverable :: "bool \<Rightarrow> platform \<Rightarrow> manifest \<Rightarrow> (string \<Rightarrow> node slot) \<Rightarrow> string option slot dict \<Rightarrow> bool" where
  "recoverable d env m t cs \<longleftrightarrow>
     (\<forall>e \<in> set (artifacts m). copy_ok d env cs e \<and> tokens_in d env t (e_path e) {Some (e_original e), e_replacement e})
     \<and> candidate_ok d env m t"

text \<open>Two manifests of one transaction, at different points of it.\<close>

definition base :: "manifest \<Rightarrow> string \<times> string \<times> runtime \<times> string list \<times> (string \<times> artifact \<times> string) list" where
  "base m = (txid m, boot_id m, m_runtime m, allowlist m, map (\<lambda>e. (e_path e, e_kind e, e_original e)) (artifacts m))"

definition sound :: "platform \<Rightarrow> manifest \<Rightarrow> manifest \<Rightarrow> bool" where
  "sound env M m \<longleftrightarrow> wf_manifest m \<and> check_manifest env m \<and> base m = base M"

definition over :: "bool \<Rightarrow> platform \<Rightarrow> manifest \<Rightarrow> (string \<Rightarrow> node slot) \<Rightarrow> bool" where
  "over d env M t \<longleftrightarrow> all_original d env M t \<or> (\<exists>m. sound env M m \<and> stage_of m = Complete \<and> deployed d env m t)"

definition ending :: "bool \<Rightarrow> platform \<Rightarrow> manifest \<Rightarrow> (string \<Rightarrow> node slot) \<Rightarrow> jfile \<Rightarrow> bool" where
  "ending d env M t f \<longleftrightarrow> f = Missing \<and> over d env M t
     \<or> (\<exists>m. f = journal_file m \<and> sound env M m
         \<and> (stage_of m = Restored \<and> all_original d env M t \<or> stage_of m = Complete \<and> deployed d env m t))"

definition rolling :: "stage \<Rightarrow> bool" where
  "rolling s \<longleftrightarrow> s \<in> {Active, Restoring, RecoveryFailed}"

definition stays ::
  "bool \<Rightarrow> platform \<Rightarrow> manifest \<Rightarrow> (string \<Rightarrow> node slot) \<Rightarrow> string option slot dict \<Rightarrow> jfile \<Rightarrow> bool" where
  "stays d env M t cs f \<longleftrightarrow> ending d env M t f
     \<or> (\<exists>m. f = journal_file m \<and> sound env M m \<and> rolling (stage_of m) \<and> recoverable d env m t cs)"

text \<open>
  The invariant: whatever manifest may be found, it is valid and belongs to the transaction, and the
  artifacts and copies are such that it can be acted upon; where none may be found, the transaction is over.
\<close>

definition consistent :: "bool \<Rightarrow> platform \<Rightarrow> manifest \<Rightarrow> host \<Rightarrow> bool" where
  "consistent d env M h \<longleftrightarrow> root_there h \<and> sound env M M \<and> (\<forall>p. tidy (tree h p))
     \<and> (\<forall>f \<in> may d (journal h). stays d env M (tree h) (copies h) f)
     \<and> (False \<in> may d (here h) \<longrightarrow> (\<forall>f \<in> may d (journal h). ending d env M (tree h) f))"

text \<open>Nothing the journal names is unsettled: what a command starts from.\<close>

definition at_rest :: "bool \<Rightarrow> manifest \<Rightarrow> host \<Rightarrow> bool" where
  "at_rest d M h \<longleftrightarrow> may d (journal h) = {shown (journal h)} \<and> may d (here h) = {shown (here h)}
     \<and> (\<forall>p \<in> set (allowlist M). may d (tree h p) = {shown (tree h p)})"

lemma files_only_consistent: "files_only (consistent d env M)"
  by (simp add: files_only_def consistent_def)

lemma tokens_in_mono: "tokens_in d env t p T \<Longrightarrow> may d (t' p) \<subseteq> may d (t p) \<Longrightarrow> T \<subseteq> T' \<Longrightarrow> tokens_in d env t' p T'"
  unfolding tokens_in_def by blast

lemma tokens_in_same: "t' p = t p \<Longrightarrow> tokens_in d env t' p T = tokens_in d env t p T"
  by (simp add: tokens_in_def)

text \<open>Fewer possibilities keep every promise.\<close>

lemma all_original_mono:
  "all_original d env m t \<Longrightarrow> (\<And>p. p \<in> e_path ` set (artifacts m) \<Longrightarrow> may d (t' p) \<subseteq> may d (t p)) \<Longrightarrow> all_original d env m t'"
  unfolding all_original_def by (blast intro: tokens_in_mono)

lemma deployed_mono:
  "deployed d env m t \<Longrightarrow> (\<And>p. p \<in> e_path ` set (artifacts m) \<Longrightarrow> may d (t' p) \<subseteq> may d (t p)) \<Longrightarrow> deployed d env m t'"
  unfolding deployed_def by (blast intro: tokens_in_mono)

lemma base_paths: "base m = base M \<Longrightarrow> entry_paths m = entry_paths M"
proof -
  assume "base m = base M"
  then have "map (\<lambda>e. (e_path e, e_kind e, e_original e)) (artifacts m) = map (\<lambda>e. (e_path e, e_kind e, e_original e)) (artifacts M)"
    by (simp add: base_def)
  then have "map fst (map (\<lambda>e. (e_path e, e_kind e, e_original e)) (artifacts m))
      = map fst (map (\<lambda>e. (e_path e, e_kind e, e_original e)) (artifacts M))" by (rule arg_cong)
  then show ?thesis by (simp add: comp_def entry_paths_def)
qed

lemma base_allowlist: "base m = base M \<Longrightarrow> allowlist m = allowlist M"
  by (simp add: base_def)

lemma sound_allowlist: "sound env M m \<Longrightarrow> allowlist m = allowlist M"
  by (simp add: sound_def base_def)

lemma sound_paths: "sound env M m \<Longrightarrow> set (entry_paths m) \<subseteq> set (allowlist M)"
proof -
  assume s: "sound env M m"
  then have "entry_paths m = take (length (artifacts m)) (allowlist M)"
    using base_allowlist [of m M] by (simp add: sound_def check_manifest_def)
  then show ?thesis using set_take_subset [of "length (artifacts m)" "allowlist M"] by simp
qed

lemma over_mono:
  assumes "over d env M t" and "set (entry_paths M) \<subseteq> A" and "\<And>p. p \<in> A \<Longrightarrow> may d (t' p) \<subseteq> may d (t p)"
  shows "over d env M t'"
proof -
  have paths: "e_path ` set (artifacts m) \<subseteq> A" if "base m = base M" for m
    using base_paths [OF that] assms(2) by (metis entry_paths_def set_map)
  from assms(1) show ?thesis unfolding over_def
  proof
    assume "all_original d env M t"
    then have "all_original d env M t'" by (rule all_original_mono) (use assms(2,3) in \<open>auto simp: entry_paths_def\<close>)
    then show "all_original d env M t' \<or> (\<exists>m. sound env M m \<and> stage_of m = Complete \<and> deployed d env m t')" ..
  next
    assume "\<exists>m. sound env M m \<and> stage_of m = Complete \<and> deployed d env m t"
    then obtain m where m: "sound env M m" "stage_of m = Complete" "deployed d env m t" by blast
    have "deployed d env m t'"
      using m(3) by (rule deployed_mono) (use paths [of m] m(1) assms(3) in \<open>auto simp: sound_def\<close>)
    with m show "all_original d env M t' \<or> (\<exists>m. sound env M m \<and> stage_of m = Complete \<and> deployed d env m t')" by blast
  qed
qed


lemma base_entries:
  assumes "base m = base M" and "e \<in> set (artifacts m)"
  shows "\<exists>e' \<in> set (artifacts M). e_path e' = e_path e \<and> e_kind e' = e_kind e \<and> e_original e' = e_original e"
proof -
  let ?k = "\<lambda>e. (e_path e, e_kind e, e_original e)"
  have "?k e \<in> set (map ?k (artifacts m))" using assms(2) by simp
  also have "\<dots> = set (map ?k (artifacts M))" using assms(1) by (simp add: base_def)
  finally show ?thesis by auto
qed

lemma all_original_base: "base m = base M \<Longrightarrow> all_original d env m t = all_original d env M t"
  unfolding all_original_def using base_entries [of m M] base_entries [of M m] by metis

lemma base_stage [simp]: "base (m\<lparr>stage_of := s\<rparr>) = base m"
  by (simp add: base_def)

lemma base_with_commit [simp]: "base (with_commit p m) = base m"
  by (simp add: base_def with_commit_def)

lemma base_with_replacement [simp]: "base (with_replacement p r c m) = base m"
  by (simp add: base_def with_replacement_def comp_def if_distrib cong: if_cong)

lemma wf_manifest_changes [simp]:
  "wf_manifest (m\<lparr>stage_of := s\<rparr>) = wf_manifest m"
  "wf_manifest (with_commit p m) = wf_manifest m"
  "wf_manifest (with_replacement p r c m) = wf_manifest m"
  by (simp_all add: wf_manifest_def with_commit_def with_replacement_def)

lemma entry_paths_changes [simp]:
  "entry_paths (m\<lparr>stage_of := s\<rparr>) = entry_paths m"
  "entry_paths (with_commit p m) = entry_paths m"
  "entry_paths (with_replacement p r c m) = entry_paths m"
  by (simp_all add: entry_paths_def with_commit_def with_replacement_def comp_def if_distrib cong: if_cong)

lemma check_stage:
  assumes "check_manifest env m" and "stage_of m \<noteq> Preparing" and "stage_of m \<noteq> Restored"
  shows "check_manifest env (m\<lparr>stage_of := s\<rparr>)"
proof -
  have "check_pending (m\<lparr>stage_of := s\<rparr>) = check_pending m" "journaled (m\<lparr>stage_of := s\<rparr>) = journaled m"
    by (simp_all add: check_pending_def journaled_def cong: option.case_cong)
  moreover have "artifacts (m\<lparr>stage_of := s\<rparr>) = artifacts m" "allowlist (m\<lparr>stage_of := s\<rparr>) = allowlist m"
    "txid (m\<lparr>stage_of := s\<rparr>) = txid m" "boot_id (m\<lparr>stage_of := s\<rparr>) = boot_id m"
    "m_runtime (m\<lparr>stage_of := s\<rparr>) = m_runtime m" "committed (m\<lparr>stage_of := s\<rparr>) = committed m"
    by simp_all
  ultimately show ?thesis using assms unfolding check_manifest_def entry_paths_changes by auto
qed

lemma check_distinct: "check_manifest env m \<Longrightarrow> distinct (entry_paths m)"
proof -
  assume "check_manifest env m"
  then have "entry_paths m = take (length (artifacts m)) (allowlist m)" "distinct (allowlist m)"
    by (simp_all add: check_manifest_def)
  then show ?thesis using distinct_take [of "allowlist m" "length (artifacts m)"] by simp
qed

lemma find_distinct:
  "distinct (map e_path es) \<Longrightarrow> e \<in> set es \<Longrightarrow> find (\<lambda>x. e_path x = e_path e) es = Some e"
  by (induction es) (auto simp: rev_image_eqI)

lemma replacement_at_entry:
  "distinct (map e_path es) \<Longrightarrow> e \<in> set es \<Longrightarrow> replacement_at es (e_path e) = e_replacement e"
  by (simp add: replacement_at_def find_distinct)

lemma entry_by_path_Inr:
  "entry_by_path m p = Inr e \<Longrightarrow> e \<in> set (artifacts m) \<and> e_path e = p"
  by (auto simp: entry_by_path_def find_Some_iff split: option.splits)

lemma check_with_commit:
  assumes "check_manifest env m" and "pending_commit m = Some q"
  shows "check_manifest env (with_commit (p_path q) m)"
proof -
  have "check_pending (with_commit (p_path q) m)" "journaled (with_commit (p_path q) m) = journaled m"
    using assms(2) by (simp_all add: check_pending_def journaled_def with_commit_def)
  moreover have "artifacts (with_commit (p_path q) m) = artifacts m" "allowlist (with_commit (p_path q) m) = allowlist m"
    "stage_of (with_commit (p_path q) m) = stage_of m" "txid (with_commit (p_path q) m) = txid m"
    "boot_id (with_commit (p_path q) m) = boot_id m" "m_runtime (with_commit (p_path q) m) = m_runtime m"
    "committed (with_commit (p_path q) m) = committed m @ [p_path q]"
    by (simp_all add: with_commit_def)
  ultimately show ?thesis using assms by (auto simp: check_manifest_def check_pending_def)
qed

lemma replacement_at_with:
  "p \<in> e_path ` set es \<Longrightarrow>
   replacement_at (map (\<lambda>e. if e_path e = p then e\<lparr>e_replacement := Some r\<rparr> else e) es) p = Some r"
  by (induction es) (auto simp: replacement_at_def)

lemma check_with_replacement:
  assumes "check_manifest env m" and "stage_of m = Active" and "pending_commit m = None"
    and "p \<notin> set (committed m)" and "p \<in> set (entry_paths m)" and "HEX64_RE r"
    and "\<And>c'. c = Some c' \<Longrightarrow> canonical_path c' = Inr c' \<and> c' \<noteq> p \<and> dirname c' = dirname p"
  shows "check_manifest env (with_replacement p r c m)"
proof -
  let ?m = "with_replacement p r c m" and ?up = "\<lambda>e. if e_path e = p then e\<lparr>e_replacement := Some r\<rparr> else e"
  have eq: "map e_path (filter (\<lambda>e. e_replacement e \<noteq> None) (map ?up es))
      = map e_path (filter (\<lambda>e. e_path e = p \<or> e_replacement e \<noteq> None) es)" for es
    by (induction es) auto
  have "set (map e_path (filter (\<lambda>e. e_replacement e \<noteq> None) (artifacts ?m)))
      = set (map e_path (filter (\<lambda>e. e_path e = p \<or> e_replacement e \<noteq> None) (artifacts m)))"
    using arg_cong [OF eq [of "artifacts m"], of set] by (simp add: with_replacement_def)
  also have "\<dots> = insert p (set (map e_path (filter (\<lambda>e. e_replacement e \<noteq> None) (artifacts m))))"
    using assms(5) by (auto simp: entry_paths_def)
  also have "\<dots> = set (journaled ?m)"
    using assms(1,3) by (auto simp: check_manifest_def journaled_def with_replacement_def)
  finally have replaced: "set (map e_path (filter (\<lambda>e. e_replacement e \<noteq> None) (artifacts ?m))) = set (journaled ?m)" .
  have entries: "list_all check_entry (artifacts ?m)"
    using assms(1,6) by (auto simp: check_manifest_def list_all_iff check_entry_def with_replacement_def)
  have pending: "check_pending ?m"
    using assms(4-7) replacement_at_with [of p "artifacts m" r]
    by (auto simp: check_pending_def check_candidate_def with_replacement_def entry_paths_def comp_def image_image
        split: option.splits)
  have same: "allowlist ?m = allowlist m" "length (artifacts ?m) = length (artifacts m)" "stage_of ?m = stage_of m"
    "txid ?m = txid m" "boot_id ?m = boot_id m" "m_runtime ?m = m_runtime m" "committed ?m = committed m"
    by (simp_all add: with_replacement_def)
  show ?thesis
    using assms(1) replaced entries pending unfolding check_manifest_def same entry_paths_changes by blast
qed


section \<open>Fewer possibilities keep every promise\<close>

lemma ending_over: "sound env M M \<Longrightarrow> ending d env M t f \<Longrightarrow> over d env M t"
  by (auto simp: ending_def over_def)

lemma sound_M_paths: "sound env M M \<Longrightarrow> set (entry_paths M) \<subseteq> set (allowlist M)"
  by (rule sound_paths)

lemma ending_mono:
  assumes "sound env M M" and "ending d env M t f" and "\<And>p. p \<in> set (allowlist M) \<Longrightarrow> may d (t' p) \<subseteq> may d (t p)"
  shows "ending d env M t' f"
proof -
  have paths: "p \<in> set (allowlist M)" if "sound env M m" "p \<in> e_path ` set (artifacts m)" for m p
    using sound_paths [OF that(1)] that(2) by (auto simp: entry_paths_def)
  have "all_original d env M t'" if "all_original d env M t"
    using that by (rule all_original_mono) (rule assms(3), rule paths [OF assms(1)])
  moreover have "deployed d env m t'" if "deployed d env m t" "sound env M m" for m
    using that(1) by (rule deployed_mono) (rule assms(3), rule paths [OF that(2)])
  moreover have "over d env M t'" if "over d env M t"
    using that sound_M_paths [OF assms(1)] assms(3) by (rule over_mono)
  ultimately show ?thesis using assms(2) unfolding ending_def by blast
qed

lemma recoverable_mono:
  assumes "recoverable d env m t cs" and "\<And>p. p \<in> set (entry_paths m) \<Longrightarrow> may d (t' p) \<subseteq> may d (t p)"
    and "\<And>q c. pending_commit m = Some q \<Longrightarrow> p_candidate q = Some c \<Longrightarrow> may d (t' c) \<subseteq> may d (t c)"
  shows "recoverable d env m t' cs"
  using assms unfolding recoverable_def candidate_ok_def entry_paths_def
  by (fastforce split: option.splits intro: tokens_in_mono)

lemma stays_mono:
  assumes "sound env M M" and "stays d env M t cs f" and "\<And>p. may d (t' p) \<subseteq> may d (t p)"
  shows "stays d env M t' cs f"
  using assms(2) unfolding stays_def
  using ending_mono [OF assms(1), of d t f t'] recoverable_mono [of d env _ t cs t'] assms(3) by blast

lemma consistent_shrink:
  assumes "consistent d env M h" and "\<And>p. may d (t' p) \<subseteq> may d (tree h p)" and "\<And>p. tidy (t' p)"
  shows "consistent d env M (h\<lparr>tree := t'\<rparr>)"
proof -
  have M: "sound env M M" using assms(1) by (simp add: consistent_def)
  show ?thesis
    using assms stays_mono [OF M] ending_mono [OF M, of d "tree h" _ t'] unfolding consistent_def by auto
qed

lemma tidy_settled: "tidy s \<Longrightarrow> tidy (settled s)"
  by (simp add: tidy_def settled_def quiet_slot_def)

lemma tidy_bytes_synced: "tidy (bytes_synced s)"
  by (simp add: tidy_def bytes_synced_def)

lemma tidy_quiet [simp]: "tidy (quiet_slot n)"
  by (simp add: tidy_def quiet_slot_def)

lemma tidy_installed: "tidy new \<Longrightarrow> tidy (installed new old)"
  by (simp add: tidy_def installed_def)

definition durable :: "(host \<Rightarrow> bool) \<Rightarrow> bool" where
  "durable R \<longleftrightarrow> (\<forall>h p. R h \<longrightarrow> R (at_path p settled h) \<and> R (at_path p bytes_synced h))"

lemma consistent_durable: "durable (consistent d env M)"
proof -
  have "consistent d env M (at_path p g h)"
    if h: "consistent d env M h" and g: "\<And>s. may d (g s) \<subseteq> may d s" "\<And>s. tidy s \<Longrightarrow> tidy (g s)" for h p g
    unfolding at_path_def by (rule consistent_shrink [OF h]) (use h g in \<open>auto simp: consistent_def\<close>)
  then show ?thesis
    unfolding durable_def using may_settled may_bytes_synced tidy_settled tidy_bytes_synced by (metis order_refl)
qed

section \<open>Syncing and staging\<close>

lemma triple_fsync_parent:
  assumes "\<And>h. P h \<Longrightarrow> X h"
  shows "triple P (fsync_parent env p) (\<lambda>_ h. \<exists>g. P g \<and> h = at_path p settled g) X"
  unfolding fsync_parent_def
  by (rule triple_then [where R = P], rule triple_open, erule assms, rule triple_call) (auto intro: assms)

lemma triple_fsync_regular:
  assumes "\<And>h. P h \<Longrightarrow> X h"
  shows "triple P (fsync_regular p)
    (\<lambda>_ h. P h \<and> \<not> is_regular (shown (tree h p)) \<or> (\<exists>g. P g \<and> h = at_path p bytes_synced g)) X"
  unfolding fsync_regular_def
proof (rule triple_andthen, rule triple_look [where P = P], erule assms)
  fix n
  show "triple (\<lambda>h. P h \<and> n = shown (tree h p))
      (if is_regular n then then_do pause (call (at_path p bytes_synced)) else give ())
      (\<lambda>_ h. P h \<and> \<not> is_regular (shown (tree h p)) \<or> (\<exists>g. P g \<and> h = at_path p bytes_synced g)) X"
    by (auto intro!: triple_give triple_then [where R = P] triple_call intro: assms triple_conseq [OF triple_pause])
qed

lemma triple_fsync_regular_durable:
  assumes "durable P" and "\<And>h. P h \<Longrightarrow> X h"
  shows "triple P (fsync_regular p) (\<lambda>_. P) X"
  by (rule triple_post, rule triple_fsync_regular [where P = P], erule assms(2)) (use assms(1) in \<open>auto simp: durable_def\<close>)

lemma triple_fsync_parent_durable:
  assumes "durable P" and "\<And>h. P h \<Longrightarrow> X h"
  shows "triple P (fsync_parent env p) (\<lambda>_. P) X"
  by (rule triple_post, rule triple_fsync_parent [where P = P], erule assms(2)) (use assms(1) in \<open>auto simp: durable_def\<close>)

lemma at_path_same [simp]: "tree (at_path p g h) p = g (tree h p)"
  by (simp add: at_path_def)

lemma shown_settled [simp]: "shown (settled s) = shown s"
  by (simp add: settled_def)

lemma shown_bytes_synced [simp]: "shown (bytes_synced s) = shown s"
  by (simp add: bytes_synced_def)

lemma canonical_path_Inr: "canonical_path raw = Inr c \<Longrightarrow> c = raw"
  by (auto simp: canonical_path_def split: if_splits)

lemma triple_candidate_generation:
  assumes P: "durable P" "\<And>h. P h \<Longrightarrow> X h" and tidy: "\<And>h. P h \<Longrightarrow> tidy (tree h c)"
  shows "triple P (candidate_generation env c p)
    (\<lambda>t h. P h \<and> canonical_path c = Inr c \<and> dirname c = dirname p \<and> c \<noteq> p
       \<and> tokens_in d env (tree h) c {Some t} \<and> (\<exists>s. t = sha256 env s)) X"
proof -
  let ?ok = "canonical_path c = Inr c \<and> dirname c = dirname p \<and> c \<noteq> p"
  have sync: "triple (\<lambda>h. P h \<and> generation_of env (shown (tree h c)) = Inr v)
      (then_do (fsync_regular c) (then_do (fsync_parent env c) (give (generation_token env v))))
      (\<lambda>t h. P h \<and> tokens_in d env (tree h) c {Some t} \<and> (\<exists>s. t = sha256 env s)) X" for v
  proof (rule triple_then [where R = "\<lambda>h. P h \<and> generation_of env (shown (tree h c)) = Inr v \<and> \<not> unsynced (tree h c)"])
    show "triple (\<lambda>h. P h \<and> generation_of env (shown (tree h c)) = Inr v) (fsync_regular c)
        (\<lambda>_ h. P h \<and> generation_of env (shown (tree h c)) = Inr v \<and> \<not> unsynced (tree h c)) X"
      by (rule triple_post, rule triple_fsync_regular [where P = "\<lambda>h. P h \<and> generation_of env (shown (tree h c)) = Inr v"])
        (use P tidy in \<open>auto simp: durable_def tidy_def bytes_synced_def\<close>)
    show "triple (\<lambda>h. P h \<and> generation_of env (shown (tree h c)) = Inr v \<and> \<not> unsynced (tree h c))
        (then_do (fsync_parent env c) (give (generation_token env v)))
        (\<lambda>t h. P h \<and> tokens_in d env (tree h) c {Some t} \<and> (\<exists>s. t = sha256 env s)) X"
      by (rule triple_then, rule triple_fsync_parent, erule conjE, erule P(2), rule triple_give)
        (use P(1) in \<open>auto simp: durable_def settled_def tokens_in_def token_of_def generation_token_def\<close>)
  qed
  have main: "triple P (andthen (generation env c) (\<lambda>v. then_do (refuse_if (v = AbsentValue))
      (then_do (fsync_regular c) (then_do (fsync_parent env c) (give (generation_token env v))))))
      (\<lambda>t h. P h \<and> tokens_in d env (tree h) c {Some t} \<and> (\<exists>s. t = sha256 env s)) X"
  proof (rule triple_andthen, rule triple_generation [where P = P], erule P(2))
    fix v
    show "triple (\<lambda>h. P h \<and> generation_of env (shown (tree h c)) = Inr v) (then_do (refuse_if (v = AbsentValue))
        (then_do (fsync_regular c) (then_do (fsync_parent env c) (give (generation_token env v)))))
        (\<lambda>t h. P h \<and> tokens_in d env (tree h) c {Some t} \<and> (\<exists>s. t = sha256 env s)) X"
      by (rule triple_then [OF _ sync], rule triple_refuse_to) (auto intro: P(2))
  qed
  show ?thesis unfolding candidate_generation_def
  proof (rule triple_andthen, rule triple_lift [where P = P], erule P(2))
    fix c'
    show "triple (\<lambda>h. P h \<and> canonical_path c = Inr c')
      (then_do (refuse_if (dirname c' \<noteq> dirname p)) (then_do (refuse_if (c' = p))
        (then_do (lift (safe_directory env False False (dirname c'))) (andthen (generation env c') (\<lambda>v.
          then_do (refuse_if (v = AbsentValue)) (then_do (fsync_regular c') (then_do (fsync_parent env c')
            (give (generation_token env v)))))))))
      (\<lambda>t h. P h \<and> canonical_path c = Inr c \<and> dirname c = dirname p \<and> c \<noteq> p
         \<and> tokens_in d env (tree h) c {Some t} \<and> (\<exists>s. t = sha256 env s)) X"
    proof (rule triple_fact [where c = "canonical_path c = Inr c' \<and> c' = c"])
      assume c: "canonical_path c = Inr c' \<and> c' = c"
      show ?thesis unfolding c [THEN conjunct2]
        apply (rule triple_then [where R = "\<lambda>h. P h \<and> dirname c = dirname p"], rule triple_refuse_to)
          apply (auto intro: P(2))[2]
        apply (rule triple_then [where R = "\<lambda>h. P h \<and> ?ok"], rule triple_refuse_to)
          apply (use c in \<open>auto intro: P(2)\<close>)[2]
        apply (rule triple_then [where R = "\<lambda>h. P h \<and> ?ok"], rule triple_lift_to)
          apply (auto intro: P(2))[2]
        apply (rule triple_fact [where c = ?ok], simp)
        by (rule triple_conseq [OF main]) auto
    qed (auto dest: canonical_path_Inr)
  qed
qed


section \<open>Writing the journal\<close>

lemma consistent_write:
  assumes "consistent d env M h" and "stays d env M (tree h) (copies h) (journal_file m)"
    and "False \<notin> may d (here h) \<or> ending d env M (tree h) (journal_file m)"
  shows "consistent d env M (h\<lparr>journal := installed (quiet_slot (journal_file m)) (journal h)\<rparr>)"
    and "consistent d env M (h\<lparr>journal := quiet_slot (journal_file m)\<rparr>)"
  using assms may_installed [of d "quiet_slot (journal_file m)" "journal h"] unfolding consistent_def by auto

lemma triple_write_consistent:
  assumes "\<And>h. P h \<Longrightarrow> consistent d env M h \<and> stays d env M (tree h) (copies h) (journal_file m)
      \<and> (False \<notin> may d (here h) \<or> ending d env M (tree h) (journal_file m))"
  shows "triple P (atomic_write_manifest m)
    (\<lambda>_ h. consistent d env M h \<and> (\<exists>g. P g \<and> h = g\<lparr>journal := quiet_slot (journal_file m)\<rparr>)) (consistent d env M)"
  by (rule triple_write) (use assms consistent_write in blast)+

text \<open>What is known between two steps of a command while the manifest \<open>m\<close> is the only one to be found.\<close>

definition holding :: "bool \<Rightarrow> platform \<Rightarrow> manifest \<Rightarrow> manifest \<Rightarrow> host \<Rightarrow> bool" where
  "holding d env M m h \<longleftrightarrow> consistent d env M h \<and> may d (journal h) = {journal_file m} \<and> sound env M m
     \<and> rolling (stage_of m) \<and> recoverable d env m (tree h) (copies h) \<and> False \<notin> may d (here h)"

lemma not_ending_rolling: "sound env M m \<Longrightarrow> rolling (stage_of m) \<Longrightarrow> \<not> ending d env M t (journal_file m)"
  unfolding ending_def using journal_file_inject
  by (auto simp: sound_def rolling_def journal_file_def) (metis journal_file_def journal_file_inject stage.distinct)+

lemma loaded_rolling:
  assumes "consistent d env M h" and "may d (journal h) = {shown (journal h)}"
    and "read_journal env (shown (journal h)) = Inr m" and "rolling (stage_of m)"
  shows "holding d env M m h"
proof -
  from assms(1) have stays: "stays d env M (tree h) (copies h) (shown (journal h))"
    by (simp add: consistent_def)
  have read: "read_journal env (journal_file m') = Inr m'" if "sound env M m'" for m'
    using that read_journal_file [of m' env] by (simp add: sound_def)
  have "\<not> ending d env M (tree h) (shown (journal h))"
    using assms(3,4) read unfolding ending_def by (auto simp: read_journal_def rolling_def)
  with stays assms(3) read have "sound env M m" "recoverable d env m (tree h) (copies h)" "shown (journal h) = journal_file m"
    unfolding stays_def by auto
  moreover from assms(1) \<open>\<not> ending d env M (tree h) (shown (journal h))\<close> have "False \<notin> may d (here h)"
    unfolding consistent_def by (metis shown_may)
  ultimately show ?thesis using assms(1,2,4) by (simp add: holding_def)
qed

lemma holding_durable: "durable (holding d env M m)"
proof -
  have "holding d env M m (at_path p g h)"
    if h: "holding d env M m h" and c: "consistent d env M (at_path p g h)" and g: "\<And>s. may d (g s) \<subseteq> may d s" for h p g
  proof -
    have "recoverable d env m (tree (at_path p g h)) (copies h)"
      using h unfolding holding_def by (elim conjE) (erule recoverable_mono; use g in \<open>simp add: at_path_def\<close>)
    with h c show ?thesis by (simp add: holding_def at_path_def)
  qed
  then show ?thesis
    using consistent_durable [of d env M] may_settled [of d] may_bytes_synced [of d]
    unfolding durable_def by (metis holding_def order_refl)
qed

lemma consistent_tidy: "consistent d env M h \<Longrightarrow> tidy (tree h p)"
  by (simp add: consistent_def)

lemma holding_consistent: "holding d env M m h \<Longrightarrow> consistent d env M h"
  by (simp add: holding_def)

lemma durable_conj: "durable P \<Longrightarrow> durable Q \<Longrightarrow> durable (\<lambda>h. P h \<and> Q h)"
  by (simp add: durable_def)

lemma tokens_durable: "durable (\<lambda>h. tokens_in d env (tree h) p T)"
  by (auto simp: durable_def at_path_def elim!: tokens_in_mono split: if_splits dest: subsetD [OF may_settled])

section \<open>Before a mutation\<close>

definition digest_ok :: "platform \<Rightarrow> bool" where
  "digest_ok env \<longleftrightarrow> (\<forall>s. HEX64_RE (sha256 env s))"

lemma replacement_none:
  assumes "check_manifest env m" and "e \<in> set (artifacts m)" and "e_path e \<notin> set (journaled m)"
  shows "e_replacement e = None"
proof (rule ccontr)
  assume "e_replacement e \<noteq> None"
  with assms(2) have "e_path e \<in> set (map e_path (filter (\<lambda>e. e_replacement e \<noteq> None) (artifacts m)))" by simp
  with assms(1,3) show False unfolding check_manifest_def by blast
qed

lemma copy_ok_replacement [simp]: "copy_ok d env cs (e\<lparr>e_replacement := r\<rparr>) = copy_ok d env cs e"
  by (cases "e_kind e") (simp_all add: copy_ok_def)

lemma recoverable_with_replacement:
  assumes "recoverable d env m t cs" and "sound env M m" and "pending_commit m = None"
    and "p \<notin> set (committed m)"
    and "\<And>c'. c = Some c' \<Longrightarrow> c' \<notin> set (allowlist m) \<and> tokens_in d env t c' {Some r}"
  shows "recoverable d env (with_replacement p r c m) t cs"
proof -
  let ?m = "with_replacement p r c m"
  have "copy_ok d env cs e' \<and> tokens_in d env t (e_path e') {Some (e_original e'), e_replacement e'}"
    if "e' \<in> set (artifacts ?m)" for e'
  proof -
    from that obtain e where e: "e \<in> set (artifacts m)"
      "e' = (if e_path e = p then e\<lparr>e_replacement := Some r\<rparr> else e)" by (auto simp: with_replacement_def)
    from assms(1) e(1) have r: "copy_ok d env cs e" "tokens_in d env t (e_path e) {Some (e_original e), e_replacement e}"
      by (auto simp: recoverable_def)
    show ?thesis
    proof (cases "e_path e = p")
      case True
      with replacement_none [of env m e] e(1) assms(2-4) have "e_replacement e = None"
        by (simp add: sound_def journaled_def)
      with r(2) have "tokens_in d env t (e_path e) {Some (e_original e), Some r}"
        unfolding tokens_in_def by (auto simp: image_subset_iff) (metis image_eqI)
      with r(1) True e(2) show ?thesis by simp
    next
      case False
      with r e(2) show ?thesis by simp
    qed
  qed
  moreover have "candidate_ok d env ?m t"
    using assms(5) by (cases c) (auto simp: candidate_ok_def with_replacement_def tokens_in_def)
  ultimately show ?thesis by (simp add: recoverable_def)
qed

text \<open>After a successful \<^verbatim>\<open>before\<close>: the replacement is journaled durably and the path is still untouched.\<close>

definition bracketed ::
  "bool \<Rightarrow> platform \<Rightarrow> manifest \<Rightarrow> string \<Rightarrow> string option \<Rightarrow> manifest \<Rightarrow> host \<Rightarrow> bool" where
  "bracketed d env M p c m h \<longleftrightarrow> holding d env M m h \<and> stage_of m = Active
     \<and> (\<exists>r e. pending_commit m = Some \<lparr>p_path = p, p_replacement = r, p_candidate = c\<rparr>
         \<and> e \<in> set (artifacts m) \<and> e_path e = p \<and> e_replacement e = Some r
         \<and> (\<forall>c'. c = Some c' \<longrightarrow> c' \<noteq> p \<and> tokens_in d env (tree h) c' {Some r})
         \<and> (c = None \<longrightarrow> r = ABSENT_GENERATION env))"

lemma ABSENT_GENERATION_hex: "digest_ok env \<Longrightarrow> HEX64_RE (ABSENT_GENERATION env)"
  by (simp add: digest_ok_def ABSENT_GENERATION_def generation_token_def)

definition staged ::
  "bool \<Rightarrow> platform \<Rightarrow> manifest \<Rightarrow> manifest \<Rightarrow> string \<Rightarrow> string option \<Rightarrow> string \<Rightarrow> host \<Rightarrow> bool" where
  "staged d env M m p c r h \<longleftrightarrow> holding d env M m h \<and> stage_of m = Active \<and> pending_commit m = None
     \<and> p \<notin> set (committed m) \<and> p \<in> set (entry_paths m) \<and> HEX64_RE r
     \<and> (\<forall>c'. c = Some c' \<longrightarrow> c' \<notin> set (allowlist m) \<and> canonical_path c' = Inr c' \<and> c' \<noteq> p
         \<and> dirname c' = dirname p \<and> tokens_in d env (tree h) c' {Some r})
     \<and> (c = None \<longrightarrow> r = ABSENT_GENERATION env)"

lemma staged_stays:
  assumes "staged d env M m p c r h"
  shows "sound env M (with_replacement p r c m)"
    and "recoverable d env (with_replacement p r c m) (tree h) (copies h)"
    and "stays d env M (tree h) (copies h) (journal_file (with_replacement p r c m))"
proof -
  have m: "sound env M m" "recoverable d env m (tree h) (copies h)" using assms by (auto simp: staged_def holding_def)
  show 1: "sound env M (with_replacement p r c m)"
    using assms m(1) check_with_replacement [of env m p r c] by (auto simp: sound_def staged_def)
  show 2: "recoverable d env (with_replacement p r c m) (tree h) (copies h)"
    by (rule recoverable_with_replacement [OF m(2,1)]) (use assms in \<open>auto simp: staged_def\<close>)
  have "rolling (stage_of (with_replacement p r c m))"
    using assms by (simp add: staged_def with_replacement_def rolling_def)
  with 1 2 show "stays d env M (tree h) (copies h) (journal_file (with_replacement p r c m))"
    unfolding stays_def by blast
qed

lemma staged_bracketed:
  assumes "staged d env M m p c r g" and "consistent d env M h"
    and h: "h = g\<lparr>journal := quiet_slot (journal_file (with_replacement p r c m))\<rparr>"
  shows "bracketed d env M p c (with_replacement p r c m) h"
proof -
  let ?m = "with_replacement p r c m"
  obtain e where e: "e \<in> set (artifacts m)" "e_path e = p"
    using assms(1) by (auto simp: staged_def entry_paths_def)
  have "holding d env M ?m h"
    using assms(1,2) staged_stays [OF assms(1)] unfolding h
    by (simp add: holding_def staged_def with_replacement_def rolling_def)
  moreover have "e\<lparr>e_replacement := Some r\<rparr> \<in> set (artifacts ?m)"
    using e by (auto simp: with_replacement_def intro!: rev_image_eqI)
  moreover have "stage_of ?m = Active" "pending_commit ?m = Some \<lparr>p_path = p, p_replacement = r, p_candidate = c\<rparr>"
    using assms(1) by (auto simp: with_replacement_def staged_def)
  ultimately show ?thesis
    unfolding bracketed_def using assms(1) e(2) h
    by (auto simp: staged_def intro!: exI [of _ "e\<lparr>e_replacement := Some r\<rparr>"])
qed

lemma triple_journal_replacement:
  "triple (staged d env M m p c r) (atomic_write_manifest (with_replacement p r c m))
     (\<lambda>_ h. \<exists>m. bracketed d env M p c m h) (consistent d env M)"
proof (rule triple_post, rule triple_write_consistent)
  fix h assume h: "staged d env M m p c r h"
  then have "consistent d env M h" "False \<notin> may d (here h)" by (simp_all add: staged_def holding_def)
  with staged_stays(3) [OF h]
  show "consistent d env M h \<and> stays d env M (tree h) (copies h) (journal_file (with_replacement p r c m))
      \<and> (False \<notin> may d (here h) \<or> ending d env M (tree h) (journal_file (with_replacement p r c m)))" by blast
qed (blast intro: staged_bracketed)

lemma triple_staged_replacement:
  assumes "digest_ok env"
  shows "triple (\<lambda>h. holding d env M m h \<and> stage_of m = Active \<and> pending_commit m = None
      \<and> p \<notin> set (committed m) \<and> p \<in> set (entry_paths m)) (staged_replacement env m p c)
    (\<lambda>(r, c') h. staged d env M m p c r h \<and> c' = c) (consistent d env M)"
    (is "triple ?P _ _ _")
proof (cases c)
  case None
  then show ?thesis unfolding staged_replacement_def
    by (auto intro!: triple_give simp: staged_def ABSENT_GENERATION_hex [OF assms])
next
  case (Some raw)
  have PX: "?P h \<Longrightarrow> consistent d env M h" for h by (simp add: holding_def)
  have P: "durable ?P" using holding_durable [of d env M m] by (simp add: durable_def)
  let ?R = "\<lambda>h. ?P h \<and> raw \<notin> set (allowlist m)"
  have R: "durable ?R" "\<And>h. ?R h \<Longrightarrow> consistent d env M h"
    using P PX unfolding durable_def by blast+
  have R3: "\<And>h. ?R h \<Longrightarrow> tidy (tree h raw)"
    using PX consistent_tidy by blast
  have last: "triple ?R (andthen (candidate_generation env raw p) (\<lambda>r. give (r, Some raw)))
      (\<lambda>(r, c') h. staged d env M m p c r h \<and> c' = c) (consistent d env M)"
    by (rule triple_andthen, rule triple_candidate_generation [OF R(1,2), where d = d], assumption, erule R3,
        rule triple_give) (use assms Some in \<open>auto simp: staged_def digest_ok_def\<close>)
  show ?thesis unfolding staged_replacement_def Some option.case
  proof (rule triple_andthen, rule triple_lift [where P = ?P], erule PX)
    fix c'
    show "triple (\<lambda>h. ?P h \<and> canonical_path raw = Inr c')
        (then_do (refuse_if (c' \<in> set (allowlist m)))
          (then_do (refuse_if (\<not> starts_with ''.'' (basename c') \<or> basename c' = ''.'' \<or> basename c' = ''..''))
            (andthen (candidate_generation env c' p) (\<lambda>r. give (r, Some c')))))
        (\<lambda>(r, c') h. staged d env M m p (Some raw) r h \<and> c' = Some raw) (consistent d env M)"
    proof (rule triple_fact [where c = "c' = raw"])
      assume c: "c' = raw"
      show ?thesis unfolding c
        by (rule triple_then [where R = ?R], rule triple_refuse_to, (use PX in blast)+,
            rule triple_then [where R = ?R], rule triple_refuse_to, (use PX in blast)+)
          (rule last [unfolded Some])
    qed (auto dest: canonical_path_Inr)
  qed
qed

lemma validate_artifact_path_Inr: "validate_artifact_path env raw = Inr p \<Longrightarrow> p = raw"
  by (auto simp: validate_artifact_path_def rbind_eq_Inr dest: canonical_path_Inr)

lemma triple_before:
  assumes "digest_ok env"
  shows "triple (\<lambda>h. consistent d env M h \<and> may d (journal h) = {shown (journal h)}) (before env p c)
    (\<lambda>_ h. \<exists>m. bracketed d env M p c m h) (consistent d env M)"
  unfolding before_def
proof (rule triple_andthen, rule triple_load_active, erule conjunct1)
  fix m
  let ?H = "\<lambda>h. holding d env M m h \<and> stage_of m = Active" and ?X = "consistent d env M"
  let ?P = "\<lambda>h. ?H h \<and> pending_commit m = None \<and> p \<notin> set (committed m) \<and> p \<in> set (entry_paths m)"
  have HX: "?H h \<Longrightarrow> ?X h" for h by (simp add: holding_def)
  have tail: "triple ?P (andthen (token_at env p) (\<lambda>t. then_do (refuse_if (t \<noteq> e_original e))
      (andthen (staged_replacement env m p c) (\<lambda>(r, c). atomic_write_manifest (with_replacement p r c m)))))
      (\<lambda>_ h. \<exists>m. bracketed d env M p c m h) ?X" for e
  proof (rule triple_andthen, rule triple_token [where P = ?P], use HX in blast)
    fix t
    have "triple ?P (andthen (staged_replacement env m p c) (\<lambda>(r, c). atomic_write_manifest (with_replacement p r c m)))
        (\<lambda>_ h. \<exists>m. bracketed d env M p c m h) ?X"
    proof (rule triple_andthen, rule triple_pre [OF triple_staged_replacement [OF assms]])
      fix x :: "string \<times> string option"
      obtain r c' where x: "x = (r, c')" by fastforce
      show "triple ((\<lambda>(r, c') h. staged d env M m p c r h \<and> c' = c) x)
          (case x of (r, c) \<Rightarrow> atomic_write_manifest (with_replacement p r c m))
          (\<lambda>_ h. \<exists>m. bracketed d env M p c m h) ?X"
        unfolding x by (simp, rule triple_fact [where c = "c' = c"]) (auto intro: triple_pre [OF triple_journal_replacement])
    qed auto
    then show "triple (\<lambda>h. ?P h \<and> token_of env (shown (tree h p)) = Some t) (then_do (refuse_if (t \<noteq> e_original e))
        (andthen (staged_replacement env m p c) (\<lambda>(r, c). atomic_write_manifest (with_replacement p r c m))))
        (\<lambda>_ h. \<exists>m. bracketed d env M p c m h) ?X"
      by (rule triple_then [rotated], intro triple_refuse_to) (use HX in blast)+
  qed
  show "triple (\<lambda>h. (?X h \<and> may d (journal h) = {shown (journal h)}) \<and> read_journal env (shown (journal h)) = Inr m
      \<and> stage_of m = Active)
    (andthen (lift (validate_artifact_path env p)) (\<lambda>p. then_do (refuse_if (pending_commit m \<noteq> None))
      (then_do (refuse_if (p \<in> set (committed m))) (andthen (lift (entry_by_path m p)) (\<lambda>e.
        andthen (token_at env p) (\<lambda>t. then_do (refuse_if (t \<noteq> e_original e))
          (andthen (staged_replacement env m p c) (\<lambda>(r, c). atomic_write_manifest (with_replacement p r c m)))))))))
    (\<lambda>_ h. \<exists>m. bracketed d env M p c m h) ?X"
  proof (rule triple_pre [where P' = ?H], rule triple_andthen, rule triple_lift [where P = ?H], erule HX)
    fix p'
    show "triple (\<lambda>h. ?H h \<and> validate_artifact_path env p = Inr p')
      (then_do (refuse_if (pending_commit m \<noteq> None)) (then_do (refuse_if (p' \<in> set (committed m)))
        (andthen (lift (entry_by_path m p')) (\<lambda>e. andthen (token_at env p') (\<lambda>t. then_do (refuse_if (t \<noteq> e_original e))
          (andthen (staged_replacement env m p' c) (\<lambda>(r, c). atomic_write_manifest (with_replacement p' r c m))))))))
      (\<lambda>_ h. \<exists>m. bracketed d env M p c m h) ?X"
    proof (rule triple_fact [where c = "p' = p"])
      assume p: "p' = p"
      let ?Q = "\<lambda>h. ?H h \<and> pending_commit m = None" and ?Q' = "\<lambda>h. ?H h \<and> pending_commit m = None \<and> p \<notin> set (committed m)"
      have "triple ?Q' (andthen (lift (entry_by_path m p)) (\<lambda>e. andthen (token_at env p) (\<lambda>t. then_do (refuse_if (t \<noteq> e_original e))
          (andthen (staged_replacement env m p c) (\<lambda>(r, c). atomic_write_manifest (with_replacement p r c m))))))
          (\<lambda>_ h. \<exists>m. bracketed d env M p c m h) ?X"
        by (rule triple_andthen, rule triple_lift [where P = ?Q'], use HX in blast, rule triple_pre [OF tail])
          (auto dest!: entry_by_path_Inr simp: entry_paths_def)
      then show ?thesis unfolding p
        by (intro triple_then [where R = ?Q] triple_then [where R = ?Q'] triple_refuse_to) (use HX in blast)+
    qed (auto dest: validate_artifact_path_Inr)
  qed (use loaded_rolling in \<open>auto simp: rolling_def\<close>)
qed


section \<open>While a rollback may still be needed\<close>

text \<open>
  Weaker than \<open>holding\<close>: the manifests to be found differ in their stage, and one may already say that
  everything is restored if everything is.
\<close>

definition backing :: "bool \<Rightarrow> platform \<Rightarrow> manifest \<Rightarrow> manifest \<Rightarrow> host \<Rightarrow> bool" where
  "backing d env M m h \<longleftrightarrow> root_there h \<and> sound env M M \<and> (\<forall>p. tidy (tree h p)) \<and> sound env M m
     \<and> rolling (stage_of m) \<and> recoverable d env m (tree h) (copies h) \<and> False \<notin> may d (here h)
     \<and> (\<forall>f \<in> may d (journal h). \<exists>s. f = journal_file (m\<lparr>stage_of := s\<rparr>)
         \<and> (rolling s \<or> s = Restored \<and> all_original d env M (tree h)))"

lemma recoverable_stage [simp]: "recoverable d env (m\<lparr>stage_of := s\<rparr>) t cs = recoverable d env m t cs"
  by (simp add: recoverable_def candidate_ok_def cong: option.case_cong)

lemma sound_stage: "sound env M m \<Longrightarrow> rolling (stage_of m) \<Longrightarrow> sound env M (m\<lparr>stage_of := s\<rparr>)"
  by (auto simp: sound_def rolling_def intro!: check_stage)

lemma backing_consistent: "backing d env M m h \<Longrightarrow> consistent d env M h"
proof -
  assume b: "backing d env M m h"
  have "stays d env M (tree h) (copies h) f" if "f \<in> may d (journal h)" for f
  proof -
    from b that obtain s where f: "f = journal_file (m\<lparr>stage_of := s\<rparr>)"
      and s: "rolling s \<or> s = Restored \<and> all_original d env M (tree h)" unfolding backing_def by blast
    have sound: "sound env M (m\<lparr>stage_of := s\<rparr>)" and rec: "recoverable d env (m\<lparr>stage_of := s\<rparr>) (tree h) (copies h)"
      using b sound_stage by (simp_all add: backing_def)
    from s show ?thesis
    proof
      assume "rolling s"
      then have "rolling (stage_of (m\<lparr>stage_of := s\<rparr>))" by simp
      with f sound rec show ?thesis unfolding stays_def by blast
    next
      assume "s = Restored \<and> all_original d env M (tree h)"
      then have "stage_of (m\<lparr>stage_of := s\<rparr>) = Restored" "all_original d env M (tree h)" by simp_all
      with f sound show ?thesis unfolding stays_def ending_def by blast
    qed
  qed
  with b show ?thesis unfolding backing_def consistent_def by simp
qed

lemma holding_backing: "holding d env M m h \<Longrightarrow> backing d env M m h"
proof -
  assume h: "holding d env M m h"
  then have "\<exists>s. journal_file m = journal_file (m\<lparr>stage_of := s\<rparr>) \<and> (rolling s \<or> s = Restored \<and> all_original d env M (tree h))"
    by (intro exI [of _ "stage_of m"]) (simp add: holding_def)
  with h show ?thesis unfolding holding_def backing_def consistent_def by simp
qed

lemma backing_change:
  assumes "backing d env M m h" and "recoverable d env m t' (copies h)" and "\<And>p. tidy (t' p)"
    and "all_original d env M (tree h) \<Longrightarrow> all_original d env M t'"
  shows "backing d env M m (h\<lparr>tree := t'\<rparr>)"
  using assms unfolding backing_def by simp blast

lemma backing_durable: "durable (backing d env M m)"
proof -
  have "backing d env M m (at_path p g h)"
    if h: "backing d env M m h" and g: "\<And>s. may d (g s) \<subseteq> may d s" "\<And>s. tidy s \<Longrightarrow> tidy (g s)" for h p g
    unfolding at_path_def
  proof (rule backing_change [OF h])
    show "recoverable d env m ((tree h)(p := g (tree h p))) (copies h)"
      by (rule recoverable_mono [of d env m "tree h"]) (use h g in \<open>simp_all add: backing_def\<close>)
    show "all_original d env M ((tree h)(p := g (tree h p)))" if "all_original d env M (tree h)"
      by (rule all_original_mono [OF that]) (use g in auto)
  qed (use h g in \<open>simp add: backing_def\<close>)
  then show ?thesis
    unfolding durable_def using may_settled may_bytes_synced tidy_settled tidy_bytes_synced by (metis order_refl)
qed

lemma token_of_Absent [simp]: "token_of env Absent = Some (ABSENT_GENERATION env)"
  by (simp add: token_of_def generation_of_def ABSENT_GENERATION_def)

lemma elsewhere_tokens:
  "c \<notin> set (allowlist M) \<Longrightarrow> sound env M m \<Longrightarrow> e \<in> set (artifacts m) \<Longrightarrow>
   tokens_in d env (t(c := s)) (e_path e) T = tokens_in d env t (e_path e) T"
  using sound_paths [of env M m] by (auto simp: tokens_in_def entry_paths_def)

lemma elsewhere_all_original:
  "c \<notin> set (allowlist M) \<Longrightarrow> sound env M M \<Longrightarrow> all_original d env M (t(c := s)) = all_original d env M t"
  by (simp add: all_original_def elsewhere_tokens)

lemma backing_unlink_candidate:
  assumes "backing d env M m h" and "pending_commit m = Some q" and "p_candidate q = Some c"
  shows "backing d env M m (at_path c (installed (quiet_slot Absent)) h)" and "c \<notin> set (allowlist M)"
proof -
  have m: "sound env M m" "sound env M M" "recoverable d env m (tree h) (copies h)"
    using assms(1) by (simp_all add: backing_def)
  from m(3) have "candidate_ok d env m (tree h)" unfolding recoverable_def by (rule conjunct2)
  with assms(2,3) have c: "c \<notin> set (allowlist m)"
    "tokens_in d env (tree h) c {Some (ABSENT_GENERATION env), Some (p_replacement q)}"
    by (simp_all add: candidate_ok_def)
  with sound_allowlist [OF m(1)] show M: "c \<notin> set (allowlist M)" by simp
  let ?t = "(tree h)(c := installed (quiet_slot Absent) (tree h c))"
  have "tokens_in d env ?t c {Some (ABSENT_GENERATION env), Some (p_replacement q)}"
    using c(2) may_installed [of d "quiet_slot Absent" "tree h c"] unfolding tokens_in_def by fastforce
  then have "candidate_ok d env m ?t"
    using assms(2,3) c(1) by (simp add: candidate_ok_def)
  then have "recoverable d env m ?t (copies h)"
    using m elsewhere_tokens [OF M m(1)] by (simp add: recoverable_def)
  then show "backing d env M m (at_path c (installed (quiet_slot Absent)) h)"
    unfolding at_path_def by (rule backing_change [OF assms(1)])
      (use assms(1) M m(2) in \<open>simp_all add: backing_def tidy_installed elsewhere_all_original\<close>)
qed

text \<open>Facts about the host that a change outside the allowlist leaves alone.\<close>

definition elsewhere :: "manifest \<Rightarrow> (host \<Rightarrow> bool) \<Rightarrow> bool" where
  "elsewhere M C \<longleftrightarrow> (\<forall>h c g. c \<notin> set (allowlist M) \<longrightarrow> C h \<longrightarrow> C (at_path c g h))"

lemma triple_cleanup_candidate:
  assumes C: "elsewhere M C"
  shows "triple (\<lambda>h. backing d env M m h \<and> C h) (cleanup_candidate_from_pending env (pending_commit m))
    (\<lambda>_ h. backing d env M m h \<and> C h) (backing d env M m)"
proof (cases "\<exists>q c. pending_commit m = Some q \<and> p_candidate q = Some c")
  case False
  then show ?thesis unfolding cleanup_candidate_from_pending_def
    by (auto intro!: triple_give split: option.splits)
next
  case True
  then obtain q c where q: "pending_commit m = Some q" "p_candidate q = Some c" by blast
  let ?P = "\<lambda>h. backing d env M m h \<and> C h"
  have "triple ?P (then_do (unlink c) (fsync_parent env c)) (\<lambda>_. ?P) (backing d env M m)"
  proof (rule triple_then [where R = ?P])
    show "triple ?P (unlink c) (\<lambda>_. ?P) (backing d env M m)"
      unfolding unlink_def
      by (rule triple_call) (use q backing_unlink_candidate C in \<open>auto simp: elsewhere_def\<close>)
    show "triple ?P (fsync_parent env c) (\<lambda>_. ?P) (backing d env M m)"
      by (rule triple_post, rule triple_fsync_parent [where P = ?P])
        (use q backing_unlink_candidate(2) backing_durable [of d env M m] C in \<open>auto simp: elsewhere_def durable_def\<close>)
  qed
  then show ?thesis
    unfolding cleanup_candidate_from_pending_def q option.case
    by (intro triple_andthen [OF triple_token [where P = ?P]])
      (auto intro!: triple_give triple_then [where R = ?P] triple_refuse_to intro: triple_conseq)
qed

section \<open>Mutations\<close>

lemma triple_ex: "(\<And>m. triple (P m) a Q X) \<Longrightarrow> triple (\<lambda>h. \<exists>m. P m h) a Q X"
  unfolding triple_def by blast

lemma recoverable_install:
  assumes m: "recoverable d env m t cs" "check_manifest env m" and e: "e \<in> set (artifacts m)"
    and new: "\<And>p. p \<in> set (entry_paths m) \<Longrightarrow> p \<noteq> e_path e \<Longrightarrow> t' p = t p"
    and tokens: "tokens_in d env t' (e_path e) {Some (e_original e), e_replacement e}" and cand: "candidate_ok d env m t'"
  shows "recoverable d env m t' cs"
proof -
  have "tokens_in d env t' (e_path x) {Some (e_original x), e_replacement x}" if x: "x \<in> set (artifacts m)" for x
  proof (cases "e_path x = e_path e")
    case True
    with check_distinct [OF m(2)] x e have "x = e" by (auto simp: entry_paths_def distinct_map inj_on_def)
    with tokens show ?thesis by simp
  next
    case False
    with x have "t' (e_path x) = t (e_path x)" by (intro new) (auto simp: entry_paths_def)
    with m(1) x show ?thesis by (simp add: recoverable_def tokens_in_def)
  qed
  with m(1) cand show ?thesis by (simp add: recoverable_def)
qed


lemma holding_change:
  assumes "holding d env M m h" and "recoverable d env m t' (copies h)" and "\<And>p. tidy (t' p)"
  shows "holding d env M m (h\<lparr>tree := t'\<rparr>)"
proof -
  have "stays d env M t' (copies h) (journal_file m)"
    using assms(1,2) unfolding stays_def holding_def by blast
  with assms show ?thesis by (simp add: holding_def consistent_def)
qed

lemma tokens_installed:
  "tokens_in d env t p T \<Longrightarrow> tokens_in d env t' c S \<Longrightarrow> t'' x = installed (t' c) (t p) \<Longrightarrow> tokens_in d env t'' x (T \<union> S)"
  using may_installed [of d "t' c" "t p"] unfolding tokens_in_def by (simp add: image_subset_iff) blast

lemma tokens_removed:
  "tokens_in d env t p T \<Longrightarrow> t' p = installed (quiet_slot Absent) (t p) \<Longrightarrow>
   tokens_in d env t' p (insert (Some (ABSENT_GENERATION env)) T)"
  using may_installed [of d "quiet_slot Absent" "t p"] unfolding tokens_in_def by (simp add: image_subset_iff) fastforce

lemma bracketed_rename:
  assumes b: "bracketed d env M p (Some c) m h"
  shows "holding d env M m (at_path c (installed (quiet_slot Absent)) (at_path p (installed (tree h c)) h))"
proof -
  from b obtain r e where m: "holding d env M m h"
    "pending_commit m = Some \<lparr>p_path = p, p_replacement = r, p_candidate = Some c\<rparr>"
    and e: "e \<in> set (artifacts m)" "e_path e = p" "e_replacement e = Some r"
    and c: "c \<noteq> p" "tokens_in d env (tree h) c {Some r}" unfolding bracketed_def by blast
  let ?t = "(tree h)(p := installed (tree h c) (tree h p), c := installed (quiet_slot Absent) (tree h c))"
  have rec: "recoverable d env m (tree h) (copies h)" and sound: "sound env M m" and con: "consistent d env M h"
    using m(1) by (simp_all add: holding_def)
  have calone: "c \<notin> set (allowlist m)" using rec m(2) by (simp add: recoverable_def candidate_ok_def)
  have "recoverable d env m ?t (copies h)"
  proof (rule recoverable_install [OF rec _ e(1)])
    show "check_manifest env m" using sound by (simp add: sound_def)
    show "?t x = tree h x" if "x \<in> set (entry_paths m)" "x \<noteq> e_path e" for x
      using that e(2) calone sound_paths [OF sound] sound_allowlist [OF sound] by auto
    have "tokens_in d env (tree h) p {Some (e_original e), e_replacement e}"
      using rec e by (auto simp: recoverable_def)
    from tokens_installed [OF this c(2), of ?t p] show "tokens_in d env ?t (e_path e) {Some (e_original e), e_replacement e}"
      using c(1) e(2,3) by (simp add: insert_commute insert_absorb)
    show "candidate_ok d env m ?t"
      using tokens_removed [OF c(2), of ?t] m(2) calone by (simp add: candidate_ok_def)
  qed
  then have "holding d env M m (h\<lparr>tree := ?t\<rparr>)"
    by (rule holding_change [OF m(1)]) (use con in \<open>simp add: consistent_def tidy_installed\<close>)
  then show ?thesis using c(1) by (simp add: at_path_def fun_upd_def)
qed

lemma bracketed_unlink:
  assumes b: "bracketed d env M p None m h"
  shows "holding d env M m (at_path p (installed (quiet_slot Absent)) h)"
proof -
  from b obtain r e where m: "holding d env M m h"
    "pending_commit m = Some \<lparr>p_path = p, p_replacement = r, p_candidate = None\<rparr>"
    and e: "e \<in> set (artifacts m)" "e_path e = p" "e_replacement e = Some r"
    and r: "r = ABSENT_GENERATION env" unfolding bracketed_def by blast
  let ?t = "(tree h)(p := installed (quiet_slot Absent) (tree h p))"
  have rec: "recoverable d env m (tree h) (copies h)" and sound: "sound env M m" and con: "consistent d env M h"
    using m(1) by (simp_all add: holding_def)
  have "recoverable d env m ?t (copies h)"
  proof (rule recoverable_install [OF rec _ e(1)])
    show "check_manifest env m" using sound by (simp add: sound_def)
    have "tokens_in d env (tree h) p {Some (e_original e), e_replacement e}"
      using rec e by (auto simp: recoverable_def)
    from tokens_removed [OF this, of ?t] show "tokens_in d env ?t (e_path e) {Some (e_original e), e_replacement e}"
      using e(2,3) r by (simp add: insert_commute insert_absorb)
    show "candidate_ok d env m ?t" using m(2) by (simp add: candidate_ok_def)
  qed (use e(2) in simp)
  then show ?thesis unfolding at_path_def
    by (rule holding_change [OF m(1)]) (use con in \<open>simp add: consistent_def tidy_installed\<close>)
qed

lemma triple_after:
  "triple (\<lambda>h. consistent d env M h \<and> may d (journal h) = {shown (journal h)}) (after env p)
    (\<lambda>_. consistent d env M) (consistent d env M)"
  unfolding after_def
proof (rule triple_andthen, rule triple_load_active, erule conjunct1)
  fix m
  let ?H = "holding d env M m" and ?X = "consistent d env M"
  have HX: "?H h \<Longrightarrow> ?X h" for h by (rule holding_consistent)
  have commit: "triple ?H (then_do (cleanup_candidate_from_pending env (pending_commit m))
      (atomic_write_manifest (with_commit (p_path q) m))) (\<lambda>_. ?X) ?X" if q: "pending_commit m = Some q" for q
  proof (rule triple_then [where R = ?H])
    let ?C = "\<lambda>h. may d (journal h) = {journal_file m}"
    have "elsewhere M ?C" by (simp add: elsewhere_def at_path_def)
    from triple_cleanup_candidate [OF this, of d env m]
    show "triple ?H (cleanup_candidate_from_pending env (pending_commit m)) (\<lambda>_. ?H) ?X"
      by (rule triple_conseq)
        (auto intro: holding_backing backing_consistent simp: holding_def [of d env M m], auto simp: backing_def)
    show "triple ?H (atomic_write_manifest (with_commit (p_path q) m)) (\<lambda>_. ?X) ?X"
    proof (rule triple_post, rule triple_write_consistent)
      fix h assume h: "?H h"
      have "sound env M (with_commit (p_path q) m)"
        using h q check_with_commit [of env m q] by (auto simp: holding_def sound_def)
      moreover have "recoverable d env (with_commit (p_path q) m) (tree h) (copies h)"
        using h by (simp add: holding_def recoverable_def with_commit_def candidate_ok_def)
      moreover have "rolling (stage_of (with_commit (p_path q) m))"
        using h by (simp add: holding_def with_commit_def)
      ultimately show "?X h \<and> stays d env M (tree h) (copies h) (journal_file (with_commit (p_path q) m))
          \<and> (False \<notin> may d (here h) \<or> ending d env M (tree h) (journal_file (with_commit (p_path q) m)))"
        using h unfolding stays_def holding_def by blast
    qed blast
  qed
  have committing: "triple ?H (commit_mutation env m q (p_path q)) (\<lambda>_. ?X) ?X" if q: "pending_commit m = Some q" for q
  proof -
    let ?p = "p_path q"
    have synced: "triple ?H (if dirs env (dirname ?p) = NoDir then refuse_if (t \<noteq> ABSENT_GENERATION env) else fsync_parent env ?p)
        (\<lambda>_. ?H) ?X" for t
      using HX by (auto intro!: triple_refuse_to triple_fsync_parent_durable holding_durable)
    show ?thesis unfolding commit_mutation_def
      apply (rule triple_then [where R = ?H], rule triple_fsync_regular_durable [OF holding_durable], erule HX)
      apply (rule triple_andthen, rule triple_token [where P = ?H], erule HX)
      apply (rule triple_then [where R = ?H], rule triple_refuse_to, (use HX in blast)+)
      by (rule triple_then [OF synced commit [OF q]])
  qed
  show "triple (\<lambda>h. (?X h \<and> may d (journal h) = {shown (journal h)}) \<and> read_journal env (shown (journal h)) = Inr m
      \<and> stage_of m = Active)
    (andthen (lift (validate_artifact_path env p)) (\<lambda>p. case pending_commit m of None \<Rightarrow> fail_with RecoveryError
       | Some q \<Rightarrow> then_do (refuse_if (p_path q \<noteq> p)) (commit_mutation env m q p))) (\<lambda>_. ?X) ?X"
  proof (rule triple_pre [where P' = ?H], rule triple_andthen, rule triple_lift_to [where Q = "\<lambda>_. ?H"])
    fix p'
    show "triple ?H (case pending_commit m of None \<Rightarrow> fail_with RecoveryError
        | Some q \<Rightarrow> then_do (refuse_if (p_path q \<noteq> p')) (commit_mutation env m q p')) (\<lambda>_. ?X) ?X"
    proof (cases "pending_commit m")
      case None
      then show ?thesis using HX by (auto intro!: triple_fail)
    next
      case (Some q)
      have "triple (\<lambda>h. ?H h \<and> p_path q = p') (commit_mutation env m q p') (\<lambda>_. ?X) ?X"
        by (rule triple_fact [where c = "p_path q = p'"]) (auto intro: triple_pre [OF committing [OF Some]])
      then show ?thesis unfolding Some option.case
        by (rule triple_then [rotated], intro triple_refuse_to) (use HX in blast)+
    qed
  qed (use loaded_rolling HX in \<open>auto simp: rolling_def\<close>)
qed


lemma holding_synced: "holding d env M m h \<Longrightarrow> consistent d env M h \<and> may d (journal h) = {shown (journal h)}"
  unfolding holding_def using shown_may [of "journal h" d] by auto

lemma bracketed_holding: "bracketed d env M p c m h \<Longrightarrow> holding d env M m h"
  by (simp add: bracketed_def)

lemma triple_replace:
  assumes "digest_ok env"
  shows "triple (\<lambda>h. consistent d env M h \<and> may d (journal h) = {shown (journal h)}) (replace env p c)
    (\<lambda>_. consistent d env M) (consistent d env M)"
  unfolding replace_def
proof (rule triple_then [OF triple_before [OF assms]], rule triple_ex)
  fix m
  let ?B = "bracketed d env M p (Some c) m" and ?H = "holding d env M m" and ?X = "consistent d env M"
  have BX: "?B h \<Longrightarrow> ?X h" and HX: "?H h \<Longrightarrow> ?X h" for h by (simp_all add: bracketed_def holding_def)
  have moved: "triple ?B (rename c p) (\<lambda>_. ?H) ?X"
    unfolding rename_def
  proof (rule triple_andthen, rule triple_look [where P = ?B], erule BX)
    show "triple (\<lambda>h. ?B h \<and> n = shown (tree h c)) (if n = Absent then fail_with OSError
        else call (\<lambda>h. at_path c (installed (quiet_slot Absent)) (at_path p (installed (tree h c)) h))) (\<lambda>_. ?H) ?X" for n
      using BX by (auto intro!: triple_fail triple_call bracketed_rename)
  qed
  have "triple ?B (several [rename c p, fsync_regular p, fsync_parent env p, after env p]) (\<lambda>_. ?X) ?X"
    by (rule triple_several_Cons [OF moved], rule triple_several_Cons [OF triple_fsync_regular_durable [OF holding_durable]],
        erule HX, rule triple_several_Cons [OF triple_fsync_parent_durable [OF holding_durable]], erule HX,
        rule triple_several_Cons [OF triple_pre [OF triple_after]], erule holding_synced, rule triple_several_Nil)
  note tail = triple_pre [OF this]
  show "triple ?B (andthen (lift (canonical_path p)) (\<lambda>p'. andthen (lift (canonical_path c)) (\<lambda>c'.
      several [rename c' p', fsync_regular p', fsync_parent env p', after env p']))) (\<lambda>_. ?X) ?X"
  proof (rule triple_andthen, rule triple_lift [where P = ?B], erule BX, rule triple_andthen, rule triple_lift)
    fix p' c' h assume "?B h \<and> canonical_path p = Inr p'" then show "?X h" using BX by blast
  next
    fix p' c'
    show "triple (\<lambda>h. (?B h \<and> canonical_path p = Inr p') \<and> canonical_path c = Inr c')
        (several [rename c' p', fsync_regular p', fsync_parent env p', after env p']) (\<lambda>_. ?X) ?X"
    proof (rule triple_fact [where c = "p' = p \<and> c' = c"])
      assume e: "p' = p \<and> c' = c"
      show ?thesis unfolding e [THEN conjunct1] e [THEN conjunct2] by (rule tail) simp
    qed (auto dest!: canonical_path_Inr)
  qed
qed

lemma triple_remove:
  assumes "digest_ok env"
  shows "triple (\<lambda>h. consistent d env M h \<and> may d (journal h) = {shown (journal h)}) (remove env p)
    (\<lambda>_. consistent d env M) (consistent d env M)"
  unfolding remove_def
proof (rule triple_then [OF triple_before [OF assms]], rule triple_ex)
  fix m
  let ?B = "bracketed d env M p None m" and ?H = "holding d env M m" and ?X = "consistent d env M"
  have BX: "?B h \<Longrightarrow> ?X h" and HX: "?H h \<Longrightarrow> ?X h" for h by (simp_all add: bracketed_def holding_def)
  have gone: "triple ?B (then_do (unlink p) (fsync_parent env p)) (\<lambda>_. ?H) ?X"
    by (rule triple_then [where R = ?H], unfold unlink_def, rule triple_call)
      (auto intro: bracketed_unlink BX HX triple_fsync_parent_durable holding_durable)
  have "triple ?B (andthen (look p) (\<lambda>n. if n = Absent then give () else then_do (unlink p) (fsync_parent env p))) (\<lambda>_. ?H) ?X"
  proof (rule triple_andthen, rule triple_look [where P = ?B], erule BX)
    show "triple (\<lambda>h. ?B h \<and> n = shown (tree h p)) (if n = Absent then give ()
        else then_do (unlink p) (fsync_parent env p)) (\<lambda>_. ?H) ?X" for n
      by (auto intro!: triple_give bracketed_holding triple_pre [OF gone])
  qed
  then show "triple ?B (then_do (andthen (look p) (\<lambda>n. if n = Absent then give ()
      else then_do (unlink p) (fsync_parent env p))) (after env p)) (\<lambda>_. ?X) ?X"
    by (rule triple_then) (rule triple_pre [OF triple_after], erule holding_synced)
qed

end
