(* ===== verification/DeploySafety.thy ===== *)
theory DeploySafety
  imports DeployInvariant
begin

text \<open>
  Completion and recovery of a deployment keep the invariant, and histories of commands, failures, kills and
  power losses end with all artifacts as they were or all as deployed.
\<close>

section \<open>Ending\<close>

definition closing :: "bool \<Rightarrow> platform \<Rightarrow> manifest \<Rightarrow> host \<Rightarrow> bool" where
  "closing d env M h \<longleftrightarrow> root_there h \<and> sound env M M \<and> (\<forall>p. tidy (tree h p))
     \<and> (\<forall>f \<in> may d (journal h). ending d env M (tree h) f)"

lemma closing_consistent: "closing d env M h \<Longrightarrow> consistent d env M h"
  by (simp add: closing_def consistent_def stays_def)

lemma closing_over: "closing d env M h \<Longrightarrow> over d env M (tree h)"
  unfolding closing_def using ending_over shown_may by blast

lemma closing_item:
  assumes "closing d env M h"
  shows "closing d env M (h\<lparr>journal := installed (quiet_slot Missing) (journal h)\<rparr>)"
    and "closing d env M (h\<lparr>journal := quiet_slot Missing\<rparr>)"
proof -
  have "ending d env M (tree h) Missing" using closing_over [OF assms] by (simp add: ending_def)
  then show "closing d env M (h\<lparr>journal := installed (quiet_slot Missing) (journal h)\<rparr>)"
    "closing d env M (h\<lparr>journal := quiet_slot Missing\<rparr>)"
    using assms may_installed [of d "quiet_slot Missing" "journal h"] unfolding closing_def by auto
qed

lemma triple_cleanup:
  "triple (\<lambda>h. closing d env M h \<and> tree h = t) (cleanup_pending env)
     (\<lambda>_ h. closing d env M h \<and> tree h = t \<and> \<not> shown (here h)) (closing d env M)"
proof -
  let ?P = "\<lambda>h. closing d env M h \<and> tree h = t" and ?X = "closing d env M"
  let ?Q = "\<lambda>h. closing d env M h \<and> tree h = t \<and> \<not> shown (here h)"
  have item: "triple ?P (unlink_item n) (\<lambda>_. ?P) ?X" for n
    unfolding unlink_item_def unlink_copy_def
    using closing_item(1) by (auto intro!: triple_call simp: at_copy_def closing_def)
  have gone: "triple ?P (rmtree env) (\<lambda>_. ?Q) ?X"
    unfolding rmtree_def
  proof (rule triple_andthen, rule triple_post, rule triple_ask [where P = ?P], rule conjunct1, assumption)
    fix names
    have last: "triple ?P (andthen (ask present_items) (\<lambda>left. if left \<noteq> [] then fail_with OSError
        else call (\<lambda>h. h\<lparr>here := installed (quiet_slot False) (here h)\<rparr>))) (\<lambda>_. ?Q) ?X"
      by (rule triple_andthen, rule triple_ask) (auto intro!: triple_fail triple_call simp: closing_def)
    show "triple ?P (then_do (each unlink_item names) (andthen (ask present_items) (\<lambda>left. if left \<noteq> []
        then fail_with OSError else call (\<lambda>h. h\<lparr>here := installed (quiet_slot False) (here h)\<rparr>)))) (\<lambda>_. ?Q) ?X"
      by (rule triple_then [OF triple_each last]) (rule item)
  qed
  have synced: "triple ?Q (fsync_root env) (\<lambda>_. ?Q) ?X"
    unfolding fsync_root_def
    by (rule triple_then [where R = ?Q], rule triple_open, simp, rule triple_call)
      (use closing_item(2) in \<open>auto simp: sync_root_def closing_def\<close>)
  show ?thesis unfolding cleanup_pending_def
    by (rule triple_andthen, rule triple_ask)
      (auto intro!: triple_give triple_conseq [OF triple_then [OF gone synced]])
qed

definition calm :: "bool \<Rightarrow> manifest \<Rightarrow> (string \<Rightarrow> node slot) \<Rightarrow> bool" where
  "calm d M t \<longleftrightarrow> (\<forall>p \<in> set (allowlist M). may d (t p) = {shown (t p)})"

lemma calm_tokens:
  "calm d M t \<Longrightarrow> p \<in> set (allowlist M) \<Longrightarrow> token_of env (shown (t p)) = Some k \<Longrightarrow> tokens_in d env t p {Some k}"
  by (simp add: calm_def tokens_in_def)

lemma deployed_stage [simp]: "deployed d env (m\<lparr>stage_of := s\<rparr>) t = deployed d env m t"
  by (simp add: deployed_def expected_def)

lemma triple_complete:
  "triple (\<lambda>h. consistent d env M h \<and> may d (journal h) = {shown (journal h)} \<and> calm d M (tree h)) (complete env)
    (\<lambda>_ h. closing d env M h \<and> \<not> shown (here h) \<and> (\<exists>m. sound env M m \<and> deployed d env m (tree h))) (consistent d env M)"
  unfolding complete_def
proof (rule triple_andthen, rule triple_load_active, erule conjunct1)
  fix m
  let ?X = "consistent d env M" and ?P = "\<lambda>h. holding d env M m h \<and> calm d M (tree h)"
  let ?Q = "\<lambda>_ h. closing d env M h \<and> \<not> shown (here h) \<and> (\<exists>m. sound env M m \<and> deployed d env m (tree h))"
  have PX: "?P h \<Longrightarrow> ?X h" for h by (simp add: holding_def)
  let ?done = "m\<lparr>stage_of := Complete\<rparr>"
  let ?R = "\<lambda>h. ?P h \<and> deployed d env m (tree h)"
  have checks: "triple ?P (each (\<lambda>e. andthen (token_at env (e_path e)) (\<lambda>t.
      refuse_if (Some t \<noteq> (if e_path e \<in> set (committed m) then e_replacement e else Some (e_original e))))) (artifacts m))
      (\<lambda>_. ?R) ?X"
  proof (rule triple_post, rule triple_each_check [where P = ?P and X = ?X and
        C = "\<lambda>e h. token_of env (shown (tree h (e_path e))) = expected m e \<and> expected m e \<noteq> None"])
    show "triple P (andthen (token_at env (e_path e)) (\<lambda>t. refuse_if (Some t \<noteq> (if e_path e \<in> set (committed m)
        then e_replacement e else Some (e_original e)))))
      (\<lambda>_ h. P h \<and> token_of env (shown (tree h (e_path e))) = expected m e \<and> expected m e \<noteq> None) ?X"
      if "\<And>h. P h \<Longrightarrow> ?X h" for e P
      by (rule triple_andthen, rule triple_token [where P = P], erule that, rule triple_refuse_to)
        (use that in \<open>auto simp: expected_def split: if_splits dest!: sym [of "Some _"]\<close>)
    show "?R h" if "?P h \<and> (\<forall>e \<in> set (artifacts m). token_of env (shown (tree h (e_path e))) = expected m e \<and> expected m e \<noteq> None)"
      for h
    proof -
      have "e_path e \<in> set (allowlist M)" if "e \<in> set (artifacts m)" for e
        using that \<open>?P h \<and> _\<close> sound_paths [of env M m] by (auto simp: holding_def entry_paths_def)
      with that show ?thesis unfolding deployed_def by (metis calm_tokens not_Some_eq)
    qed
  qed (rule PX)
  have sound: "sound env M ?done" if "?R h" for h
    using that sound_stage by (auto simp: holding_def)
  have committing: "triple ?R (persist_state m Complete)
      (\<lambda>_ h. closing d env M h \<and> sound env M ?done \<and> deployed d env ?done (tree h)) ?X"
    unfolding persist_state_def
  proof (rule triple_post, rule triple_write_consistent)
    fix h assume h: "?R h"
    then have e: "ending d env M (tree h) (journal_file ?done)"
      using sound [OF h] unfolding ending_def by (auto intro!: exI [of _ ?done])
    with PX h show "?X h \<and> stays d env M (tree h) (copies h) (journal_file ?done)
        \<and> (False \<notin> may d (here h) \<or> ending d env M (tree h) (journal_file ?done))" by (simp add: stays_def)
  next
    fix h assume "?X h \<and> (\<exists>g. ?R g \<and> h = g\<lparr>journal := quiet_slot (journal_file ?done)\<rparr>)"
    then obtain g where g: "?X h" "?R g" "h = g\<lparr>journal := quiet_slot (journal_file ?done)\<rparr>" by blast
    have "ending d env M (tree h) (journal_file ?done)"
      using sound [OF g(2)] g(2,3) unfolding ending_def by (auto intro!: exI [of _ ?done])
    with g sound [OF g(2)] show "closing d env M h \<and> sound env M ?done \<and> deployed d env ?done (tree h)"
      by (simp add: closing_def consistent_def)
  qed
  have cleaned: "triple (\<lambda>h. closing d env M h \<and> sound env M ?done \<and> deployed d env ?done (tree h)) (cleanup_pending env) ?Q ?X"
  proof (rule tripleI)
    fix ps h r qs h' assume h: "closing d env M h \<and> sound env M ?done \<and> deployed d env ?done (tree h)"
      and run: "cleanup_pending env ps h = (r, qs, h')"
    from tripleD [OF triple_cleanup [where d = d and env = env and M = M and t = "tree h"] _ run] h
    show "meets ?Q ?X r h'" by (cases r) (auto intro: closing_consistent)
  qed
  show "triple (\<lambda>h. (?X h \<and> may d (journal h) = {shown (journal h)} \<and> calm d M (tree h))
      \<and> read_journal env (shown (journal h)) = Inr m \<and> stage_of m = Active)
    (then_do (refuse_if (pending_commit m \<noteq> None)) (then_do (each (\<lambda>e. andthen (token_at env (e_path e)) (\<lambda>t.
         refuse_if (Some t \<noteq> (if e_path e \<in> set (committed m) then e_replacement e else Some (e_original e))))) (artifacts m))
       (then_do (persist_state m Complete) (cleanup_pending env)))) ?Q ?X"
    apply (rule triple_pre [where P' = ?P])
     apply (rule triple_then [where R = ?P], rule triple_refuse_to, (use PX in blast)+)
     apply (rule triple_then [OF checks], rule triple_then [OF committing cleaned])
    using loaded_rolling by (auto simp: rolling_def)
qed


section \<open>Rolling back\<close>

lemma triple_preflight:
  assumes "\<And>h. P h \<Longrightarrow> X h"
  shows "triple P (preflight_recovery env m) (\<lambda>es h. P h \<and> set es \<subseteq> set (artifacts m)) X"
  unfolding preflight_recovery_def
proof (rule triple_andthen, rule triple_gather [where P = P and X = X and C = "\<lambda>e y h. fst y = e"])
  show "triple P (changed_entry env e) (\<lambda>y h. P h \<and> fst y = e) X" if P: "\<And>h. P h \<Longrightarrow> X h" for e P
    unfolding changed_entry_def
    by (rule triple_then [where R = P], rule triple_post, rule triple_integrity [where P = P], erule P, simp,
        rule triple_andthen, rule triple_token [where P = P], erule P)
      (auto intro!: triple_give triple_then [where R = P] triple_refuse_to intro: P)
  fix rs :: "(entry \<times> bool) list"
  show "triple (\<lambda>h. P h \<and> list_all2 (\<lambda>e y. fst y = e) (artifacts m) rs)
    (let changed = map fst (filter snd rs) in then_do (refuse_if (\<not> set (map e_path changed) \<subseteq> set (journaled m)))
       (give (concat (map (\<lambda>p. filter (\<lambda>e. e_path e = p) changed) (journaled m)))))
    (\<lambda>es h. P h \<and> set es \<subseteq> set (artifacts m)) X"
  proof (rule triple_fact [where c = "map fst rs = artifacts m"])
    assume e: "map fst rs = artifacts m"
    have "fst y \<in> set (artifacts m)" if "y \<in> set rs" for y using e [symmetric] that by simp
    then show ?thesis unfolding Let_def
      by (intro triple_then [where R = P] triple_refuse_to triple_give) (auto intro: assms)
  qed (auto simp: list_all2_conv_all_nth intro: nth_equalityI)
qed (rule assms)

lemma files_only_backing: "files_only (backing d env M m)"
  by (simp add: files_only_def backing_def)

lemma files_only_conj: "files_only P \<Longrightarrow> files_only Q \<Longrightarrow> files_only (\<lambda>h. P h \<and> Q h)"
  by (simp add: files_only_def)

lemma files_only_tree: "files_only (\<lambda>h. C (tree h))"
  by (simp add: files_only_def)

lemma files_only_closing: "files_only (closing d env M)"
  by (simp add: files_only_def closing_def)

lemma triple_persist_backing:
  assumes "rolling s"
  shows "triple (\<lambda>h. backing d env M m h \<and> C (tree h)) (persist_state m s)
    (\<lambda>_ h. backing d env M m h \<and> C (tree h)) (backing d env M m)"
  unfolding persist_state_def
proof (rule triple_write)
  let ?f = "journal_file (m\<lparr>stage_of := s\<rparr>)"
  fix h assume h: "backing d env M m h \<and> C (tree h)"
  have new: "\<exists>s'. ?f = journal_file (m\<lparr>stage_of := s'\<rparr>) \<and> (rolling s' \<or> s' = Restored \<and> all_original d env M (tree h))"
    using assms by blast
  show "backing d env M m h" using h by blast
  have sub: "may d (installed (quiet_slot ?f) (journal h)) \<subseteq> insert ?f (may d (journal h))"
    using may_installed [of d "quiet_slot ?f" "journal h"] by simp
  then show "backing d env M m (h\<lparr>journal := installed (quiet_slot ?f) (journal h)\<rparr>)"
    using h new unfolding backing_def by (simp add: subset_iff) blast
  show "backing d env M m (h\<lparr>journal := quiet_slot ?f\<rparr>) \<and> C (tree (h\<lparr>journal := quiet_slot ?f\<rparr>))"
    using h new unfolding backing_def by simp
qed

lemma triple_mark_failed: "triple (backing d env M m) (mark_failed m) (\<lambda>_. backing d env M m) (backing d env M m)"
  unfolding mark_failed_def
  by (rule triple_swallow, rule triple_conseq [OF triple_persist_backing [where C = "\<lambda>_. True"]]) (auto simp: rolling_def)

lemma tokens_in_other: "p \<in> A \<Longrightarrow> c \<notin> A \<Longrightarrow> tokens_in d env (t(p := s)) c T = tokens_in d env t c T"
  by (auto simp: tokens_in_def)

lemma backing_put:
  assumes b: "backing d env M m h" and e: "e \<in> set (artifacts m)" and n: "token_of env n = Some (e_original e)"
  shows "backing d env M m (at_path (e_path e) (installed (quiet_slot n)) h)"
proof -
  let ?t = "(tree h)(e_path e := installed (quiet_slot n) (tree h (e_path e)))"
  have m: "recoverable d env m (tree h) (copies h)" "sound env M m" "sound env M M" "\<And>p. tidy (tree h p)"
    using b by (simp_all add: backing_def)
  have added: "tokens_in d env ?t (e_path e) T" if "tokens_in d env (tree h) (e_path e) T" "Some (e_original e) \<in> T" for T
  proof -
    have "tokens_in d env (\<lambda>_. quiet_slot n) (e_path e) {Some (e_original e)}" by (simp add: tokens_in_def n)
    from tokens_installed [OF that(1) this, of ?t "e_path e"] that(2) show ?thesis by (simp add: insert_absorb)
  qed
  have path: "e_path e \<in> set (allowlist m)"
    using sound_paths [OF m(2)] sound_allowlist [OF m(2)] e by (auto simp: entry_paths_def)
  show ?thesis unfolding at_path_def
  proof (rule backing_change [OF b])
    show "recoverable d env m ?t (copies h)"
    proof (rule recoverable_install [OF m(1) _ e])
      show "check_manifest env m" using m(2) by (simp add: sound_def)
      show "tokens_in d env ?t (e_path e) {Some (e_original e), e_replacement e}"
        by (rule added) (use m(1) e in \<open>simp_all add: recoverable_def\<close>)
      have "candidate_ok d env m (tree h)" using m(1) unfolding recoverable_def by (rule conjunct2)
      then show "candidate_ok d env m ?t"
        using tokens_in_other [OF path] unfolding candidate_ok_def by (auto split: option.splits)
    qed simp
    show "all_original d env M ?t" if o: "all_original d env M (tree h)"
    proof -
      from o have "all_original d env m (tree h)" using all_original_base [of m M] m(2) by (simp add: sound_def)
      then have "tokens_in d env ?t (e_path x) {Some (e_original x)}" if x: "x \<in> set (artifacts m)" for x
      proof (cases "e_path x = e_path e")
        case True
        with check_distinct [of env m] m(2) x e have "x = e"
          by (auto simp: sound_def entry_paths_def distinct_map inj_on_def)
        with added [of "{Some (e_original e)}"] x \<open>all_original d env m (tree h)\<close> show ?thesis
          by (simp add: all_original_def)
      next
        case False
        with x \<open>all_original d env m (tree h)\<close> show ?thesis by (simp add: all_original_def tokens_in_def)
      qed
      then have "all_original d env m ?t" by (simp add: all_original_def)
      then show ?thesis using all_original_base [of m M] m(2) by (simp add: sound_def)
    qed
    show "tidy (?t p)" for p using m(4) by (simp add: tidy_installed)
  qed
qed

text \<open>An entry put back, and then its directory synced.\<close>

definition placed :: "bool \<Rightarrow> platform \<Rightarrow> manifest \<Rightarrow> manifest \<Rightarrow> string \<Rightarrow> node \<Rightarrow> host \<Rightarrow> bool" where
  "placed d env M m p n h \<longleftrightarrow> backing d env M m h
     \<and> (\<exists>g. calm d M (tree g) \<and> h = at_path p (installed (quiet_slot n)) g)"

lemma triple_place:
  assumes "e \<in> set (artifacts m)" and "token_of env n = Some (e_original e)"
  shows "triple (\<lambda>h. backing d env M m h \<and> calm d M (tree h)) (call (at_path (e_path e) (installed (quiet_slot n))))
    (\<lambda>_. placed d env M m (e_path e) n) (backing d env M m)"
  by (rule triple_call) (use backing_put [OF _ assms] in \<open>auto simp: placed_def\<close>)

lemma triple_settle:
  "triple (placed d env M m p n) (call (at_path p settled))
    (\<lambda>_ h. backing d env M m h \<and> calm d M (tree h)) (backing d env M m)"
proof (rule triple_call)
  fix h assume h: "placed d env M m p n h"
  then show "backing d env M m h" by (simp add: placed_def)
  from h obtain g where g: "calm d M (tree g)" "h = at_path p (installed (quiet_slot n)) g"
    unfolding placed_def by blast
  have "tree (at_path p settled h) = (tree g)(p := quiet_slot n)"
    unfolding g(2) by (simp add: at_path_def settled_def installed_def quiet_slot_def fun_upd_def fun_eq_iff)
  with g(1) have "calm d M (tree (at_path p settled h))" by (simp add: calm_def)
  with h backing_durable [of d env M m] show "backing d env M m (at_path p settled h) \<and> calm d M (tree (at_path p settled h))"
    by (simp add: durable_def placed_def)
qed

lemma synced_written [simp]: "synced (written n) = quiet_slot n"
  by (simp add: synced_def written_def)

lemma triple_put_back:
  assumes e: "e \<in> set (artifacts m)"
  shows "triple (\<lambda>h. backing d env M m h \<and> calm d M (tree h)) (put_back e)
    (\<lambda>_ h. backing d env M m h \<and> calm d M (tree h)) (backing d env M m)"
    (is "triple ?P _ _ ?X")
proof -
  have copy: "copy_ok d env (copies h) e" if "?P h" for h
    using that e by (auto simp: backing_def recoverable_def)
  have both: "triple ?P (then_do (call (at_path (e_path e) (installed (quiet_slot n)))) (call (at_path (e_path e) settled))) (\<lambda>_. ?P) ?X"
    and listed: "triple ?P (several [call (at_path (e_path e) (installed (quiet_slot n))), call (at_path (e_path e) settled)]) (\<lambda>_. ?P) ?X"
    if "token_of env n = Some (e_original e)" for n
    by (rule triple_then [OF triple_place [OF e that] triple_settle],
        rule triple_several_Cons [OF triple_place [OF e that] triple_several_Cons [OF triple_settle triple_several_Nil]])
  have paused: "triple ?P (several (pause # ms)) (\<lambda>_. ?P) ?X" if "triple ?P (several ms) (\<lambda>_. ?P) ?X" for ms
    by (rule triple_several_Cons [OF triple_pause that]) simp
  show ?thesis
  proof (cases "e_kind e")
    case AbsentArtifact
    have tok: "token_of env Absent = Some (e_original e)" if "?P h" for h
      using copy [OF that] AbsentArtifact by (simp add: copy_ok_def)
    show ?thesis unfolding put_back_def AbsentArtifact artifact.case unlink_def
      by (rule triple_fact [where c = "token_of env Absent = Some (e_original e)"], erule tok, erule both)
  next
    case (LinkArtifact target uid gid)
    have "triple ?P (put_back e) (\<lambda>_. ?P) ?X" if "token_of env (restored_node (e_kind e) []) = Some (e_original e)"
      unfolding put_back_def LinkArtifact artifact.case
      by (rule paused, rule paused, rule listed) (use that LinkArtifact in simp)
    moreover have "token_of env (restored_node (e_kind e) []) = Some (e_original e)" if "?P h" for h
      using copy [OF that] LinkArtifact by (simp add: copy_ok_def)
    ultimately show ?thesis by (rule triple_fact [rotated])
  next
    case (FileArtifact name digest len mode uid gid)
    let ?put = "\<lambda>b. several [pause, pause, pause, pause, pause,
        call (at_path (e_path e) (installed (synced (written (restored_node (e_kind e) b))))), call (at_path (e_path e) settled)]"
    have placing: "triple (\<lambda>h. ?P h \<and> Some b = shown (copy_of h name)) (?put b) (\<lambda>_. ?P) ?X" for b
    proof (rule triple_fact [where c = "token_of env (restored_node (e_kind e) b) = Some (e_original e)"])
      show "token_of env (restored_node (e_kind e) b) = Some (e_original e)" if "?P h \<and> Some b = shown (copy_of h name)" for h
      proof -
        from copy [of h] that FileArtifact obtain b' where b': "may d (copy_of h name) = {Some b'}"
          "token_of env (restored_node (e_kind e) b') = Some (e_original e)" by (auto simp: copy_ok_def copy_of_def)
        have "shown (copy_of h name) = Some b'" using shown_may [of "copy_of h name" d] b'(1) by simp
        with that b'(2) show ?thesis by simp
      qed
      assume t: "token_of env (restored_node (e_kind e) b) = Some (e_original e)"
      have "triple ?P (?put b) (\<lambda>_. ?P) ?X" unfolding synced_written
        by (rule paused, rule paused, rule paused, rule paused, rule paused, rule listed [OF t])
      then show "triple (\<lambda>h. ?P h \<and> Some b = shown (copy_of h name)) (?put b) (\<lambda>_. ?P) ?X" by (rule triple_pre) blast
    qed
    have chosen: "triple (\<lambda>h. ?P h \<and> c = shown (copy_of h name)) (case c of None \<Rightarrow> fail_with OSError | Some b \<Rightarrow> ?put b) (\<lambda>_. ?P) ?X" for c
    proof (cases c)
      case None
      then show ?thesis by (auto intro: triple_fail)
    next
      case (Some b)
      show ?thesis unfolding Some option.case by (rule placing)
    qed
    show ?thesis
      unfolding put_back_def FileArtifact artifact.case
      by (rule triple_then [OF triple_pause triple_andthen [OF triple_ask chosen [unfolded FileArtifact]]]) simp
  qed
qed

lemma triple_restore_entry:
  assumes e: "e \<in> set (artifacts m)"
  shows "triple (\<lambda>h. backing d env M m h \<and> calm d M (tree h)) (restore_entry env e)
    (\<lambda>_ h. backing d env M m h \<and> calm d M (tree h)) (backing d env M m)"
    (is "triple ?P _ _ ?X")
  unfolding restore_entry_def
proof (rule triple_andthen, rule triple_token [where P = ?P], erule conjunct1)
  fix t
  have tail: "triple ?P (then_do (put_back e) (andthen (token_at env (e_path e)) (\<lambda>t'. refuse_if (t' \<noteq> e_original e)))) (\<lambda>_. ?P) ?X"
    by (rule triple_then [OF triple_put_back [OF e]], rule triple_andthen, rule triple_token [where P = ?P], erule conjunct1,
        rule triple_refuse_to) simp_all
  show "triple (\<lambda>h. ?P h \<and> token_of env (shown (tree h (e_path e))) = Some t) (if t = e_original e then give ()
     else then_do (refuse_if (Some t \<noteq> e_replacement e)) (
       then_do (lift (safe_directory env False False (dirname (e_path e)))) (
       then_do (open_directory env False (dirname (e_path e))) (
       then_do (put_back e) (andthen (token_at env (e_path e)) (\<lambda>t'. refuse_if (t' \<noteq> e_original e))))))) (\<lambda>_. ?P) ?X"
    by (auto intro!: triple_give triple_then [where R = ?P] triple_refuse_to triple_lift_to triple_open tail)
qed

lemma triple_verify:
  "triple (\<lambda>h. backing d env M m h \<and> calm d M (tree h)) (verify_all_original env m)
    (\<lambda>_ h. backing d env M m h \<and> all_original d env M (tree h)) (backing d env M m)"
    (is "triple ?P _ _ ?X")
  unfolding verify_all_original_def
proof (rule triple_post, rule triple_each_check [where P = ?P and X = ?X and
      C = "\<lambda>e h. token_of env (shown (tree h (e_path e))) = Some (e_original e)"])
  show "triple P (andthen (token_at env (e_path e)) (\<lambda>t. refuse_if (t \<noteq> e_original e)))
      (\<lambda>_ h. P h \<and> token_of env (shown (tree h (e_path e))) = Some (e_original e)) ?X" if "\<And>h. P h \<Longrightarrow> ?X h" for e P
    by (rule triple_andthen, rule triple_token [where P = P], erule that, rule triple_refuse_to) (use that in auto)
  fix h assume h: "?P h \<and> (\<forall>e \<in> set (artifacts m). token_of env (shown (tree h (e_path e))) = Some (e_original e))"
  then have m: "sound env M m" by (simp add: backing_def)
  have "e_path e \<in> set (allowlist M)" if "e \<in> set (artifacts m)" for e
    using that sound_paths [OF m] by (auto simp: entry_paths_def)
  with h have "all_original d env m (tree h)" unfolding all_original_def by (blast intro: calm_tokens)
  with h m all_original_base [of m M] show "?X h \<and> all_original d env M (tree h)" by (simp add: sound_def)
qed simp

lemma triple_restored:
  "triple (\<lambda>h. backing d env M m h \<and> all_original d env M (tree h)) (persist_state m Restored)
    (\<lambda>_ h. closing d env M h \<and> all_original d env M (tree h)) (backing d env M m)"
  unfolding persist_state_def
proof (rule triple_write)
  let ?f = "journal_file (m\<lparr>stage_of := Restored\<rparr>)"
  fix h assume h: "backing d env M m h \<and> all_original d env M (tree h)"
  show "backing d env M m h" using h by blast
  show "backing d env M m (h\<lparr>journal := installed (quiet_slot ?f) (journal h)\<rparr>)"
    using h may_installed [of d "quiet_slot ?f" "journal h"] unfolding backing_def by (simp add: subset_iff) blast
  have "sound env M (m\<lparr>stage_of := Restored\<rparr>)" using h sound_stage by (simp add: backing_def)
  then have "ending d env M (tree h) ?f"
    using h unfolding ending_def by (auto intro!: exI [of _ "m\<lparr>stage_of := Restored\<rparr>"])
  with h show "closing d env M (h\<lparr>journal := quiet_slot ?f\<rparr>) \<and> all_original d env M (tree (h\<lparr>journal := quiet_slot ?f\<rparr>))"
    by (simp add: closing_def backing_def)
qed

lemma triple_finish:
  "triple (\<lambda>h. closing d env M h \<and> all_original d env M (tree h)) (finish_restored env m)
    (\<lambda>_ h. closing d env M h \<and> all_original d env M (tree h) \<and> \<not> shown (here h)) (closing d env M)"
  unfolding finish_restored_def
proof (rule triple_then)
  let ?P = "\<lambda>h. closing d env M h \<and> all_original d env M (tree h)"
  show "triple ?P (resume_runtime_units env m) (\<lambda>_. ?P) (closing d env M)"
    by (rule aside_triple [OF aside_resume]) (simp_all add: files_only_conj files_only_closing files_only_tree)
  show "triple ?P (cleanup_pending env) (\<lambda>_ h. closing d env M h \<and> all_original d env M (tree h) \<and> \<not> shown (here h)) (closing d env M)"
  proof (rule tripleI)
    fix ps h r qs h' assume h: "?P h" and run: "cleanup_pending env ps h = (r, qs, h')"
    from tripleD [OF triple_cleanup [where d = d and env = env and M = M and t = "tree h"] _ run] h
    show "meets (\<lambda>_ h. closing d env M h \<and> all_original d env M (tree h) \<and> \<not> shown (here h)) (closing d env M) r h'"
      by (cases r) auto
  qed
qed

lemma triple_restore_all:
  assumes "set es \<subseteq> set (artifacts m)"
  shows "triple (\<lambda>h. backing d env M m h \<and> calm d M (tree h)) (restore_all env m es)
    (\<lambda>_ h. closing d env M h \<and> all_original d env M (tree h)) (backing d env M m)"
    (is "triple ?P _ _ ?X")
proof -
  have restoring: "triple ?P (each (restore_entry env) (rev es)) (\<lambda>_. ?P) ?X"
    by (rule triple_each, rule triple_restore_entry) (use assms in auto)
  have runtime: "triple ?P (restore_runtime env m) (\<lambda>_. ?P) ?X"
    by (rule aside_triple [OF aside_restore_runtime]) (simp_all add: files_only_conj files_only_backing files_only_tree)
  show ?thesis unfolding restore_all_def
    by (rule triple_several_Cons [OF restoring], rule triple_several_Cons [OF runtime], rule triple_several_Cons [OF triple_verify],
        rule triple_several_Cons [OF triple_restored], rule triple_several_Nil)
qed

lemma triple_begin_restore:
  "triple (\<lambda>h. backing d env M m h \<and> calm d M (tree h)) (begin_restore env m)
    (\<lambda>es h. (backing d env M m h \<and> calm d M (tree h)) \<and> set es \<subseteq> set (artifacts m)) (backing d env M m)"
    (is "triple ?P _ _ ?X")
  unfolding begin_restore_def
proof (rule triple_andthen, rule triple_preflight [where P = ?P], erule conjunct1)
  fix es :: "entry list"
  have "elsewhere M (\<lambda>h. calm d M (tree h))" by (auto simp: elsewhere_def calm_def at_path_def)
  note cleaned = triple_cleanup_candidate [OF this, of d env m]
  have persisting: "triple ?P (persist_state m Restoring) (\<lambda>_. ?P) ?X"
    by (rule triple_persist_backing) (simp add: rolling_def)
  show "triple (\<lambda>h. ?P h \<and> set es \<subseteq> set (artifacts m)) (then_do (cleanup_candidate_from_pending env (pending_commit m))
      (then_do (persist_state m Restoring) (give es))) (\<lambda>es h. ?P h \<and> set es \<subseteq> set (artifacts m)) ?X"
  proof (rule triple_fact [where c = "set es \<subseteq> set (artifacts m)"])
    assume "set es \<subseteq> set (artifacts m)"
    then show ?thesis
      by (intro triple_pre [OF triple_then [OF cleaned triple_then [OF persisting triple_give]]]) auto
  qed blast
qed


section \<open>Recovery\<close>

lemma backing_X: "triple P a Q (backing d env M m) \<Longrightarrow> triple P a Q (consistent d env M)"
  by (erule triple_conseq) (auto intro: backing_consistent)

lemma closing_X: "triple P a Q (closing d env M) \<Longrightarrow> triple P a Q (consistent d env M)"
  by (erule triple_conseq) (auto intro: closing_consistent)

lemma triple_roll_back:
  "triple (\<lambda>h. holding d env M m h \<and> calm d M (tree h)) (roll_back env m)
    (\<lambda>_ h. closing d env M h \<and> all_original d env M (tree h) \<and> \<not> shown (here h)) (consistent d env M)"
proof -
  let ?P = "\<lambda>h. backing d env M m h \<and> calm d M (tree h)" and ?X = "consistent d env M"
  let ?B = "backing d env M m"
  have given: "triple ?B (give_back env us) (\<lambda>_. ?B) ?B" for us
    by (rule aside_triple [OF aside_give_back files_only_backing])
  have failed: "triple ?B (mark_failed m) (\<lambda>_. ?X) ?X"
    by (rule triple_conseq [OF triple_mark_failed]) (auto intro: backing_consistent)
  have both: "triple ?B (then_do (give_back env us) (mark_failed m)) (\<lambda>_. ?X) ?X" for us
    by (rule triple_then [OF backing_X [OF given] failed])
  have BX: "?B h \<Longrightarrow> ?X h" for h by (rule backing_consistent)
  have stopping: "triple ?P (on_error (stop_runtime_units env True m) (mark_failed m)) (\<lambda>_. ?P) ?X"
    by (rule triple_on_error [OF aside_triple [OF aside_stop] failed BX])
      (simp_all add: files_only_conj files_only_backing files_only_tree)
  have beginning: "triple ?P (on_error (begin_restore env m) (then_do (give_back env us) (mark_failed m)))
      (\<lambda>es h. ?P h \<and> set es \<subseteq> set (artifacts m)) ?X" for us
    by (rule triple_on_error [OF triple_begin_restore both BX])
  have handler: "triple ?B (then_do (if es = [] then give_back env us else give ()) (mark_failed m)) (\<lambda>_. ?X) ?X" for es :: "entry list" and us
    using both by (auto intro!: triple_then [OF triple_give failed])
  have restoring: "triple (\<lambda>h. ?P h \<and> set es \<subseteq> set (artifacts m))
      (then_do (on_error (restore_all env m es) (then_do (if es = [] then give_back env us else give ()) (mark_failed m)))
        (finish_restored env m))
      (\<lambda>_ h. closing d env M h \<and> all_original d env M (tree h) \<and> \<not> shown (here h)) ?X" for es us
  proof (rule triple_fact [where c = "set es \<subseteq> set (artifacts m)"])
    assume es: "set es \<subseteq> set (artifacts m)"
    have "triple ?P (then_do (on_error (restore_all env m es) (then_do (if es = [] then give_back env us else give ()) (mark_failed m)))
        (finish_restored env m)) (\<lambda>_ h. closing d env M h \<and> all_original d env M (tree h) \<and> \<not> shown (here h)) ?X"
      by (rule triple_then [OF triple_on_error [OF triple_restore_all [OF es] handler BX] closing_X [OF triple_finish]])
    then show "triple (\<lambda>h. ?P h \<and> set es \<subseteq> set (artifacts m))
      (then_do (on_error (restore_all env m es) (then_do (if es = [] then give_back env us else give ()) (mark_failed m)))
        (finish_restored env m)) (\<lambda>_ h. closing d env M h \<and> all_original d env M (tree h) \<and> \<not> shown (here h)) ?X"
      by (rule triple_pre) blast
  qed blast
  have checked: "triple ?P (preflight_recovery env m) (\<lambda>_. ?P) ?X"
    by (rule triple_post, rule triple_preflight [where P = ?P]) (auto intro: BX)
  have "triple ?P (roll_back env m) (\<lambda>_ h. closing d env M h \<and> all_original d env M (tree h) \<and> \<not> shown (here h)) ?X"
    unfolding roll_back_def
    by (rule triple_then [OF checked triple_andthen [OF stopping triple_andthen [OF beginning restoring]]])
  then show ?thesis by (rule triple_pre) (auto intro: holding_backing)
qed

text \<open>A recovery that returns leaves no transaction behind.\<close>

lemma stage_cases: "s = Complete \<or> s = Restored \<or> s = Preparing \<or> rolling s"
  by (cases s) (auto simp: rolling_def)

lemma loaded_ending:
  assumes "consistent d env M h" and "may d (journal h) = {shown (journal h)}"
    and "read_journal env (shown (journal h)) = Inr m" and "\<not> rolling (stage_of m)"
  shows "closing d env M h \<and> stage_of m \<noteq> Preparing \<and> (stage_of m = Restored \<longrightarrow> all_original d env M (tree h))"
proof -
  have stays: "stays d env M (tree h) (copies h) (shown (journal h))" using assms(1) by (simp add: consistent_def)
  have read: "read_journal env (journal_file m') = Inr m'" if "sound env M m'" for m'
    using that read_journal_file [of m' env] by (simp add: sound_def)
  have e: "ending d env M (tree h) (shown (journal h))"
    using stays assms(3,4) read unfolding stays_def by auto
  with assms(1,2) have "closing d env M h" by (simp add: closing_def consistent_def)
  moreover have "stage_of m \<noteq> Preparing \<and> (stage_of m = Restored \<longrightarrow> all_original d env M (tree h))"
    using e assms(3) read unfolding ending_def by (auto simp: read_journal_def)
  ultimately show ?thesis by blast
qed

definition finished :: "bool \<Rightarrow> platform \<Rightarrow> manifest \<Rightarrow> host \<Rightarrow> bool" where
  "finished d env M h \<longleftrightarrow> consistent d env M h \<and> \<not> shown (here h)"

lemma triple_closed: "triple (closing d env M) (cleanup_pending env) (\<lambda>_. finished d env M) (consistent d env M)"
proof (rule tripleI)
  fix ps h r qs h' assume h: "closing d env M h" and run: "cleanup_pending env ps h = (r, qs, h')"
  from tripleD [OF triple_cleanup [where d = d and env = env and M = M and t = "tree h"] _ run] h
  show "meets (\<lambda>_. finished d env M) (consistent d env M) r h'"
    by (cases r) (auto simp: finished_def intro: closing_consistent)
qed

lemma triple_recover:
  "triple (\<lambda>h. consistent d env M h \<and> may d (journal h) = {shown (journal h)} \<and> calm d M (tree h)) (recover env)
    (\<lambda>_. finished d env M) (consistent d env M)"
    (is "triple ?P _ ?Q ?X")
proof -
  have PX: "?P h \<Longrightarrow> ?X h" for h by simp
  have missing: "closing d env M h" if "?P h" "shown (journal h) = Missing" for h
  proof -
    from that have "stays d env M (tree h) (copies h) Missing" "may d (journal h) = {Missing}" by (auto simp: consistent_def)
    moreover have "journal_file m \<noteq> Missing" for m by (simp add: journal_file_def)
    ultimately have "ending d env M (tree h) Missing" unfolding stays_def by metis
    with that(1) \<open>may d (journal h) = {Missing}\<close> show ?thesis by (simp add: closing_def consistent_def)
  qed
  let ?L = "\<lambda>m h. ?P h \<and> read_journal env (shown (journal h)) = Inr m"
  have dispatch: "triple (?L m) (recover_loaded env m) ?Q ?X" for m
    using stage_cases [of "stage_of m"]
  proof (elim disjE)
    assume s: "stage_of m = Complete"
    have "triple (?L m) (cleanup_pending env) ?Q ?X"
      by (rule triple_pre [OF triple_closed]) (use s loaded_ending in \<open>auto simp: rolling_def\<close>)
    with s show ?thesis by (simp add: recover_loaded_def)
  next
    assume s: "stage_of m = Restored"
    have "triple (?L m) (finish_restored env m) ?Q ?X"
      by (rule triple_conseq [OF triple_finish])
        (use s loaded_ending in \<open>auto simp: rolling_def finished_def intro: closing_consistent\<close>)
    with s show ?thesis by (simp add: recover_loaded_def)
  next
    assume s: "stage_of m = Preparing"
    have "False" if "?L m h" for h using that s loaded_ending [of d env M h m] by (simp add: rolling_def)
    then show ?thesis by (auto simp: triple_def)
  next
    assume s: "rolling (stage_of m)"
    have "triple (?L m) (roll_back env m) ?Q ?X"
      by (rule triple_conseq [OF triple_roll_back])
        (use s in \<open>auto intro: loaded_rolling closing_consistent simp: finished_def\<close>)
    with s show ?thesis by (auto simp: rolling_def recover_loaded_def)
  qed
  have pending: "triple ?P (recover_pending env) ?Q ?X"
    unfolding recover_pending_def
  proof (rule triple_andthen, rule triple_ask)
    fix f
    have "triple ?P (andthen (load_manifest env) (recover_loaded env)) ?Q ?X"
      by (rule triple_andthen [OF triple_load dispatch]) (rule PX)
    moreover have "triple (\<lambda>h. ?P h \<and> Missing = shown (journal h)) (cleanup_pending env) ?Q ?X"
      by (rule triple_pre [OF triple_closed]) (metis missing)
    ultimately show "triple (\<lambda>h. ?P h \<and> f = shown (journal h)) (if f = Missing then cleanup_pending env
        else andthen (load_manifest env) (recover_loaded env)) ?Q ?X"
      by (cases "f = Missing") (simp, simp, erule triple_pre, blast)
  qed
  have there: "triple (\<lambda>h. ?P h \<and> t = shown (here h)) (if \<not> t then give () else recover_pending env) ?Q ?X" for t
    by (cases t) (auto intro!: triple_give triple_pre [OF pending] simp: finished_def)
  have rooted: "triple ?P (then_do (lift (safe_directory env True False DEFAULT_RECOVERY_ROOT))
      (andthen (ask (\<lambda>h. shown (here h))) (\<lambda>t. if \<not> t then give () else recover_pending env))) ?Q ?X"
    by (rule triple_then [where R = ?P], rule triple_lift_to, erule PX, assumption, rule triple_andthen [OF triple_ask there])
  show ?thesis unfolding recover_def
  proof (rule triple_andthen, rule triple_ask)
    fix t
    show "triple (\<lambda>h. ?P h \<and> t = root_there h) (if \<not> t then give ()
        else then_do (lift (safe_directory env True False DEFAULT_RECOVERY_ROOT))
          (andthen (ask (\<lambda>h. shown (here h))) (\<lambda>t. if \<not> t then give () else recover_pending env))) ?Q ?X"
      by (rule triple_fact [where c = t]) (auto simp: consistent_def intro: triple_pre [OF rooted])
  qed
qed


section \<open>Histories\<close>

text \<open>Every command of the transaction keeps the invariant, whatever its plan.\<close>

definition ongoing :: "command \<Rightarrow> bool" where
  "ongoing c = (case c of Prepare _ _ _ _ _ \<Rightarrow> False | _ \<Rightarrow> True)"

lemma loaded_stage:
  assumes "consistent d env M h" and "may d (journal h) = {shown (journal h)}"
    and "read_journal env (shown (journal h)) = Inr m"
  shows "stage_of m \<noteq> Preparing"
  using loaded_ending [OF assms] by (cases "rolling (stage_of m)") (auto simp: rolling_def)

lemma triple_snapshot_again:
  "triple (\<lambda>h. consistent d env M h \<and> may d (journal h) = {shown (journal h)}) (snapshot env direct listed)
    (\<lambda>_. consistent d env M) (consistent d env M)"
  unfolding snapshot_def
proof (rule triple_andthen, rule triple_load, erule conjunct1)
  fix m
  let ?L = "\<lambda>h. (consistent d env M h \<and> may d (journal h) = {shown (journal h)}) \<and> read_journal env (shown (journal h)) = Inr m"
  show "triple ?L (then_do (refuse_if (stage_of m \<noteq> Preparing)) (andthen (lift (collect_allowlist env direct listed)) (\<lambda>paths.
     let m1 = m\<lparr>allowlist := paths\<rparr> in
     then_do (if allowlist m \<noteq> [] then refuse_if (allowlist m \<noteq> paths) else atomic_write_manifest m1)
       (andthen (snapshot_each env (sum_list (map (artifact_size \<circ> e_kind) (artifacts m))) 0 paths m1)
         (\<lambda>m2. persist_state m2 Active))))) (\<lambda>_. consistent d env M) (consistent d env M)"
    by (rule triple_then [where R = "\<lambda>_. False"], rule triple_refuse_to, blast, use loaded_stage in blast)
      (simp add: triple_def)
qed

lemma triple_perform:
  assumes "digest_ok env" and "ongoing c"
  shows "triple (\<lambda>h. consistent d env M h \<and> at_rest d M h) (perform env c) (\<lambda>_. consistent d env M) (consistent d env M)"
proof -
  let ?S = "\<lambda>h. consistent d env M h \<and> may d (journal h) = {shown (journal h)}"
  have S: "?S h" and C: "?S h \<and> calm d M (tree h)" if "consistent d env M h \<and> at_rest d M h" for h
    using that by (simp_all add: at_rest_def calm_def)
  have C': "consistent d env M h \<and> may d (journal h) = {shown (journal h)} \<and> calm d M (tree h)"
    if "consistent d env M h \<and> at_rest d M h" for h using C [OF that] by simp
  show ?thesis
  proof (cases c)
    case (Snapshot direct listed)
    then show ?thesis unfolding perform_def using triple_pre [OF triple_snapshot_again S] by simp
  next
    case (Before p cand)
    have "triple ?S (before env p cand) (\<lambda>_. consistent d env M) (consistent d env M)"
      by (rule triple_post [OF triple_before [OF assms(1)]]) (auto simp: bracketed_def holding_def)
    with Before show ?thesis unfolding perform_def using triple_pre [OF _ S] by simp
  next
    case (After p)
    then show ?thesis unfolding perform_def using triple_pre [OF triple_after S] by simp
  next
    case (Replace p cand)
    then show ?thesis unfolding perform_def using triple_pre [OF triple_replace [OF assms(1)] S] by simp
  next
    case (Remove p)
    then show ?thesis unfolding perform_def using triple_pre [OF triple_remove [OF assms(1)] S] by simp
  next
    case CompleteIt
    have "triple (\<lambda>h. consistent d env M h \<and> at_rest d M h) (complete env) (\<lambda>_. consistent d env M) (consistent d env M)"
      by (rule triple_conseq [OF triple_complete C']) (auto intro: closing_consistent)
    with CompleteIt show ?thesis by (simp add: perform_def)
  next
    case Recover
    have "triple (\<lambda>h. consistent d env M h \<and> at_rest d M h) (recover env) (\<lambda>_. consistent d env M) (consistent d env M)"
      by (rule triple_conseq [OF triple_recover C']) (auto simp: finished_def)
    with Recover show ?thesis by (simp add: perform_def)
  qed (use assms(2) in \<open>simp add: ongoing_def\<close>)
qed

text \<open>
  A power loss settles every entry on one of the contents it may have; with the directory of the
  transaction goes what is in it.
\<close>

definition power_loss :: "host \<Rightarrow> host \<Rightarrow> bool" where
  "power_loss h h' \<longleftrightarrow> root_there h' = root_there h
     \<and> (\<forall>p. \<exists>n \<in> may True (tree h p). tree h' p = quiet_slot n)
     \<and> (\<exists>b \<in> may True (here h). here h' = quiet_slot b
         \<and> (if b then (\<exists>f \<in> may True (journal h). journal h' = quiet_slot f)
              \<and> (\<forall>name. \<exists>c \<in> may True (copy_of h name). copy_of h' name = quiet_slot c)
            else journal h' = quiet_slot Missing \<and> copies h' = []))"

text \<open>
  What happens to a transaction: commands, started when nothing the journal names is unsettled; candidate
  files staged by the deployment outside the allowlist, not over a journaled candidate; and, with \<open>d\<close>, power losses.
\<close>

inductive deploying :: "bool \<Rightarrow> platform \<Rightarrow> manifest \<Rightarrow> host \<Rightarrow> host \<Rightarrow> bool" for d env M where
  begun: "deploying d env M h h"
| commanded: "deploying d env M h h1 \<Longrightarrow> at_rest d M h1 \<Longrightarrow> ongoing c \<Longrightarrow> perform env c ps h1 = (r, qs, h2) \<Longrightarrow>
    deploying d env M h h2"
| staged_file: "deploying d env M h h1 \<Longrightarrow> c \<notin> set (allowlist M) \<Longrightarrow> tidy s \<Longrightarrow>
    (\<And>f m q. f \<in> may d (journal h1) \<Longrightarrow> read_journal env f = Inr m \<Longrightarrow> pending_commit m = Some q \<Longrightarrow> p_candidate q \<noteq> Some c) \<Longrightarrow>
    deploying d env M h (at_path c (\<lambda>_. s) h1)"
| power_lost: "d \<Longrightarrow> deploying d env M h h1 \<Longrightarrow> power_loss h1 h2 \<Longrightarrow> deploying d env M h h2"

lemma staging_consistent:
  assumes h: "consistent d env M h" and c: "c \<notin> set (allowlist M)" and s: "tidy s"
    and free: "\<And>f m q. f \<in> may d (journal h) \<Longrightarrow> read_journal env f = Inr m \<Longrightarrow> pending_commit m = Some q \<Longrightarrow>
      p_candidate q \<noteq> Some c"
  shows "consistent d env M (at_path c (\<lambda>_. s) h)"
proof -
  let ?t = "(tree h)(c := s)"
  have M: "sound env M M" using h by (simp add: consistent_def)
  have e: "ending d env M ?t f" if "ending d env M (tree h) f" for f
    by (rule ending_mono [OF M that]) (use c in auto)
  have "stays d env M ?t (copies h) f" if f: "f \<in> may d (journal h)" for f
  proof -
    from h f have "stays d env M (tree h) (copies h) f" by (simp add: consistent_def)
    then show ?thesis unfolding stays_def
    proof (elim disjE exE conjE)
      fix m assume m: "f = journal_file m" "sound env M m" "rolling (stage_of m)" "recoverable d env m (tree h) (copies h)"
      then have read: "read_journal env f = Inr m" using read_journal_file [of m env] by (simp add: sound_def)
      have "recoverable d env m ?t (copies h)"
        using m(4) by (rule recoverable_mono) (use c sound_paths [OF m(2)] free [OF f read] in auto)
      with m show "ending d env M ?t f \<or> (\<exists>m. f = journal_file m \<and> sound env M m \<and> rolling (stage_of m)
          \<and> recoverable d env m ?t (copies h))" by blast
    qed (use e in blast)
  qed
  with h s e show ?thesis unfolding consistent_def at_path_def by auto
qed

lemma may_only: "may d s \<subseteq> {x} \<Longrightarrow> may d s = {x}"
  using shown_may [of s d] by blast

lemma power_loss_consistent:
  assumes h: "consistent True env M h" and lost: "power_loss h h'"
  shows "consistent True env M h'"
proof -
  have M: "sound env M M" using h by (simp add: consistent_def)
  from lost have t: "may True (tree h' p) \<subseteq> may True (tree h p)" "tidy (tree h' p)" for p
    unfolding power_loss_def by (metis may_quiet singletonD subsetI, metis tidy_quiet)
  from lost obtain b where b: "b \<in> may True (here h)" "here h' = quiet_slot b" and root: "root_there h' = root_there h"
    and entries: "if b then (\<exists>f \<in> may True (journal h). journal h' = quiet_slot f)
        \<and> (\<forall>name. \<exists>c \<in> may True (copy_of h name). copy_of h' name = quiet_slot c)
      else journal h' = quiet_slot Missing \<and> copies h' = []" unfolding power_loss_def by blast
  show ?thesis
  proof (cases b)
    case True
    with entries obtain f where f: "f \<in> may True (journal h)" "journal h' = quiet_slot f"
      and cs: "\<And>name. may True (copy_of h' name) \<subseteq> may True (copy_of h name)"
      by (simp, metis may_quiet singletonD subsetI)
    have "stays True env M (tree h') (copies h') f"
    proof -
      from h f(1) have "stays True env M (tree h') (copies h) f"
        using stays_mono [OF M, of True "tree h" "copies h" f "tree h'"] t(1) by (simp add: consistent_def)
      then show ?thesis unfolding stays_def
      proof (elim disjE exE conjE)
        fix m assume m: "f = journal_file m" "sound env M m" "rolling (stage_of m)" "recoverable True env m (tree h') (copies h)"
        have "copy_ok True env (copies h') e" if "copy_ok True env (copies h) e" for e
        proof (cases "e_kind e")
          case (FileArtifact name digest len mode uid gid)
          with that obtain b where b: "may True (copy_of h name) = {Some b}"
            "token_of env (restored_node (e_kind e) b) = Some (e_original e)" by (auto simp: copy_ok_def copy_of_def)
          with cs [of name] have "may True (copy_of h' name) = {Some b}" by (intro may_only) simp
          with b(2) FileArtifact show ?thesis by (auto simp: copy_ok_def copy_of_def)
        qed (use that in \<open>simp_all add: copy_ok_def\<close>)
        with m(4) have "recoverable True env m (tree h') (copies h')" by (simp add: recoverable_def)
        with m show "ending True env M (tree h') f \<or> (\<exists>m. f = journal_file m \<and> sound env M m \<and> rolling (stage_of m)
          \<and> recoverable True env m (tree h') (copies h'))" by blast
      qed blast
    qed
    with h M True f b root t show ?thesis by (simp add: consistent_def)
  next
    case False
    with h b have "\<forall>f \<in> may True (journal h). ending True env M (tree h) f" by (simp add: consistent_def)
    then have "over True env M (tree h)" using ending_over [OF M] shown_may by blast
    then have "over True env M (tree h')" by (rule over_mono [OF _ sound_M_paths [OF M]]) (rule t(1))
    then have "ending True env M (tree h') Missing" by (simp add: ending_def)
    with h M False entries b root t show ?thesis by (simp add: consistent_def stays_def)
  qed
qed

lemma deploying_consistent:
  assumes "deploying d env M h h'" and "digest_ok env" and "consistent d env M h"
  shows "consistent d env M h'"
  using assms(1,3)
proof (induction rule: deploying.induct)
  case (commanded h h1 c ps r qs h2)
  with tripleD [OF triple_perform [OF assms(2) commanded.hyps(3), of d M] _ commanded.hyps(4)] show ?case
    by (cases r) auto
next
  case (staged_file h h1 c s)
  then show ?case by (intro staging_consistent) auto
next
  case (power_lost h h1 h2)
  then show ?case by (auto intro: power_loss_consistent)
qed

end
