(* ===== verification/DeploySnapshot.thy ===== *)
theory DeploySnapshot
  imports DeploySafety
begin

text \<open>
  A successful snapshot establishes the invariant of the transaction, and the guarantees of whole deployments
  follow: from a snapshot on, whatever fails, a recovery that returns leaves the artifacts as they were or
  all as deployed.
\<close>

section \<open>Names\<close>

lemma str_nat_short: "n < 10000 \<Longrightarrow> length (str_nat n) \<le> 4"
  by (simp add: str_nat.simps [of n] str_nat.simps [of "n div 10"] str_nat.simps [of "n div 10 div 10"]
      str_nat.simps [of "n div 10 div 10 div 10"])

lemma snapshot_name_RE: "n < 10000 \<Longrightarrow> SNAPSHOT_RE (snapshot_name n)"
proof -
  assume "n < 10000"
  then have short: "length (str_nat n) \<le> 4" by (rule str_nat_short)
  have "is_digit (CHR ''0'')" by (simp add: is_digit_def)
  then have "list_all is_digit (pad_zero 4 (str_nat n))" using str_nat_digits [of n] by (auto simp: pad_zero_def list_all_iff)
  with short show ?thesis by (simp add: SNAPSHOT_RE_def snapshot_name_def pad_zero_def)
qed

lemma allowed_length: "distinct paths \<Longrightarrow> set paths \<subseteq> set EXACT_ALLOWED_PATHS \<Longrightarrow> length paths < 10000"
proof -
  assume "distinct paths" "set paths \<subseteq> set EXACT_ALLOWED_PATHS"
  then have "length paths \<le> length EXACT_ALLOWED_PATHS"
    using card_mono [of "set EXACT_ALLOWED_PATHS" "set paths"] card_length [of EXACT_ALLOWED_PATHS]
    by (simp add: distinct_card)
  also have "\<dots> < 10000" by (simp add: EXACT_ALLOWED_PATHS_def)
  finally show ?thesis .
qed

lemma collect_allowlist_Inr:
  assumes "collect_allowlist env direct listed = Inr paths"
  shows "list_all (\<lambda>p. validate_artifact_path env p = Inr p) paths" and "distinct paths"
    and "set paths \<subseteq> set EXACT_ALLOWED_PATHS"
proof -
  from assms obtain raw where c: "collect (validate_artifact_path env) raw = Inr paths" and d: "distinct paths"
    by (auto simp: collect_allowlist_def rbind_eq_Inr Let_def)
  show "distinct paths" by (rule d)
  have step: "validate_artifact_path env x = Inr x" if "validate_artifact_path env a = Inr x" for a x
    using that validate_artifact_path_Inr [OF that] by simp
  have "\<forall>p \<in> set paths. validate_artifact_path env p = Inr p"
    using c by (induction raw arbitrary: paths) (auto simp: rbind_eq_Inr intro: step)
  then show "list_all (\<lambda>p. validate_artifact_path env p = Inr p) paths" by (simp add: list_all_iff)
  then show "set paths \<subseteq> set EXACT_ALLOWED_PATHS"
    by (auto simp: list_all_iff validate_artifact_path_def rbind_eq_Inr is_allowed_artifact_def)
qed

section \<open>One entry\<close>

lemma generation_Absent [simp]: "generation_of env Absent = Inr AbsentValue"
  by (simp add: generation_of_def)

lemma generation_cases:
  assumes "generation_of env n = Inr v"
  obtains "v = AbsentValue" "n = Absent"
  | target uid gid where "v = SymlinkValue target uid gid"
      "token_of env (restored_node (LinkArtifact target uid gid) []) = Some (generation_token env v)"
  | i b where "n = Node i" "holds i = Regular b" "length b \<le> MAX_FILE_BYTES"
      "v = FileValue (sha256 env b) (int (length b)) (permissions i) (owner i) (group i)"
      "\<And>name. token_of env (restored_node (FileArtifact name (sha256 env b) (int (length b)) (permissions i) (owner i) (group i)) b)
        = Some (generation_token env v)"
proof (cases n)
  case Absent
  with assms that(1) show thesis by (simp add: generation_of_def)
next
  case (Node i)
  show thesis
  proof (cases "holds i")
    case (LinkTo target)
    show thesis
      by (rule that(2) [of target "owner i" "group i"])
        (use assms Node LinkTo in \<open>auto simp: generation_of_def token_of_def restored_node_def split: if_splits\<close>)
  next
    case (Regular b)
    show thesis
      by (rule that(3) [OF Node Regular])
        (use assms Node Regular in \<open>auto simp: generation_of_def token_of_def restored_node_def split: if_splits\<close>)
  next
    case OtherKind
    with assms Node show thesis by (simp add: generation_of_def split: if_splits)
  qed
qed

text \<open>What holds while entries are being captured; \<open>paths\<close> is the frozen allowlist.\<close>

definition still :: "bool \<Rightarrow> host \<Rightarrow> bool" where
  "still d h \<longleftrightarrow> root_there h \<and> (\<forall>p. tidy (tree h p)) \<and> may d (here h) = {True}
     \<and> (\<forall>p \<in> set EXACT_ALLOWED_PATHS. may d (tree h p) = {shown (tree h p)})"

definition captured :: "bool \<Rightarrow> platform \<Rightarrow> (string \<Rightarrow> node slot) \<Rightarrow> string option slot dict \<Rightarrow> entry \<Rightarrow> bool" where
  "captured d env t cs e \<longleftrightarrow> check_entry e \<and> e_replacement e = None \<and> copy_ok d env cs e
     \<and> tokens_in d env t (e_path e) {Some (e_original e)}"

definition capturing :: "bool \<Rightarrow> platform \<Rightarrow> string list \<Rightarrow> manifest \<Rightarrow> host \<Rightarrow> bool" where
  "capturing d env paths m h \<longleftrightarrow> still d h \<and> wf_manifest m \<and> TXID_RE (txid m) \<and> BOOT_ID_RE (boot_id m)
     \<and> check_runtime env (m_runtime m) \<and> allowlist m = paths \<and> committed m = [] \<and> pending_commit m = None
     \<and> entry_paths m = take (length (artifacts m)) paths
     \<and> (\<forall>e \<in> set (artifacts m). captured d env (tree h) (copies h) e)"

lemma triple_True: "triple P a (\<lambda>_ _. True) (\<lambda>_. True)"
  unfolding triple_def meets_def by (simp split: outcome.splits)

lemma copy_in_update [simp]: "copy_in (AList.update name s cs) x = (if x = name then s else copy_in cs x)"
  by (simp add: copy_in_def)

lemma copy_of_at_copy [simp]: "copy_of (at_copy name f h) x = (if x = name then f (copy_of h name) else copy_of h x)"
  by (simp add: copy_of_def at_copy_def)

lemma at_copy_fields [simp]: "tree (at_copy name f h) = tree h" "here (at_copy name f h) = here h"
  "root_there (at_copy name f h) = root_there h" "journal (at_copy name f h) = journal h"
  by (simp_all add: at_copy_def)

text \<open>A copy under a name that was free leaves the entries captured before alone.\<close>

lemma captured_other_copy:
  assumes "captured d env t cs e" and "shown (copy_in cs name) = None"
    and "\<And>x. x \<noteq> name \<Longrightarrow> copy_in cs' x = copy_in cs x"
  shows "captured d env t cs' e"
proof -
  have "copy_ok d env cs' e"
  proof (cases "e_kind e")
    case (FileArtifact x digest len mode uid gid)
    have "copy_ok d env cs e" using assms(1) by (simp add: captured_def)
    then obtain b where b: "may d (copy_in cs x) = {Some b}"
      and t: "token_of env (restored_node (FileArtifact x digest len mode uid gid) b) = Some (e_original e)"
      unfolding copy_ok_def FileArtifact artifact.case by blast
    have "shown (copy_in cs x) = Some b" using shown_may [of "copy_in cs x" d] b by simp
    then have "copy_in cs' x = copy_in cs x" using assms(2,3) by (cases "x = name") auto
    with b t show ?thesis unfolding copy_ok_def FileArtifact artifact.case by auto
  qed (use assms(1) in \<open>simp_all add: captured_def copy_ok_def\<close>)
  with assms(1) show ?thesis by (simp add: captured_def)
qed

text \<open>The state of the copy while it is made: everything else is as when it was begun.\<close>

definition copying :: "bool \<Rightarrow> platform \<Rightarrow> string list \<Rightarrow> manifest \<Rightarrow> string \<Rightarrow> string option slot \<Rightarrow> (string \<Rightarrow> node slot) \<Rightarrow> host \<Rightarrow> bool" where
  "copying d env paths m name s t h \<longleftrightarrow> tree h = t \<and> copy_of h name = s
     \<and> (\<exists>cs. capturing d env paths m (h\<lparr>copies := cs\<rparr>) \<and> shown (copy_in cs name) = None
         \<and> (\<forall>x. x \<noteq> name \<longrightarrow> copy_of h x = copy_in cs x))"

lemma copying_step: "copying d env paths m name s t h \<Longrightarrow> copying d env paths m name (f s) t (at_copy name f h)"
  unfolding copying_def by (auto simp: at_copy_def copy_of_def)

lemma copying_capturing: "copying d env paths m name s t h \<Longrightarrow> capturing d env paths m h"
proof -
  assume "copying d env paths m name s t h"
  then obtain cs where c: "capturing d env paths m (h\<lparr>copies := cs\<rparr>)" "shown (copy_in cs name) = None"
    "\<And>x. x \<noteq> name \<Longrightarrow> copy_of h x = copy_in cs x" unfolding copying_def by blast
  have "captured d env (tree h) (copies h) e" if "e \<in> set (artifacts m)" for e
  proof (rule captured_other_copy [OF _ c(2)])
    show "captured d env (tree h) cs e" using c(1) that by (simp add: capturing_def)
    show "copy_in (copies h) x = copy_in cs x" if "x \<noteq> name" for x using c(3) [OF that] by (simp add: copy_of_def)
  qed
  with c(1) show ?thesis by (simp add: capturing_def still_def)
qed

lemma triple_copy_call:
  "triple (copying d env paths m name s t) (call (at_copy name f)) (\<lambda>_. copying d env paths m name (f s) t) (\<lambda>_. True)"
  by (rule triple_call) (auto intro: copying_step)

lemma triple_copy_bytes:
  "triple (\<lambda>h. capturing d env paths m h \<and> tree h = t) (copy_bytes name p)
    (\<lambda>_ h. capturing d env paths m h \<and> tree h = t \<and> copy_of h name = quiet_slot (Some (bytes_at p h))) (\<lambda>_. True)"
proof -
  let ?P = "\<lambda>h. capturing d env paths m h \<and> tree h = t" and ?X = "\<lambda>_ :: host. True"
  let ?Q = "\<lambda>_ :: unit. \<lambda>h. ?P h \<and> copy_of h name = quiet_slot (Some (bytes_at p h))"
  have making: "triple (\<lambda>h. (?P h \<and> shown (copy_of h name) = None) \<and> b = bytes_at p h) (several
       [call (at_copy name (installed (Slot (Some []) {Some []} True))),
        on_error (several [pause, call (at_copy name (installed (torn_copy b))), call (at_copy name bytes_synced)])
          (unlink_copy name),
        call (at_copy name settled)]) ?Q ?X" for b
  proof -
    let ?K = "\<lambda>s h. copying d env paths m name s t h \<and> b = bytes_at p h"
    have bytes: "bytes_at p h = bytes_at p h'" if "tree h = tree h'" for h h' using that by (simp add: bytes_at_def)
    have step: "triple (?K s) (call (at_copy name f)) (\<lambda>_. ?K (f s)) ?X" for s f
      by (rule triple_call) (auto intro: copying_step simp: bytes_at_def)
    have start: "triple (\<lambda>h. (?P h \<and> shown (copy_of h name) = None) \<and> b = bytes_at p h)
        (call (at_copy name (installed (Slot (Some []) {Some []} True))))
        (\<lambda>_ h. \<exists>s. ?K (installed (Slot (Some []) {Some []} True) s) h) ?X"
    proof (rule triple_call)
      fix h assume h: "(?P h \<and> shown (copy_of h name) = None) \<and> b = bytes_at p h"
      then have "copying d env paths m name (copy_of h name) t h"
        unfolding copying_def by (auto simp: copy_of_def intro!: exI [of _ "copies h"])
      from copying_step [OF this] h
      show "\<exists>s. ?K (installed (Slot (Some []) {Some []} True) s) (at_copy name (installed (Slot (Some []) {Some []} True)) h)"
        by (auto simp: bytes_at_def)
    qed simp
    let ?s = "\<lambda>s. bytes_synced (installed (torn_copy b) (installed (Slot (Some []) {Some []} True) s))"
    have filled: "triple (?K (installed (Slot (Some []) {Some []} True) s))
        (several [pause, call (at_copy name (installed (torn_copy b))), call (at_copy name bytes_synced)]) (\<lambda>_. ?K (?s s)) ?X" for s
      by (rule triple_several_Cons [OF triple_pause], simp, rule triple_several_Cons [OF step],
          rule triple_several_Cons [OF step], rule triple_several_Nil)
    have last: "settled (?s s) = quiet_slot (Some b)" for s
      by (simp add: settled_def bytes_synced_def installed_def torn_copy_def)
    have finished: "triple (\<lambda>h. \<exists>s. ?K (?s s) h) (several [call (at_copy name settled)]) ?Q ?X"
    proof (rule triple_ex, rule triple_several_Cons [OF step], unfold last, rule triple_several_Nil)
      fix s h assume "?K (quiet_slot (Some b)) h"
      then show "?Q () h" using copying_capturing [of d env paths m name "quiet_slot (Some b)" t h]
        by (simp add: copying_def)
    qed
    show ?thesis
    proof (rule triple_several_Cons [OF start], rule triple_several_Cons [OF triple_on_error [OF _ triple_True]])
      show "triple (\<lambda>h. \<exists>s. ?K (installed (Slot (Some []) {Some []} True) s) h)
          (several [pause, call (at_copy name (installed (torn_copy b))), call (at_copy name bytes_synced)])
          (\<lambda>_ h. \<exists>s. ?K (?s s) h) ?X"
        by (rule triple_ex, rule triple_post [OF filled]) blast
    qed (simp, rule finished)
  qed
  have free: "triple (\<lambda>h. ?P h \<and> old = shown (copy_of h name)) (if old \<noteq> None then fail_with OSError
     else andthen (ask (bytes_at p)) (\<lambda>b. several
       [call (at_copy name (installed (Slot (Some []) {Some []} True))),
        on_error (several [pause, call (at_copy name (installed (torn_copy b))), call (at_copy name bytes_synced)])
          (unlink_copy name),
        call (at_copy name settled)])) ?Q ?X" for old
  proof (cases old)
    case None
    show ?thesis unfolding None
      by (simp only: simp_thms if_False, rule triple_andthen [OF triple_ask triple_pre [OF making]]) auto
  qed (auto intro: triple_fail)
  have "triple ?P (copy_bytes name p) ?Q ?X" unfolding copy_bytes_def
    by (rule triple_andthen [where R = "\<lambda>_. ?P"], rule triple_post [OF triple_look], simp, blast,
        rule triple_andthen, rule triple_ask, rule free)
  then show ?thesis by (simp only: conj_assoc)
qed

text \<open>One entry: what is recorded is what the path shows, and the copy of a file is durable.\<close>

definition recorded :: "bool \<Rightarrow> platform \<Rightarrow> string list \<Rightarrow> manifest \<Rightarrow> string \<Rightarrow> entry \<Rightarrow> host \<Rightarrow> bool" where
  "recorded d env paths m p e h \<longleftrightarrow> capturing d env paths m h \<and> e_path e = p \<and> captured d env (tree h) (copies h) e"

lemma token_HEX: "digest_ok env \<Longrightarrow> HEX64_RE (generation_token env v)"
  by (simp add: digest_ok_def generation_token_def)

lemma capturing_tokens:
  assumes "capturing d env paths m h" and "p \<in> set EXACT_ALLOWED_PATHS" and "generation_of env (shown (tree h p)) = Inr v"
  shows "tokens_in d env (tree h) p {Some (generation_token env v)}"
  using assms by (auto simp: capturing_def still_def tokens_in_def token_of_def)

lemma triple_snapshot_entry:
  assumes "digest_ok env" and "p \<in> set EXACT_ALLOWED_PATHS" and "i < 10000"
  shows "triple (capturing d env paths m) (snapshot_entry env p i) (recorded d env paths m p) (\<lambda>_. True)"
proof -
  let ?R = "\<lambda>v h. capturing d env paths m h \<and> generation_of env (shown (tree h p)) = Inr v"
  let ?e = "\<lambda>v k. \<lparr>e_path = p, e_kind = k, e_original = generation_token env v, e_replacement = None\<rparr>"
  have known: "recorded d env paths m p (?e v k) h"
    if "?R v h" "check_artifact k" "copy_ok d env (copies h) (?e v k)" for v k h
    using that capturing_tokens [OF _ assms(2), of d env paths m h v] token_HEX [OF assms(1)]
    by (auto simp: recorded_def captured_def check_entry_def)
  have step: "triple (?R v) (case v of
       AbsentValue \<Rightarrow> give (?e v AbsentArtifact)
     | SymlinkValue target uid gid \<Rightarrow> give (?e v (LinkArtifact target uid gid))
     | FileValue digest len mode uid gid \<Rightarrow>
         then_do (copy_bytes (snapshot_name i) p) (give (?e v (FileArtifact (snapshot_name i) digest len mode uid gid))))
     (recorded d env paths m p) (\<lambda>_. True)" for v
  proof (cases v)
    case AbsentValue
    show ?thesis unfolding AbsentValue generation_value.case
      by (rule triple_give, rule known) (auto simp: check_artifact_def copy_ok_def token_of_def elim!: generation_cases)
  next
    case (SymlinkValue target uid gid)
    show ?thesis unfolding SymlinkValue generation_value.case
      by (rule triple_give, rule known) (auto simp: check_artifact_def copy_ok_def elim!: generation_cases)
  next
    case (FileValue digest len mode uid gid)
    let ?k = "FileArtifact (snapshot_name i) digest len mode uid gid"
    have "triple (\<lambda>h. \<exists>t. (capturing d env paths m h \<and> tree h = t) \<and> generation_of env (shown (t p)) = Inr v)
        (then_do (copy_bytes (snapshot_name i) p) (give (?e v ?k))) (recorded d env paths m p) (\<lambda>_. True)"
    proof (rule triple_ex)
      fix t
      show "triple (\<lambda>h. (capturing d env paths m h \<and> tree h = t) \<and> generation_of env (shown (t p)) = Inr v)
        (then_do (copy_bytes (snapshot_name i) p) (give (?e v ?k))) (recorded d env paths m p) (\<lambda>_. True)"
      proof (rule triple_fact [where c = "generation_of env (shown (t p)) = Inr v"])
        assume g: "generation_of env (shown (t p)) = Inr v"
        then obtain j b where n: "shown (t p) = Node j" "holds j = Regular b" and size: "length b \<le> MAX_FILE_BYTES"
          and v: "digest = sha256 env b" "len = int (length b)"
          and tok: "token_of env (restored_node ?k b) = Some (generation_token env v)"
          unfolding FileValue by (auto elim!: generation_cases)
        show ?thesis
        proof (rule triple_then [OF triple_pre [OF triple_copy_bytes [where t = t]] triple_give])
          fix h assume h: "capturing d env paths m h \<and> tree h = t
            \<and> copy_of h (snapshot_name i) = quiet_slot (Some (bytes_at p h))"
          then have "bytes_at p h = b" using n by (simp add: bytes_at_def)
          then have "copy_ok d env (copies h) (?e v ?k)"
            using h tok by (auto simp: copy_ok_def copy_of_def)
          moreover have "check_artifact ?k"
            using size v assms(1,3) by (simp add: check_artifact_def snapshot_name_RE digest_ok_def)
          ultimately show "recorded d env paths m p (?e v ?k) h" using h g by (intro known) auto
        qed blast
      qed blast
    qed
    then show ?thesis unfolding FileValue generation_value.case by (rule triple_pre) (simp add: FileValue)
  qed
  have "snapshot_entry env p i = andthen (generation env p) (\<lambda>v. case v of
       AbsentValue \<Rightarrow> give (?e v AbsentArtifact)
     | SymlinkValue target uid gid \<Rightarrow> give (?e v (LinkArtifact target uid gid))
     | FileValue digest len mode uid gid \<Rightarrow>
         then_do (copy_bytes (snapshot_name i) p) (give (?e v (FileArtifact (snapshot_name i) digest len mode uid gid))))"
    by (simp add: snapshot_entry_def Let_def cong: generation_value.case_cong)
  then show ?thesis by (simp only:) (rule triple_andthen [OF triple_generation step], simp)
qed

section \<open>The whole snapshot\<close>

lemma capturing_check:
  assumes "capturing d env paths m h" and "collect_allowlist env direct listed = Inr paths"
    and "stage_of m = Preparing \<or> stage_of m \<noteq> Restored \<and> length (artifacts m) = length paths" and "length (artifacts m) \<le> length paths"
  shows "check_manifest env m"
proof -
  have none: "filter (\<lambda>e. e_replacement e \<noteq> None) (artifacts m) = []" "list_all check_entry (artifacts m)"
    using assms(1) by (auto simp: capturing_def captured_def list_all_iff filter_empty_conv)
  have c: "TXID_RE (txid m)" "BOOT_ID_RE (boot_id m)" "check_runtime env (m_runtime m)" "allowlist m = paths"
    "committed m = []" "pending_commit m = None" "entry_paths m = take (length (artifacts m)) paths"
    using assms(1) by (simp_all add: capturing_def)
  show ?thesis
    unfolding check_manifest_def check_pending_def journaled_def c option.case
    using none c(1-3) collect_allowlist_Inr [OF assms(2)] assms(3,4) by auto
qed

text \<open>The captured entries are what the transaction starts from.\<close>

definition begun_at :: "bool \<Rightarrow> platform \<Rightarrow> manifest \<Rightarrow> host \<Rightarrow> bool" where
  "begun_at d env M h \<longleftrightarrow> stage_of M = Active \<and> committed M = [] \<and> pending_commit M = None
     \<and> shown (journal h) = journal_file M \<and> all_original d env M (tree h)
     \<and> consistent d env M h \<and> at_rest d M h"

lemma capturing_begun:
  assumes c: "capturing d env paths m h" and paths: "collect_allowlist env direct listed = Inr paths"
    and full: "length (artifacts m) = length paths" and j: "journal h = quiet_slot (journal_file (m\<lparr>stage_of := Active\<rparr>))"
  shows "begun_at d env (m\<lparr>stage_of := Active\<rparr>) h"
proof -
  let ?M = "m\<lparr>stage_of := Active\<rparr>"
  have c': "capturing d env paths ?M h" using c by (simp add: capturing_def)
  have "check_manifest env ?M" by (rule capturing_check [OF c' paths]) (simp_all add: full)
  then have sound: "sound env ?M ?M" using c' by (simp add: sound_def capturing_def)
  have each: "captured d env (tree h) (copies h) e" if "e \<in> set (artifacts m)" for e
    using c that by (simp add: capturing_def)
  have rec: "recoverable d env ?M (tree h) (copies h)"
    using each c by (auto simp: recoverable_def captured_def candidate_ok_def capturing_def intro: tokens_in_mono)
  have allowed: "set (allowlist m) \<subseteq> set EXACT_ALLOWED_PATHS"
    using c collect_allowlist_Inr [OF paths] by (simp add: capturing_def)
  have still: "still d h" using c by (simp add: capturing_def)
  then have here: "shown (here h) = True" using shown_may [of "here h" d] by (simp add: still_def)
  have "consistent d env ?M h"
  proof -
    have "stays d env ?M (tree h) (copies h) (journal_file ?M)"
      unfolding stays_def rolling_def by (intro disjI2 exI [of _ ?M]) (use sound rec in simp)
    moreover have "False \<notin> may d (here h)" using still by (simp add: still_def)
    ultimately show ?thesis using still sound unfolding consistent_def j by (simp add: still_def)
  qed
  moreover have "at_rest d ?M h"
    unfolding at_rest_def
  proof (intro conjI ballI)
    show "may d (journal h) = {shown (journal h)}" by (simp add: j)
    show "may d (here h) = {shown (here h)}" using still here by (simp add: still_def)
    fix p assume "p \<in> set (allowlist ?M)"
    then have "p \<in> set EXACT_ALLOWED_PATHS" using allowed by (simp add: subset_eq)
    then show "may d (tree h p) = {shown (tree h p)}" using still unfolding still_def by blast
  qed
  moreover have "all_original d env ?M (tree h)"
    using each by (auto simp: all_original_def captured_def)
  ultimately show ?thesis using c j by (simp add: begun_at_def capturing_def)
qed

text \<open>A write of the journal leaves what is being captured alone.\<close>

lemma capturing_journal [simp]: "capturing d env paths m (h\<lparr>journal := j\<rparr>) = capturing d env paths m h"
  by (simp add: capturing_def still_def)

lemma capturing_stage [simp]: "capturing d env paths (m\<lparr>stage_of := s\<rparr>) h = capturing d env paths m h"
  by (simp add: capturing_def)

lemma capturing_snoc:
  assumes "recorded d env paths m (paths ! length (artifacts m)) e h" and "length (artifacts m) < length paths"
  shows "capturing d env paths (m\<lparr>artifacts := artifacts m @ [e]\<rparr>) h"
  using assms by (auto simp: recorded_def capturing_def entry_paths_def take_Suc_conv_app_nth wf_manifest_def)

lemma triple_snapshot_each:
  assumes "digest_ok env" and "set paths \<subseteq> set EXACT_ALLOWED_PATHS" and "length paths < 10000"
    and "drop (length (artifacts m)) paths = ps" and "length (artifacts m) \<le> length paths"
  shows "triple (capturing d env paths m) (snapshot_each env sofar (length (artifacts m)) ps m)
    (\<lambda>m' h. capturing d env paths m' h \<and> length (artifacts m') = length paths \<and> stage_of m' = stage_of m) (\<lambda>_. True)"
  using assms(4,5)
proof (induction ps arbitrary: m sofar)
  case Nil
  then show ?case by (auto intro!: triple_give)
next
  case (Cons p ps)
  then have short: "length (artifacts m) < length paths" by (metis drop_all leI list.distinct(1))
  then have p: "paths ! length (artifacts m) = p" "drop (Suc (length (artifacts m))) paths = ps"
    using Cons.prems(1) by (metis Cons_nth_drop_Suc list.inject)+
  then have allowed: "p \<in> set EXACT_ALLOWED_PATHS" using assms(2) short by (metis nth_mem subsetD)
  let ?m = "\<lambda>e. m\<lparr>artifacts := artifacts m @ [e]\<rparr>"
  let ?Q = "\<lambda>m' h. capturing d env paths m' h \<and> length (artifacts m') = length paths \<and> stage_of m' = stage_of m"
  have onward: "triple (capturing d env paths (?m e)) (snapshot_each env k (Suc (length (artifacts m))) ps (?m e)) ?Q (\<lambda>_. True)" for e k
    using Cons.IH [of "?m e" k] p(2) short by simp
  have written: "triple (recorded d env paths m p e)
      (if c then then_do a (fail_with RecoveryError) else then_do (atomic_write_manifest (?m e))
         (snapshot_each env k (Suc (length (artifacts m))) ps (?m e))) ?Q (\<lambda>_. True)" for c a e k
  proof (cases c)
    case True
    then show ?thesis by (simp only: if_True) (rule triple_then [OF triple_True triple_fail], simp)
  next
    case False
    have "triple (recorded d env paths m p e) (atomic_write_manifest (?m e)) (\<lambda>_. capturing d env paths (?m e)) (\<lambda>_. True)"
      by (rule triple_write) (use capturing_snoc [of d env paths m e] short p(1) in auto)
    with False show ?thesis by (simp only: if_False) (rule triple_then [OF _ onward])
  qed
  show ?case unfolding snapshot_each.simps Let_def
    by (simp only: less_irrefl if_False, rule triple_andthen [OF triple_snapshot_entry written])
      (use assms(1,3) allowed short in auto)
qed

definition quiet_host :: "bool \<Rightarrow> host \<Rightarrow> bool" where
  "quiet_host d h \<longleftrightarrow> (\<forall>p. tidy (tree h p)) \<and> (\<forall>p \<in> set EXACT_ALLOWED_PATHS. may d (tree h p) = {shown (tree h p)})"

text \<open>A transaction has been prepared and nothing captured yet.\<close>

definition prepared :: "bool \<Rightarrow> platform \<Rightarrow> host \<Rightarrow> bool" where
  "prepared d env h \<longleftrightarrow> still d h \<and> (\<forall>m. read_journal env (shown (journal h)) = Inr m \<longrightarrow> artifacts m = [])"

lemma check_manifest_fresh:
  assumes "check_manifest env m" and "artifacts m = []"
  shows "committed m = []" and "pending_commit m = None"
  using assms by (auto simp: check_manifest_def check_pending_def entry_paths_def split: option.splits)

lemma capturing_fresh:
  assumes "still d h" and "read_journal env f = Inr m" and "artifacts m = []"
  shows "capturing d env paths (m\<lparr>allowlist := paths\<rparr>) h"
proof -
  have "check_manifest env m" "wf_manifest m" using read_journal_ok [OF assms(2)] by auto
  with check_manifest_fresh [of env m] assms(1,3) show ?thesis
    by (simp add: capturing_def check_manifest_def wf_manifest_def entry_paths_def)
qed

lemma triple_snapshot:
  assumes digest: "digest_ok env"
  shows "triple (prepared d env) (snapshot env direct listed) (\<lambda>_ h. \<exists>M. begun_at d env M h) (\<lambda>_. True)"
proof -
  let ?Q = "\<lambda>_ :: unit. \<lambda>h. \<exists>M. begun_at d env M h"
  let ?R = "\<lambda>m h. (prepared d env h \<and> read_journal env (shown (journal h)) = Inr m) \<and> stage_of m = Preparing"
  have tail: "triple (capturing d env paths m1) (andthen (snapshot_each env k 0 paths m1) (\<lambda>m2. persist_state m2 Active)) ?Q (\<lambda>_. True)"
    if paths: "collect_allowlist env direct listed = Inr paths" and m1: "artifacts m1 = []" for paths m1 k
  proof (rule triple_andthen)
    note ok = collect_allowlist_Inr [OF paths]
    show "triple (capturing d env paths m1) (snapshot_each env k 0 paths m1)
      (\<lambda>m' h. capturing d env paths m' h \<and> length (artifacts m') = length paths \<and> stage_of m' = stage_of m1) (\<lambda>_. True)"
      using triple_snapshot_each [OF digest ok(3) allowed_length [OF ok(2,3)], of m1 paths d k] m1 by simp
    fix m2
    show "triple (\<lambda>h. capturing d env paths m2 h \<and> length (artifacts m2) = length paths \<and> stage_of m2 = stage_of m1)
      (persist_state m2 Active) ?Q (\<lambda>_. True)"
      unfolding persist_state_def
      by (rule triple_write, simp, simp, rule exI [of _ "m2\<lparr>stage_of := Active\<rparr>"], rule capturing_begun [OF _ paths]) simp_all
  qed
  have body: "triple (?R m) (andthen (lift (collect_allowlist env direct listed)) (\<lambda>paths.
     let m1 = m\<lparr>allowlist := paths\<rparr> in
     then_do (if allowlist m \<noteq> [] then refuse_if (allowlist m \<noteq> paths) else atomic_write_manifest m1)
       (andthen (snapshot_each env (sum_list (map (artifact_size \<circ> e_kind) (artifacts m))) 0 paths m1)
         (\<lambda>m2. persist_state m2 Active)))) ?Q (\<lambda>_. True)" for m
  proof (rule triple_andthen [OF triple_lift], simp)
    fix paths
    let ?m1 = "m\<lparr>allowlist := paths\<rparr>"
    show "triple (\<lambda>h. ?R m h \<and> collect_allowlist env direct listed = Inr paths) (let m1 = ?m1 in
       then_do (if allowlist m \<noteq> [] then refuse_if (allowlist m \<noteq> paths) else atomic_write_manifest m1)
       (andthen (snapshot_each env (sum_list (map (artifact_size \<circ> e_kind) (artifacts m))) 0 paths m1)
         (\<lambda>m2. persist_state m2 Active))) ?Q (\<lambda>_. True)"
    proof (rule triple_fact [where c = "collect_allowlist env direct listed = Inr paths \<and> artifacts m = []"])
      show "collect_allowlist env direct listed = Inr paths \<and> artifacts m = []"
        if "?R m h \<and> collect_allowlist env direct listed = Inr paths" for h
        using that by (simp add: prepared_def)
      assume c: "collect_allowlist env direct listed = Inr paths \<and> artifacts m = []"
      have fresh: "capturing d env paths ?m1 h" if "?R m h" for h
        using capturing_fresh that c by (auto simp: prepared_def)
      show ?thesis unfolding Let_def
      proof (rule triple_then [OF _ tail])
        show "triple (\<lambda>h. ?R m h \<and> collect_allowlist env direct listed = Inr paths)
          (if allowlist m \<noteq> [] then refuse_if (allowlist m \<noteq> paths) else atomic_write_manifest ?m1)
          (\<lambda>_. capturing d env paths ?m1) (\<lambda>_. True)"
          using fresh by (auto intro!: triple_refuse_to triple_write)
      qed (use c in auto)
    qed
  qed
  show ?thesis unfolding snapshot_def
    by (rule triple_andthen, rule triple_load, simp, rule triple_then, rule triple_refuse, simp, rule triple_pre [OF body]) auto
qed

text \<open>Preparing a transaction captures the runtime without touching a file.\<close>

lemma triple_and:
  assumes "triple P m Q X" and "triple (\<lambda>_. True) m (\<lambda>x _. C x) (\<lambda>_. True)"
  shows "triple P m (\<lambda>x h. Q x h \<and> C x) X"
proof (rule tripleI)
  fix ps h r qs h' assume p: "P h" and e: "m ps h = (r, qs, h')"
  from tripleD [OF assms(1) p e] tripleD [OF assms(2) _ e]
  show "meets (\<lambda>x h. Q x h \<and> C x) X r h'" by (cases r) simp_all
qed

lemma gather_keys:
  assumes "\<And>x. triple (\<lambda>_. True) (f x) (\<lambda>y _. fst y = x) (\<lambda>_. True)"
  shows "triple (\<lambda>_. distinct xs) (gather f xs) (\<lambda>ys _. wf_dict ys) (\<lambda>_. True)"
proof -
  have "triple (\<lambda>_. True) (gather f xs) (\<lambda>ys _. map fst ys = xs) (\<lambda>_. True)"
  proof (induction xs)
    case Nil
    show ?case by (simp add: triple_give)
  next
    case (Cons x xs)
    have "triple (\<lambda>_. fst y = x) (andthen (gather f xs) (\<lambda>ys. give (y # ys))) (\<lambda>ys _. map fst ys = x # xs) (\<lambda>_. True)" for y
      by (rule triple_fact [where c = "fst y = x"], simp, rule triple_andthen [OF triple_pre [OF Cons.IH] triple_give]) auto
    then show ?case unfolding gather.simps by (rule triple_andthen [OF assms])
  qed
  then have keys: "triple (\<lambda>_. distinct xs) (gather f xs) (\<lambda>ys _. map fst ys = xs) (\<lambda>_. True)" by (rule triple_pre) simp
  show ?thesis
  proof (rule triple_fact [where c = "distinct xs"])
    assume "distinct xs"
    then show ?thesis by (intro triple_post [OF keys]) (simp add: wf_dict_def)
  qed
qed

lemma andthen_Done:
  "andthen m f ps h = (Done x, qs, h') \<longleftrightarrow> (\<exists>y rs g. m ps h = (Done y, rs, g) \<and> f y rs g = (Done x, qs, h'))"
  by (auto simp: andthen_def split: prod.splits outcome.splits)

lemma gather_wf:
  assumes "gather f xs ps h = (Done ys, qs, h')" and "distinct xs"
    and "\<And>x. triple (\<lambda>_. True) (f x) (\<lambda>y _. fst y = x) (\<lambda>_. True)"
  shows "wf_dict ys"
  using tripleD [OF gather_keys [OF assms(3), of xs] assms(2,1)] by simp

lemma aside_capture_unit [asides]: "aside (capture_unit env u)"
  unfolding capture_unit_def Let_def by (intro asides)

lemma aside_capture_sysctl [asides]: "aside (capture_sysctl env k)"
  unfolding capture_sysctl_def Let_def by (intro asides)

lemma aside_capture_log_dir [asides]: "aside (capture_log_dir env l)"
  unfolding capture_log_dir_def by (auto intro!: asides split: dir_meta.splits)

lemma aside_capture_runtime [asides]: "aside (capture_runtime env us ks ls)"
  unfolding capture_runtime_def by (intro asides)

lemma unit_key: "triple (\<lambda>_. True) (capture_unit env u) (\<lambda>y _. fst y = u) (\<lambda>_. True)"
  unfolding capture_unit_def Let_def
  by (rule triple_andthen [OF triple_True], rule triple_andthen [OF triple_True], rule triple_then [OF triple_True triple_give]) simp

lemma sysctl_key: "triple (\<lambda>_. True) (capture_sysctl env u) (\<lambda>y _. fst y = u) (\<lambda>_. True)"
  unfolding capture_sysctl_def Let_def
  by (rule triple_andthen [OF triple_True], rule triple_then [OF triple_True triple_give]) simp

lemma log_dir_key: "triple (\<lambda>_. True) (capture_log_dir env u) (\<lambda>y _. fst y = u) (\<lambda>_. True)"
proof -
  have key: "triple (\<lambda>_. p = u) (case d of NoDir \<Rightarrow> give (p, None)
       | DirMeta is_dir uid gid mode \<Rightarrow> then_do (refuse_if (\<not> is_dir)) (give (p, Some (uid, gid, int mode))))
     (\<lambda>y _. fst y = u) (\<lambda>_. True)" for p d
    by (cases d) (auto intro!: triple_give triple_then [where R = "\<lambda>_. p = u"] triple_refuse_to)
  show ?thesis unfolding capture_log_dir_def
    by (rule triple_andthen [where R = "\<lambda>p _. p = u"], rule triple_lift_to, simp,
        force simp: validate_log_dir_def rbind_eq_Inr dest: canonical_path_Inr,
        rule triple_then [OF triple_pause], simp, rule triple_andthen [OF triple_post [OF triple_ask] key]) simp
qed

lemma capture_runtime_wf:
  "triple (\<lambda>_. True) (capture_runtime env us ks ls) (\<lambda>r _. wf_runtime r) (\<lambda>_. True)"
proof (rule tripleI)
  fix ps h r qs h' assume e: "capture_runtime env us ks ls ps h = (r, qs, h')"
  show "meets (\<lambda>r _. wf_runtime r) (\<lambda>_. True) r h'"
  proof (cases r)
    case (Done x)
    with e have "wf_runtime x"
      by (simp only: capture_runtime_def then_do_def andthen_Done)
        (auto simp: give_def refuse_if_def fail_with_def wf_runtime_def split: if_splits
          dest: gather_wf [OF _ _ unit_key] gather_wf [OF _ _ sysctl_key] gather_wf [OF _ _ log_dir_key])
    with Done show ?thesis by simp
  qed simp_all
qed

lemma triple_ensure_root:
  "triple (quiet_host d) (ensure_recovery_root env) (\<lambda>_ h. quiet_host d h \<and> root_there h) (\<lambda>_. True)"
proof -
  let ?q = "\<lambda>h. quiet_host d h \<and> root_there h"
  have parent: "triple (quiet_host d) (if c then several [lift a, pause, pause, fsync_directory env False p] else lift b)
      (\<lambda>_. quiet_host d) (\<lambda>_. True)" for a b :: "unit res" and c p
    by (rule aside_triple) (auto intro!: asides simp: files_only_def quiet_host_def)
  have made: "triple (\<lambda>h. quiet_host d h \<and> there = root_there h) (if there then lift r
      else several [call (\<lambda>h. h\<lparr>root_there := True\<rparr>), pause, pause]) (\<lambda>_. ?q) (\<lambda>_. True)" for there r
  proof (cases there)
    case True
    then show ?thesis by (auto intro: triple_lift_to)
  next
    case False
    have "triple (quiet_host d) (several [call (\<lambda>h. h\<lparr>root_there := True\<rparr>), pause, pause]) (\<lambda>_. ?q) (\<lambda>_. True)"
      by (rule triple_several_Cons [OF triple_call [where Q = "\<lambda>_. ?q"]], simp add: quiet_host_def, simp,
          rule triple_several_Cons [OF triple_pause], simp, rule triple_several_Cons [OF triple_pause], simp,
          rule triple_several_Nil)
    with False show ?thesis by (simp only: if_False) (erule triple_pre, simp)
  qed
  show ?thesis unfolding ensure_recovery_root_def Let_def
    by (rule triple_then [OF parent triple_andthen [OF triple_ask made]])
qed

lemma triple_prepare:
  "triple (quiet_host d) (prepare env tx ns us ks ls) (\<lambda>_. prepared d env) (\<lambda>_. True)"
proof -
  let ?q = "\<lambda>h. quiet_host d h \<and> root_there h" and ?r = "\<lambda>h. (quiet_host d h \<and> root_there h) \<and> here h = quiet_slot True"
  have files: "files_only ?q" "files_only ?r" by (auto simp: files_only_def quiet_host_def)
  have new: "still d h" if "?r h" for h using that by (simp add: still_def quiet_host_def)
  have written: "triple (\<lambda>h. ?r h \<and> wf_runtime r)
      (then_do pause (then_do (refuse_if (\<not> BOOT_ID_RE (boot_now env))) (atomic_write_manifest (new_manifest env tx ns r))))
      (\<lambda>_. prepared d env) (\<lambda>_. True)" for r
  proof -
    have read: "artifacts m = []" if "wf_runtime r" "read_journal env (journal_file (new_manifest env tx ns r)) = Inr m" for m
      using that read_journal_file [of "new_manifest env tx ns r" env]
      by (auto simp: new_manifest_def wf_manifest_def split: if_splits)
    show ?thesis
      by (rule triple_then [OF triple_pause], simp, rule triple_then [OF triple_refuse], simp, rule triple_write, simp, simp)
        (use new read in \<open>auto simp: prepared_def still_def\<close>)
  qed
  have captured: "triple ?r (capture_runtime env us ks ls) (\<lambda>r h. ?r h \<and> wf_runtime r) (\<lambda>_. True)"
    by (rule triple_and [OF aside_triple [OF aside_capture_runtime files(2)] capture_runtime_wf]) simp
  have opened: "triple ?q (then_do (open_directory env False DEFAULT_RECOVERY_ROOT)
        (call (\<lambda>h. h\<lparr>here := quiet_slot True, journal := quiet_slot Missing, copies := []\<rparr>))) (\<lambda>_. ?r) (\<lambda>_. True)"
    by (rule triple_then [OF aside_triple [OF aside_open files(1)] triple_call]) (auto simp: quiet_host_def)
  have made: "triple ?q (call (\<lambda>h. h\<lparr>here := installed (quiet_slot True) (here h)\<rparr>)) (\<lambda>_. ?q) (\<lambda>_. True)"
    by (rule triple_call) (auto simp: quiet_host_def)
  have asked: "triple ?q (andthen (ask (\<lambda>h. shown (here h))) refuse_if) (\<lambda>_. ?q) (\<lambda>_. True)"
    by (rule aside_triple [OF _ files(1)]) (intro asides, simp)
  show ?thesis unfolding prepare_def
    by (rule triple_several_Cons [OF triple_ensure_root], rule triple_several_Cons [OF asked],
        rule triple_several_Cons [OF made], rule triple_several_Cons [OF triple_pause], simp,
        rule triple_several_Cons [OF opened],
        rule triple_several_Cons [OF triple_on_error [OF triple_andthen [OF captured written] triple_True]], simp,
        rule triple_several_Nil)
qed

end
