(* ===== verification/DeployGuarantees.thy ===== *)
theory DeployGuarantees
  imports DeploySnapshot
begin

text \<open>
  The guarantees of whole deployments: a snapshot begins a transaction, and from there on whatever
  fails, the journal stays valid and a recovery that returns leaves the artifacts as they were or all as deployed.
\<close>

section \<open>A concrete deployment\<close>

definition example_digit :: "nat \<Rightarrow> char" where
  "example_digit n = ''0123456789abcdef'' ! (n mod 16)"

definition example_digest :: "string \<Rightarrow> string" where
  "example_digest s = (let n = length s in
     replicate 62 (CHR ''0'') @ [example_digit (n div 16), example_digit n])"

definition example_env :: platform where
  "example_env = \<lparr>sha256 = example_digest, dirs = (\<lambda>_. DirMeta True 0 0 448), syslog_gid = None,
     boot_now = ''01234567-0123-0123-0123-0123456789ab'', answer = (\<lambda>_ _. (0, ''active'')),
     executable_safe = (\<lambda>_. True), arrange = (\<lambda>xs. xs)\<rparr>"

definition example_path :: string where "example_path = ''/root/hysteria/alerts.py''"

definition example_file :: "string \<Rightarrow> node" where
  "example_file b = Node \<lparr>holds = Regular b, owner = 0, group = 0, permissions = 420, nlink = 1\<rparr>"

definition example_token :: "string \<Rightarrow> string" where
  "example_token b = generation_token example_env (FileValue (example_digest b) (int (length b)) 420 0 0)"

definition example_manifest :: manifest where
  "example_manifest = \<lparr>txid = replicate 32 (CHR ''a''), stage_of = Active, boot_id = boot_now example_env,
     created_ns = JInt 5, m_runtime = \<lparr>units = [], sysctls = [], log_dirs = []\<rparr>, allowlist = [example_path],
     artifacts = [\<lparr>e_path = example_path, e_kind = FileArtifact (snapshot_name 0) (example_digest ''old'') 3 420 0 0,
       e_original = example_token ''old'', e_replacement = Some (example_token ''replacement!'')\<rparr>],
     committed = [example_path], pending_commit = None\<rparr>"

text \<open>The artifact has been replaced and committed; the transaction is still open.\<close>

definition example_host :: host where
  "example_host = \<lparr>tree = (\<lambda>p. quiet_slot (if p = example_path then example_file ''replacement!'' else Absent)), root_there = True,
     here = quiet_slot True, journal = quiet_slot (journal_file example_manifest),
     copies = [(snapshot_name 0, quiet_slot (Some ''old''))], logs = (\<lambda>_. NoDir), ran = []\<rparr>"

lemma example_digit_hex: "hex_lower (example_digit n)"
proof -
  have "list_all hex_lower ''0123456789abcdef''" by code_simp
  moreover have "n mod 16 < length ''0123456789abcdef''" by simp
  ultimately show ?thesis unfolding example_digit_def by (simp only: list_all_length)
qed

lemma example_digest_ok: "digest_ok example_env"
  using example_digit_hex
  by (simp add: digest_ok_def HEX64_RE_def hex_string_def example_env_def example_digest_def Let_def)
     code_simp

lemma example_tokens: "example_token ''old'' \<noteq> example_token ''replacement!''"
  by code_simp

lemma example_validated: "validate_artifact_path example_env example_path = Inr example_path"
  by code_simp

text \<open>How long the text of a value can be, without writing it out.\<close>

fun room :: "json \<Rightarrow> nat" where
  "room (JStr t) = 6 * length t + 2"
| "room (JList xs) = 2 + sum_list (map (\<lambda>x. room x + 1) xs)"
| "room (JObj d) = 2 + sum_list (map (\<lambda>(k, v). 6 * length k + room v + 4) d)"
| "room v = length (json_text True v)"

lemma length_quoted: "length (quoted t) \<le> 6 * length t + 2"
proof -
  have "length (escape_char c) \<le> 6" for c by (simp add: escape_char_def Let_def)
  then have "length (concat (map escape_char t)) \<le> 6 * length t"
    by (induction t) (auto intro: add_mono)
  then show ?thesis by (simp add: quoted_def)
qed

lemma length_joined: "length (joined xs) \<le> sum_list (map (\<lambda>x. length x + 1) xs)"
  by (induction xs rule: joined.induct) auto

lemma sum_list_insort_key: "sum_list (map f (insort_key g x xs)) = f x + (sum_list (map f xs) :: nat)"
  by (induction xs) auto

lemma sum_list_sort_key: "sum_list (map f (sort_key g xs)) = (sum_list (map f xs) :: nat)"
  by (induction xs) (simp_all add: sum_list_insort_key)

lemma length_json_text: "length (json_text True v) \<le> room v"
proof (induction v rule: room.induct)
  case (1 t)
  show ?case using length_quoted [of t] by simp
next
  case (2 xs)
  have "length (joined (map (json_text True) xs)) \<le> sum_list (map (\<lambda>x. length x + 1) (map (json_text True) xs))"
    by (rule length_joined)
  also have "\<dots> \<le> sum_list (map (\<lambda>x. room x + 1) xs)"
    unfolding map_map comp_def by (rule sum_list_mono) (use 2 in auto)
  finally show ?case by simp
next
  case (3 d)
  let ?row = "\<lambda>(k, t). quoted k @ '':'' @ t" and ?rows = "map (\<lambda>(k, v). (k, json_text True v)) d"
  have "length (joined (map ?row (sort_key fst ?rows))) \<le> sum_list (map (\<lambda>x. length x + 1) (map ?row (sort_key fst ?rows)))"
    by (rule length_joined)
  also have "\<dots> = sum_list (map (\<lambda>x. length x + 1) (map ?row ?rows))"
    by (simp only: map_map sum_list_sort_key comp_assoc)
  also have "\<dots> \<le> sum_list (map (\<lambda>(k, v). 6 * length k + room v + 4) d)"
    unfolding map_map comp_def
  proof (rule sum_list_mono)
    fix kv assume "kv \<in> set d"
    with 3 [of kv "fst kv" "snd kv"] length_quoted [of "fst kv"]
    show "length (?row (case kv of (k, v) \<Rightarrow> (k, json_text True v))) + 1
        \<le> (case kv of (k, v) \<Rightarrow> 6 * length k + room v + 4)"
      by (cases kv) (auto intro!: add_mono)
  qed
  finally show ?case by (simp add: Let_def)
qed simp_all

lemma length_example: "length (example_digest t) = 64" "length (example_token t) = 64"
  by (simp_all add: example_token_def generation_token_def example_env_def example_digest_def Let_def)

lemma example_small: "length (json_text True (manifest_json (example_manifest\<lparr>stage_of := s\<rparr>))) < 9000"
proof -
  have "room (JStr (stage_name s)) \<le> 100" by (cases s) (simp_all add: stage_name_def)
  then have "room (manifest_json (example_manifest\<lparr>stage_of := s\<rparr>)) < 9000"
    by (simp add: manifest_json_def example_manifest_def entry_json_def runtime_json_def pending_json_def length_example
        example_path_def example_env_def snapshot_name_def pad_zero_def py_eval MANIFEST_VERSION_def)
  with length_json_text [of "manifest_json (example_manifest\<lparr>stage_of := s\<rparr>)"] show ?thesis by simp
qed

text \<open>Running a command whose system calls all succeed.\<close>

lemmas act_simps = give_def fail_with_def ask_def lift_def refuse_if_def andthen_def then_do_def on_error_def swallow_def
  relabel_def system_call_def call_def pause_def look_def generation_def token_at_def open_directory_def
  fsync_directory_def fsync_parent_def fsync_regular_def unlink_def at_path_def Let_def

lemma example_hex: "HEX64_RE (example_digest t)" "HEX64_RE (example_token t)"
  using example_digest_ok token_HEX by (simp_all add: digest_ok_def example_env_def example_token_def)

lemma example_valid: "check_manifest example_env example_manifest" "wf_manifest example_manifest"
proof -
  have "TXID_RE (txid example_manifest)" "BOOT_ID_RE (boot_id example_manifest)" by code_simp+
  moreover have "check_runtime example_env (m_runtime example_manifest)" by (simp add: check_runtime_def example_manifest_def)
  ultimately show "check_manifest example_env example_manifest"
    by (simp add: check_manifest_def example_manifest_def example_validated entry_paths_def check_entry_def example_hex
        check_artifact_def snapshot_name_RE check_pending_def journaled_def MAX_FILE_BYTES_def)
  show "wf_manifest example_manifest" by (simp add: wf_manifest_def wf_runtime_def example_manifest_def)
qed

lemma example_read: "read_journal example_env (journal_file example_manifest) = Inr example_manifest"
  using example_valid by (simp add: read_journal_file)

lemma example_generation:
  "length b \<le> 12 \<Longrightarrow> generation_of example_env (example_file b) = Inr (FileValue (example_digest b) (int (length b)) 420 0 0)"
  by (simp add: generation_of_def example_file_def MAX_FILE_BYTES_def example_env_def)

lemma example_write:
  "atomic_write_manifest (example_manifest\<lparr>stage_of := s\<rparr>) [] h
     = (Done (), [], h\<lparr>journal := settled (installed (quiet_slot (journal_file (example_manifest\<lparr>stage_of := s\<rparr>))) (journal h))\<rparr>)"
  using example_small [of s] by (simp add: atomic_write_manifest_def act_simps MAX_MANIFEST_BYTES_def)

lemma example_safe: "safe_directory example_env r a p = Inr ()"
  by (simp add: safe_directory_def check_directory_def example_env_def writable_by_others_def bit_simps)

definition example_entry :: entry where
  "example_entry = \<lparr>e_path = example_path, e_kind = FileArtifact (snapshot_name 0) (example_digest ''old'') 3 420 0 0,
     e_original = example_token ''old'', e_replacement = Some (example_token ''replacement!'')\<rparr>"

lemma example_fields [simp]:
  "stage_of example_manifest = Active" "m_runtime example_manifest = \<lparr>units = [], sysctls = [], log_dirs = []\<rparr>"
  "artifacts example_manifest = [example_entry]" "committed example_manifest = [example_path]"
  "pending_commit example_manifest = None" "e_path example_entry = example_path"
  "e_original example_entry = example_token ''old''" "e_replacement example_entry = Some (example_token ''replacement!'')"
  "e_kind example_entry = FileArtifact (snapshot_name 0) (example_digest ''old'') 3 420 0 0"
  "sha256 example_env = example_digest" "arrange example_env xs = xs" "length (example_digest t) = 64"
  by (simp_all add: example_manifest_def example_entry_def example_env_def length_example)

lemma journal_present [simp]: "journal_file m \<noteq> Missing"
  by (simp add: journal_file_def)

lemma example_known [simp]:
  "generation_token example_env (FileValue (example_digest ''old'') 3 420 0 0) = example_token ''old''"
  "generation_token example_env (FileValue (example_digest ''replacement!'') 12 420 0 0) = example_token ''replacement!''"
  "restored_node (FileArtifact name (example_digest ''old'') 3 420 0 0) b = example_file b"
  by (simp_all add: example_token_def restored_node_def example_file_def)

lemma example_names [simp]: "snapshot_name 0 \<noteq> MANIFEST_NAME"
  by code_simp

lemmas example_run = act_simps example_safe load_manifest_def example_read copy_of_def copy_in_def example_generation
  MAX_FILE_BYTES_def example_tokens [symmetric] persist_state_def example_write quiet_slot_def settled_def installed_def
  cleanup_pending_def rmtree_def present_items_def unlink_item_def unlink_copy_def at_copy_def fsync_root_def sync_root_def

lemma example_recover: "\<exists>h'. recover example_env [] example_host = (Done (), [], h')"
  by (simp add: recover_def example_host_def example_run recover_pending_def recover_loaded_def roll_back_def
     preflight_recovery_def changed_entry_def snapshot_integrity_def journaled_def stop_runtime_units_def begin_restore_def
     cleanup_candidate_from_pending_def restore_all_def restore_entry_def put_back_def restore_runtime_def
     verify_all_original_def finish_restored_def resume_runtime_units_def give_back_def mark_failed_def)
    auto

lemma example_complete: "\<exists>h'. complete example_env [] example_host = (Done (), [], h')"
  by (simp add: complete_def load_active_def example_host_def example_run)

lemma example_sound: "sound example_env example_manifest example_manifest"
  by (simp add: sound_def example_valid)

lemma example_consistent: "consistent True example_env example_manifest example_host"
proof -
  have "token_of example_env (example_file ''old'') = Some (example_token ''old'')"
    "token_of example_env (example_file ''replacement!'') = Some (example_token ''replacement!'')"
    by (simp_all add: token_of_def example_generation)
  then have "recoverable True example_env example_manifest (tree example_host) (copies example_host)"
    by (simp add: recoverable_def copy_ok_def candidate_ok_def tokens_in_def example_host_def copy_in_def)
  then have "stays True example_env example_manifest (tree example_host) (copies example_host) (journal_file example_manifest)"
    unfolding stays_def rolling_def by (intro disjI2 exI [of _ example_manifest]) (simp add: example_sound)
  then show ?thesis
    by (simp add: consistent_def example_sound) (simp add: example_host_def)
qed

lemma example_at_rest: "at_rest True example_manifest example_host"
  by (simp add: at_rest_def example_host_def)

definition example_before :: host where
  "example_before = example_host\<lparr>tree := (\<lambda>p. quiet_slot (if p = example_path then example_file ''old'' else Absent)),
     root_there := False, here := quiet_slot False, journal := quiet_slot Missing, copies := []\<rparr>"

text \<open>The manifests of the snapshot of \<open>example_before\<close>.\<close>

definition example_draft :: "string list \<Rightarrow> entry list \<Rightarrow> stage \<Rightarrow> manifest" where
  "example_draft paths es s = \<lparr>txid = replicate 32 (CHR ''a''), stage_of = s, boot_id = boot_now example_env,
     created_ns = JInt 5, m_runtime = \<lparr>units = [], sysctls = [], log_dirs = []\<rparr>, allowlist = paths,
     artifacts = es, committed = [], pending_commit = None\<rparr>"

lemma example_draft_changes [simp]:
  "new_manifest example_env (replicate 32 (CHR ''a'')) 5 \<lparr>units = [], sysctls = [], log_dirs = []\<rparr> = example_draft [] [] Preparing"
  "(example_draft ps es s)\<lparr>allowlist := ps'\<rparr> = example_draft ps' es s"
  "(example_draft ps es s)\<lparr>artifacts := es'\<rparr> = example_draft ps es' s"
  "(example_draft ps es s)\<lparr>stage_of := s'\<rparr> = example_draft ps es s'"
  "stage_of (example_draft ps es s) = s" "allowlist (example_draft ps es s) = ps" "artifacts (example_draft ps es s) = es"
  by (simp_all add: example_draft_def new_manifest_def)

lemma example_draft_write:
  assumes "ps \<in> {[], [example_path]}" and "es \<in> {[], [example_entry\<lparr>e_replacement := None\<rparr>]}"
  shows "atomic_write_manifest (example_draft ps es s) [] h
     = (Done (), [], h\<lparr>journal := settled (installed (quiet_slot (journal_file (example_draft ps es s))) (journal h))\<rparr>)"
proof -
  have "room (JStr (stage_name s)) \<le> 100" by (cases s) (simp_all add: stage_name_def)
  then have "room (manifest_json (example_draft ps es s)) < 9000"
    using assms
    by (auto simp: manifest_json_def example_draft_def entry_json_def runtime_json_def pending_json_def length_example
        example_path_def example_env_def snapshot_name_def pad_zero_def py_eval MANIFEST_VERSION_def example_entry_def)
  with length_json_text [of "manifest_json (example_draft ps es s)"]
  show ?thesis by (simp add: atomic_write_manifest_def act_simps MAX_MANIFEST_BYTES_def)
qed

lemma example_boot [simp]: "BOOT_ID_RE (boot_now example_env)"
  by code_simp

lemma example_draft_read:
  "read_journal example_env (journal_file (example_draft [] [] Preparing)) = Inr (example_draft [] [] Preparing)"
proof -
  have "wf_manifest (example_draft [] [] Preparing)" "TXID_RE (replicate 32 (CHR ''a''))"
    by (simp add: wf_manifest_def wf_runtime_def example_draft_def, code_simp)
  then show ?thesis
    by (simp add: read_journal_file check_manifest_def example_draft_def entry_paths_def check_pending_def journaled_def
        check_runtime_def)
qed

lemma example_paths: "collect_allowlist example_env [example_path] [] = Inr [example_path]"
  by (simp add: collect_allowlist_def example_validated)

lemma example_snapshot:
  "\<exists>h h'. prepare example_env (replicate 32 (CHR ''a'')) 5 [] [] [] [] example_before = (Done (), [], h)
     \<and> snapshot example_env [example_path] [] [] h = (Done (), [], h')"
  by (simp add: prepare_def ensure_recovery_root_def example_before_def example_host_def example_run capture_runtime_def
    example_draft_write snapshot_def example_draft_read example_paths snapshot_entry_def copy_bytes_def
    bytes_at_def torn_copy_def bytes_synced_def artifact_size_def MAX_TOTAL_BYTES_def)

lemma example_quiet: "quiet_host True example_before"
  by (simp add: quiet_host_def example_before_def example_host_def)

section \<open>An artifact somebody else changed\<close>

definition known :: "platform \<Rightarrow> entry \<Rightarrow> host \<Rightarrow> bool" where
  "known env e h \<longleftrightarrow> token_of env (shown (tree h (e_path e))) \<in> Some ` ({e_original e} \<union> set_option (e_replacement e))"

lemma triple_changed:
  assumes "\<And>h. P h \<Longrightarrow> X h"
  shows "triple P (changed_entry env e) (\<lambda>_ h. P h \<and> known env e h) X"
proof -
  have "triple (\<lambda>h. P h \<and> token_of env (shown (tree h (e_path e))) = Some t) (if t = e_original e then give (e, False)
      else then_do (refuse_if (Some t \<noteq> e_replacement e)) (give (e, True))) (\<lambda>_ h. P h \<and> known env e h) X" for t
    using assms
    by (cases "t = e_original e"; cases "e_replacement e")
      (auto intro!: triple_give triple_then [OF triple_refuse triple_give] simp: known_def)
  then show ?thesis unfolding changed_entry_def
    by (intro triple_then [where R = P] triple_andthen [OF triple_token] triple_post [OF triple_integrity]) (use assms in auto)
qed

lemma refused_preflight:
  assumes "e \<in> set (artifacts m)" and "\<not> known env e h"
  shows "triple (\<lambda>g. g = h) (preflight_recovery env m) (\<lambda>_ _. False) (\<lambda>g. g = h)"
  unfolding preflight_recovery_def
proof (rule triple_andthen)
  have "triple (\<lambda>g. g = h) (gather (changed_entry env) (artifacts m))
      (\<lambda>ys g. g = h \<and> list_all2 (\<lambda>x y. known env x g) (artifacts m) ys) (\<lambda>g. g = h)"
    by (rule triple_gather) (auto intro: triple_changed)
  then show "triple (\<lambda>g. g = h) (gather (changed_entry env) (artifacts m)) (\<lambda>_ _. False) (\<lambda>g. g = h)"
    by (rule triple_post) (use assms in \<open>auto simp: list_all2_conv_all_nth in_set_conv_nth\<close>)
qed (simp add: triple_def)

lemma triple_False: "triple (\<lambda>_. False) m Q X"
  by (simp add: triple_def)

lemma refused_recover:
  assumes "root_there h" "shown (here h)" and m: "read_journal env (shown (journal h)) = Inr m" "rolling (stage_of m)"
    and e: "e \<in> set (artifacts m)" "\<not> known env e h"
  shows "triple (\<lambda>g. g = h) (recover env) (\<lambda>_ _. False) (\<lambda>g. g = h)"
proof -
  let ?P = "\<lambda>g. g = h" and ?Q = "\<lambda>_ _. False"
  have loaded: "triple (\<lambda>g. ?P g \<and> read_journal env (shown (journal g)) = Inr m') (recover_loaded env m') ?Q ?P" for m'
  proof (rule triple_fact [where c = "m' = m"])
    assume "m' = m"
    then have "recover_loaded env m' = roll_back env m" using m(2) by (auto simp: recover_loaded_def rolling_def)
    then show ?thesis unfolding roll_back_def
      by (simp only:) (rule triple_pre [OF triple_then [OF refused_preflight [OF e] triple_False]], simp)
  qed (use m in simp)
  have pending: "triple ?P (recover_pending env) ?Q ?P" unfolding recover_pending_def
  proof (rule triple_andthen, rule triple_ask)
    fix f
    show "triple (\<lambda>g. ?P g \<and> f = shown (journal g)) (if f = Missing then cleanup_pending env
      else andthen (load_manifest env) (recover_loaded env)) ?Q ?P"
    proof (rule triple_fact [where c = "f \<noteq> Missing"])
      assume "f \<noteq> Missing"
      moreover have "triple ?P (andthen (load_manifest env) (recover_loaded env)) ?Q ?P"
        by (rule triple_andthen [OF triple_load loaded])
      ultimately show ?thesis by (simp, elim triple_pre) simp
    qed (use m(1) in \<open>auto simp: read_journal_def\<close>)
  qed
  have there: "triple (\<lambda>g. ?P g \<and> t = shown (here g)) (if \<not> t then give () else recover_pending env) ?Q ?P" for t
    by (rule triple_fact [where c = t]) (use assms(2) in \<open>auto intro: triple_pre [OF pending]\<close>)
  have rooted: "triple ?P (then_do (lift (safe_directory env True False DEFAULT_RECOVERY_ROOT))
      (andthen (ask (\<lambda>h. shown (here h))) (\<lambda>t. if \<not> t then give () else recover_pending env))) ?Q ?P"
    by (rule triple_then [where R = ?P], rule triple_lift_to, assumption, assumption, rule triple_andthen [OF triple_ask there])
  show ?thesis unfolding recover_def
  proof (rule triple_andthen, rule triple_ask)
    fix t
    show "triple (\<lambda>g. ?P g \<and> t = root_there g) (if \<not> t then give ()
        else then_do (lift (safe_directory env True False DEFAULT_RECOVERY_ROOT))
          (andthen (ask (\<lambda>h. shown (here h))) (\<lambda>t. if \<not> t then give () else recover_pending env))) ?Q ?P"
      by (rule triple_fact [where c = t]) (use assms(1) in \<open>auto intro: triple_pre [OF rooted]\<close>)
  qed
qed

section \<open>Guarantees\<close>

text \<open>
  C21. A transaction begins durably. When \<^verbatim>\<open>prepare\<close> and \<^verbatim>\<open>snapshot\<close> return, whatever failed in between them or was
  tolerated, the manifest on disk is active, nothing is committed or pending, each artifact still has the generation
  the manifest records as its original (also after a power loss), and the invariant of the transaction holds: every
  file original has a durable copy with the recorded digest.
\<close>

theorem snapshot_begins_transaction:
  assumes "digest_ok env" and "quiet_host d h"
    and "prepare env tx ns us ks ls ps h = (Done (), qs, h1)" and "snapshot env direct listed ps' h1 = (Done (), qs', h2)"
  shows "\<exists>M. stage_of M = Active \<and> committed M = [] \<and> pending_commit M = None \<and> shown (journal h2) = journal_file M
     \<and> all_original d env M (tree h2) \<and> consistent d env M h2 \<and> at_rest d M h2"
proof -
  have "prepared d env h1" using tripleD [OF triple_prepare assms(2,3)] by simp
  from tripleD [OF triple_snapshot [OF assms(1)] this assms(4)] show ?thesis by (simp add: begun_at_def)
qed

theorem snapshot_begins_transaction_witness:
  "\<exists>h h' M. snapshot example_env [example_path] [] [] h = (Done (), [], h') \<and> all_original True example_env M (tree h')
     \<and> consistent True example_env M h'"
proof -
  obtain h h' where h: "prepare example_env (replicate 32 (CHR ''a'')) 5 [] [] [] [] example_before = (Done (), [], h)"
    "snapshot example_env [example_path] [] [] h = (Done (), [], h')" using example_snapshot by blast
  from snapshot_begins_transaction [OF example_digest_ok example_quiet h] h(2) show ?thesis by blast
qed

text \<open>
  C23. The journal is well formed at every moment of a transaction: whatever commands ran, failed or were killed
  and whatever power was lost since the invariant held, every manifest that may be found on disk passes the
  program's own validation and names the same transaction, paths, originals and runtime.
\<close>

theorem journal_always_valid:
  assumes "digest_ok env" and "consistent d env M h" and "deploying d env M h h'"
    and "f \<in> may d (journal h')" and "f \<noteq> Missing"
  shows "\<exists>m. read_journal env f = Inr m \<and> check_manifest env m \<and> base m = base M"
proof -
  have "stays d env M (tree h') (copies h') f"
    using deploying_consistent [OF assms(3,1,2)] assms(4) by (simp add: consistent_def)
  then obtain m where "f = journal_file m" "sound env M m"
    using assms(5) unfolding stays_def ending_def by blast
  then show ?thesis using read_journal_file [of m env] by (auto simp: sound_def)
qed

theorem journal_always_valid_witness:
  "read_journal example_env (journal_file example_manifest) = Inr example_manifest
    \<and> (\<exists>m. read_journal example_env (journal_file example_manifest) = Inr m \<and> check_manifest example_env m \<and> base m = base example_manifest)"
  using journal_always_valid [OF example_digest_ok example_consistent deploying.begun, of "journal_file example_manifest"]
  by (simp add: example_read) (simp add: example_host_def)





text \<open>
  C11. A foreign change is never overwritten. If an artifact of a journaled deployment shows neither its original nor its
  journaled replacement, or cannot be read as either, a recovery does not return, whatever fails in it, and leaves the host exactly
  as it found it: no artifact, no journal file and no service is touched.
\<close>

theorem foreign_change_refused:
  assumes "root_there h" and "shown (here h)" and "read_journal env (shown (journal h)) = Inr m"
    and "stage_of m \<in> {Active, Restoring, RecoveryFailed}" and "e \<in> set (artifacts m)"
    and "token_of env (shown (tree h (e_path e))) \<notin> Some ` ({e_original e} \<union> set_option (e_replacement e))"
    and "recover env ps h = (r, qs, h')"
  shows "r \<noteq> Done () \<and> h' = h"
proof -
  have "triple (\<lambda>g. g = h) (recover env) (\<lambda>_ _. False) (\<lambda>g. g = h)"
    by (rule refused_recover [OF assms(1-3) _ assms(5)]) (use assms(4,6) in \<open>auto simp: rolling_def known_def\<close>)
  from tripleD [OF this refl assms(7)] show ?thesis by (cases r) simp_all
qed

theorem foreign_change_refused_witness:
  "let h = example_host\<lparr>tree := (\<lambda>_. quiet_slot Absent)\<rparr> in
     fst (recover example_env [] h) \<noteq> Done () \<and> snd (snd (recover example_env [] h)) = h"
proof -
  let ?h = "example_host\<lparr>tree := (\<lambda>_. quiet_slot Absent)\<rparr>"
  obtain r qs h' where r: "recover example_env [] ?h = (r, qs, h')" by (cases "recover example_env [] ?h") auto
  have "ABSENT_GENERATION example_env \<noteq> example_token ''old''" "ABSENT_GENERATION example_env \<noteq> example_token ''replacement!''"
    by code_simp+
  then have "token_of example_env Absent \<notin> Some ` ({e_original example_entry} \<union> set_option (e_replacement example_entry))"
    by (auto simp: token_of_def ABSENT_GENERATION_def)
  from foreign_change_refused [of ?h example_env example_manifest example_entry, OF _ _ _ _ _ _ r] this r show ?thesis
    by (simp add: example_read) (simp add: example_host_def example_read)
qed

end
