(* ===== verification/Spec2Isabelle.thy ===== *)
theory Spec2Isabelle
  imports Cycle UserCompat RevocationQueue RotationRecovery StaticAccess Display OnlineSnapshot
    DeviceAdmission AuthBackend ReloadProtocol TuicConfig UsageLedger TrafficLimiter QuotaPaths Passwords Sessions LoginThrottle
    PanelAccess Rotation Alerts SideEffects RevocationWorker DeployGuarantees
begin

text \<open>
  Verification of the control plane of hy2: who may connect, how long, with how many devices and how
  much traffic, and what happens when a credential is changed or withdrawn. File names are relative
  to \<^verbatim>\<open>src/\<close>.

  \<^bold>\<open>The program.\<close> Three proxies serve the same users. Hysteria asks an authentication
  backend on every connection (\<^verbatim>\<open>hysteria/auth_backend.py\<close>); Xray and TUIC read generated
  configuration files (\<^verbatim>\<open>xray_config.py\<close>, \<^verbatim>\<open>tuic_config.py\<close>) and have to be reloaded, or
  stopped (\<^verbatim>\<open>static_access.py\<close>) when that fails. A timer job (\<^verbatim>\<open>traffic_limiter.py\<close>) collects
  traffic, keeps the usage ledgers, and writes the plan of who may use the generated
  configurations. The panel (\<^verbatim>\<open>subscription_service.py\<close>) has the accounts, logins, sessions and
  token rotations; it writes the same plan from the same files. A withdrawn credential goes through
  a durable queue (\<^verbatim>\<open>revocation_queue.py\<close>) that a worker thread empties; a rotated token can be
  fetched again for five minutes from a receipt (\<^verbatim>\<open>rotation_recovery.py\<close>). They share JSON files
  under advisory locks (\<^verbatim>\<open>state_store.py\<close>) and talk by those files only.

  \<^bold>\<open>Foundations.\<close> \<^verbatim>\<open>Prelude\<close>: exceptions, results (\<open>exc + 'a\<close>), Python dictionaries as association lists
  in insertion order, the collections \<open>dict_simps\<close>, \<open>res_simps\<close>, \<open>py_eval\<close>. \<^verbatim>\<open>PyText\<close>: the string
  functions used, decimal numerals. \<^verbatim>\<open>PyFloat\<close>: IEEE doubles and \<^verbatim>\<open>decimal\<close> as rationals with explicit
  rounding. \<^verbatim>\<open>Json\<close>, \<^verbatim>\<open>JsonText\<close>: parse trees, values, their text. \<^verbatim>\<open>Calendar\<close>: \<^verbatim>\<open>datetime\<close>.

  \<^bold>\<open>State files.\<close> \<^verbatim>\<open>StateStore\<close> models \<^verbatim>\<open>state_store.py\<close>: a cell is what a reader sees and what a power
  loss may bring back; each system call can fail. The locale \<open>durable_store\<close> is the contract of a load
  and a save, \<open>stored_ops\<close> the contract of a store whose operations are transactions; its lemmas
  (\<open>history_safe\<close>, \<open>op_success\<close>, \<open>op_outcome\<close>) are what invariants over histories with failures and power
  losses rest on. It is interpreted on the revocation queue, the receipts, the device ledger, the
  sessions and the alert state. \<open>poll_lock\<close> has fuel: \<open>file_lock_bounded\<close> shows that
  \<open>timeout / poll + 2\<close> is enough.

  \<^bold>\<open>Components.\<close>
  \<^item> \<^verbatim>\<open>Cycle\<close> (\<^verbatim>\<open>cycle.py\<close>, \<^verbatim>\<open>timeutil.py\<close>): billing cycles. \<^verbatim>\<open>UserCompat\<close> (\<^verbatim>\<open>user_compat.py\<close>): fields of a user.
    \<^verbatim>\<open>Display\<close> (\<^verbatim>\<open>display.py\<close>): the billing multiplier. \<^verbatim>\<open>OnlineSnapshot\<close> (\<^verbatim>\<open>online_snapshot.py\<close>).
  \<^item> \<^verbatim>\<open>Credentials\<close>, \<^verbatim>\<open>DeviceAdmission\<close>, \<^verbatim>\<open>AuthBackend\<close> (\<^verbatim>\<open>auth_backend.py\<close>): password verification and policy; the
    ledger that turns a device limit into reservations; \<open>authenticate\<close>, from the request to the
    answer. Shown: what an accepted request proves, that quota and device limit bind, that
    readiness implies service.
  \<^item> \<^verbatim>\<open>ReloadMarker\<close>, \<^verbatim>\<open>ReloadProtocol\<close>, \<^verbatim>\<open>XrayConfig\<close>, \<^verbatim>\<open>TuicConfig\<close>, \<^verbatim>\<open>StaticAccess\<close>: the token written before a
    configuration file, the worker that reloads and acknowledges, their interleaving with other
    processes as a step relation, the reconciliation of both configurations with a plan, the
    fail-closed stop. Shown: intent is durable before content, a reload is not lost unless somebody
    schedules in the middle of a write (and then it can be), the plan is applied exactly.
  \<^item> \<^verbatim>\<open>UsageLedger\<close>, \<^verbatim>\<open>TrafficLimiter\<close>, \<^verbatim>\<open>QuotaPaths\<close> (\<^verbatim>\<open>traffic_limiter.py\<close>): validation and accumulation of usage,
    the static plan, its commit, and the tick with both of its handlers. Shown: usage is conserved, the
    plan is exact, a commit leaves each proxy on the plan or stopped, a failing tick stops both, and
    when the decimal quota test of a connection agrees with the floating-point test of the plan.
  \<^item> \<^verbatim>\<open>RevocationQueue\<close>, \<^verbatim>\<open>RotationRecovery\<close>: the two credential stores, with their abstract step relations or
    invariants and histories.
  \<^item> \<^verbatim>\<open>Passwords\<close>, \<^verbatim>\<open>Sessions\<close>, \<^verbatim>\<open>LoginThrottle\<close>, \<^verbatim>\<open>PanelAccess\<close>, \<^verbatim>\<open>Rotation\<close>, \<^verbatim>\<open>SideEffects\<close>, \<^verbatim>\<open>RevocationWorker\<close>
    (\<^verbatim>\<open>subscription_service.py\<close>): password hashes, session files, the login and its throttle with interleaved
    attempts, the plan of the panel and its agreement with the plan of the tick, the self-service
    rotation as a write-ahead protocol over receipt, revocation task and user file, and the worker
    that completes revocations and deletions.
  \<^item> \<^verbatim>\<open>Alerts\<close> (\<^verbatim>\<open>alerts.py\<close>): who sends an alert, once, under claims with a time to live.
  \<^item> \<^verbatim>\<open>DeployJournal\<close>, \<^verbatim>\<open>DeployRecovery\<close>, \<^verbatim>\<open>DeployLogic\<close>, \<^verbatim>\<open>DeployInvariant\<close>, \<^verbatim>\<open>DeploySafety\<close>, \<^verbatim>\<open>DeploySnapshot\<close>,
    \<^verbatim>\<open>DeployGuarantees\<close> (\<^verbatim>\<open>scripts/hy2-deploy-recovery.py\<close>): the write-ahead journal under which a deployment replaces
    the files of the program. A command is an action on a host whose system calls may fail, whose process may be killed
    between any two of them and whose power may go; a directory entry is what is shown together with what a power loss may
    leave. Triples over actions give one rule per construct and one lemma per command; the invariant \<open>consistent\<close> says that
    whatever manifest may be found can be acted upon. Shown: what a snapshot establishes, that the journal is always valid,
    that a deployment is all or nothing, that completion is exact, and that a foreign change is refused. A command starts
    with nothing unsettled that the journal names (\<open>at_rest\<close>): two defects of the script, listed as findings, are what this
    leaves out. Candidate files are staged by the caller, never over a journaled one. Directories other than
    the managed log directory do not change. A manifest has the keys the script writes and no others. Concurrent changes that the script
    detects by comparing \<^verbatim>\<open>stat\<close> results, temporary files, the test mode, the status command and the argument parser are
    not modelled.

  \<^bold>\<open>Conventions.\<close> Code outside the repository is an argument: SHA-256 (\<open>hex\<close>), PBKDF2, systemctl, the Hysteria
  API, the native configuration tests, \<^verbatim>\<open>datetime.fromisoformat\<close>, fresh random identifiers and the clock. What a
  theorem needs of them is a named hypothesis of documented behaviour (64 ASCII characters of a
  digest, an accepted configuration test). System calls are faults of the state: a theorem that
  quantifies over the faults holds for every combination of them. Strings are Latin-1, so
  that one character is one byte; Python's strings beyond that are not modelled.

  \<^bold>\<open>Bounds.\<close> Integers are unbounded, as in Python. Where a counter becomes a float the hypotheses say that it stays
  below \<open>2 ^ 1024\<close>; integers of more than 4300 digits, which Python refuses to convert, are values of
  the model and raise there too. Loops are structural or, for locks, have fuel proved sufficient.

  \<^bold>\<open>Not modelled.\<close> HTTP parsing and dispatch of the panel and of \<^verbatim>\<open>auth_service.py\<close>, HTML, SVG, CSV and YAML
  rendering (\<^verbatim>\<open>charts.py\<close>, \<^verbatim>\<open>usage_dashboard.py\<close>, \<^verbatim>\<open>codex_dashboard.py\<close>, \<^verbatim>\<open>health_widgets.py\<close>,
  \<^verbatim>\<open>incident_console.py\<close>, \<^verbatim>\<open>subscription_profiles.py\<close>), because they decide nothing about access and are
  text; read-only probes and collectors (\<^verbatim>\<open>health.py\<close>, \<^verbatim>\<open>codex_quota.py\<close>, \<^verbatim>\<open>tuic_meter.py\<close>,
  \<^verbatim>\<open>cost_calibrator.py\<close>, \<^verbatim>\<open>anomaly.py\<close>); the administrator's account forms and the template editor, whose
  durable effects are the operations modelled here but whose fields are not; the remaining
  installation scripts. The auxiliary features that a tick runs after its commit are represented by
  the fact that they run after it, not by their content. Log lines and messages are dropped throughout.
\<close>

end
